(* ===== verification/Virtio_Prelude.thy ===== *)
theory Virtio_Prelude
  imports Main "HOL-Library.Word" "HOL-Library.Monad_Syntax"
begin

unbundle bit_operations_syntax

text \<open>
  Shared vocabulary of the development: the machine integer types of the driver sources, the
  IOKit result codes they return, checked array accesses, and generic lemmas about words and lists.

  Conventions. An operation of the driver is a function returning \<open>'a option\<close>. The
  value \<^term>\<open>None\<close> means that the C++ code has no defined result: it accesses an array
  outside its bounds or dereferences a null pointer, or one of its loops does not end. A theorem that
  an operation yields \<^term>\<open>Some\<close> therefore shows memory safety and termination at once.
  Fixed-width integers are words, so their arithmetic wraps around as in C++.
\<close>

section \<open>Integer types\<close>

type_synonym u8 = "8 word"
type_synonym u16 = "16 word"
type_synonym u32 = "32 word"
type_synonym u64 = "64 word"

text \<open>
  An \<^verbatim>\<open>int16_t\<close> is held as its 16-bit pattern; the only thing the driver ever asks of it,
  besides using it as an array index, is whether it is negative.
\<close>

type_synonym i16 = "16 word"

definition i16_neg :: "i16 \<Rightarrow> bool" where
  "i16_neg d \<longleftrightarrow> sint d < 0"

definition UINT16_MAX :: u16 where
  "UINT16_MAX = 0xFFFF"

text \<open>A C++ bit test \<^verbatim>\<open>(var & bits) != 0\<close>.\<close>

definition has_bits :: "'a::len word \<Rightarrow> 'a word \<Rightarrow> bool" where
  "has_bits var bits \<longleftrightarrow> var AND bits \<noteq> 0"

section \<open>IOKit result codes\<close>

text \<open>The codes the sources mention by name; \<open>kIOReturnOther\<close> stands for any other code a
  kernel service hands back.\<close>

datatype IOReturn =
    kIOReturnSuccess | kIOReturnError | kIOReturnNoMemory | kIOReturnBadArgument
  | kIOReturnDeviceError | kIOReturnInternalError | kIOReturnUnsupported | kIOReturnBusy
  | kIOReturnNoSpace | kIOReturnAborted | kIOReturnIOError | kIOReturnNotReady
  | kIOReturnInvalid | kIOReturnOutputStall | kIOReturnOutputDropped | kIOReturnOther u32

section \<open>Checked array access\<close>

definition array_read :: "'a list \<Rightarrow> nat \<Rightarrow> 'a option" where
  "array_read xs i = (if i < length xs then Some (xs ! i) else None)"

definition array_modify :: "'a list \<Rightarrow> nat \<Rightarrow> ('a \<Rightarrow> 'a) \<Rightarrow> 'a list option" where
  "array_modify xs i f = (if i < length xs then Some (xs[i := f (xs ! i)]) else None)"

section \<open>Iterating a partial state transformer\<close>

fun foldM :: "('a \<Rightarrow> 's \<Rightarrow> 's option) \<Rightarrow> 'a list \<Rightarrow> 's \<Rightarrow> 's option" where
  "foldM f [] s = Some s"
| "foldM f (x # xs) s = do { s' \<leftarrow> f x s; foldM f xs s' }"

lemma foldM_append: "foldM f (xs @ ys) s = do { s' \<leftarrow> foldM f xs s; foldM f ys s' }"
  by (induction xs arbitrary: s) (auto split: Option.bind_splits)

text \<open>An invariant indexed by the elements already consumed.\<close>

lemma foldM_invariant:
  assumes "P [] s"
    and "\<And>ys y s. P ys s \<Longrightarrow> y \<in> set xs \<Longrightarrow> \<exists>s'. f y s = Some s' \<and> P (ys @ [y]) s'"
  shows "\<exists>s'. foldM f xs s = Some s' \<and> P xs s'"
proof -
  have "P ys s \<Longrightarrow> set zs \<subseteq> set xs \<Longrightarrow> \<exists>s'. foldM f zs s = Some s' \<and> P (ys @ zs) s'" for ys zs s
  proof (induction zs arbitrary: ys s)
    case (Cons z zs)
    then obtain s1 where "f z s = Some s1" "P (ys @ [z]) s1" using assms(2) by force
    with Cons.IH [of "ys @ [z]" s1] Cons.prems show ?case by auto
  qed simp
  from this [of "[]" s xs] assms(1) show ?thesis by simp
qed

section \<open>Collections of facts\<close>

named_theorems driver_simps "rewriting facts about the operations of the drivers"
named_theorems chain_intros "introduction rules for descriptor chains"

lemma array_read_Some [simp, driver_simps]: "i < length xs \<Longrightarrow> array_read xs i = Some (xs ! i)"
  by (simp add: array_read_def)

lemma array_read_eq_Some [simp]: "array_read xs i = Some x \<longleftrightarrow> i < length xs \<and> xs ! i = x"
  by (auto simp: array_read_def)

lemma array_modify_Some [simp, driver_simps]:
  "i < length xs \<Longrightarrow> array_modify xs i f = Some (xs[i := f (xs ! i)])"
  by (simp add: array_modify_def)

lemma array_modify_eq_Some [simp]:
  "array_modify xs i f = Some ys \<longleftrightarrow> i < length xs \<and> ys = xs[i := f (xs ! i)]"
  by (auto simp: array_modify_def)

lemma foldM_array_modify:
  "foldM (\<lambda>i xs. array_modify xs i (f i)) [0..<length xs] xs = Some (map (\<lambda>i. f i (xs ! i)) [0..<length xs])"
proof -
  have "foldM (\<lambda>i xs. array_modify xs i (f i)) [0..<m] xs = Some (map (\<lambda>i. f i (xs ! i)) [0..<m] @ drop m xs)"
    if "m \<le> length xs" for m
    using that
  proof (induction m)
    case (Suc m)
    then have "drop m xs = xs ! m # drop (Suc m) xs" by (simp add: Cons_nth_drop_Suc)
    with Suc show ?case by (simp add: foldM_append nth_append list_update_append)
  qed simp
  from this [of "length xs"] show ?thesis by simp
qed

section \<open>Words\<close>

lemma i16_neg_iff: "i16_neg d \<longleftrightarrow> 32768 \<le> unat d"
proof -
  have "i16_neg d \<longleftrightarrow> bit d 15"
    using bit_last_iff [of d] by (simp add: i16_neg_def)
  also have "\<dots> \<longleftrightarrow> bit (unat d) 15"
    by (simp add: bit_unsigned_iff)
  also have "\<dots> \<longleftrightarrow> odd (unat d div 32768)"
    by (simp add: bit_iff_odd)
  also have "\<dots> \<longleftrightarrow> 32768 \<le> unat d"
  proof
    assume "odd (unat d div 32768)"
    then show "32768 \<le> unat d" by (cases "unat d < 32768") auto
  next
    assume "32768 \<le> unat d"
    moreover have "unat d < 65536" using unsigned_less [of d, where ?'a = nat] by simp
    ultimately have "unat d div 32768 = 1" by (simp add: div_nat_eqI)
    then show "odd (unat d div 32768)" by simp
  qed
  finally show ?thesis .
qed

lemma i16_nonneg_iff: "\<not> i16_neg d \<longleftrightarrow> unat d < 32768"
  by (auto simp: i16_neg_iff)

lemma i16_neg_minus_one [simp]: "i16_neg (- 1)" "i16_neg 65535"
  by (simp_all add: i16_neg_def)

lemma unat_u16_less: "unat (d :: u16) < 65536"
  using unsigned_less [of d, where ?'a = nat] by simp

lemma unat_of_nat_u16 [simp]: "i < 65536 \<Longrightarrow> unat (of_nat i :: u16) = i"
  by (simp add: unat_of_nat)

lemma eq_of_nat_unat: "unat w = n \<Longrightarrow> w = of_nat n" for w :: "'a::len word"
  by (metis of_nat_unat ucast_id)

lemma of_nat_u16_neq_max: "i < 65535 \<Longrightarrow> (of_nat i :: u16) \<noteq> UINT16_MAX"
proof
  assume i: "i < 65535" and eq: "(of_nat i :: u16) = UINT16_MAX"
  have "unat (of_nat i :: u16) = unat UINT16_MAX" by (simp only: eq)
  with i show False by (simp add: UINT16_MAX_def)
qed

lemma of_nat_neq_minus_one: "i < 2 ^ LENGTH('d) - 1 \<Longrightarrow> (of_nat i :: 'd::len word) \<noteq> - 1"
proof
  assume i: "i < 2 ^ LENGTH('d) - 1" and eq: "(of_nat i :: 'd word) = - 1"
  have "unat (of_nat i :: 'd word) = i" using i by (intro of_nat_inverse) auto
  moreover have "unat (- 1 :: 'd word) = 2 ^ LENGTH('d) - 1" by (simp add: unsigned_minus_1_eq_mask mask_eq_exp_minus_1)
  ultimately show False using i eq by simp
qed

lemma unat_ucast_u16 [simp]: "unat (ucast (w :: u16) :: u32) = unat w"
proof -
  have "unat w < 2 ^ 32" using unat_u16_less [of w] by simp
  then show ?thesis by (simp add: unsigned_ucast_eq take_bit_nat_eq_self)
qed

lemma unat_minus_of_nat: "m \<le> unat n \<Longrightarrow> unat (n - of_nat m) = unat n - m" for n :: "'a::len word"
proof -
  assume m: "m \<le> unat n"
  then have "m < 2 ^ LENGTH('a)" using unsigned_less [of n, where ?'a = nat] by (rule order.strict_trans1)
  then have "unat (of_nat m :: 'a word) = m" by (simp add: unat_of_nat take_bit_nat_eq_self)
  with m show ?thesis by (simp add: unat_sub word_le_nat_alt)
qed

text \<open>The usual bit trick for powers of two.\<close>

lemma and_pred_eq_0_iff: "n AND (n - 1) = 0 \<longleftrightarrow> n = 0 \<or> (\<exists>k. n = 2 ^ k)" for n :: nat
proof (induction n rule: less_induct)
  case (less n)
  show ?case
  proof (cases "even n")
    case True
    then obtain m where n: "n = 2 * m" by (auto elim: evenE)
    show ?thesis
    proof (cases "m = 0")
      case False
      then have pred: "n - 1 = 1 + 2 * (m - 1)" and less_m: "m < n" by (auto simp: n)
      have "n AND (n - 1) = 2 * (m AND (m - 1))"
        unfolding pred by (subst and_rec) (simp add: n)
      moreover have "(\<exists>k. m = 2 ^ k) \<longleftrightarrow> (\<exists>k. n = 2 ^ k)"
      proof
        assume "\<exists>k. n = 2 ^ k"
        then obtain k where "n = 2 ^ k" ..
        with n False less_m show "\<exists>k. m = 2 ^ k" by (cases k) auto
      qed (auto simp: n intro: exI [where x = "Suc _"])
      ultimately show ?thesis using less.IH [OF less_m] False n by simp
    qed (simp add: n)
  next
    case False
    then obtain m where n: "n = 1 + 2 * m" by (auto elim: oddE)
    then have "n AND (n - 1) = 2 * m"
      by (subst and_rec) simp
    moreover have "(\<exists>k. n = 2 ^ k) \<longleftrightarrow> m = 0"
    proof
      assume "\<exists>k. n = 2 ^ k"
      then obtain k where "n = 2 ^ k" ..
      with n have "2 ^ k = 1 + 2 * m" by simp
      then show "m = 0" by (cases k) (simp_all, presburger)
    qed (auto simp: n intro: exI [where x = 0])
    ultimately show ?thesis by (simp add: n)
  qed
qed

section \<open>Lists\<close>

lemma distinct_swap_front: "distinct (xs @ ys @ zs) \<longleftrightarrow> distinct (ys @ xs @ zs)"
  by auto

lemma nth_list_update_mem: "i \<notin> set is \<Longrightarrow> j \<in> set is \<Longrightarrow> xs[i := x] ! j = xs ! j"
  by (metis nth_list_update_neq)

end
