(* ===== verification/Vring_Layout.thy ===== *)
theory Vring_Layout
  imports Virtio_Prelude
begin

text \<open>
  Size and layout of the memory block shared with the device for one virtqueue:
  \<^verbatim>\<open>is_pow2\<close>, \<^verbatim>\<open>virtio_page_align\<close>, \<^verbatim>\<open>vring_mem_size\<close> and the pointer
  arithmetic of \<^verbatim>\<open>setupVirtqueue\<close> in VirtioLegacyPCIDevice.cpp, and the helpers of virtio_ring.h.
  The theorems determine for which queue sizes the layout fits the allocation.
\<close>

section \<open>Definitions\<close>

definition is_pow2 :: "u16 \<Rightarrow> bool" where
  "is_pow2 num \<longleftrightarrow> num AND (num - 1) = 0"

definition VIRTIO_PAGE_SIZE :: u64 where
  "VIRTIO_PAGE_SIZE = 4096"

text \<open>\<^verbatim>\<open>VIRTIO_PAGE_SIZE\<close> is a \<^verbatim>\<open>size_t\<close>, so the expression is computed in 64 bits and cut
  to the 32 bits of the result.\<close>

definition virtio_page_align :: "u32 \<Rightarrow> u32" where
  "virtio_page_align size' =
     ucast ((ucast size' + VIRTIO_PAGE_SIZE - 1) AND NOT (VIRTIO_PAGE_SIZE - 1))"

text \<open>The sizes of the shared structures: 16 bytes per descriptor, 4 bytes for the flags and the
  head index of either ring, 2 bytes per entry of the available ring, 8 per entry of the used ring.\<close>

definition sizeof_VirtioVringDesc :: u64 where "sizeof_VirtioVringDesc = 16"
definition sizeof_VirtioVringUsedElement :: u64 where "sizeof_VirtioVringUsedElement = 8"

definition vring_mem_size :: "u32 \<Rightarrow> u32" where
  "vring_mem_size qsz =
     virtio_page_align (ucast (sizeof_VirtioVringDesc * ucast qsz + 2 * ucast (2 + qsz)))
     + virtio_page_align (ucast (sizeof_VirtioVringUsedElement * ucast qsz))"

text \<open>Offsets of the structures in the queue memory, and the running total \<^verbatim>\<open>spaceUsed\<close>.\<close>

record vring_layout =
  descriptor_table_off :: u32
  available_ring_off :: u32
  used_ring_off :: u32
  used_ring_interrupt_index_off :: "u32 option"
  spaceUsed :: u32

definition setup_vring_layout :: "u16 \<Rightarrow> bool \<Rightarrow> vring_layout" where
  "setup_vring_layout num_queue_entries eventIndexFeatureEnabled =
     (let n = ucast num_queue_entries;
          used0 = 0;
          desc_off = used0;
          used1 = used0 + 16 * n;
          avail_off = used1;
          used2 = used1 + (4 + 2 * n);
          used3 = (if eventIndexFeatureEnabled then used2 + 2 else used2);
          used4 = virtio_page_align used3;
          used_off = used4;
          used5 = used4 + (4 + 8 * n)
      in \<lparr> descriptor_table_off = desc_off, available_ring_off = avail_off, used_ring_off = used_off,
           used_ring_interrupt_index_off = (if eventIndexFeatureEnabled then Some used5 else None),
           spaceUsed = (if eventIndexFeatureEnabled then used5 + 2 else used5) \<rparr>)"

text \<open>virtio_ring.h: the size of the block for a given alignment, and the event test.\<close>

definition vring_size :: "u32 \<Rightarrow> u64 \<Rightarrow> u32" where
  "vring_size num align =
     ucast (((16 * ucast num + 2 * ucast (2 + num) + align - 1) AND NOT (align - 1))
            + 2 * 3 + 8 * ucast num)"

definition vring_need_event :: "u16 \<Rightarrow> u16 \<Rightarrow> u16 \<Rightarrow> bool" where
  "vring_need_event event_idx new_idx old \<longleftrightarrow> new_idx - event_idx - 1 < new_idx - old"

section \<open>Powers of two\<close>

lemma unat_and: "unat (a AND b) = unat a AND unat b" for a b :: "'a::len word"
  by (simp add: unsigned_and_eq)

lemma is_pow2_iff: "is_pow2 n \<longleftrightarrow> n = 0 \<or> (\<exists>k. unat n = 2 ^ k)"
proof (cases "n = 0")
  case False
  then have "unat (n - 1) = unat n - 1"
    by (simp add: unat_minus_one)
  then have "is_pow2 n \<longleftrightarrow> unat n AND (unat n - 1) = 0"
    using unat_eq_0 [of "n AND (n - 1)"] by (simp add: is_pow2_def unat_and)
  with False and_pred_eq_0_iff [of "unat n"] show ?thesis by (simp add: unat_eq_0)
qed (simp add: is_pow2_def)

lemma pow2_u16_cases:
  assumes "is_pow2 n" "n \<noteq> 0"
  obtains k where "k < 16" "unat n = 2 ^ k"
proof -
  from assms obtain k where k: "unat n = 2 ^ k" by (auto simp: is_pow2_iff)
  have "(2::nat) ^ k < 2 ^ 16" using unat_u16_less [of n] by (simp add: k)
  then have "k < 16" by (rule power_less_imp_less_exp [rotated]) simp
  with k show ?thesis by (rule that [rotated])
qed

lemma pow2_u16_enum:
  assumes "is_pow2 n" "n \<noteq> 0"
  shows "n \<in> {1, 2, 4, 8, 16, 32, 64, 128, 256, 512, 1024, 2048, 4096, 8192, 16384, 32768}"
proof -
  from assms obtain k where k: "k < 16" "unat n = 2 ^ k" by (rule pow2_u16_cases)
  then have n: "n = of_nat (2 ^ k)" by (intro eq_of_nat_unat) simp
  from k(1) have "k \<in> set [0..<16]" by simp
  then show ?thesis unfolding n by (auto simp: upt_rec)
qed

section \<open>The layout and the allocation\<close>

lemmas layout_defs = setup_vring_layout_def vring_mem_size_def virtio_page_align_def
  VIRTIO_PAGE_SIZE_def sizeof_VirtioVringDesc_def sizeof_VirtioVringUsedElement_def Let_def

text \<open>
  C21. The block that \<^verbatim>\<open>setupVirtqueue\<close> allocates holds the structures it lays out in it exactly
  for queues of at most 256 entries; from 512 entries on, the end of the used ring lies beyond the
  end of the allocation, since \<^verbatim>\<open>vring_mem_size\<close> leaves out the used ring's flags and head index.
\<close>

theorem vring_layout_fits_iff:
  assumes "is_pow2 n" "n \<noteq> 0"
  shows "spaceUsed (setup_vring_layout n False) \<le> vring_mem_size (ucast n) \<longleftrightarrow> n \<le> 256"
  using pow2_u16_enum [OF assms] by (elim insertE) (simp_all add: layout_defs)

theorem vring_layout_fits_iff_witness:
  "spaceUsed (setup_vring_layout 256 False) \<le> vring_mem_size (ucast (256 :: u16))
   \<and> \<not> spaceUsed (setup_vring_layout 512 False) \<le> vring_mem_size (ucast (512 :: u16))"
  using vring_layout_fits_iff [of 256] vring_layout_fits_iff [of 512] by (simp add: is_pow2_def)

text \<open>
  For every queue size that \<^verbatim>\<open>setupVirtqueue\<close> accepts, the descriptor table, the available ring
  and the used ring do not overlap, and the used ring starts on a page boundary.
\<close>

theorem vring_layout_disjoint:
  assumes "is_pow2 n" "n \<noteq> 0"
  shows "let l = setup_vring_layout n ev in
    unat (descriptor_table_off l) + 16 * unat n \<le> unat (available_ring_off l)
    \<and> unat (available_ring_off l) + 4 + 2 * unat n \<le> unat (used_ring_off l)
    \<and> unat (used_ring_off l) mod 4096 = 0
    \<and> unat (used_ring_off l) + 4 + 8 * unat n \<le> unat (spaceUsed l)"
  using pow2_u16_enum [OF assms] by (elim insertE; cases ev) (simp_all add: layout_defs)

theorem vring_layout_disjoint_witness:
  "let l = setup_vring_layout 128 False in
    unat (descriptor_table_off l) + 16 * unat (128 :: u16) \<le> unat (available_ring_off l)
    \<and> unat (available_ring_off l) + 4 + 2 * unat (128 :: u16) \<le> unat (used_ring_off l)
    \<and> unat (used_ring_off l) mod 4096 = 0
    \<and> unat (used_ring_off l) + 4 + 8 * unat (128 :: u16) \<le> unat (spaceUsed l)"
  by (rule vring_layout_disjoint) (simp_all add: is_pow2_def)

text \<open>
  The event test of virtio_ring.h, three wrapping 16-bit subtractions and a comparison, asks
  whether the event index lies in the half-open window from the old to the new index, for every
  position of the window relative to the wrap-around.
\<close>

theorem vring_need_event_iff:
  "vring_need_event event_idx new_idx old \<longleftrightarrow>
     unat (event_idx - old) < unat (new_idx - old)"
proof -
  define a b where "a = event_idx - old" and "b = new_idx - old"
  have "new_idx - event_idx - 1 = b - a - 1" by (simp add: a_def b_def)
  moreover have "b - a - 1 < b \<longleftrightarrow> a < b"
    by (cases "a < b") unat_arith+
  ultimately show ?thesis
    by (simp add: vring_need_event_def a_def b_def word_less_nat_alt)
qed

end
