(* ===== verification/Virtqueue.thy ===== *)
theory Virtqueue
  imports Vring_Layout
begin

text \<open>
  The virtqueue of VirtioDevice.h and the primitive operations on it in VirtioLegacyPCIDevice.cpp:
  taking descriptors from and returning them to the list of unused ones, writing descriptors and
  linking them, publishing a chain in the available ring. The list of unused descriptors and every
  chain in use are singly linked lists threaded through \<^verbatim>\<open>next_desc\<close>; \<open>desc_list\<close>
  relates such a list to the HOL list of its indices, and \<open>queue_inv\<close> says that the unused
  descriptors and the chains in use partition the descriptor table.
\<close>

section \<open>Data structures\<close>

text \<open>The completion actions that the drivers of this repository hand to a virtqueue;
  \<open>NullAction\<close> is the null function pointer of zeroed memory.\<close>

datatype VirtioCompletionAction =
    NullAction | inflateRequestCompletedAction | deflateRequestCompletedAction
  | blockRequestCompletedAction | flushRequestCompletedAction
  | eventCompletedAction | parallelTaskCompletedAction | processTaskManagementCompletedAction
  | receiveQueueCompletionAction | transmitQueueCompletionAction | debuggerTransmitCompletionAction

record VirtioCompletion =
  comp_action :: VirtioCompletionAction
  comp_target :: nat
  comp_ref :: nat

text \<open>A memory descriptor object of IOKit, of which the transport only uses identity and length.\<close>

record IOMemoryDescriptor =
  md_id :: nat
  md_length :: u64

record VirtioVringDesc =
  phys_address :: u64
  length_bytes :: u32
  desc_flags :: u16
  desc_next :: u16

record VirtioVringAvail =
  avail_flags :: u16
  avail_head_index :: u16
  avail_ring :: "u16 list"

record VirtioVringUsedElement =
  descriptor_id :: u32
  written_bytes :: u32

record VirtioVringUsed =
  used_flags :: u16
  used_head_index :: u16
  used_elems :: "VirtioVringUsedElement list"

text \<open>The buffer holding the indirect descriptors of one request: its array and its current length
  in bytes (its capacity is the size of the array).\<close>

record IndirectTable =
  ind_array :: "VirtioVringDesc list"
  ind_length :: u64

text \<open>A DMA command is represented by the memory descriptor that is set on it, if any.\<close>

record VirtioBuffer =
  dma_cmd :: "IOMemoryDescriptor option"
  completion :: VirtioCompletion
  next_desc :: i16
  dma_cmd_used :: bool
  indirect_descriptors :: "IndirectTable option"
  dma_indirect_descriptors :: "IOMemoryDescriptor option"
  dma_cmd_2 :: "IOMemoryDescriptor option"

record VirtioVirtqueue =
  num_entries :: u32
  descriptor_table :: "VirtioVringDesc list"
  available_ring :: VirtioVringAvail
  used_ring :: VirtioVringUsed
  used_ring_last_head_index :: u16
  descriptor_buffers :: "VirtioBuffer list"
  interrupts_requested :: bool
  uses_indirect_descriptors :: bool
  first_unused_descriptor_index :: i16
  num_unused_descriptors :: u32

abbreviation NEXT :: u16 where "NEXT \<equiv> 1"
abbreviation DEVICE_WRITABLE :: u16 where "DEVICE_WRITABLE \<equiv> 2"
abbreviation INDIRECT :: u16 where "INDIRECT \<equiv> 4"
abbreviation NO_INTERRUPT :: u16 where "NO_INTERRUPT \<equiv> 1"
abbreviation NO_NOTIFY :: u16 where "NO_NOTIFY \<equiv> 1"

record Segment64 =
  fIOVMAddr :: u64
  fLength :: u64

section \<open>Operations\<close>

text \<open>\<^verbatim>\<open>reserveNewDescriptor\<close>: the index taken, \<^verbatim>\<open>-1\<close> when none is left, and the new queue.\<close>

definition reserveNewDescriptor :: "VirtioVirtqueue \<Rightarrow> (i16 \<times> VirtioVirtqueue) option" where
  "reserveNewDescriptor virtqueue =
     (let descriptorIndex = first_unused_descriptor_index virtqueue in
      if i16_neg descriptorIndex then Some (-1, virtqueue)
      else do {
        buf \<leftarrow> array_read (descriptor_buffers virtqueue) (unat descriptorIndex);
        Some (descriptorIndex,
              virtqueue\<lparr>first_unused_descriptor_index := next_desc buf,
                        num_unused_descriptors := num_unused_descriptors virtqueue - 1\<rparr>)
      })"

definition returnUnusedDescriptor :: "VirtioVirtqueue \<Rightarrow> u16 \<Rightarrow> VirtioVirtqueue option" where
  "returnUnusedDescriptor virtqueue descriptorIndex = do {
     bufs \<leftarrow> array_modify (descriptor_buffers virtqueue) (unat descriptorIndex)
              (\<lambda>b. b\<lparr>next_desc := first_unused_descriptor_index virtqueue\<rparr>);
     Some (virtqueue\<lparr>num_unused_descriptors := num_unused_descriptors virtqueue + 1,
                     descriptor_buffers := bufs,
                     first_unused_descriptor_index := descriptorIndex\<rparr>)
   }"

text \<open>\<^verbatim>\<open>virtio_virtqueue_add_descriptor_to_ring\<close>. The device sees the ring entry before the new
  head index; the two memory barriers around the index update have no effect on the driver's own
  view of memory.\<close>

definition virtio_virtqueue_add_descriptor_to_ring ::
    "VirtioVirtqueue \<Rightarrow> u16 \<Rightarrow> VirtioVirtqueue option" where
  "virtio_virtqueue_add_descriptor_to_ring queue first_descriptor_index =
     (if num_entries queue = 0 then None else do {
        let avail_pos = avail_head_index (available_ring queue);
        ring \<leftarrow> array_modify (avail_ring (available_ring queue))
                 (unat (ucast avail_pos mod num_entries queue)) (\<lambda>_. first_descriptor_index);
        Some (queue\<lparr>available_ring :=
                (available_ring queue)\<lparr>avail_ring := ring, avail_head_index := avail_pos + 1\<rparr>\<rparr>)
      })"

text \<open>\<^verbatim>\<open>fill_vring_descriptor\<close> on a descriptor array: \<open>i\<close> is the position of the descriptor,
  \<open>prev\<close> that of the previous one, if any; \<open>descriptorIndex\<close> is the number written into
  the previous descriptor's \<^verbatim>\<open>next\<close> field.\<close>

definition fill_vring_descriptor ::
    "VirtioVringDesc list \<Rightarrow> nat \<Rightarrow> i16 \<Rightarrow> nat option \<Rightarrow> Segment64 \<Rightarrow> bool
     \<Rightarrow> VirtioVringDesc list option" where
  "fill_vring_descriptor descs i descriptorIndex prev segment device_writable = do {
     descs1 \<leftarrow> array_modify descs i
       (\<lambda>d. d\<lparr>phys_address := fIOVMAddr segment,
              length_bytes := ucast (fLength segment),
              desc_flags := (if device_writable then DEVICE_WRITABLE else 0)\<rparr>);
     descs2 \<leftarrow> (case prev of
         None \<Rightarrow> Some descs1
       | Some p \<Rightarrow> array_modify descs1 p
           (\<lambda>d. d\<lparr>desc_next := descriptorIndex, desc_flags := desc_flags d OR NEXT\<rparr>));
     array_modify descs2 i (\<lambda>d. d\<lparr>desc_next := 0xffff\<rparr>)
   }"

text \<open>The state that the DMA callback \<^verbatim>\<open>outputVringDescSegment\<close> works on, besides the queue.\<close>

record virtio_legacy_pci_vring_desc_chain =
  reserved_descriptor_index :: u16
  current_last_descriptor_index :: u16
  chain_device_writable :: bool

definition outputVringDescSegment ::
    "Segment64 \<Rightarrow> VirtioVirtqueue \<times> virtio_legacy_pci_vring_desc_chain
     \<Rightarrow> (VirtioVirtqueue \<times> virtio_legacy_pci_vring_desc_chain) option" where
  "outputVringDescSegment segment = (\<lambda>(queue, chain). do {
     (descriptorIndex, queue, chain) \<leftarrow>
       (if reserved_descriptor_index chain \<noteq> UINT16_MAX
        then Some (reserved_descriptor_index chain, queue,
                   chain\<lparr>reserved_descriptor_index := UINT16_MAX\<rparr>)
        else do { (d, q) \<leftarrow> reserveNewDescriptor queue; Some (d, q, chain) });
     let previousDescriptorIndex = current_last_descriptor_index chain;
     if i16_neg descriptorIndex then None else do {
       bufs \<leftarrow> (if previousDescriptorIndex \<noteq> UINT16_MAX
                then array_modify (descriptor_buffers queue) (unat previousDescriptorIndex)
                       (\<lambda>b. b\<lparr>next_desc := descriptorIndex\<rparr>)
                else Some (descriptor_buffers queue));
       table \<leftarrow> fill_vring_descriptor (descriptor_table queue) (unat descriptorIndex) descriptorIndex
                  (if previousDescriptorIndex = UINT16_MAX then None
                   else Some (unat previousDescriptorIndex))
                  segment (chain_device_writable chain);
       bufs \<leftarrow> array_modify bufs (unat descriptorIndex) (\<lambda>b. b\<lparr>next_desc := -1\<rparr>);
       Some (queue\<lparr>descriptor_buffers := bufs, descriptor_table := table\<rparr>,
             chain\<lparr>current_last_descriptor_index := descriptorIndex\<rparr>)
     }
   })"

text \<open>\<^verbatim>\<open>outputIndirectVringDescSegment\<close>: the next entry of an indirect table.\<close>

record virtio_output_indirect_segment_state =
  desc_array :: "VirtioVringDesc list"
  next_descriptor_index :: u16
  seg_writable :: bool

definition outputIndirectVringDescSegment ::
    "Segment64 \<Rightarrow> virtio_output_indirect_segment_state
     \<Rightarrow> virtio_output_indirect_segment_state option" where
  "outputIndirectVringDescSegment segment state = do {
     let index = next_descriptor_index state;
     descs \<leftarrow> fill_vring_descriptor (desc_array state) (unat index) index
                (if index = 0 then None else Some (unat index - 1)) segment (seg_writable state);
     Some (state\<lparr>desc_array := descs, next_descriptor_index := index + 1\<rparr>)
   }"

definition outputVringDescSegmentForIndirectTable ::
    "Segment64 \<Rightarrow> VirtioVirtqueue \<times> i16 \<Rightarrow> (VirtioVirtqueue \<times> i16) option" where
  "outputVringDescSegmentForIndirectTable segment = (\<lambda>(queue, main_descriptor_index).
     if i16_neg main_descriptor_index then None else do {
       table \<leftarrow> fill_vring_descriptor (descriptor_table queue) (unat main_descriptor_index)
                  main_descriptor_index None segment False;
       table \<leftarrow> array_modify table (unat main_descriptor_index) (\<lambda>d. d\<lparr>desc_flags := INDIRECT\<rparr>);
       Some (queue\<lparr>descriptor_table := table\<rparr>, main_descriptor_index)
     })"

text \<open>
  The loops that give a chain back to the list of unused descriptors (after a failed submission and
  on completion). They differ in what they do to each buffer first, here the argument \<open>g\<close>.
  The next index is read before the buffer is put on the list.
\<close>

definition retire ::
    "(VirtioBuffer \<Rightarrow> VirtioBuffer) \<Rightarrow> VirtioVirtqueue \<Rightarrow> u16 \<Rightarrow> VirtioVirtqueue option" where
  "retire g queue descriptorIndex = do {
     bufs \<leftarrow> array_modify (descriptor_buffers queue) (unat descriptorIndex) g;
     returnUnusedDescriptor (queue\<lparr>descriptor_buffers := bufs\<rparr>) descriptorIndex
   }"

partial_function (option) release_chain ::
    "(VirtioBuffer \<Rightarrow> VirtioBuffer) \<Rightarrow> VirtioVirtqueue \<Rightarrow> i16 \<Rightarrow> VirtioVirtqueue option" where
  "release_chain g queue descriptorIndex =
     (if i16_neg descriptorIndex then Some queue
      else do {
        buf \<leftarrow> array_read (descriptor_buffers queue) (unat descriptorIndex);
        queue' \<leftarrow> retire g queue descriptorIndex;
        release_chain g queue' (next_desc buf)
      })"

declare release_chain.simps [code]

text \<open>What the loops after a failed submission do to a buffer whose DMA command is in use.\<close>

definition clear_dma :: "VirtioBuffer \<Rightarrow> VirtioBuffer" where
  "clear_dma b = (if dma_cmd_used b then b\<lparr>dma_cmd := None, dma_cmd_used := False\<rparr> else b)"

text \<open>What the loop on completion does to it.\<close>

definition complete_dma :: "bool \<Rightarrow> VirtioBuffer \<Rightarrow> VirtioBuffer" where
  "complete_dma indirect b =
     (if dma_cmd_used b
      then let b = b\<lparr>dma_cmd := None, dma_cmd_used := False\<rparr>
           in if indirect then b\<lparr>dma_cmd_2 := None, dma_indirect_descriptors := None\<rparr> else b
      else b)"

section \<open>Linked lists of descriptors\<close>

fun desc_list :: "VirtioBuffer list \<Rightarrow> i16 \<Rightarrow> nat list \<Rightarrow> bool" where
  "desc_list bufs d [] \<longleftrightarrow> i16_neg d"
| "desc_list bufs d (i # is) \<longleftrightarrow>
     \<not> i16_neg d \<and> unat d = i \<and> i < length bufs \<and> desc_list bufs (next_desc (bufs ! i)) is"

lemma desc_list_less: "desc_list bufs d is \<Longrightarrow> i \<in> set is \<Longrightarrow> i < length bufs"
  by (induction bufs d "is" rule: desc_list.induct) auto

lemma desc_list_less_int16: "desc_list bufs d is \<Longrightarrow> i \<in> set is \<Longrightarrow> i < 32768"
  by (induction bufs d "is" rule: desc_list.induct) (auto simp: i16_nonneg_iff)

lemma desc_list_unique: "desc_list bufs d is \<Longrightarrow> desc_list bufs d js \<Longrightarrow> is = js"
proof (induction bufs d "is" arbitrary: js rule: desc_list.induct)
  case (1 bufs d)
  then show ?case by (cases js) auto
next
  case (2 bufs d i "is")
  then show ?case by (cases js) auto
qed

lemma desc_list_suffix:
  "desc_list bufs d (xs @ i # ys) \<Longrightarrow> desc_list bufs (of_nat i) (i # ys)"
proof (induction xs arbitrary: d)
  case Nil
  then show ?case using eq_of_nat_unat [of d i] by auto
next
  case (Cons x xs)
  then show ?case by (metis append_Cons desc_list.simps(2))
qed

text \<open>A list that ends has no repetitions: from a repeated index it could be unrolled for ever.\<close>

lemma desc_list_distinct: "desc_list bufs d is \<Longrightarrow> distinct is"
proof (induction "is" arbitrary: d)
  case (Cons i "is")
  have "i \<notin> set is"
  proof
    assume "i \<in> set is"
    then obtain xs ys where eq: "is = xs @ i # ys" by (auto simp: in_set_conv_decomp)
    with Cons.prems have "desc_list bufs (of_nat i) (i # ys)"
      by (metis append_Cons desc_list_suffix)
    moreover have "desc_list bufs (of_nat i) (i # is)"
      using Cons.prems desc_list_suffix [of bufs d "[]" i "is"] by simp
    ultimately show False using desc_list_unique eq by fastforce
  qed
  with Cons show ?case by auto
qed simp

lemma desc_list_update_outside:
  "i \<notin> set is \<Longrightarrow> desc_list (bufs[i := b]) d is = desc_list bufs d is"
  by (induction bufs d "is" rule: desc_list.induct) (auto simp: nth_list_update)

lemma desc_list_cong:
  assumes "length bufs' = length bufs" "\<And>i. i \<in> set is \<Longrightarrow> next_desc (bufs' ! i) = next_desc (bufs ! i)"
  shows "desc_list bufs' d is = desc_list bufs d is"
  using assms by (induction bufs d "is" rule: desc_list.induct) auto

text \<open>Appending a fresh descriptor to a chain, as \<^verbatim>\<open>outputVringDescSegment\<close> does.\<close>

lemma desc_list_snoc:
  assumes "desc_list bufs d is" "is \<noteq> []" "i \<notin> set is" "i < length bufs" "i < 32768"
  shows "desc_list (bufs[last is := (bufs ! last is)\<lparr>next_desc := of_nat i\<rparr>,
                         i := b\<lparr>next_desc := -1\<rparr>]) d (is @ [i])"
  using assms
proof (induction "is" arbitrary: d)
  case (Cons j js)
  show ?case
  proof (cases "js = []")
    case True
    with Cons.prems show ?thesis by (auto simp: i16_nonneg_iff)
  next
    case False
    have "j \<notin> set js" using desc_list_distinct [OF Cons.prems(1)] by simp
    with False have "j \<noteq> last js" by auto
    with Cons False show ?thesis by auto
  qed
qed simp

section \<open>The pool of unused descriptors\<close>

definition queue_wf :: "VirtioVirtqueue \<Rightarrow> bool" where
  "queue_wf q \<longleftrightarrow>
     (\<exists>k \<le> 15. unat (num_entries q) = 2 ^ k)
     \<and> length (descriptor_table q) = unat (num_entries q)
     \<and> length (descriptor_buffers q) = unat (num_entries q)
     \<and> length (avail_ring (available_ring q)) = unat (num_entries q)
     \<and> length (used_elems (used_ring q)) = unat (num_entries q)"

definition free_pool :: "VirtioVirtqueue \<Rightarrow> nat list \<Rightarrow> bool" where
  "free_pool q fs \<longleftrightarrow>
     queue_wf q \<and> desc_list (descriptor_buffers q) (first_unused_descriptor_index q) fs
     \<and> unat (num_unused_descriptors q) = length fs"

abbreviation queue_size :: "VirtioVirtqueue \<Rightarrow> nat" where
  "queue_size q \<equiv> unat (num_entries q)"

lemma queue_wf_bounds:
  assumes "queue_wf q"
  shows "0 < queue_size q" "queue_size q \<le> 32768"
proof -
  from assms obtain k where "k \<le> 15" "queue_size q = 2 ^ k" by (auto simp: queue_wf_def)
  moreover have "(2::nat) ^ k \<le> 2 ^ 15" using \<open>k \<le> 15\<close> by (intro power_increasing) auto
  ultimately show "0 < queue_size q" "queue_size q \<le> 32768" by auto
qed

text \<open>
  The contract of a pool of numbered descriptors: which descriptors are free, in which order they
  are handed out, and that giving one back makes it the next to be handed out.
\<close>

locale descriptor_pool =
  fixes pool :: "'q \<Rightarrow> nat list \<Rightarrow> bool"
    and capacity :: "'q \<Rightarrow> nat"
    and reserve :: "'q \<Rightarrow> ('d::len word \<times> 'q) option"
    and give_back :: "'q \<Rightarrow> u16 \<Rightarrow> 'q option"
  assumes reserve_empty: "pool q [] \<Longrightarrow> reserve q = Some (-1, q)"
    and reserve_first: "pool q (i # fs) \<Longrightarrow>
      \<exists>q'. reserve q = Some (of_nat i, q') \<and> pool q' fs \<and> capacity q' = capacity q"
    and give_back_first: "pool q fs \<Longrightarrow> i < capacity q \<Longrightarrow> i \<notin> set fs \<Longrightarrow>
      \<exists>q'. give_back q (of_nat i) = Some q' \<and> pool q' (i # fs) \<and> capacity q' = capacity q"
    and pool_distinct: "pool q fs \<Longrightarrow> distinct fs"
    and pool_less: "pool q fs \<Longrightarrow> i \<in> set fs \<Longrightarrow> i < capacity q"
begin

lemma give_back_all:
  assumes "pool q fs" "distinct (is @ fs)" "\<forall>i \<in> set is. i < capacity q"
  shows "\<exists>q'. foldM (\<lambda>i q. give_back q (of_nat i)) is q = Some q'
              \<and> pool q' (rev is @ fs) \<and> capacity q' = capacity q"
  using assms
proof (induction "is" arbitrary: q fs)
  case (Cons i "is")
  then obtain q1 where q1: "give_back q (of_nat i) = Some q1" "pool q1 (i # fs)"
      "capacity q1 = capacity q"
    using give_back_first [of q fs i] by auto
  with Cons.IH [of q1 "i # fs"] Cons.prems show ?case by auto
qed simp

lemma reserve_then_give_back:
  assumes "pool q (i # fs)"
  shows "\<exists>q' q''. reserve q = Some (of_nat i, q') \<and> give_back q' (of_nat i) = Some q''
                  \<and> pool q'' (i # fs)"
proof -
  obtain q' where q': "reserve q = Some (of_nat i, q')" "pool q' fs" "capacity q' = capacity q"
    using reserve_first [OF assms] by blast
  moreover have "i \<notin> set fs" "i < capacity q"
    using pool_distinct [OF assms] pool_less [OF assms] by auto
  ultimately show ?thesis using give_back_first [of q' fs i] by auto
qed

lemma reserve_none_iff:
  assumes "pool q fs" "capacity q < 2 ^ LENGTH('d)"
  shows "\<exists>d q'. reserve q = Some (d, q') \<and> (d = - 1 \<longleftrightarrow> fs = [])"
proof (cases fs)
  case (Cons i fs')
  with assms(1) obtain q' where "reserve q = Some (of_nat i, q')" using reserve_first by blast
  moreover have "i < 2 ^ LENGTH('d) - 1" using pool_less [OF assms(1), of i] Cons assms(2) by auto
  then have "(of_nat i :: 'd word) \<noteq> - 1" by (rule of_nat_neq_minus_one)
  ultimately show ?thesis using Cons by blast
qed (use assms(1) in \<open>auto dest: reserve_empty\<close>)

end

lemma free_pool_wf: "free_pool q fs \<Longrightarrow> queue_wf q"
  by (simp add: free_pool_def)

lemma free_pool_less: "free_pool q fs \<Longrightarrow> i \<in> set fs \<Longrightarrow> i < queue_size q"
  by (auto simp: free_pool_def queue_wf_def dest: desc_list_less)

lemma free_pool_distinct: "free_pool q fs \<Longrightarrow> distinct fs"
  by (auto simp: free_pool_def dest: desc_list_distinct)

text \<open>The exact effect of the two operations.\<close>

lemma reserveNewDescriptor_Cons:
  assumes "free_pool q (i # fs)"
  shows "reserveNewDescriptor q =
           Some (of_nat i, q\<lparr>first_unused_descriptor_index := next_desc (descriptor_buffers q ! i),
                             num_unused_descriptors := num_unused_descriptors q - 1\<rparr>)"
proof -
  let ?d = "first_unused_descriptor_index q"
  from assms have d: "\<not> i16_neg ?d" "unat ?d = i" "i < length (descriptor_buffers q)"
    by (auto simp: free_pool_def)
  then show ?thesis
    using eq_of_nat_unat [OF d(2)] by (simp add: reserveNewDescriptor_def)
qed

lemma reserveNewDescriptor_pool:
  assumes "free_pool q (i # fs)"
  shows "free_pool (q\<lparr>first_unused_descriptor_index := next_desc (descriptor_buffers q ! i),
                      num_unused_descriptors := num_unused_descriptors q - 1\<rparr>) fs"
proof -
  from assms have "num_unused_descriptors q \<noteq> 0" by (auto simp: free_pool_def)
  with assms show ?thesis
    by (auto simp: free_pool_def queue_wf_def unat_minus_one)
qed

lemma retire_eq:
  assumes "i < length (descriptor_buffers q)" "i < 65536"
  shows "retire g q (of_nat i) =
    Some (q\<lparr>num_unused_descriptors := num_unused_descriptors q + 1,
            descriptor_buffers := (descriptor_buffers q)
              [i := (g (descriptor_buffers q ! i))\<lparr>next_desc := first_unused_descriptor_index q\<rparr>],
            first_unused_descriptor_index := of_nat i\<rparr>)"
  using assms by (simp add: retire_def returnUnusedDescriptor_def)

lemma retire_pool:
  assumes pool: "free_pool q fs" and i: "i < queue_size q" "i \<notin> set fs"
  shows "\<exists>q'. retire g q (of_nat i) = Some q' \<and> free_pool q' (i # fs)
              \<and> queue_size q' = queue_size q"
proof -
  have wf: "queue_wf q" using pool by (rule free_pool_wf)
  note b = queue_wf_bounds [OF wf]
  have len: "length (descriptor_buffers q) = queue_size q" using wf by (simp add: queue_wf_def)
  have "distinct (i # fs)" "set (i # fs) \<subseteq> {..<queue_size q}"
    using pool i by (auto simp: free_pool_less free_pool_distinct)
  then have "length (i # fs) \<le> queue_size q"
    by (metis card_lessThan card_mono distinct_card finite_lessThan)
  then have "unat (num_unused_descriptors q + 1) = Suc (length fs)"
    using pool b by (simp add: free_pool_def unat_word_ariths)
  then have "free_pool (q\<lparr>num_unused_descriptors := num_unused_descriptors q + 1,
            descriptor_buffers := (descriptor_buffers q)
              [i := (g (descriptor_buffers q ! i))\<lparr>next_desc := first_unused_descriptor_index q\<rparr>],
            first_unused_descriptor_index := of_nat i\<rparr>) (i # fs)"
    using pool i b len
    by (auto simp: free_pool_def queue_wf_def i16_neg_iff desc_list_update_outside)
  then show ?thesis using i b len by (simp add: retire_eq)
qed

interpretation vq: descriptor_pool free_pool queue_size reserveNewDescriptor "retire g" for g
proof (unfold_locales, goal_cases)
  case (1 q)
  then show ?case by (simp add: free_pool_def reserveNewDescriptor_def)
next
  case (2 q i fs)
  then show ?case using reserveNewDescriptor_pool by (auto simp: reserveNewDescriptor_Cons)
next
  case (3 q fs i)
  then show ?case by (rule retire_pool)
next
  case (4 q fs)
  then show ?case by (rule free_pool_distinct)
next
  case (5 q fs i)
  then show ?case by (rule free_pool_less)
qed

section \<open>Giving chains back\<close>

text \<open>On a list that ends, the loop gives back the descriptors of the list, in order.\<close>

lemma release_chain_eq_foldM:
  assumes "desc_list (descriptor_buffers q) d is" "length (descriptor_buffers q) \<le> 65536"
  shows "release_chain g q d = foldM (\<lambda>i q. retire g q (of_nat i)) is q"
  using assms
proof (induction "is" arbitrary: q d)
  case Nil
  then show ?case by (simp add: release_chain.simps)
next
  case (Cons i "is")
  then have i: "\<not> i16_neg d" "unat d = i" "i < length (descriptor_buffers q)" and d: "d = of_nat i"
    using eq_of_nat_unat by auto
  define q1 where "q1 = the (retire g q d)"
  have q1: "retire g q d = Some q1" using i Cons.prems(2) by (simp add: d q1_def retire_eq)
  have "desc_list (descriptor_buffers q1) (next_desc (descriptor_buffers q ! i)) is"
    using q1 i Cons.prems desc_list_distinct [OF Cons.prems(1)]
    by (auto simp: d retire_eq desc_list_update_outside)
  moreover have "length (descriptor_buffers q1) \<le> 65536"
    using q1 i Cons.prems(2) by (auto simp: d retire_eq)
  ultimately have "release_chain g q1 (next_desc (descriptor_buffers q ! i))
      = foldM (\<lambda>i q. retire g q (of_nat i)) is q1" by (rule Cons.IH)
  moreover have "release_chain g q d = release_chain g q1 (next_desc (descriptor_buffers q ! i))"
    using i q1 by (subst release_chain.simps) simp
  ultimately show ?case using q1 d by simp
qed

text \<open>What giving back a list of descriptors leaves unchanged.\<close>

lemma retire_all_frame:
  assumes "foldM (\<lambda>i q. retire g q (of_nat i)) is q = Some q'"
    "\<forall>i \<in> set is. i < length (descriptor_buffers q) \<and> i < 65536"
  shows "\<exists>bufs first num. q' = q\<lparr>descriptor_buffers := bufs,
             first_unused_descriptor_index := first, num_unused_descriptors := num\<rparr>
           \<and> length bufs = length (descriptor_buffers q)
           \<and> (\<forall>j. j \<notin> set is \<longrightarrow> bufs ! j = descriptor_buffers q ! j)
           \<and> (distinct is \<longrightarrow> (\<forall>j \<in> set is. \<exists>n. bufs ! j = (g (descriptor_buffers q ! j))\<lparr>next_desc := n\<rparr>))"
  using assms
proof (induction "is" arbitrary: q)
  case Nil
  show ?case
    by (rule exI [where x = "descriptor_buffers q"],
        rule exI [where x = "first_unused_descriptor_index q"],
        rule exI [where x = "num_unused_descriptors q"]) (use Nil in auto)
next
  case (Cons i "is")
  define q1 where "q1 = the (retire g q (of_nat i))"
  have q1: "retire g q (of_nat i) = Some q1" using Cons.prems(2) by (simp add: q1_def retire_eq)
  then have q1_eq: "q1 = q\<lparr>num_unused_descriptors := num_unused_descriptors q + 1,
            descriptor_buffers := (descriptor_buffers q)
              [i := (g (descriptor_buffers q ! i))\<lparr>next_desc := first_unused_descriptor_index q\<rparr>],
            first_unused_descriptor_index := of_nat i\<rparr>"
    using Cons.prems(2) by (simp add: retire_eq)
  have "foldM (\<lambda>i q. retire g q (of_nat i)) is q1 = Some q'" using Cons.prems(1) q1 by simp
  moreover have "\<forall>i \<in> set is. i < length (descriptor_buffers q1) \<and> i < 65536"
    using Cons.prems(2) by (simp add: q1_eq)
  ultimately obtain bufs first num where IH: "q' = q1\<lparr>descriptor_buffers := bufs,
             first_unused_descriptor_index := first, num_unused_descriptors := num\<rparr>"
           "length bufs = length (descriptor_buffers q1)"
           "\<forall>j. j \<notin> set is \<longrightarrow> bufs ! j = descriptor_buffers q1 ! j"
           "distinct is \<longrightarrow> (\<forall>j \<in> set is. \<exists>n. bufs ! j = (g (descriptor_buffers q1 ! j))\<lparr>next_desc := n\<rparr>)"
    using Cons.IH [of q1] by blast
  show ?case
    by (rule exI [where x = bufs], rule exI [where x = first], rule exI [where x = num])
       (use IH Cons.prems(2) in \<open>auto simp: q1_eq nth_list_update; metis\<close>)
qed

section \<open>The invariant of a virtqueue\<close>

text \<open>
  \<open>queue_inv q fs chs\<close>: the unused descriptors are \<open>fs\<close> in the order in which they will be
  handed out, the chains in use are \<open>chs\<close>, and every descriptor of the table belongs to exactly
  one of them.
\<close>

definition queue_inv :: "VirtioVirtqueue \<Rightarrow> nat list \<Rightarrow> nat list list \<Rightarrow> bool" where
  "queue_inv q fs chs \<longleftrightarrow>
     free_pool q fs
     \<and> (\<forall>ch \<in> set chs. ch \<noteq> [] \<and> desc_list (descriptor_buffers q) (of_nat (hd ch)) ch)
     \<and> distinct (fs @ concat chs)
     \<and> set (fs @ concat chs) = {..<queue_size q}"

lemma queue_inv_wf: "queue_inv q fs chs \<Longrightarrow> queue_wf q"
  by (auto simp: queue_inv_def free_pool_def)

lemma queue_inv_permute:
  assumes "queue_inv q fs (chs1 @ ch # chs2)"
  shows "queue_inv q fs (ch # chs1 @ chs2)"
  using assms by (auto simp: queue_inv_def)

text \<open>Releasing a chain in use makes its descriptors the next ones to be handed out and leaves the
  other chains and everything else in the queue alone.\<close>

lemma release_chain_inv:
  assumes "queue_inv q fs (ch # chs)"
  obtains q' where "release_chain g q (of_nat (hd ch)) = Some q'"
    "queue_inv q' (rev ch @ fs) chs"
    "num_entries q' = num_entries q" "descriptor_table q' = descriptor_table q"
    "available_ring q' = available_ring q" "used_ring q' = used_ring q"
    "used_ring_last_head_index q' = used_ring_last_head_index q"
    "interrupts_requested q' = interrupts_requested q"
    "uses_indirect_descriptors q' = uses_indirect_descriptors q"
    "\<forall>i. i \<notin> set ch \<longrightarrow> descriptor_buffers q' ! i = descriptor_buffers q ! i"
    "\<forall>i \<in> set ch. \<exists>n. descriptor_buffers q' ! i = (g (descriptor_buffers q ! i))\<lparr>next_desc := n\<rparr>"
proof -
  have pool: "free_pool q fs" and ch: "desc_list (descriptor_buffers q) (of_nat (hd ch)) ch"
    and dist: "distinct (ch @ fs)" and others: "set (concat chs) \<inter> set ch = {}"
    using assms by (auto simp: queue_inv_def)
  have wf: "queue_wf q" using assms by (rule queue_inv_wf)
  note bounds = queue_wf_bounds [OF wf]
  have len: "length (descriptor_buffers q) = queue_size q" using wf by (simp add: queue_wf_def)
  have ch_less: "\<forall>i \<in> set ch. i < queue_size q" using ch len by (auto dest: desc_list_less)
  obtain q' where q': "foldM (\<lambda>i q. retire g q (of_nat i)) ch q = Some q'"
      "free_pool q' (rev ch @ fs)" "queue_size q' = queue_size q"
    using vq.give_back_all [OF pool dist ch_less] by blast
  have rel: "release_chain g q (of_nat (hd ch)) = Some q'"
    using release_chain_eq_foldM [OF ch] bounds len q'(1) by simp
  obtain bufs first num where frame: "q' = q\<lparr>descriptor_buffers := bufs,
             first_unused_descriptor_index := first, num_unused_descriptors := num\<rparr>"
           "length bufs = length (descriptor_buffers q)"
           "\<forall>j. j \<notin> set ch \<longrightarrow> bufs ! j = descriptor_buffers q ! j"
           "\<forall>j \<in> set ch. \<exists>n. bufs ! j = (g (descriptor_buffers q ! j))\<lparr>next_desc := n\<rparr>"
    using retire_all_frame [OF q'(1)] ch_less bounds len dist by fastforce
  have "desc_list bufs (of_nat (hd c)) c" if "c \<in> set chs" for c
  proof -
    have "set c \<inter> set ch = {}" using that others by auto
    then have "desc_list bufs (of_nat (hd c)) c = desc_list (descriptor_buffers q) (of_nat (hd c)) c"
      using frame(2,3) by (intro desc_list_cong) auto
    then show ?thesis using that assms by (auto simp: queue_inv_def)
  qed
  then have "queue_inv q' (rev ch @ fs) chs"
    using assms q'(2) frame(1) by (auto simp: queue_inv_def)
  with rel show ?thesis by (rule that) (use frame in simp_all)
qed

end
