(* ===== verification/Virtqueue_Submit.thy ===== *)
theory Virtqueue_Submit
  imports Virtqueue
begin

text \<open>
  Submitting a request to a virtqueue: \<^verbatim>\<open>submitBuffersToVirtqueue\<close>, its direct and its indirect
  variant and \<^verbatim>\<open>generate_indirect_segment_dma\<close> of VirtioLegacyPCIDevice.cpp.

  The DMA subsystem of IOKit is a parameter: for a memory descriptor, whether it can be set on a
  DMA command, and for a limit on the number of segments, the result code, the offset reached and
  the segments that \<^verbatim>\<open>genIOVMSegments\<close> hands to the driver's callback, in order.
\<close>

section \<open>Definitions\<close>

record dma_env =
  set_md :: "IOMemoryDescriptor \<Rightarrow> IOReturn"
  gen_segs :: "IOMemoryDescriptor \<Rightarrow> u32 \<Rightarrow> IOReturn \<times> u64 \<times> Segment64 list"

definition md_nonempty :: "IOMemoryDescriptor option \<Rightarrow> bool" where
  "md_nonempty buf \<longleftrightarrow> (case buf of None \<Rightarrow> False | Some md \<Rightarrow> md_length md \<noteq> 0)"

text \<open>An early return of the submission functions is an \<^term>\<open>Inl\<close>.\<close>

type_synonym early = "IOReturn \<times> VirtioVirtqueue"

definition modify_buffer ::
    "nat \<Rightarrow> (VirtioBuffer \<Rightarrow> VirtioBuffer) \<Rightarrow> VirtioVirtqueue \<Rightarrow> VirtioVirtqueue option" where
  "modify_buffer i f queue = do {
     bufs \<leftarrow> array_modify (descriptor_buffers queue) i f;
     Some (queue\<lparr>descriptor_buffers := bufs\<rparr>)
   }"

text \<open>The device-readable part of \<^verbatim>\<open>submitBuffersToVirtqueueDirect\<close>: on success the queue, the
  state of the chain and the index of its first descriptor.\<close>

definition direct_readable ::
    "dma_env \<Rightarrow> VirtioVirtqueue \<Rightarrow> virtio_legacy_pci_vring_desc_chain \<Rightarrow> IOMemoryDescriptor
     \<Rightarrow> VirtioCompletion \<Rightarrow> u32
     \<Rightarrow> (early + VirtioVirtqueue \<times> virtio_legacy_pci_vring_desc_chain \<times> u16) option" where
  "direct_readable env queue chain buf compl min_descs_required = do {
     let max_segments = num_unused_descriptors queue - min_descs_required;
     (descriptorIndex, queue) \<leftarrow> reserveNewDescriptor queue;
     if i16_neg descriptorIndex then None else do {
       let chain = chain\<lparr>reserved_descriptor_index := descriptorIndex\<rparr>;
       let result = set_md env buf;
       queue \<leftarrow> modify_buffer (unat descriptorIndex)
         (\<lambda>b. b\<lparr>completion := compl, dma_cmd_used := True,
                dma_cmd := (if result = kIOReturnSuccess then Some buf else None)\<rparr>) queue;
       if result \<noteq> kIOReturnSuccess then do {
         queue \<leftarrow> returnUnusedDescriptor queue descriptorIndex;
         Some (Inl (result, queue))
       } else do {
         let (result, offset, segs) = gen_segs env buf max_segments;
         (queue, chain) \<leftarrow> foldM outputVringDescSegment segs (queue, chain);
         if result \<noteq> kIOReturnSuccess \<or> segs = [] \<or> offset \<noteq> md_length buf then do {
           let result = (if result = kIOReturnSuccess then kIOReturnInternalError else result);
           queue \<leftarrow> modify_buffer (unat descriptorIndex)
             (\<lambda>b. b\<lparr>dma_cmd := None, dma_cmd_used := False\<rparr>) queue;
           queue \<leftarrow> release_chain id queue descriptorIndex;
           Some (Inl (result, queue))
         } else Some (Inr (queue, chain, descriptorIndex))
       }
     }
   }"

text \<open>The device-writable part. \<open>first_descriptor_index\<close> is \<^verbatim>\<open>UINT16_MAX\<close> when there is no
  readable part.\<close>

definition direct_writable ::
    "dma_env \<Rightarrow> VirtioVirtqueue \<Rightarrow> virtio_legacy_pci_vring_desc_chain \<Rightarrow> IOMemoryDescriptor
     \<Rightarrow> VirtioCompletion \<Rightarrow> u16
     \<Rightarrow> (early + VirtioVirtqueue \<times> virtio_legacy_pci_vring_desc_chain \<times> u16) option" where
  "direct_writable env queue chain buf compl first_descriptor_index = do {
     let chain = chain\<lparr>chain_device_writable := True\<rparr>;
     let max_segments = num_unused_descriptors queue;
     (descriptorIndex, queue) \<leftarrow> reserveNewDescriptor queue;
     if i16_neg descriptorIndex then None else do {
       let no_reads = (first_descriptor_index = UINT16_MAX);
       let first_descriptor_index = (if no_reads then descriptorIndex else first_descriptor_index);
       let chain = chain\<lparr>reserved_descriptor_index := descriptorIndex\<rparr>;
       let result = set_md env buf;
       queue \<leftarrow> modify_buffer (unat descriptorIndex)
         (\<lambda>b. (if no_reads then b\<lparr>completion := compl\<rparr> else b)
                \<lparr>dma_cmd_used := True,
                 dma_cmd := (if result = kIOReturnSuccess then Some buf else None)\<rparr>) queue;
       if result \<noteq> kIOReturnSuccess then do {
         queue \<leftarrow> release_chain clear_dma queue first_descriptor_index;
         Some (Inl (result, queue))
       } else do {
         let (result, offset, segs) = gen_segs env buf max_segments;
         (queue, chain) \<leftarrow> foldM outputVringDescSegment segs (queue, chain);
         if result \<noteq> kIOReturnSuccess \<or> segs = [] \<or> offset \<noteq> md_length buf then do {
           let result = (if result = kIOReturnSuccess then kIOReturnInternalError else result);
           queue \<leftarrow> modify_buffer (unat descriptorIndex)
             (\<lambda>b. b\<lparr>dma_cmd := None, dma_cmd_used := False\<rparr>) queue;
           queue \<leftarrow> release_chain clear_dma queue first_descriptor_index;
           Some (Inl (result, queue))
         } else Some (Inr (queue, chain, first_descriptor_index))
       }
     }
   }"

text \<open>The two parts, one after the other: an early return, or the queue with the complete chain
  and the index of its first descriptor.\<close>

definition direct_parts ::
    "dma_env \<Rightarrow> VirtioVirtqueue \<Rightarrow> IOMemoryDescriptor option \<Rightarrow> IOMemoryDescriptor option
     \<Rightarrow> VirtioCompletion \<Rightarrow> u32
     \<Rightarrow> (early + VirtioVirtqueue \<times> virtio_legacy_pci_vring_desc_chain \<times> u16) option" where
  "direct_parts env queue device_readable_buf device_writable_buf compl min_descs_required = do {
     let chain = \<lparr>reserved_descriptor_index = UINT16_MAX,
                  current_last_descriptor_index = UINT16_MAX, chain_device_writable = False\<rparr>;
     readable \<leftarrow>
       (if md_nonempty device_readable_buf
        then direct_readable env queue chain (the device_readable_buf) compl (min_descs_required - 1)
        else Some (Inr (queue, chain, UINT16_MAX)));
     case readable of
       Inl early \<Rightarrow> Some (Inl early)
     | Inr (queue, chain, first_descriptor_index) \<Rightarrow>
         if md_nonempty device_writable_buf
         then direct_writable env queue chain (the device_writable_buf) compl first_descriptor_index
         else Some (Inr (queue, chain, first_descriptor_index))
   }"

text \<open>The result: the code returned, the queue, and whether the device is to be notified.\<close>

definition min_descs :: "IOMemoryDescriptor option \<Rightarrow> IOMemoryDescriptor option \<Rightarrow> u32" where
  "min_descs device_readable_buf device_writable_buf =
     (if md_nonempty device_readable_buf then 1 else 0)
     + (if md_nonempty device_writable_buf then 1 else 0)"

definition submitBuffersToVirtqueueDirect ::
    "dma_env \<Rightarrow> VirtioVirtqueue \<Rightarrow> IOMemoryDescriptor option \<Rightarrow> IOMemoryDescriptor option
     \<Rightarrow> VirtioCompletion \<Rightarrow> (IOReturn \<times> VirtioVirtqueue \<times> bool) option" where
  "submitBuffersToVirtqueueDirect env queue device_readable_buf device_writable_buf compl = (
     let min_descs_required = min_descs device_readable_buf device_writable_buf
     in if min_descs_required > num_entries queue then Some (kIOReturnUnsupported, queue, False)
        else if min_descs_required = 0 then Some (kIOReturnBadArgument, queue, False)
        else if min_descs_required > num_unused_descriptors queue
        then Some (kIOReturnBusy, queue, False)
        else do {
          parts \<leftarrow> direct_parts env queue device_readable_buf device_writable_buf compl
                     min_descs_required;
          case parts of
            Inl (result, queue) \<Rightarrow> Some (result, queue, False)
          | Inr (queue, chain, first_descriptor_index) \<Rightarrow> do {
              queue \<leftarrow> virtio_virtqueue_add_descriptor_to_ring queue first_descriptor_index;
              Some (kIOReturnSuccess, queue, \<not> has_bits (used_flags (used_ring queue)) NO_NOTIFY)
            }
        })"

text \<open>
  The indirect variant. \<open>desc_output\<close> is the state of the callback that fills the indirect
  table; the two DMA commands are those of the main descriptor's buffer, of which
  \<open>set\<close> records the memory descriptor. A failure of \<^verbatim>\<open>setMemoryDescriptor\<close> is overwritten by the
  result of \<^verbatim>\<open>genIOVMSegments\<close>, as in the source.
\<close>

definition generate_indirect_segment_dma ::
    "dma_env \<Rightarrow> IOMemoryDescriptor \<Rightarrow> u32 \<Rightarrow> u32 \<Rightarrow> virtio_output_indirect_segment_state
     \<Rightarrow> (IOReturn \<times> IOMemoryDescriptor option \<times> u32 \<times> u32
         \<times> virtio_output_indirect_segment_state) option" where
  "generate_indirect_segment_dma env buf min_descs_required max_segments desc_output = do {
     let cmd = (if set_md env buf = kIOReturnSuccess then Some buf else None);
     let min_descs_required = min_descs_required - 1;
     let (result, offset, segs) = gen_segs env buf (max_segments - min_descs_required);
     desc_output \<leftarrow> foldM outputIndirectVringDescSegment segs desc_output;
     if result \<noteq> kIOReturnSuccess \<or> max_segments < 1 \<or> offset \<noteq> md_length buf
     then Some (if result = kIOReturnSuccess then kIOReturnInternalError else result,
                None, min_descs_required, max_segments, desc_output)
     else Some (kIOReturnSuccess, cmd, min_descs_required,
                max_segments - of_nat (length segs), desc_output)
   }"

text \<open>The parts of a request in the indirect table of descriptor \<open>main\<close>: an early return, or the
  queue and the number of descriptors written.\<close>

definition set_indirect_array ::
    "VirtioVringDesc list \<Rightarrow> VirtioBuffer \<Rightarrow> VirtioBuffer" where
  "set_indirect_array descs b =
     b\<lparr>indirect_descriptors := map_option (\<lambda>t. t\<lparr>ind_array := descs\<rparr>) (indirect_descriptors b)\<rparr>"

definition indirect_parts ::
    "dma_env \<Rightarrow> VirtioVirtqueue \<Rightarrow> i16 \<Rightarrow> IOMemoryDescriptor option \<Rightarrow> IOMemoryDescriptor option
     \<Rightarrow> u32 \<Rightarrow> u32 \<Rightarrow> VirtioVringDesc list \<Rightarrow> (early + VirtioVirtqueue \<times> u16) option" where
  "indirect_parts env queue main device_readable_buf device_writable_buf min_descs_required
     max_segments descs = do {
     let desc_output = \<lparr>desc_array = descs, next_descriptor_index = 0, seg_writable = False\<rparr>;
     (result, min_descs_required, max_segments, desc_output, queue) \<leftarrow>
       (if md_nonempty device_readable_buf then do {
          (result, cmd, m, n, out) \<leftarrow> generate_indirect_segment_dma env (the device_readable_buf)
             min_descs_required max_segments (desc_output\<lparr>seg_writable := False\<rparr>);
          queue \<leftarrow> modify_buffer (unat main) (set_indirect_array (desc_array out)
                     \<circ> (\<lambda>b. b\<lparr>dma_cmd := cmd\<rparr>)) queue;
          Some (result, m, n, out, queue)
        } else Some (kIOReturnSuccess, min_descs_required, max_segments, desc_output, queue));
     if result \<noteq> kIOReturnSuccess then do {
       queue \<leftarrow> returnUnusedDescriptor queue main;
       Some (Inl (result, queue))
     } else do {
       (result, desc_output, queue) \<leftarrow>
         (if md_nonempty device_writable_buf then do {
            (result, cmd, m, n, out) \<leftarrow> generate_indirect_segment_dma env (the device_writable_buf)
               min_descs_required max_segments (desc_output\<lparr>seg_writable := True\<rparr>);
            queue \<leftarrow> modify_buffer (unat main) (set_indirect_array (desc_array out)
                       \<circ> (\<lambda>b. b\<lparr>dma_cmd_2 := cmd\<rparr>)) queue;
            Some (result, out, queue)
          } else Some (kIOReturnSuccess, desc_output, queue));
       if result \<noteq> kIOReturnSuccess then do {
         queue \<leftarrow> (if md_nonempty device_readable_buf
                    then modify_buffer (unat main) (\<lambda>b. b\<lparr>dma_cmd := None\<rparr>) queue
                    else Some queue);
         queue \<leftarrow> returnUnusedDescriptor queue main;
         Some (Inl (result, queue))
       } else Some (Inr (queue, next_descriptor_index desc_output))
     }
   }"

text \<open>The memory descriptor of an indirect table of a given length; its identity is a fixed function
  of the index of the descriptor it belongs to.\<close>

definition sizeof_desc :: u64 where "sizeof_desc = 16"

definition submitBuffersToVirtqueueIndirect ::
    "dma_env \<Rightarrow> (u16 \<Rightarrow> nat) \<Rightarrow> VirtioVirtqueue \<Rightarrow> IOMemoryDescriptor option
     \<Rightarrow> IOMemoryDescriptor option \<Rightarrow> VirtioCompletion \<Rightarrow> (IOReturn \<times> VirtioVirtqueue \<times> bool) option"
  where
  "submitBuffersToVirtqueueIndirect env table_id queue device_readable_buf device_writable_buf compl =
   do {
     (main, queue) \<leftarrow> reserveNewDescriptor queue;
     if i16_neg main then Some (kIOReturnBusy, queue, False) else do {
       let min_descs_required = min_descs device_readable_buf device_writable_buf;
       buf \<leftarrow> array_read (descriptor_buffers queue) (unat main);
       table \<leftarrow> indirect_descriptors buf;
       let capacity = sizeof_desc * of_nat (length (ind_array table));
       queue \<leftarrow> modify_buffer (unat main)
         (\<lambda>b. b\<lparr>indirect_descriptors := Some (table\<lparr>ind_length := capacity\<rparr>)\<rparr>) queue;
       let max_segments = (ucast (capacity div sizeof_desc) :: u32);
       if min_descs_required > max_segments then Some (kIOReturnUnsupported, queue, False)
       else if min_descs_required = 0 then Some (kIOReturnBadArgument, queue, False)
       else do {
         queue \<leftarrow> modify_buffer (unat main) (\<lambda>b. b\<lparr>dma_cmd_used := True\<rparr>) queue;
         parts \<leftarrow> indirect_parts env queue main device_readable_buf device_writable_buf
                    min_descs_required max_segments (ind_array table);
         case parts of
           Inl (result, queue) \<Rightarrow> Some (result, queue, False)
         | Inr (queue, count) \<Rightarrow> do {
             let len = ucast count * sizeof_desc;
             let table_md = \<lparr>md_id = table_id main, md_length = len\<rparr>;
             let result = set_md env table_md;
             queue \<leftarrow> modify_buffer (unat main)
               (\<lambda>b. b\<lparr>indirect_descriptors :=
                        map_option (\<lambda>t. t\<lparr>ind_length := len\<rparr>) (indirect_descriptors b),
                      dma_indirect_descriptors :=
                        (if result = kIOReturnSuccess then Some table_md else None)\<rparr>) queue;
             if result \<noteq> kIOReturnSuccess then do {
               queue \<leftarrow> modify_buffer (unat main) (\<lambda>b. b\<lparr>dma_cmd := None, dma_cmd_2 := None\<rparr>) queue;
               queue \<leftarrow> returnUnusedDescriptor queue main;
               Some (result, queue, False)
             } else do {
               let (result, offset, segs) = gen_segs env table_md 1;
               (queue, _) \<leftarrow> foldM outputVringDescSegmentForIndirectTable segs (queue, main);
               if result \<noteq> kIOReturnSuccess \<or> segs = [] \<or> offset \<noteq> len then do {
                 queue \<leftarrow> modify_buffer (unat main)
                   (\<lambda>b. b\<lparr>dma_indirect_descriptors := None, dma_cmd := None, dma_cmd_2 := None\<rparr>) queue;
                 queue \<leftarrow> returnUnusedDescriptor queue main;
                 Some (result, queue, False)
               } else do {
                 queue \<leftarrow> modify_buffer (unat main)
                   (\<lambda>b. b\<lparr>completion := compl, next_desc := -1\<rparr>) queue;
                 queue \<leftarrow> virtio_virtqueue_add_descriptor_to_ring queue main;
                 Some (kIOReturnSuccess, queue,
                       \<not> has_bits (used_flags (used_ring queue)) NO_NOTIFY)
               }
             }
           }
       }
     }
   }"

text \<open>\<^verbatim>\<open>submitBuffersToVirtqueue\<close> chooses the variant by the kind of queue.\<close>

definition submit_to_queue ::
    "dma_env \<Rightarrow> (u16 \<Rightarrow> nat) \<Rightarrow> VirtioVirtqueue \<Rightarrow> IOMemoryDescriptor option
     \<Rightarrow> IOMemoryDescriptor option \<Rightarrow> VirtioCompletion \<Rightarrow> (IOReturn \<times> VirtioVirtqueue \<times> bool) option"
  where
  "submit_to_queue env table_id queue device_readable_buf device_writable_buf compl =
     (if uses_indirect_descriptors queue
      then submitBuffersToVirtqueueIndirect env table_id queue device_readable_buf
             device_writable_buf compl
      else submitBuffersToVirtqueueDirect env queue device_readable_buf device_writable_buf compl)"

end
