(* ===== verification/Virtqueue_Chain.thy ===== *)
theory Virtqueue_Chain
  imports Virtqueue_Submit
begin

text \<open>
  Building a descriptor chain. While IOKit's DMA layer calls \<^verbatim>\<open>outputVringDescSegment\<close>, the chain
  built so far, the reserved descriptor and the unused descriptors are related to the queue by
  \<open>building\<close>; each segment extends the chain by one descriptor. A finished chain together with
  the chains already in use satisfies the invariant of the queue.
\<close>

section \<open>The descriptors written for a chain\<close>

fun chain_written :: "VirtioVringDesc list \<Rightarrow> nat list \<Rightarrow> (Segment64 \<times> bool) list \<Rightarrow> bool" where
  "chain_written tbl [] [] \<longleftrightarrow> True"
| "chain_written tbl [i] [(s, w)] \<longleftrightarrow> i < length tbl \<and>
     tbl ! i = \<lparr>phys_address = fIOVMAddr s, length_bytes = ucast (fLength s),
                desc_flags = (if w then DEVICE_WRITABLE else 0), desc_next = 0xffff\<rparr>"
| "chain_written tbl (i # j # is) ((s, w) # sw # sws) \<longleftrightarrow> i < length tbl \<and>
     tbl ! i = \<lparr>phys_address = fIOVMAddr s, length_bytes = ucast (fLength s),
                desc_flags = (if w then DEVICE_WRITABLE else 0) OR NEXT, desc_next = of_nat j\<rparr>
     \<and> chain_written tbl (j # is) (sw # sws)"
| "chain_written _ _ _ \<longleftrightarrow> False"

lemma chain_written_length: "chain_written tbl is sws \<Longrightarrow> length is = length sws"
  by (induction tbl "is" sws rule: chain_written.induct) auto

lemma chain_written_cong:
  assumes "length tbl' = length tbl" "\<And>i. i \<in> set is \<Longrightarrow> tbl' ! i = tbl ! i"
  shows "chain_written tbl' is sws = chain_written tbl is sws"
  using assms by (induction tbl "is" sws rule: chain_written.induct) auto

lemma fill_vring_descriptor_None:
  "i < length descs \<Longrightarrow> fill_vring_descriptor descs i d None s w =
     Some (descs[i := \<lparr>phys_address = fIOVMAddr s, length_bytes = ucast (fLength s),
                desc_flags = (if w then DEVICE_WRITABLE else 0), desc_next = 0xffff\<rparr>])"
  by (cases "descs ! i") (simp add: fill_vring_descriptor_def)

lemma fill_vring_descriptor_Some:
  "i < length descs \<Longrightarrow> p < length descs \<Longrightarrow> p \<noteq> i \<Longrightarrow> fill_vring_descriptor descs i d (Some p) s w =
     Some (descs[p := (descs ! p)\<lparr>desc_next := d, desc_flags := desc_flags (descs ! p) OR NEXT\<rparr>,
                 i := \<lparr>phys_address = fIOVMAddr s, length_bytes = ucast (fLength s),
                desc_flags = (if w then DEVICE_WRITABLE else 0), desc_next = 0xffff\<rparr>])"
  by (cases "descs ! i") (simp add: fill_vring_descriptor_def list_update_swap [of i p])

lemma chain_written_snoc:
  assumes "chain_written tbl is sws" "is \<noteq> []" "i \<notin> set is" "distinct is" "i < length tbl"
  shows "chain_written
     (tbl[last is := (tbl ! last is)\<lparr>desc_next := of_nat i, desc_flags := desc_flags (tbl ! last is) OR NEXT\<rparr>,
                 i := \<lparr>phys_address = fIOVMAddr s, length_bytes = ucast (fLength s),
                desc_flags = (if w then DEVICE_WRITABLE else 0), desc_next = 0xffff\<rparr>]) (is @ [i]) (sws @ [(s, w)])"
  using assms
proof (induction tbl "is" sws rule: chain_written.induct)
  case (3 tbl j k "is" s' w' sw sws)
  then have "j \<noteq> last (k # is)" by (metis distinct.simps(2) last_in_set list.distinct(1))
  with 3 show ?case by auto
qed auto

section \<open>A chain under construction\<close>

text \<open>The parts of a queue that submission does not touch before the chain is published.\<close>

definition same_rings :: "VirtioVirtqueue \<Rightarrow> VirtioVirtqueue \<Rightarrow> bool" where
  "same_rings q0 q \<longleftrightarrow>
     num_entries q = num_entries q0 \<and> available_ring q = available_ring q0
     \<and> used_ring q = used_ring q0 \<and> used_ring_last_head_index q = used_ring_last_head_index q0
     \<and> interrupts_requested q = interrupts_requested q0
     \<and> uses_indirect_descriptors q = uses_indirect_descriptors q0"

definition erase_next :: "VirtioBuffer \<Rightarrow> VirtioBuffer" where
  "erase_next b = b\<lparr>next_desc := 0\<rparr>"

lemma erase_next_update [simp]: "erase_next (b\<lparr>next_desc := n\<rparr>) = erase_next b"
  by (simp add: erase_next_def)

lemma map_erase_next_update [simp]:
  "erase_next b = erase_next (bufs ! i) \<Longrightarrow> map erase_next (bufs[i := b]) = map erase_next bufs"
  by (metis list_update_id map_update)

text \<open>
  \<open>building q0 q c pend fs ch sws\<close>: starting from \<open>q0\<close>, the callback has put the segments \<open>sws\<close>
  (with the flag whether the device may write them) into the descriptors \<open>ch\<close>, in this order;
  \<open>pend\<close> is the reserved descriptor, if it has not been used yet, and \<open>fs\<close> are the unused ones.
\<close>

definition building ::
    "VirtioVirtqueue \<Rightarrow> VirtioVirtqueue \<Rightarrow> virtio_legacy_pci_vring_desc_chain
     \<Rightarrow> nat list \<Rightarrow> nat list \<Rightarrow> nat list \<Rightarrow> (Segment64 \<times> bool) list \<Rightarrow> bool" where
  "building q0 q c pend fs ch sws \<longleftrightarrow>
     free_pool q fs \<and> same_rings q0 q
     \<and> map erase_next (descriptor_buffers q) = map erase_next (descriptor_buffers q0)
     \<and> distinct (pend @ fs @ ch) \<and> set (pend @ fs @ ch) \<subseteq> {..<queue_size q}
     \<and> length pend \<le> 1
     \<and> reserved_descriptor_index c = (if pend = [] then UINT16_MAX else of_nat (hd pend))
     \<and> current_last_descriptor_index c = (if ch = [] then UINT16_MAX else of_nat (last ch))
     \<and> (ch \<noteq> [] \<longrightarrow> desc_list (descriptor_buffers q) (of_nat (hd ch)) ch)
     \<and> chain_written (descriptor_table q) ch sws
     \<and> (\<forall>j. j \<notin> set ch \<longrightarrow> descriptor_buffers q ! j = descriptor_buffers q0 ! j
                              \<and> descriptor_table q ! j = descriptor_table q0 ! j)"

text \<open>Taking the descriptor for the next segment.\<close>

definition take_descriptor where
  "take_descriptor queue chain =
       (if reserved_descriptor_index chain \<noteq> UINT16_MAX
        then Some (reserved_descriptor_index chain, queue,
                   chain\<lparr>reserved_descriptor_index := UINT16_MAX\<rparr>)
        else do { (d, q) \<leftarrow> reserveNewDescriptor queue; Some (d, q, chain) })"

lemma building_bounds:
  assumes "building q0 q c pend fs ch sws"
  shows "queue_wf q" "0 < queue_size q" "queue_size q \<le> 32768"
    "length (descriptor_buffers q) = queue_size q" "length (descriptor_table q) = queue_size q"
    "\<And>i. i \<in> set (pend @ fs @ ch) \<Longrightarrow> i < queue_size q"
proof -
  show wf: "queue_wf q" using assms by (auto simp: building_def free_pool_def)
  show "0 < queue_size q" "queue_size q \<le> 32768" using queue_wf_bounds [OF wf] .
  show "length (descriptor_buffers q) = queue_size q" "length (descriptor_table q) = queue_size q"
    using wf by (auto simp: queue_wf_def)
  show "\<And>i. i \<in> set (pend @ fs @ ch) \<Longrightarrow> i < queue_size q"
    using assms unfolding building_def by blast
qed

lemma building_reserve:
  assumes "building q0 q c [] (i # fs) ch sws"
  obtains q1 where "reserveNewDescriptor q = Some (of_nat i, q1)"
    "building q0 q1 (c\<lparr>reserved_descriptor_index := of_nat i\<rparr>) [i] fs ch sws"
proof -
  from assms have pool: "free_pool q (i # fs)" by (simp add: building_def)
  show ?thesis
    by (rule that [OF reserveNewDescriptor_Cons [OF pool]])
       (use assms reserveNewDescriptor_pool [OF pool] in \<open>auto simp: building_def same_rings_def\<close>)
qed

lemma building_take:
  assumes "building q0 q c pend fs ch sws" "pend @ fs = i # rest"
  obtains q1 c1 where "take_descriptor q c = Some (of_nat i, q1, c1)"
     "building q0 q1 (c1\<lparr>reserved_descriptor_index := of_nat i\<rparr>) [i] rest ch sws"
     "reserved_descriptor_index c1 = UINT16_MAX"
     "chain_device_writable c1 = chain_device_writable c"
proof (cases pend)
  case Nil
  with assms have "building q0 q c [] (i # rest) ch sws" by simp
  then show ?thesis
  proof (rule building_reserve)
    fix q1
    assume "reserveNewDescriptor q = Some (of_nat i, q1)"
      "building q0 q1 (c\<lparr>reserved_descriptor_index := of_nat i\<rparr>) [i] rest ch sws"
    then show ?thesis
      using assms Nil by (intro that [of q1 c]) (auto simp: take_descriptor_def building_def)
  qed
next
  case (Cons j js)
  with assms have [simp]: "js = []" "j = i" "fs = rest" by (auto simp: building_def)
  have "i < 65535" using building_bounds [OF assms(1)] Cons by fastforce
  then have "reserved_descriptor_index c \<noteq> UINT16_MAX" "reserved_descriptor_index c = of_nat i"
    using assms Cons of_nat_u16_neq_max by (auto simp: building_def)
  moreover have "building q0 q (c\<lparr>reserved_descriptor_index := UINT16_MAX,
      reserved_descriptor_index := of_nat i\<rparr>) [i] rest ch sws"
    using assms(1) Cons by (simp add: building_def)
  ultimately show ?thesis
    by (intro that [of q "c\<lparr>reserved_descriptor_index := UINT16_MAX\<rparr>"]) (simp_all add: take_descriptor_def)
qed

lemma outputVringDescSegment_unfold:
  assumes "take_descriptor q c = Some (of_nat i, q1, c1)" "i < 32768"
  shows "outputVringDescSegment s (q, c) = do {
     let previousDescriptorIndex = current_last_descriptor_index c1;
       bufs \<leftarrow> (if previousDescriptorIndex \<noteq> UINT16_MAX
                then array_modify (descriptor_buffers q1) (unat previousDescriptorIndex)
                       (\<lambda>b. b\<lparr>next_desc := of_nat i\<rparr>)
                else Some (descriptor_buffers q1));
       table \<leftarrow> fill_vring_descriptor (descriptor_table q1) i (of_nat i)
                  (if previousDescriptorIndex = UINT16_MAX then None
                   else Some (unat previousDescriptorIndex))
                  s (chain_device_writable c1);
       bufs \<leftarrow> array_modify bufs i (\<lambda>b. b\<lparr>next_desc := -1\<rparr>);
       Some (q1\<lparr>descriptor_buffers := bufs, descriptor_table := table\<rparr>,
             c1\<lparr>current_last_descriptor_index := of_nat i\<rparr>)
     }"
proof -
  have n: "\<not> i16_neg (of_nat i)" "unat (of_nat i :: u16) = i" using assms(2) by (auto simp: i16_neg_iff)
  show ?thesis using assms(1) n unfolding outputVringDescSegment_def take_descriptor_def
    by (auto simp: Let_def split: Option.bind_splits if_splits)
qed


lemma building_append:
  assumes b: "building q0 q c [i] fs ch sws" and ne: "ch \<noteq> []"
  defines "l \<equiv> last ch"
  shows "building q0
     (q\<lparr>descriptor_buffers := (descriptor_buffers q)
          [l := (descriptor_buffers q ! l)\<lparr>next_desc := of_nat i\<rparr>, i := (descriptor_buffers q ! i)\<lparr>next_desc := -1\<rparr>],
        descriptor_table := (descriptor_table q)
          [l := (descriptor_table q ! l)\<lparr>desc_next := of_nat i, desc_flags := desc_flags (descriptor_table q ! l) OR NEXT\<rparr>,
           i := \<lparr>phys_address = fIOVMAddr s, length_bytes = ucast (fLength s),
                  desc_flags = (if w then DEVICE_WRITABLE else 0), desc_next = 0xffff\<rparr>]\<rparr>)
     (c\<lparr>current_last_descriptor_index := of_nat i, reserved_descriptor_index := UINT16_MAX\<rparr>) 
     [] fs (ch @ [i]) (sws @ [(s, w)])"
proof -
  note bd = building_bounds [OF b]
  have i: "i < queue_size q" "i \<notin> set ch" "i \<notin> set fs" "i < 32768" "i < length (descriptor_table q)" "i < length (descriptor_buffers q)"
    using bd(3-5) bd(6) [of i] b by (auto simp: building_def)
  have dc: "distinct ch" "distinct fs" "set fs \<inter> set ch = {}" using b by (auto simp: building_def)
  have lch: "l \<in> set ch" using ne by (simp add: l_def)
  with dc have l: "l \<notin> set fs" by auto
  have dl: "desc_list (descriptor_buffers q) (of_nat (hd ch)) ch"
    and cw: "chain_written (descriptor_table q) ch sws"
    using b ne by (auto simp: building_def)
  show ?thesis
    unfolding building_def
  proof (intro conjI, goal_cases)
    case 1
    then show ?case using b i l by (auto simp: building_def free_pool_def queue_wf_def desc_list_update_outside)
  next
    case 2
    then show ?case using b by (simp add: building_def same_rings_def)
  next
    case 3
    have "l \<noteq> i" using i(2) lch by auto
    then show ?case using b by (simp add: building_def)
  next
    case 9
    then show ?case using desc_list_snoc [OF dl ne i(2) i(6) i(4)] ne by (simp add: l_def)
  next
    case 10
    then show ?case using chain_written_snoc [OF cw ne i(2) dc(1) i(5)] by (simp add: l_def)
  next
    case 11
    from b have "\<forall>j. j \<notin> set ch \<longrightarrow> descriptor_buffers q ! j = descriptor_buffers q0 ! j
                              \<and> descriptor_table q ! j = descriptor_table q0 ! j"
      unfolding building_def by blast
    moreover have "l \<noteq> j" if "j \<notin> set ch" for j using that lch by auto
    ultimately show ?case by auto
    qed (use b i in \<open>auto simp: building_def\<close>)
qed

lemma building_first:
  assumes b: "building q0 q c [i] fs [] sws"
  shows "building q0
     (q\<lparr>descriptor_buffers := (descriptor_buffers q) [i := (descriptor_buffers q ! i)\<lparr>next_desc := -1\<rparr>],
        descriptor_table := (descriptor_table q)
          [i := \<lparr>phys_address = fIOVMAddr s, length_bytes = ucast (fLength s),
                  desc_flags = (if w then DEVICE_WRITABLE else 0), desc_next = 0xffff\<rparr>]\<rparr>)
     (c\<lparr>current_last_descriptor_index := of_nat i, reserved_descriptor_index := UINT16_MAX\<rparr>) 
     [] fs [i] (sws @ [(s, w)])"
proof -
  note bd = building_bounds [OF b]
  have i: "i < queue_size q" "i \<notin> set fs" "i < 32768" "i < length (descriptor_table q)" "i < length (descriptor_buffers q)"
    using bd(3-5) bd(6) [of i] b by (auto simp: building_def)
  have "chain_written (descriptor_table q) [] sws" using b by (simp add: building_def)
  then have [simp]: "sws = []" by (cases sws) auto
  have eq: "descriptor_buffers q ! i = descriptor_buffers q0 ! i" using b by (simp add: building_def)
  show ?thesis
    unfolding building_def
  proof (intro conjI, goal_cases)
    case 1
    then show ?case using b i by (auto simp: building_def free_pool_def queue_wf_def desc_list_update_outside)
  next
    case 2
    then show ?case using b by (simp add: building_def same_rings_def)
    qed (use b i in \<open>auto simp: building_def i16_nonneg_iff\<close>)
qed

lemma building_output:
  assumes b: "building q0 q c pend fs ch sws" and pf: "pend @ fs = i # rest"
  shows "\<exists>q' c'. outputVringDescSegment s (q, c) = Some (q', c')
     \<and> building q0 q' c' [] rest (ch @ [i]) (sws @ [(s, chain_device_writable c)])
     \<and> chain_device_writable c' = chain_device_writable c"
proof -
  obtain q1 c1 where t: "take_descriptor q c = Some (of_nat i, q1, c1)"
     "building q0 q1 (c1\<lparr>reserved_descriptor_index := of_nat i\<rparr>) [i] rest ch sws"
     "reserved_descriptor_index c1 = UINT16_MAX"
     "chain_device_writable c1 = chain_device_writable c"
    using building_take [OF b pf] .
  have c1: "c1\<lparr>reserved_descriptor_index := of_nat i, current_last_descriptor_index := of_nat i,
       reserved_descriptor_index := UINT16_MAX\<rparr> = c1\<lparr>current_last_descriptor_index := of_nat i\<rparr>"
    using t(3) by (cases c1) simp
  note bd = building_bounds [OF t(2)]
  have i: "i < queue_size q1" "i < 32768" "i < length (descriptor_buffers q1)" "i < length (descriptor_table q1)"
    using bd(3-5) bd(6) [of i] by auto
  have cl: "current_last_descriptor_index c1 = (if ch = [] then UINT16_MAX else of_nat (last ch))"
    using t(2) by (simp add: building_def)
  show ?thesis
  proof (cases "ch = []")
    case True
    then show ?thesis
      using building_first [OF t(2) [unfolded True], where s = s and w = "chain_device_writable c"] t(4) i cl c1
      by (simp add: outputVringDescSegment_unfold [OF t(1) i(2)] fill_vring_descriptor_None)
  next
    case False
    have l: "last ch < queue_size q1" "last ch \<noteq> i" using bd(6) [of "last ch"] t(2) False by (auto simp: building_def)
    then have l': "last ch < length (descriptor_buffers q1)" "last ch < length (descriptor_table q1)"
      "last ch < 65536" "(of_nat (last ch) :: u16) \<noteq> UINT16_MAX"
      using bd(3-5) of_nat_u16_neq_max [of "last ch"] by auto
    show ?thesis
      using building_append [OF t(2) False, where s = s and w = "chain_device_writable c"] t(4) i cl c1 l l' False
      by (simp add: outputVringDescSegment_unfold [OF t(1) i(2)] fill_vring_descriptor_Some)
  qed
qed

lemma building_output_all:
  assumes "building q0 q c pend fs ch sws" "length segs \<le> length (pend @ fs)" "segs \<noteq> []"
  shows "\<exists>q' c'. foldM outputVringDescSegment segs (q, c) = Some (q', c')
     \<and> building q0 q' c' [] (drop (length segs) (pend @ fs)) (ch @ take (length segs) (pend @ fs))
          (sws @ map (\<lambda>s. (s, chain_device_writable c)) segs)
     \<and> chain_device_writable c' = chain_device_writable c"
  using assms
proof (induction segs arbitrary: q c pend fs ch sws)
  case (Cons s segs)
  then obtain i rest where pf: "pend @ fs = i # rest" by (cases "pend @ fs") auto
  obtain q1 c1 where 1: "outputVringDescSegment s (q, c) = Some (q1, c1)"
     "building q0 q1 c1 [] rest (ch @ [i]) (sws @ [(s, chain_device_writable c)])"
     "chain_device_writable c1 = chain_device_writable c"
    using building_output [OF Cons.prems(1) pf] by blast
  show ?case
  proof (cases "segs = []")
    case True
    with 1 pf show ?thesis by simp
  next
    case False
    with Cons.IH [OF 1(2)] Cons.prems(2) pf 1 show ?thesis by simp
  qed
qed simp

definition modify_nth_buffer :: "nat \<Rightarrow> (VirtioBuffer \<Rightarrow> VirtioBuffer) \<Rightarrow> VirtioVirtqueue \<Rightarrow> VirtioVirtqueue" where
  "modify_nth_buffer i f q =
     q\<lparr>descriptor_buffers := (descriptor_buffers q)[i := f (descriptor_buffers q ! i)]\<rparr>"

lemma modify_buffer_eq: "i < length (descriptor_buffers q) \<Longrightarrow> modify_buffer i f q = Some (modify_nth_buffer i f q)"
  by (simp add: modify_buffer_def modify_nth_buffer_def)

text \<open>Changing the fields of a buffer that do not link it.\<close>

definition keeps_link :: "(VirtioBuffer \<Rightarrow> VirtioBuffer) \<Rightarrow> bool" where
  "keeps_link f \<longleftrightarrow> (\<forall>b. next_desc (f b) = next_desc b) \<and> (\<forall>b. erase_next (f b) = f (erase_next b))"

lemma building_modify:
  assumes b: "building q0 q c pend fs ch sws" and f: "keeps_link f" and i: "i < queue_size q"
  shows "building (modify_nth_buffer i f q0) (modify_nth_buffer i f q) c pend fs ch sws"
proof -
  have len: "length (descriptor_buffers q0) = length (descriptor_buffers q)"
    using b by (metis building_def length_map)
  have eq: "erase_next (descriptor_buffers q0 ! i) = erase_next (descriptor_buffers q ! i)"
    using b i building_bounds(4) [OF b] len by (metis building_def nth_map)
  have dl: "desc_list ((descriptor_buffers q)[i := f (descriptor_buffers q ! i)]) d is = desc_list (descriptor_buffers q) d is" for d "is"
    using f i building_bounds(4) [OF b] by (intro desc_list_cong) (auto simp: keeps_link_def nth_list_update)
  have "free_pool (modify_nth_buffer i f q) fs" using b
    by (simp add: building_def free_pool_def queue_wf_def modify_nth_buffer_def dl)
  moreover have "map erase_next ((descriptor_buffers q)[i := f (descriptor_buffers q ! i)])
    = map erase_next ((descriptor_buffers q0)[i := f (descriptor_buffers q0 ! i)])"
    using b eq f by (simp add: building_def map_update keeps_link_def)
  moreover have "(descriptor_buffers q)[i := f (descriptor_buffers q ! i)] ! j
      = (descriptor_buffers q0)[i := f (descriptor_buffers q0 ! i)] ! j" if "j \<notin> set ch" for j
  proof -
    have "descriptor_buffers q ! j = descriptor_buffers q0 ! j" using b that unfolding building_def by blast
    then show ?thesis using i building_bounds(4) [OF b] len by (simp add: nth_list_update)
  qed
  ultimately show ?thesis
    using b by (clarsimp simp: building_def same_rings_def modify_nth_buffer_def dl)
qed

lemma building_start:
  "free_pool q fs \<Longrightarrow> building q q \<lparr>reserved_descriptor_index = UINT16_MAX,
     current_last_descriptor_index = UINT16_MAX, chain_device_writable = w\<rparr> [] fs [] []"
  by (auto simp: building_def same_rings_def free_pool_distinct free_pool_less)

lemma building_chain_writable:
  "building q0 q (c\<lparr>chain_device_writable := w\<rparr>) pend fs ch sws = building q0 q c pend fs ch sws"
  by (simp add: building_def)

text \<open>Reserving, setting up and filling the descriptors of one part of a request.\<close>

lemma building_part:
  assumes b: "building q0 q c [] (i # fs) ch sws" and f: "keeps_link f"
    and w: "chain_device_writable c = w"
    and segs: "length segs \<le> Suc (length fs)" "segs \<noteq> []"
  shows "\<exists>q1 q2 c2. reserveNewDescriptor q = Some (of_nat i, q1) \<and> i < 32768
     \<and> modify_buffer i f q1 = Some (modify_nth_buffer i f q1)
     \<and> foldM outputVringDescSegment segs (modify_nth_buffer i f q1, c\<lparr>reserved_descriptor_index := of_nat i\<rparr>) = Some (q2, c2)
     \<and> building (modify_nth_buffer i f q0) q2 c2 [] (drop (length segs) (i # fs))
         (ch @ take (length segs) (i # fs)) (sws @ map (\<lambda>s. (s, w)) segs)"
proof -
  obtain q1 where q1: "reserveNewDescriptor q = Some (of_nat i, q1)"
    "building q0 q1 (c\<lparr>reserved_descriptor_index := of_nat i\<rparr>) [i] fs ch sws"
    using b by (rule building_reserve)
  note bd = building_bounds [OF q1(2)]
  have i: "i < queue_size q1" "i < 32768" using bd(3) bd(6) [of i] by auto
  have m: "modify_buffer i f q1 = Some (modify_nth_buffer i f q1)"
    using i bd(4) by (simp add: modify_buffer_eq)
  show ?thesis
    using building_output_all [OF building_modify [OF q1(2) f i(1)], of segs] q1(1) i(2) m segs w
    by auto
qed

end
