(* ===== verification/Virtqueue_Setup.thy ===== *)
theory Virtqueue_Setup
  imports Virtqueue
begin

text \<open>
  The virtqueue that \<^verbatim>\<open>setupVirtqueue\<close> of VirtioLegacyPCIDevice.cpp leaves behind once its
  allocations have succeeded: zeroed shared memory, one buffer per descriptor, and a list of unused
  descriptors that links all of them in order.
\<close>

section \<open>Definitions\<close>

definition zero_desc :: VirtioVringDesc where
  "zero_desc = \<lparr>phys_address = 0, length_bytes = 0, desc_flags = 0, desc_next = 0\<rparr>"

definition zero_used_elem :: VirtioVringUsedElement where
  "zero_used_elem = \<lparr>descriptor_id = 0, written_bytes = 0\<rparr>"

definition null_completion :: VirtioCompletion where
  "null_completion = \<lparr>comp_action = NullAction, comp_target = 0, comp_ref = 0\<rparr>"

text \<open>A buffer after the allocation loop: DMA commands without a memory descriptor and, on a queue
  with indirect descriptors, a table of \<^verbatim>\<open>indirect_desc_per_request\<close> entries.\<close>

definition new_buffer :: "bool \<Rightarrow> u32 \<Rightarrow> VirtioBuffer" where
  "new_buffer use_indirect indirect_desc_per_request =
     \<lparr>dma_cmd = None, completion = null_completion, next_desc = 0, dma_cmd_used = False,
      indirect_descriptors =
        (if use_indirect
         then Some \<lparr>ind_array = replicate (unat indirect_desc_per_request) zero_desc,
                    ind_length = ucast indirect_desc_per_request * 16\<rparr>
         else None),
      dma_indirect_descriptors = None, dma_cmd_2 = None\<rparr>"

definition init_free_list :: "nat \<Rightarrow> VirtioBuffer list \<Rightarrow> VirtioBuffer list option" where
  "init_free_list n bufs =
     foldM (\<lambda>i bufs. array_modify bufs i
              (\<lambda>b. b\<lparr>next_desc := (if i = n - 1 then -1 else of_nat (i + 1))\<rparr>)) [0..<n] bufs"

definition init_virtqueue :: "u16 \<Rightarrow> bool \<Rightarrow> bool \<Rightarrow> u32 \<Rightarrow> VirtioVirtqueue option" where
  "init_virtqueue num_queue_entries interrupts_enabled use_indirect indirect_desc_per_request = do {
     let n = unat num_queue_entries;
     bufs \<leftarrow> init_free_list n (replicate n (new_buffer use_indirect indirect_desc_per_request));
     Some \<lparr>num_entries = ucast num_queue_entries,
           descriptor_table = replicate n zero_desc,
           available_ring = \<lparr>avail_flags = (if interrupts_enabled then 0 else NO_INTERRUPT),
                             avail_head_index = 0, avail_ring = replicate n 0\<rparr>,
           used_ring = \<lparr>used_flags = 0, used_head_index = 0,
                        used_elems = replicate n zero_used_elem\<rparr>,
           used_ring_last_head_index = 0,
           descriptor_buffers = bufs,
           interrupts_requested = interrupts_enabled,
           uses_indirect_descriptors = use_indirect,
           first_unused_descriptor_index = 0,
           num_unused_descriptors = ucast num_queue_entries\<rparr>
   }"

section \<open>The list of unused descriptors\<close>

lemma init_free_list_eq:
  assumes "length bufs = n"
  shows "init_free_list n bufs =
    Some (map (\<lambda>i. (bufs ! i)\<lparr>next_desc := (if i = n - 1 then -1 else of_nat (i + 1))\<rparr>) [0..<n])"
  using foldM_array_modify [of "\<lambda>i b. b\<lparr>next_desc := (if i = n - 1 then -1 else of_nat (i + 1))\<rparr>" bufs]
  by (simp only: init_free_list_def assms)

lemma desc_list_ascending:
  assumes "length bufs = n" "n \<le> 32768"
    "\<And>i. i < n \<Longrightarrow> next_desc (bufs ! i) = (if i = n - 1 then -1 else of_nat (i + 1))" "m < n"
  shows "desc_list bufs (of_nat m) [m..<n]"
  using assms(4)
proof (induction "n - m" arbitrary: m)
  case (Suc k)
  have m: "\<not> i16_neg (of_nat m)" "unat (of_nat m :: u16) = m"
    using Suc.prems assms(2) by (simp_all add: i16_neg_iff)
  show ?case
  proof (cases "Suc m = n")
    case True
    then have "[m..<n] = [m]" using upt_rec [of m n] by simp
    with m assms(3) [of m] Suc.prems assms(1) True [symmetric] show ?thesis by simp
  next
    case False
    then have "desc_list bufs (of_nat (Suc m)) [Suc m..<n]" using Suc.hyps(2) Suc.prems
      by (intro Suc.hyps(1)) auto
    moreover have "next_desc (bufs ! m) = of_nat (Suc m)" using assms(3) [of m] Suc.prems False by simp
    ultimately show ?thesis using m Suc.prems assms(1) by (simp add: upt_conv_Cons)
  qed
qed simp

text \<open>A new queue: all descriptors are unused, and no chain is in use.\<close>

lemma init_virtqueue_inv:
  assumes "is_pow2 n" "n \<noteq> 0"
  obtains q where "init_virtqueue n ie ind per = Some q" "queue_inv q [0..<unat n] []"
    "unat (num_entries q) = unat n" "interrupts_requested q = ie" "uses_indirect_descriptors q = ind"
proof -
  obtain k where k: "k < 16" "unat n = 2 ^ k" using pow2_u16_cases [OF assms] .
  have le: "unat n \<le> 32768" using k power_increasing [of k 15 "2::nat"] by simp
  have pos: "0 < unat n" using k by simp
  let ?b = "new_buffer ind per"
  let ?bufs = "map (\<lambda>i. (replicate (unat n) ?b ! i)\<lparr>next_desc := (if i = unat n - 1 then -1
      else of_nat (i + 1))\<rparr>) [0..<unat n]"
  have bufs: "init_free_list (unat n) (replicate (unat n) ?b) = Some ?bufs"
    by (simp only: init_free_list_eq length_replicate)
  have "desc_list ?bufs (of_nat 0) [0..<unat n]"
    by (rule desc_list_ascending) (use le pos in auto)
  then have "desc_list ?bufs 0 [0..<unat n]" by simp
  moreover have "\<exists>k \<le> 15. unat n = 2 ^ k" using k by (intro exI [of _ k]) simp
  moreover obtain q where q: "init_virtqueue n ie ind per = Some q" by (simp add: init_virtqueue_def bufs Let_def)
  ultimately have "queue_inv q [0..<unat n] []"
    by (auto simp: init_virtqueue_def bufs Let_def queue_inv_def free_pool_def queue_wf_def atLeast0LessThan)
  then show ?thesis
    by (rule that [OF q]) (use q in \<open>auto simp: init_virtqueue_def bufs Let_def\<close>)
qed

end
