(* ===== verification/Virtqueue_Direct.thy ===== *)
theory Virtqueue_Direct
  imports Virtqueue_Chain Virtqueue_Setup
begin

text \<open>
  Correctness of \<^verbatim>\<open>submitBuffersToVirtqueueDirect\<close>: a successful submission publishes exactly the
  segments of the request, a failing one takes the chain back, and every submission to a well-formed
  queue is memory safe and returns. The last theorem is about the one path on which the clean-up
  loop destroys the list of unused descriptors.
\<close>

section \<open>The two parts of a request\<close>

text \<open>What IOKit's DMA layer does with a buffer: it accepts it and hands over a non-empty list of at
  most \<open>n\<close> segments; \<open>result\<close> is what the submission functions make of the code and the
  offset returned.\<close>

definition dma_outcome ::
    "dma_env \<Rightarrow> IOMemoryDescriptor \<Rightarrow> u32 \<Rightarrow> Segment64 list \<Rightarrow> IOReturn \<Rightarrow> bool" where
  "dma_outcome env buf n segs result \<longleftrightarrow>
     set_md env buf = kIOReturnSuccess \<and> segs \<noteq> [] \<and> length segs \<le> unat n
     \<and> (case gen_segs env buf n of (res, off, segs') \<Rightarrow>
          segs' = segs
          \<and> result = (if res \<noteq> kIOReturnSuccess then res
                       else if off \<noteq> md_length buf then kIOReturnInternalError
                       else kIOReturnSuccess))"

definition dma_emits :: "dma_env \<Rightarrow> IOMemoryDescriptor option \<Rightarrow> u32 \<Rightarrow> Segment64 list \<Rightarrow> bool" where
  "dma_emits env buf n segs \<longleftrightarrow>
     (if md_nonempty buf then dma_outcome env (the buf) n segs kIOReturnSuccess else segs = [])"

definition mark_readable :: "IOMemoryDescriptor \<Rightarrow> VirtioCompletion \<Rightarrow> VirtioBuffer \<Rightarrow> VirtioBuffer" where
  "mark_readable buf compl b = b\<lparr>completion := compl, dma_cmd_used := True, dma_cmd := Some buf\<rparr>"

definition mark_writable ::
    "IOMemoryDescriptor \<Rightarrow> VirtioCompletion \<Rightarrow> bool \<Rightarrow> VirtioBuffer \<Rightarrow> VirtioBuffer" where
  "mark_writable buf compl no_reads b =
     (if no_reads then b\<lparr>completion := compl\<rparr> else b)\<lparr>dma_cmd_used := True, dma_cmd := Some buf\<rparr>"

abbreviation unmark :: "VirtioBuffer \<Rightarrow> VirtioBuffer" where
  "unmark \<equiv> (\<lambda>b. b\<lparr>dma_cmd := None, dma_cmd_used := False\<rparr>)"

lemma keeps_link_mark [simp]:
  "keeps_link (mark_readable buf compl)" "keeps_link (mark_writable buf compl b)" "keeps_link unmark"
  by (auto simp: keeps_link_def mark_readable_def mark_writable_def erase_next_def)

lemma direct_readable_segments:
  assumes b: "building q0 q c [] (i # fs) [] []" and w: "\<not> chain_device_writable c"
    and out: "dma_outcome env buf (num_unused_descriptors q - m) rs result"
    and len: "length rs \<le> Suc (length fs)"
  shows "\<exists>q2 c2. direct_readable env q c buf compl m =
      (if result = kIOReturnSuccess then Some (Inr (q2, c2, of_nat i))
       else do { q3 \<leftarrow> modify_buffer i unmark q2; q4 \<leftarrow> release_chain id q3 (of_nat i);
                 Some (Inl (result, q4)) })
    \<and> building (modify_nth_buffer i (mark_readable buf compl) q0) q2 c2 []
         (drop (length rs) (i # fs)) (take (length rs) (i # fs)) (map (\<lambda>s. (s, False)) rs)"
proof -
  obtain res off where e: "set_md env buf = kIOReturnSuccess"
     "gen_segs env buf (num_unused_descriptors q - m) = (res, off, rs)" "rs \<noteq> []"
     "result = (if res \<noteq> kIOReturnSuccess then res
        else if off \<noteq> md_length buf then kIOReturnInternalError else kIOReturnSuccess)"
    using out by (auto simp: dma_outcome_def)
  let ?f = "mark_readable buf compl"
  obtain q1 q2 c2 where s: "reserveNewDescriptor q = Some (of_nat i, q1)" "i < 32768"
     "modify_buffer i ?f q1 = Some (modify_nth_buffer i ?f q1)"
     "foldM outputVringDescSegment rs (modify_nth_buffer i ?f q1,
         c\<lparr>reserved_descriptor_index := of_nat i\<rparr>) = Some (q2, c2)"
     "building (modify_nth_buffer i ?f q0) q2 c2 [] (drop (length rs) (i # fs))
         (take (length rs) (i # fs)) (map (\<lambda>s. (s, False)) rs)"
    using building_part [OF b keeps_link_mark(1) _ len e(3), of False buf compl] w by auto
  have i: "\<not> i16_neg (of_nat i)" "unat (of_nat i :: u16) = i" using s(2) by (simp_all add: i16_neg_iff)
  show ?thesis
    by (rule exI [where x = q2], rule exI [where x = c2])
       (use s e i in \<open>simp add: direct_readable_def mark_readable_def [abs_def]\<close>)
qed

lemma direct_writable_segments:
  assumes b: "building q0 q c [] (i # fs) ch sws"
    and out: "dma_outcome env buf (num_unused_descriptors q) ws result"
    and len: "length ws \<le> Suc (length fs)"
    and first: "first = (if ch = [] then UINT16_MAX else of_nat (hd ch))"
  shows "\<exists>q2 c2. direct_writable env q c buf compl first =
      (if result = kIOReturnSuccess then Some (Inr (q2, c2, of_nat (hd (ch @ [i]))))
       else do { q3 \<leftarrow> modify_buffer i unmark q2;
                 q4 \<leftarrow> release_chain clear_dma q3 (of_nat (hd (ch @ [i])));
                 Some (Inl (result, q4)) })
    \<and> building (modify_nth_buffer i (mark_writable buf compl (ch = [])) q0) q2 c2 []
         (drop (length ws) (i # fs)) (ch @ take (length ws) (i # fs)) (sws @ map (\<lambda>s. (s, True)) ws)"
proof -
  obtain res off where e: "set_md env buf = kIOReturnSuccess"
     "gen_segs env buf (num_unused_descriptors q) = (res, off, ws)" "ws \<noteq> []"
     "result = (if res \<noteq> kIOReturnSuccess then res
        else if off \<noteq> md_length buf then kIOReturnInternalError else kIOReturnSuccess)"
    using out by (auto simp: dma_outcome_def)
  have no_reads: "first = UINT16_MAX \<longleftrightarrow> ch = []"
  proof (cases ch)
    case (Cons j js)
    then have "j < 65535" using building_bounds(3) [OF b] building_bounds(6) [OF b, of j] by simp
    then show ?thesis using first Cons of_nat_u16_neq_max [of j] by simp
  qed (simp add: first)
  have wr: "chain_device_writable (c\<lparr>chain_device_writable := True\<rparr>) = True" by simp
  let ?f = "mark_writable buf compl (ch = [])"
  obtain q1 q2 c2 where s: "reserveNewDescriptor q = Some (of_nat i, q1)" "i < 32768"
     "modify_buffer i ?f q1 = Some (modify_nth_buffer i ?f q1)"
     "foldM outputVringDescSegment ws (modify_nth_buffer i ?f q1,
         c\<lparr>chain_device_writable := True, reserved_descriptor_index := of_nat i\<rparr>) = Some (q2, c2)"
     "building (modify_nth_buffer i ?f q0) q2 c2 [] (drop (length ws) (i # fs))
         (ch @ take (length ws) (i # fs)) (sws @ map (\<lambda>s. (s, True)) ws)"
    using building_part [OF building_chain_writable [THEN iffD2, OF b] keeps_link_mark(2)
        wr len e(3), of buf compl "ch = []"]
    by (elim exE conjE) (erule that, assumption+)
  have i: "\<not> i16_neg (of_nat i)" "unat (of_nat i :: u16) = i" using s(2) by (simp_all add: i16_neg_iff)
  have hd: "(if ch = [] then of_nat i else first) = of_nat (hd (ch @ [i]))"
    using first by (cases ch) auto
  show ?thesis
    by (rule exI [where x = q2], rule exI [where x = c2])
       (use s e in \<open>simp add: direct_writable_def no_reads i hd mark_writable_def [abs_def]\<close>)
qed

section \<open>A chain that is complete\<close>

lemma building_inv:
  assumes inv: "queue_inv q (ch @ rest) chs" and ne: "ch \<noteq> []"
    and b: "building q0 q' c [] rest ch sws"
    and agree: "num_entries q0 = num_entries q"
      "\<And>j. j \<notin> set (ch @ rest) \<Longrightarrow> descriptor_buffers q0 ! j = descriptor_buffers q ! j"
  shows "queue_inv q' rest (ch # chs)"
proof -
  have size: "queue_size q' = queue_size q"
    using b agree(1) by (simp add: building_def same_rings_def)
  have len: "length (descriptor_buffers q') = length (descriptor_buffers q)"
    using queue_inv_wf [OF inv] building_bounds(4) [OF b] size by (simp add: queue_wf_def)
  have out: "descriptor_buffers q' ! j = descriptor_buffers q ! j" if "j \<notin> set (ch @ rest)" for j
    using that b agree(2) [OF that] by (simp add: building_def)
  have others: "c \<noteq> [] \<and> desc_list (descriptor_buffers q') (of_nat (hd c)) c" if "c \<in> set chs" for c
  proof -
    have "\<forall>j \<in> set c. j \<notin> set (ch @ rest)" using inv that unfolding queue_inv_def by force
    then have "desc_list (descriptor_buffers q') (of_nat (hd c)) c
        = desc_list (descriptor_buffers q) (of_nat (hd c)) c"
      using len out by (intro desc_list_cong) auto
    then show ?thesis using inv that by (simp add: queue_inv_def)
  qed
  have "desc_list (descriptor_buffers q') (of_nat (hd ch)) ch" and "free_pool q' rest"
    using b ne by (auto simp: building_def)
  moreover have "distinct (rest @ concat (ch # chs))" "set (rest @ concat (ch # chs)) = {..<queue_size q}"
    using inv by (auto simp: queue_inv_def)
  ultimately show ?thesis using ne others size by (simp add: queue_inv_def)
qed

lemma add_to_ring_ok:
  assumes "queue_wf q"
  shows "virtio_virtqueue_add_descriptor_to_ring q d = Some (q\<lparr>available_ring :=
     (available_ring q)\<lparr>avail_ring := (avail_ring (available_ring q))
        [unat (avail_head_index (available_ring q)) mod queue_size q := d],
      avail_head_index := avail_head_index (available_ring q) + 1\<rparr>\<rparr>)"
proof -
  have "num_entries q \<noteq> 0" using queue_wf_bounds(1) [OF assms] by auto
  moreover have "unat (ucast (avail_head_index (available_ring q)) mod num_entries q)
     = unat (avail_head_index (available_ring q)) mod queue_size q"
    by (simp add: unat_mod_distrib unat_ucast_u16)
  moreover have "unat (avail_head_index (available_ring q)) mod queue_size q < length (avail_ring (available_ring q))"
    using assms queue_wf_bounds(1) [OF assms] by (simp add: queue_wf_def)
  ultimately show ?thesis by (simp add: virtio_virtqueue_add_descriptor_to_ring_def Let_def)
qed

lemma queue_inv_publish:
  "queue_inv q fs chs \<Longrightarrow> queue_inv (q\<lparr>available_ring := (available_ring q)\<lparr>avail_ring := (avail_ring (available_ring q))[i := d], avail_head_index := h\<rparr>\<rparr>) fs chs"
  by (simp add: queue_inv_def free_pool_def queue_wf_def)

section \<open>Both parts\<close>

text \<open>The first half of \<^const>\<open>direct_parts\<close>.\<close>

definition readable_phase where
  "readable_phase env q r compl m = (
     let chain = \<lparr>reserved_descriptor_index = UINT16_MAX,
                  current_last_descriptor_index = UINT16_MAX, chain_device_writable = False\<rparr>
     in if md_nonempty r then direct_readable env q chain (the r) compl (m - 1)
        else Some (Inr (q, chain, UINT16_MAX)))"

lemma direct_parts_readable_early:
  "readable_phase env q r compl m = Some (Inl early) \<Longrightarrow> direct_parts env q r w compl m = Some (Inl early)"
  by (simp add: direct_parts_def readable_phase_def Let_def)

lemma direct_parts_writable:
  "readable_phase env q r compl m = Some (Inr (q1, c1, first)) \<Longrightarrow>
   direct_parts env q r w compl m =
     (if md_nonempty w then direct_writable env q1 c1 (the w) compl first
      else Some (Inr (q1, c1, first)))"
  by (simp add: direct_parts_def readable_phase_def Let_def)

definition marked_readable where
  "marked_readable r compl fs q =
     (if md_nonempty r then modify_nth_buffer (hd fs) (mark_readable (the r) compl) q else q)"

lemma min_descs_minus: "md_nonempty r \<Longrightarrow> min_descs r w - 1 = (if md_nonempty w then 1 else 0)"
  by (simp add: min_descs_def)

lemma enough_descriptors:
  assumes "free_pool q fs" "min_descs r w \<le> num_unused_descriptors q"
  shows "(if md_nonempty r then 1 else 0) + (if md_nonempty w then 1 else 0) \<le> length fs"
    "unat (num_unused_descriptors q - (if md_nonempty w then 1 else 0))
       = length fs - (if md_nonempty w then 1 else 0)"
proof -
  have n: "unat (num_unused_descriptors q) = length fs" using assms by (simp add: free_pool_def)
  show *: "(if md_nonempty r then 1 else 0) + (if md_nonempty w then 1 else 0) \<le> length fs"
    using assms(2) n by (auto simp: min_descs_def word_le_nat_alt split: if_splits)
  then show "unat (num_unused_descriptors q - (if md_nonempty w then 1 else 0))
       = length fs - (if md_nonempty w then 1 else 0)"
    using n by (auto simp: unat_sub word_le_nat_alt split: if_splits)
qed

lemma readable_phase_ok:
  assumes pool: "free_pool q fs" and enough: "min_descs r w \<le> num_unused_descriptors q"
    and rs: "dma_emits env r (num_unused_descriptors q - (if md_nonempty w then 1 else 0)) rs"
  obtains q1 c1 where
    "readable_phase env q r compl (min_descs r w)
       = Some (Inr (q1, c1, if take (length rs) fs = [] then UINT16_MAX
                            else of_nat (hd (take (length rs) fs))))"
    "building (marked_readable r compl fs q) q1 c1 [] (drop (length rs) fs) (take (length rs) fs)
       (map (\<lambda>s. (s, False)) rs)"
    "num_unused_descriptors q1 = num_unused_descriptors q - of_nat (length rs)"
    "length rs + (if md_nonempty w then 1 else 0) \<le> length fs"
    "md_nonempty r \<longleftrightarrow> rs \<noteq> []"
proof -
  note e = enough_descriptors [OF pool enough]
  have lr: "length rs + (if md_nonempty w then 1 else 0) \<le> length fs" "md_nonempty r \<longleftrightarrow> rs \<noteq> []"
    using rs e by (auto simp: dma_emits_def dma_outcome_def split: if_splits)
  have R: "\<exists>q1 c1. readable_phase env q r compl (min_descs r w)
       = Some (Inr (q1, c1, if take (length rs) fs = [] then UINT16_MAX
                            else of_nat (hd (take (length rs) fs))))
     \<and> building (marked_readable r compl fs q) q1 c1 [] (drop (length rs) fs) (take (length rs) fs)
         (map (\<lambda>s. (s, False)) rs)"
  proof (cases "md_nonempty r")
    case True
    then obtain i fs' where fs: "fs = i # fs'" using e by (cases fs) auto
    obtain buf where r: "r = Some buf" using True by (cases r) (auto simp: md_nonempty_def)
    have "length rs \<le> Suc (length fs')" using lr fs by simp
    then show ?thesis
      using direct_readable_segments [OF building_start [OF pool [unfolded fs]], of False env buf
          "min_descs r w - 1" rs kIOReturnSuccess compl] rs True lr
      by (simp add: r fs min_descs_minus dma_emits_def readable_phase_def marked_readable_def Let_def hd_take)
  next
    case False
    then show ?thesis
      using building_start [OF pool] lr by (simp add: readable_phase_def marked_readable_def Let_def)
  qed
  then obtain q1 c1 where q1: "readable_phase env q r compl (min_descs r w)
       = Some (Inr (q1, c1, if take (length rs) fs = [] then UINT16_MAX
                            else of_nat (hd (take (length rs) fs))))"
    "building (marked_readable r compl fs q) q1 c1 [] (drop (length rs) fs) (take (length rs) fs)
         (map (\<lambda>s. (s, False)) rs)"
    by blast
  have "unat (num_unused_descriptors q1) = unat (num_unused_descriptors q - of_nat (length rs))"
    using q1(2) lr(1) pool by (simp add: building_def free_pool_def unat_minus_of_nat)
  then have "num_unused_descriptors q1 = num_unused_descriptors q - of_nat (length rs)"
    by (simp only: word_unat_eq_iff)
  with q1 lr show ?thesis by (intro that)
qed

lemma writable_phase:
  assumes pool: "free_pool q fs" and enough: "min_descs r w \<le> num_unused_descriptors q"
    and rs: "dma_emits env r (num_unused_descriptors q - (if md_nonempty w then 1 else 0)) rs"
    and w: "md_nonempty w"
    and ws: "dma_outcome env (the w) (num_unused_descriptors q - of_nat (length rs)) ws result"
  defines "k \<equiv> length (rs @ ws)"
  shows "\<exists>q2 c2. direct_parts env q r w compl (min_descs r w) =
      (if result = kIOReturnSuccess then Some (Inr (q2, c2, of_nat (hd fs)))
       else do { q3 \<leftarrow> modify_buffer (fs ! length rs) unmark q2;
                 q4 \<leftarrow> release_chain clear_dma q3 (of_nat (hd fs));
                 Some (Inl (result, q4)) })
    \<and> building (modify_nth_buffer (fs ! length rs) (mark_writable (the w) compl (rs = []))
          (marked_readable r compl fs q)) q2 c2 [] (drop k fs) (take k fs)
        (map (\<lambda>s. (s, False)) rs @ map (\<lambda>s. (s, True)) ws)
    \<and> length rs < k \<and> k \<le> length fs"
proof -
  obtain q1 c1 where q1:
    "readable_phase env q r compl (min_descs r w)
       = Some (Inr (q1, c1, if take (length rs) fs = [] then UINT16_MAX
                            else of_nat (hd (take (length rs) fs))))"
    "building (marked_readable r compl fs q) q1 c1 [] (drop (length rs) fs) (take (length rs) fs)
       (map (\<lambda>s. (s, False)) rs)"
    "num_unused_descriptors q1 = num_unused_descriptors q - of_nat (length rs)"
    "length rs + (if md_nonempty w then 1 else 0) \<le> length fs"
    "md_nonempty r \<longleftrightarrow> rs \<noteq> []"
    using readable_phase_ok [OF pool enough rs] by blast
  have len: "length rs < length fs" using q1(4) w by simp
  then obtain fs' where fs: "drop (length rs) fs = (fs ! length rs) # fs'"
    using Cons_nth_drop_Suc [OF len] by metis
  have n: "unat (num_unused_descriptors q1) = length fs - length rs"
    using q1(2) by (simp add: building_def free_pool_def)
  have lw: "length rs + length ws \<le> length fs" "ws \<noteq> []" "length ws \<le> Suc (length fs')"
    using ws n len arg_cong [OF fs, of length] unfolding length_drop length_Cons
    by (auto simp: dma_outcome_def q1(3) [symmetric])
  have tk: "(take (length rs) fs = []) = (rs = [])" using len by auto
  have hd: "hd (take (length rs) fs @ [fs ! length rs]) = hd fs"
    using len by (cases rs; cases fs) auto
  have k1: "drop (length ws) (fs ! length rs # fs') = drop k fs"
    "take (length rs) fs @ take (length ws) (fs ! length rs # fs') = take k fs"
    unfolding fs [symmetric] k_def by (simp_all add: take_add add.commute)
  obtain q2 c2 where q2: "direct_writable env q1 c1 (the w) compl (if take (length rs) fs = [] then UINT16_MAX
                            else of_nat (hd (take (length rs) fs))) =
      (if result = kIOReturnSuccess then Some (Inr (q2, c2, of_nat (hd fs)))
       else do { q3 \<leftarrow> modify_buffer (fs ! length rs) unmark q2;
                 q4 \<leftarrow> release_chain clear_dma q3 (of_nat (hd fs));
                 Some (Inl (result, q4)) })"
    "building (modify_nth_buffer (fs ! length rs) (mark_writable (the w) compl (rs = []))
          (marked_readable r compl fs q)) q2 c2 [] (drop k fs) (take k fs)
        (map (\<lambda>s. (s, False)) rs @ map (\<lambda>s. (s, True)) ws)"
    using direct_writable_segments [OF q1(2) [unfolded fs] ws [folded q1(3)] lw(3) refl, of compl]
    unfolding k1 tk hd by (elim exE conjE)
  have "length rs < k" "k \<le> length fs" using lw by (auto simp: k_def)
  with q2 show ?thesis unfolding direct_parts_writable [OF q1(1)] using w by auto
qed

lemma building_buffers:
  assumes "building q0 q c pend fs ch sws"
  shows "length (descriptor_buffers q) = length (descriptor_buffers q0)"
    "j < length (descriptor_buffers q)
     \<Longrightarrow> erase_next (descriptor_buffers q ! j) = erase_next (descriptor_buffers q0 ! j)"
proof -
  have eq: "map erase_next (descriptor_buffers q) = map erase_next (descriptor_buffers q0)"
    using assms by (simp add: building_def)
  then show len: "length (descriptor_buffers q) = length (descriptor_buffers q0)"
    by (rule map_eq_imp_length_eq)
  show "erase_next (descriptor_buffers q ! j) = erase_next (descriptor_buffers q0 ! j)"
    if "j < length (descriptor_buffers q)"
    using arg_cong [OF eq, of "\<lambda>xs. xs ! j"] that len by simp
qed

text \<open>A chain that was built is given back as a whole when the submission fails.\<close>

lemma building_rollback:
  assumes inv: "queue_inv q (ch @ rest) chs" and ne: "ch \<noteq> []" and i: "i \<in> set ch"
    and b: "building q0 q' c [] rest ch sws" and g: "keeps_link g"
    and agree: "same_rings q q0"
      "\<And>j. j \<notin> set (ch @ rest) \<Longrightarrow> descriptor_buffers q0 ! j = descriptor_buffers q ! j"
  obtains q1 q2 where "modify_buffer i unmark q' = Some q1"
    "release_chain g q1 (of_nat (hd ch)) = Some q2"
    "queue_inv q2 (rev ch @ rest) chs" "same_rings q q2"
    "\<And>j. j \<in> set ch \<Longrightarrow> erase_next (descriptor_buffers q2 ! j)
       = g (erase_next ((if j = i then unmark else id) (descriptor_buffers q0 ! j)))"
proof -
  have iq: "i < queue_size q'" "i < length (descriptor_buffers q')"
    using building_bounds(4) [OF b] building_bounds(6) [OF b, of i] i by auto
  let ?q1 = "modify_nth_buffer i unmark q'" and ?q0 = "modify_nth_buffer i unmark q0"
  have m: "modify_buffer i unmark q' = Some ?q1" using iq by (simp add: modify_buffer_eq)
  have b1: "building ?q0 ?q1 c [] rest ch sws"
    using building_modify [OF b keeps_link_mark(3) iq(1)] .
  have inv1: "queue_inv ?q1 rest (ch # chs)"
  proof (rule building_inv [OF inv ne b1])
    show "num_entries ?q0 = num_entries q" using agree(1) by (simp add: modify_nth_buffer_def same_rings_def)
    show "descriptor_buffers ?q0 ! j = descriptor_buffers q ! j" if "j \<notin> set (ch @ rest)" for j
    proof -
      have "i \<noteq> j" using that i by auto
      then show ?thesis using agree(2) [OF that] by (simp add: modify_nth_buffer_def)
    qed
  qed
  have "same_rings ?q0 ?q1" using b1 unfolding building_def by (elim conjE)
  then have rings: "same_rings q ?q1" using agree(1) by (simp add: same_rings_def modify_nth_buffer_def)
  obtain q2 where r: "release_chain g ?q1 (of_nat (hd ch)) = Some q2" "queue_inv q2 (rev ch @ rest) chs"
      "num_entries q2 = num_entries ?q1" "descriptor_table q2 = descriptor_table ?q1"
      "available_ring q2 = available_ring ?q1" "used_ring q2 = used_ring ?q1"
      "used_ring_last_head_index q2 = used_ring_last_head_index ?q1"
      "interrupts_requested q2 = interrupts_requested ?q1"
      "uses_indirect_descriptors q2 = uses_indirect_descriptors ?q1"
      "\<forall>i. i \<notin> set ch \<longrightarrow> descriptor_buffers q2 ! i = descriptor_buffers ?q1 ! i"
      "\<forall>j \<in> set ch. \<exists>n. descriptor_buffers q2 ! j = (g (descriptor_buffers ?q1 ! j))\<lparr>next_desc := n\<rparr>"
    by (rule release_chain_inv [OF inv1, of g])
  have "same_rings q q2" using rings r by (simp add: same_rings_def)
  moreover have "erase_next (descriptor_buffers q2 ! j)
       = g (erase_next ((if j = i then unmark else id) (descriptor_buffers q0 ! j)))" if j: "j \<in> set ch" for j
  proof -
    have len: "length (descriptor_buffers ?q1) = length (descriptor_buffers ?q0)"
      by (rule building_buffers(1) [OF b1])
    have jq: "j < length (descriptor_buffers ?q1)"
      using building_bounds(4) [OF b1] building_bounds(6) [OF b1, of j] j by simp
    have "erase_next (descriptor_buffers ?q1 ! j) = erase_next (descriptor_buffers ?q0 ! j)"
      by (rule building_buffers(2) [OF b1 jq])
    moreover have "descriptor_buffers ?q0 ! j = (if j = i then unmark else id) (descriptor_buffers q0 ! j)"
      using jq len by (simp add: modify_nth_buffer_def)
    moreover obtain n where "descriptor_buffers q2 ! j = (g (descriptor_buffers ?q1 ! j))\<lparr>next_desc := n\<rparr>"
      using r(11) j by blast
    ultimately show ?thesis
      using g unfolding keeps_link_def by simp
  qed
  ultimately show ?thesis by (rule that [OF m r(1) r(2)])
qed

section \<open>Successful submission\<close>

text \<open>
  How the device reads a chain (virtio 0.9.5, section 2.3.2): starting at the head, it follows the
  \<^verbatim>\<open>next\<close> field as long as the \<^verbatim>\<open>NEXT\<close> flag is set. The first argument bounds the number of
  descriptors; a chain cannot have more descriptors than the table.
\<close>

fun device_read_chain ::
    "nat \<Rightarrow> VirtioVringDesc list \<Rightarrow> u16 \<Rightarrow> (u64 \<times> u32 \<times> bool) list option" where
  "device_read_chain 0 tbl d = None"
| "device_read_chain (Suc n) tbl d = do {
     desc \<leftarrow> array_read tbl (unat d);
     rest \<leftarrow> (if has_bits (desc_flags desc) NEXT then device_read_chain n tbl (desc_next desc)
              else Some []);
     Some ((phys_address desc, length_bytes desc, has_bits (desc_flags desc) DEVICE_WRITABLE) # rest)
   }"

definition seg_view :: "bool \<Rightarrow> Segment64 \<Rightarrow> u64 \<times> u32 \<times> bool" where
  "seg_view w s = (fIOVMAddr s, ucast (fLength s), w)"

lemma device_read_chain_written:
  "chain_written tbl ch sws \<Longrightarrow> ch \<noteq> [] \<Longrightarrow> length ch \<le> n \<Longrightarrow> \<forall>i \<in> set ch. i < 65536 \<Longrightarrow>
   device_read_chain n tbl (of_nat (hd ch)) = Some (map (\<lambda>(s, w). seg_view w s) sws)"
proof (induction tbl ch sws arbitrary: n rule: chain_written.induct)
  case (2 tbl i s w)
  then show ?case by (cases n) (auto simp: seg_view_def has_bits_def)
next
  case (3 tbl i j "is" s w sw sws)
  then obtain m where n: "n = Suc m" by (cases n) auto
  have "device_read_chain m tbl (of_nat (hd (j # is))) = Some (map (\<lambda>(s, w). seg_view w s) (sw # sws))"
    using 3 n by (intro "3.IH") auto
  then show ?case using 3 n by (auto simp: seg_view_def has_bits_def)
qed auto

lemma mark_writable_completion:
  "completion (mark_writable buf compl no_reads b) = (if no_reads then compl else completion b)"
  by (simp add: mark_writable_def)

definition request_base ::
    "IOMemoryDescriptor option \<Rightarrow> IOMemoryDescriptor option \<Rightarrow> VirtioCompletion \<Rightarrow> nat list
     \<Rightarrow> Segment64 list \<Rightarrow> VirtioVirtqueue \<Rightarrow> VirtioVirtqueue" where
  "request_base r w compl fs rs q =
     (if md_nonempty w
      then modify_nth_buffer (fs ! length rs) (mark_writable (the w) compl (rs = []))
             (marked_readable r compl fs q)
      else marked_readable r compl fs q)"

lemma request_base:
  assumes "length rs + (if md_nonempty w then 1 else 0) \<le> length fs" "fs \<noteq> []"
    "md_nonempty r \<longleftrightarrow> rs \<noteq> []" "distinct fs" "\<forall>i \<in> set fs. i < length (descriptor_buffers q)"
  shows "same_rings q (request_base r w compl fs rs q)"
    "j \<notin> set fs \<Longrightarrow> descriptor_buffers (request_base r w compl fs rs q) ! j = descriptor_buffers q ! j"
    "md_nonempty r \<or> md_nonempty w \<Longrightarrow>
       completion (descriptor_buffers (request_base r w compl fs rs q) ! hd fs) = compl"
proof -
  show "same_rings q (request_base r w compl fs rs q)"
    by (simp add: request_base_def marked_readable_def same_rings_def modify_nth_buffer_def)
  show "descriptor_buffers (request_base r w compl fs rs q) ! j = descriptor_buffers q ! j"
    if "j \<notin> set fs"
  proof -
    have "hd fs \<noteq> j" "md_nonempty w \<Longrightarrow> fs ! length rs \<noteq> j"
      using that assms(1,2) nth_mem [of "length rs" fs] by (auto split: if_splits)
    then show ?thesis by (auto simp: request_base_def marked_readable_def modify_nth_buffer_def)
  qed
  have hd: "hd fs < length (descriptor_buffers q)" "hd fs = fs ! 0"
    using assms(2,5) by (auto simp: hd_conv_nth)
  have "md_nonempty w \<Longrightarrow> rs \<noteq> [] \<Longrightarrow> fs ! length rs \<noteq> fs ! 0"
    using assms(1,2,4) by (simp add: nth_eq_iff_index_eq)
  then show "completion (descriptor_buffers (request_base r w compl fs rs q) ! hd fs) = compl"
    if "md_nonempty r \<or> md_nonempty w"
    using that assms(3) hd
    by (cases "rs = []"; cases "md_nonempty w")
       (auto simp: request_base_def marked_readable_def modify_nth_buffer_def mark_readable_def
         mark_writable_completion)
qed

lemma direct_parts_ok:
  assumes pool: "free_pool q fs" and ne: "md_nonempty r \<or> md_nonempty w"
    and enough: "min_descs r w \<le> num_unused_descriptors q"
    and rs: "dma_emits env r (num_unused_descriptors q - (if md_nonempty w then 1 else 0)) rs"
    and ws: "dma_emits env w (num_unused_descriptors q - of_nat (length rs)) ws"
  defines "k \<equiv> length (rs @ ws)"
  obtains q2 c2 where
    "direct_parts env q r w compl (min_descs r w) = Some (Inr (q2, c2, of_nat (hd fs)))"
    "building (request_base r w compl fs rs q) q2 c2 [] (drop k fs) (take k fs)
        (map (\<lambda>s. (s, False)) rs @ map (\<lambda>s. (s, True)) ws)"
    "length rs + (if md_nonempty w then 1 else 0) \<le> length fs"
    "md_nonempty r \<longleftrightarrow> rs \<noteq> []" "0 < k" "k \<le> length fs"
proof -
  obtain q1 c1 where q1:
    "readable_phase env q r compl (min_descs r w)
       = Some (Inr (q1, c1, if take (length rs) fs = [] then UINT16_MAX
                            else of_nat (hd (take (length rs) fs))))"
    "building (marked_readable r compl fs q) q1 c1 [] (drop (length rs) fs) (take (length rs) fs)
       (map (\<lambda>s. (s, False)) rs)"
    "num_unused_descriptors q1 = num_unused_descriptors q - of_nat (length rs)"
    "length rs + (if md_nonempty w then 1 else 0) \<le> length fs"
    "md_nonempty r \<longleftrightarrow> rs \<noteq> []"
    by (rule readable_phase_ok [OF pool enough rs])
  show ?thesis
  proof (cases "md_nonempty w")
    case True
    with ws have "dma_outcome env (the w) (num_unused_descriptors q - of_nat (length rs)) ws kIOReturnSuccess"
      by (simp add: dma_emits_def)
    from writable_phase [OF pool enough rs True this, of compl] True q1(4,5) show ?thesis
      by (auto simp: request_base_def k_def intro: that)
  next
    case False
    then have [simp]: "ws = []" using ws by (simp add: dma_emits_def)
    have "direct_parts env q r w compl (min_descs r w) = Some (Inr (q1, c1, of_nat (hd fs)))"
      using False q1(4,5) ne by (auto simp: direct_parts_writable [OF q1(1)] hd_take)
    then show ?thesis
      by (rule that) (use False q1 ne in \<open>auto simp: request_base_def k_def\<close>)
  qed
qed

lemma direct_guards:
  assumes "queue_inv q fs chs" "md_nonempty r \<or> md_nonempty w" "min_descs r w \<le> num_unused_descriptors q"
  shows "\<not> num_entries q < min_descs r w" "min_descs r w \<noteq> 0" "\<not> num_unused_descriptors q < min_descs r w"
proof -
  have "length fs \<le> queue_size q"
    using assms(1) distinct_card [of fs] card_mono [of "{..<queue_size q}" "set fs"]
    by (auto simp: queue_inv_def)
  then have "num_unused_descriptors q \<le> num_entries q"
    using assms(1) by (simp add: queue_inv_def free_pool_def word_le_nat_alt)
  then show "\<not> num_entries q < min_descs r w" using assms(3) by simp
qed (use assms in \<open>auto simp: min_descs_def\<close>)

lemma submit_direct_ok:
  assumes inv: "queue_inv q fs chs" and ne: "md_nonempty r \<or> md_nonempty w"
    and enough: "min_descs r w \<le> num_unused_descriptors q"
    and rs: "dma_emits env r (num_unused_descriptors q - (if md_nonempty w then 1 else 0)) rs"
    and ws: "dma_emits env w (num_unused_descriptors q - of_nat (length rs)) ws"
  shows "\<exists>q'. submitBuffersToVirtqueueDirect env q r w compl =
        Some (kIOReturnSuccess, q', \<not> has_bits (used_flags (used_ring q)) NO_NOTIFY)
     \<and> queue_inv q' (drop (length (rs @ ws)) fs) (take (length (rs @ ws)) fs # chs)
     \<and> device_read_chain (queue_size q) (descriptor_table q') (of_nat (hd fs))
         = Some (map (seg_view False) rs @ map (seg_view True) ws)
     \<and> available_ring q' = (available_ring q)
         \<lparr>avail_ring := (avail_ring (available_ring q))
            [unat (avail_head_index (available_ring q)) mod queue_size q := of_nat (hd fs)],
          avail_head_index := avail_head_index (available_ring q) + 1\<rparr>
     \<and> completion (descriptor_buffers q' ! hd fs) = compl
     \<and> fs \<noteq> [] \<and> num_entries q' = num_entries q
     \<and> used_ring_last_head_index q' = used_ring_last_head_index q"
proof -
  define k where "k = length (rs @ ws)"
  have pool: "free_pool q fs" using inv by (simp add: queue_inv_def)
  let ?q0 = "request_base r w compl fs rs q"
  let ?sws = "map (\<lambda>s. (s, False)) rs @ map (\<lambda>s. (s, True)) ws"
  obtain q2 c2 where q2:
    "direct_parts env q r w compl (min_descs r w) = Some (Inr (q2, c2, of_nat (hd fs)))"
    "building ?q0 q2 c2 [] (drop k fs) (take k fs) ?sws"
    "length rs + (if md_nonempty w then 1 else 0) \<le> length fs"
    "md_nonempty r \<longleftrightarrow> rs \<noteq> []" "0 < k" "k \<le> length fs"
    using direct_parts_ok [OF pool ne enough rs ws, of compl] unfolding k_def by metis
  have fs: "fs \<noteq> []" "hd (take k fs) = hd fs" "take k fs \<noteq> []" using q2(5,6) by (auto simp: hd_take)
  have small: "\<forall>i \<in> set fs. i < length (descriptor_buffers q)"
    using free_pool_less [OF pool] queue_inv_wf [OF inv] by (simp add: queue_wf_def)
  note base = request_base [OF q2(3) fs(1) q2(4) free_pool_distinct [OF pool] small,
      where compl = compl]
  have rings: "same_rings q q2" using base(1) q2(2) by (auto simp: building_def same_rings_def)
  have inv2: "queue_inv q2 (drop k fs) (take k fs # chs)"
    by (rule building_inv [OF _ fs(3) q2(2)])
       (use inv base(1,2) in \<open>auto simp: same_rings_def simp flip: set_append\<close>)
  have size: "queue_size q2 = queue_size q" using rings by (simp add: same_rings_def)
  have "hd fs < length (descriptor_buffers q2)"
    using building_bounds(4,6) [OF q2(2)] fs by (metis append_Nil append_is_Nil_conv hd_in_set in_set_conv_decomp append_take_drop_id Un_iff set_append)
  from building_buffers(2) [OF q2(2) this]
  have compl: "completion (descriptor_buffers q2 ! hd fs) = compl"
    using base(3) [OF ne] by (metis erase_next_def VirtioBuffer.ext_inject VirtioBuffer.surjective VirtioBuffer.update_convs(3))
  have "device_read_chain (queue_size q) (descriptor_table q2) (of_nat (hd (take k fs)))
      = Some (map (\<lambda>(s, w). seg_view w s) ?sws)"
  proof (rule device_read_chain_written [OF _ fs(3)])
    show "chain_written (descriptor_table q2) (take k fs) ?sws" using q2(2) by (simp add: building_def)
    have "length (take k fs) = card (set (take k fs))" "set (take k fs) \<subseteq> {..<queue_size q2}"
      using q2(2) distinct_card [of "take k fs"] by (auto simp: building_def)
    then show "length (take k fs) \<le> queue_size q"
      using card_mono [of "{..<queue_size q2}" "set (take k fs)"] size by simp
    show "\<forall>i \<in> set (take k fs). i < 65536"
      using building_bounds(3,6) [OF q2(2)] by fastforce
  qed
  then have view: "device_read_chain (queue_size q) (descriptor_table q2) (of_nat (hd fs))
      = Some (map (seg_view False) rs @ map (seg_view True) ws)"
    using fs(2) by (simp add: comp_def)
  show ?thesis
    using q2(1) direct_guards [OF inv ne enough] inv2 compl view rings fs(1)
      queue_inv_publish [OF inv2]
    unfolding k_def [symmetric]
    by (simp add: submitBuffersToVirtqueueDirect_def Let_def add_to_ring_ok [OF queue_inv_wf [OF inv2]]
        same_rings_def)
qed

text \<open>
  C1. Successful direct submission. When the DMA layer hands over segments for the device-readable
  and for the device-writable buffer within the limits given to it, \<^verbatim>\<open>submitBuffersToVirtqueueDirect\<close>
  succeeds; what the device reads from the table, starting at the head published in the next slot of the
  available ring, is the list of readable segments followed by the list of writable ones; the chain
  takes as many descriptors as there are segments from the front of the unused list, the completion
  is recorded at its head, and unused descriptors and chains still partition the table.
\<close>

theorem submit_direct_publishes:
  assumes inv: "queue_inv q fs chs" and ne: "md_nonempty r \<or> md_nonempty w"
    and enough: "min_descs r w \<le> num_unused_descriptors q"
    and rs: "dma_emits env r (num_unused_descriptors q - (if md_nonempty w then 1 else 0)) rs"
    and ws: "dma_emits env w (num_unused_descriptors q - of_nat (length rs)) ws"
  shows "\<exists>q'. submitBuffersToVirtqueueDirect env q r w compl =
        Some (kIOReturnSuccess, q', \<not> has_bits (used_flags (used_ring q)) NO_NOTIFY)
     \<and> queue_inv q' (drop (length (rs @ ws)) fs) (take (length (rs @ ws)) fs # chs)
     \<and> device_read_chain (queue_size q) (descriptor_table q') (of_nat (hd fs))
         = Some (map (seg_view False) rs @ map (seg_view True) ws)
     \<and> available_ring q' = (available_ring q)
         \<lparr>avail_ring := (avail_ring (available_ring q))
            [unat (avail_head_index (available_ring q)) mod queue_size q := of_nat (hd fs)],
          avail_head_index := avail_head_index (available_ring q) + 1\<rparr>
     \<and> completion (descriptor_buffers q' ! hd fs) = compl"
  using submit_direct_ok [OF assms, of compl] by blast

section \<open>Failing submission\<close>

lemma keeps_link_clear_dma [simp]: "keeps_link clear_dma" "keeps_link id"
  by (auto simp: keeps_link_def clear_dma_def erase_next_def)

lemma dma_cmd_used_clear_dma: "erase_next b = clear_dma b' \<Longrightarrow> \<not> dma_cmd_used b"
  by (auto simp: clear_dma_def erase_next_def split: if_splits dest: arg_cong [of _ _ dma_cmd_used])


section \<open>Memory safety and termination\<close>

lemma retire_all_total:
  assumes "\<forall>i \<in> set is. i < length (descriptor_buffers q) \<and> i < 65536"
  obtains q' where "foldM (\<lambda>i q. retire g q (of_nat i)) is q = Some q'"
    "num_unused_descriptors q' = num_unused_descriptors q + of_nat (length is)"
    "num_entries q' = num_entries q"
proof -
  have "\<exists>q'. foldM (\<lambda>i q. retire g q (of_nat i)) is q = Some q'
    \<and> num_unused_descriptors q' = num_unused_descriptors q + of_nat (length is)
    \<and> num_entries q' = num_entries q"
    using assms
  proof (induction "is" arbitrary: q)
    case (Cons i "is")
    define q1 where "q1 = the (retire g q (of_nat i))"
    have q1: "retire g q (of_nat i) = Some q1" "length (descriptor_buffers q1) = length (descriptor_buffers q)"
      "num_unused_descriptors q1 = num_unused_descriptors q + 1" "num_entries q1 = num_entries q"
      using Cons.prems by (auto simp: retire_eq q1_def)
    then show ?case using Cons.IH [of q1] Cons.prems by auto
  qed simp
  then show ?thesis using that by blast
qed

lemma release_chain_total:
  assumes "desc_list (descriptor_buffers q) d is" "length (descriptor_buffers q) \<le> 32768"
  obtains q' where "release_chain g q d = Some q'"
    "num_unused_descriptors q' = num_unused_descriptors q + of_nat (length is)"
    "num_entries q' = num_entries q"
proof -
  have "\<forall>i \<in> set is. i < length (descriptor_buffers q) \<and> i < 65536"
    using desc_list_less [OF assms(1)] assms(2) by fastforce
  then obtain q' where "foldM (\<lambda>i q. retire g q (of_nat i)) is q = Some q'"
    "num_unused_descriptors q' = num_unused_descriptors q + of_nat (length is)"
    "num_entries q' = num_entries q"
    by (rule retire_all_total)
  moreover have "release_chain g q d = foldM (\<lambda>i q. retire g q (of_nat i)) is q"
    using assms by (intro release_chain_eq_foldM) auto
  ultimately show ?thesis by (intro that [of q']) simp_all
qed

lemma desc_list_modify:
  assumes "keeps_link f"
  shows "desc_list (descriptor_buffers (modify_nth_buffer i f q)) d is = desc_list (descriptor_buffers q) d is"
proof (cases "i < length (descriptor_buffers q)")
  case True
  then show ?thesis
    using assms by (intro desc_list_cong) (auto simp: modify_nth_buffer_def keeps_link_def nth_list_update)
qed (simp add: modify_nth_buffer_def list_update_beyond)

text \<open>A reserved descriptor is still linked to the rest of the unused ones.\<close>

lemma building_reserve_linked:
  assumes b: "building q0 q c [] (i # fs) ch sws" and f: "keeps_link f"
  obtains q1 where "reserveNewDescriptor q = Some (of_nat i, q1)" "i < 32768"
    "modify_buffer i f q1 = Some (modify_nth_buffer i f q1)"
    "building (modify_nth_buffer i f q0) (modify_nth_buffer i f q1)
       (c\<lparr>reserved_descriptor_index := of_nat i\<rparr>) [i] fs ch sws"
    "desc_list (descriptor_buffers (modify_nth_buffer i f q1)) (of_nat i) (i # fs)"
    "num_unused_descriptors q1 = num_unused_descriptors q - 1"
proof -
  obtain q1 where q1: "reserveNewDescriptor q = Some (of_nat i, q1)"
    "building q0 q1 (c\<lparr>reserved_descriptor_index := of_nat i\<rparr>) [i] fs ch sws"
    by (rule building_reserve [OF b])
  have pool: "free_pool q (i # fs)" using b by (simp add: building_def)
  then have q1_eq: "q1 = q\<lparr>first_unused_descriptor_index := next_desc (descriptor_buffers q ! i),
                   num_unused_descriptors := num_unused_descriptors q - 1\<rparr>"
    using q1(1) reserveNewDescriptor_Cons [OF pool] by simp
  note bd = building_bounds [OF q1(2)]
  have i: "i < queue_size q1" "i < 32768" "i < length (descriptor_buffers q1)"
    using bd(3,4) bd(6) [of i] by auto
  have "desc_list (descriptor_buffers q1) (of_nat i) (i # fs)"
    using pool i by (simp add: free_pool_def q1_eq i16_neg_iff)
  then have "desc_list (descriptor_buffers (modify_nth_buffer i f q1)) (of_nat i) (i # fs)"
    by (simp only: desc_list_modify [OF f])
  then show ?thesis
    by (rule that [OF q1(1) i(2) modify_buffer_eq [OF i(3)] building_modify [OF q1(2) f i(1)]])
       (simp add: q1_eq)
qed

text \<open>The documented bound of \<^verbatim>\<open>genIOVMSegments\<close>: it emits at most as many segments as asked for.\<close>

definition dma_bounded :: "dma_env \<Rightarrow> bool" where
  "dma_bounded env \<longleftrightarrow> (\<forall>md n. length (snd (snd (gen_segs env md n))) \<le> unat n)"

lemma keeps_link_lambdas [simp]:
  "keeps_link (\<lambda>b. b\<lparr>completion := compl, dma_cmd_used := u, dma_cmd := d\<rparr>)"
  "keeps_link (\<lambda>b. (if no_reads then b\<lparr>completion := compl\<rparr> else b)\<lparr>dma_cmd_used := u, dma_cmd := d\<rparr>)"
  by (auto simp: keeps_link_def erase_next_def)

lemma building_segments_total:
  assumes b: "building q0 q c [i] fs ch sws" and len: "length segs \<le> Suc (length fs)"
    and linked: "desc_list (descriptor_buffers q) (of_nat i) (i # fs)"
  obtains q2 c2 pend fs2 ch2 sws2 js where
    "foldM outputVringDescSegment segs (q, c) = Some (q2, c2)"
    "building q0 q2 c2 pend fs2 ch2 sws2" "i \<in> set (pend @ ch2)"
    "segs \<noteq> [] \<longrightarrow> pend = [] \<and> fs2 = drop (length segs) (i # fs) \<and> ch2 = ch @ take (length segs) (i # fs)"
    "desc_list (descriptor_buffers q2) (of_nat (hd (ch @ [i]))) js"
proof (cases "segs = []")
  case True
  have "\<exists>js. desc_list (descriptor_buffers q) (of_nat (hd (ch @ [i]))) js"
  proof (cases ch)
    case Nil
    then show ?thesis using linked by (intro exI [of _ "i # fs"]) simp
  next
    case (Cons j js)
    then show ?thesis using b unfolding building_def by (intro exI [of _ ch]) simp
  qed
  then show ?thesis using True b that [of q c "[i]" fs ch sws] by auto
next
  case False
  then obtain q2 c2 where q2: "foldM outputVringDescSegment segs (q, c) = Some (q2, c2)"
     "building q0 q2 c2 [] (drop (length segs) (i # fs)) (ch @ take (length segs) (i # fs))
          (sws @ map (\<lambda>s. (s, chain_device_writable c)) segs)"
    using building_output_all [OF b, of segs] len by auto
  have hd: "hd (ch @ take (length segs) (i # fs)) = hd (ch @ [i])"
     "ch @ take (length segs) (i # fs) \<noteq> []" "i \<in> set (take (length segs) (i # fs))"
    using False by (cases ch; cases segs; auto)+
  then have "desc_list (descriptor_buffers q2) (of_nat (hd (ch @ [i]))) (ch @ take (length segs) (i # fs))"
    using q2(2) by (metis building_def)
  with q2 hd(3) show ?thesis
    using that [OF q2] by auto
qed

lemma building_release_total:
  assumes b: "building q0 q c pend fs ch sws" and i: "i \<in> set (pend @ ch)" and f: "keeps_link f"
    and l: "desc_list (descriptor_buffers q) d js"
  obtains q1 q2 where "modify_buffer i f q = Some q1" "release_chain g q1 d = Some q2"
proof -
  have "i < length (descriptor_buffers q)" using building_bounds(4) [OF b] building_bounds(6) [OF b, of i] i by auto
  then have m: "modify_buffer i f q = Some (modify_nth_buffer i f q)" by (simp add: modify_buffer_eq)
  have "desc_list (descriptor_buffers (modify_nth_buffer i f q)) d js" using l f by (simp add: desc_list_modify)
  moreover have "length (descriptor_buffers (modify_nth_buffer i f q)) \<le> 32768"
    using building_bounds(3,4) [OF b] by (simp add: modify_nth_buffer_def)
  ultimately show ?thesis using release_chain_total [of "modify_nth_buffer i f q" d js g] that m by metis
qed

lemma returnUnusedDescriptor_total:
  "i < length (descriptor_buffers q) \<Longrightarrow> i < 65536 \<Longrightarrow> \<exists>q'. returnUnusedDescriptor q (of_nat i) = Some q'"
  by (simp add: returnUnusedDescriptor_def)

lemma direct_readable_total:
  assumes b: "building q0 q c [] (i # fs) [] []" and env: "dma_bounded env"
    and m: "unat (num_unused_descriptors q - m) \<le> Suc (length fs)"
  shows "(\<exists>early. direct_readable env q c buf compl m = Some (Inl early))
    \<or> (\<exists>q2 c2 q0' sws2. \<exists>segs :: Segment64 list. direct_readable env q c buf compl m = Some (Inr (q2, c2, of_nat i))
        \<and> segs \<noteq> [] \<and> length segs \<le> unat (num_unused_descriptors q - m)
        \<and> building q0' q2 c2 [] (drop (length segs) (i # fs)) (take (length segs) (i # fs)) sws2)"
proof -
  let ?result = "set_md env buf"
  let ?f = "\<lambda>b. b\<lparr>completion := compl, dma_cmd_used := True,
                dma_cmd := (if ?result = kIOReturnSuccess then Some buf else None)\<rparr>"
  obtain q1 where q1: "reserveNewDescriptor q = Some (of_nat i, q1)" "i < 32768"
    "modify_buffer i ?f q1 = Some (modify_nth_buffer i ?f q1)"
    "building (modify_nth_buffer i ?f q0) (modify_nth_buffer i ?f q1)
       (c\<lparr>reserved_descriptor_index := of_nat i\<rparr>) [i] fs [] []"
    "desc_list (descriptor_buffers (modify_nth_buffer i ?f q1)) (of_nat i) (i # fs)"
    by (rule building_reserve_linked [OF b keeps_link_lambdas(1)])
  have i: "\<not> i16_neg (of_nat i)" "unat (of_nat i :: u16) = i" using q1(2) by (simp_all add: i16_neg_iff)
  show ?thesis
  proof (cases "?result = kIOReturnSuccess")
    case False
    obtain q2 where "returnUnusedDescriptor (modify_nth_buffer i ?f q1) (of_nat i) = Some q2"
      using returnUnusedDescriptor_total [of i "modify_nth_buffer i ?f q1"] q1(2,5) by auto
    then show ?thesis using False q1(1,3) i by (simp add: direct_readable_def)
  next
    case True
    obtain res off segs where g: "gen_segs env buf (num_unused_descriptors q - m) = (res, off, segs)"
      by (cases "gen_segs env buf (num_unused_descriptors q - m)")
    have len: "length segs \<le> unat (num_unused_descriptors q - m)"
      using env g by (metis dma_bounded_def snd_conv)
    obtain q2 c2 pend fs2 ch2 sws2 js where q2:
      "foldM outputVringDescSegment segs (modify_nth_buffer i ?f q1, c\<lparr>reserved_descriptor_index := of_nat i\<rparr>)
         = Some (q2, c2)"
      "building (modify_nth_buffer i ?f q0) q2 c2 pend fs2 ch2 sws2" "i \<in> set (pend @ ch2)"
      "segs \<noteq> [] \<longrightarrow> pend = [] \<and> fs2 = drop (length segs) (i # fs) \<and> ch2 = [] @ take (length segs) (i # fs)"
      "desc_list (descriptor_buffers q2) (of_nat (hd ([] @ [i]))) js"
      by (rule building_segments_total [OF q1(4) order.trans [OF len m] q1(5)])
    show ?thesis
    proof (cases "res \<noteq> kIOReturnSuccess \<or> segs = [] \<or> off \<noteq> md_length buf")
      case bad: True
      obtain q3 q4 where "modify_buffer i unmark q2 = Some q3" "release_chain id q3 (of_nat i) = Some q4"
        using building_release_total [OF q2(2,3) keeps_link_mark(3), of "of_nat i" js id] q2(5) by auto
      then show ?thesis using True q1(1,3) i g q2(1) bad by (simp add: direct_readable_def)
    next
      case False
      show ?thesis
      proof (rule disjI2, rule exI [of _ q2], rule exI [of _ c2], rule exI [of _ "modify_nth_buffer i ?f q0"],
          rule exI [of _ sws2], rule exI [of _ segs], intro conjI)
        show "direct_readable env q c buf compl m = Some (Inr (q2, c2, of_nat i))"
          using True q1(1,3) i g q2(1) False by (simp add: direct_readable_def)
        show "building (modify_nth_buffer i ?f q0) q2 c2 [] (drop (length segs) (i # fs))
            (take (length segs) (i # fs)) sws2"
          using q2(2,4) False by auto
        show "segs \<noteq> []" "length segs \<le> unat (num_unused_descriptors q - m)" using False len by auto
      qed
    qed
  qed
qed

lemma direct_writable_total:
  assumes b: "building q0 q c [] (i # fs) ch sws" and env: "dma_bounded env"
    and first: "first = (if ch = [] then UINT16_MAX else of_nat (hd ch))"
  shows "(\<exists>early. direct_writable env q c buf compl first = Some (Inl early))
    \<or> (\<exists>q2 c2 d. direct_writable env q c buf compl first = Some (Inr (q2, c2, d)) \<and> queue_wf q2)"
proof -
  let ?result = "set_md env buf" and ?no_reads = "first = UINT16_MAX"
  have no_reads: "first = UINT16_MAX \<longleftrightarrow> ch = []"
  proof (cases ch)
    case (Cons j js)
    then have "j < 65535" using building_bounds(3) [OF b] building_bounds(6) [OF b, of j] by simp
    then show ?thesis using first Cons of_nat_u16_neq_max [of j] by simp
  qed (simp add: first)
  let ?d = "if first = UINT16_MAX then of_nat i else first"
  have hd: "?d = of_nat (hd (ch @ [i]))" using first no_reads by (cases ch) auto
  let ?f = "\<lambda>b. (if first = UINT16_MAX then b\<lparr>completion := compl\<rparr> else b)
     \<lparr>dma_cmd_used := True, dma_cmd := (if ?result = kIOReturnSuccess then Some buf else None)\<rparr>"
  obtain q1 where q1: "reserveNewDescriptor q = Some (of_nat i, q1)" "i < 32768"
    "modify_buffer i ?f q1 = Some (modify_nth_buffer i ?f q1)"
    "building (modify_nth_buffer i ?f q0) (modify_nth_buffer i ?f q1)
       (c\<lparr>chain_device_writable := True, reserved_descriptor_index := of_nat i\<rparr>) [i] fs ch sws"
    "desc_list (descriptor_buffers (modify_nth_buffer i ?f q1)) (of_nat i) (i # fs)"
    by (rule building_reserve_linked [OF building_chain_writable [THEN iffD2, OF b] keeps_link_lambdas(2)])
  have i: "\<not> i16_neg (of_nat i)" "unat (of_nat i :: u16) = i" using q1(2) by (simp_all add: i16_neg_iff)
  show ?thesis
  proof (cases "?result = kIOReturnSuccess")
    case False
    have "\<exists>js. desc_list (descriptor_buffers (modify_nth_buffer i ?f q1)) ?d js"
      unfolding hd
    proof (cases ch)
      case Nil
      then show "\<exists>js. desc_list (descriptor_buffers (modify_nth_buffer i ?f q1)) (of_nat (hd (ch @ [i]))) js"
        using q1(5) by (intro exI [of _ "i # fs"]) simp
    next
      case (Cons j js)
      then show "\<exists>js. desc_list (descriptor_buffers (modify_nth_buffer i ?f q1)) (of_nat (hd (ch @ [i]))) js"
        using q1(4) unfolding building_def by (intro exI [of _ ch]) simp
    qed
    then obtain js where js: "desc_list (descriptor_buffers (modify_nth_buffer i ?f q1)) ?d js" ..
    moreover have "length (descriptor_buffers (modify_nth_buffer i ?f q1)) \<le> 32768"
      using building_bounds(3,4) [OF q1(4)] by simp
    ultimately obtain q2 where "release_chain clear_dma (modify_nth_buffer i ?f q1) ?d = Some q2"
      by (rule release_chain_total)
    then show ?thesis using False q1(1,3) i by (simp add: direct_writable_def Let_def)
  next
    case True
    obtain res off segs where g: "gen_segs env buf (num_unused_descriptors q) = (res, off, segs)"
      by (cases "gen_segs env buf (num_unused_descriptors q)")
    have "unat (num_unused_descriptors q) = Suc (length fs)" using b by (simp add: building_def free_pool_def)
    then have len: "length segs \<le> Suc (length fs)"
      using env g by (metis dma_bounded_def snd_conv)
    obtain q2 c2 pend fs2 ch2 sws2 js where q2:
      "foldM outputVringDescSegment segs (modify_nth_buffer i ?f q1,
          c\<lparr>chain_device_writable := True, reserved_descriptor_index := of_nat i\<rparr>) = Some (q2, c2)"
      "building (modify_nth_buffer i ?f q0) q2 c2 pend fs2 ch2 sws2" "i \<in> set (pend @ ch2)"
      "segs \<noteq> [] \<longrightarrow> pend = [] \<and> fs2 = drop (length segs) (i # fs) \<and> ch2 = ch @ take (length segs) (i # fs)"
      "desc_list (descriptor_buffers q2) (of_nat (hd (ch @ [i]))) js"
      by (rule building_segments_total [OF q1(4) len q1(5)])
    show ?thesis
    proof (cases "res \<noteq> kIOReturnSuccess \<or> segs = [] \<or> off \<noteq> md_length buf")
      case bad: True
      obtain q3 q4 where "modify_buffer i unmark q2 = Some q3" "release_chain clear_dma q3 ?d = Some q4"
        using building_release_total [OF q2(2,3) keeps_link_mark(3) q2(5) [folded hd]] by metis
      then show ?thesis using True q1(1,3) i g q2(1) bad by (simp add: direct_writable_def Let_def)
    next
      case False
      have "direct_writable env q c buf compl first = Some (Inr (q2, c2, ?d))"
        using True q1(1,3) i g q2(1) False by (simp add: direct_writable_def Let_def)
      then show ?thesis using building_bounds(1) [OF q2(2)] by blast
    qed
  qed
qed


lemma direct_parts_total:
  assumes pool: "free_pool q fs" and env: "dma_bounded env" and ne: "md_nonempty r \<or> md_nonempty w"
    and enough: "min_descs r w \<le> num_unused_descriptors q"
  shows "\<exists>p. direct_parts env q r w compl (min_descs r w) = Some p
        \<and> (case p of Inl _ \<Rightarrow> True | Inr (q2, _, _) \<Rightarrow> queue_wf q2)"
proof -
  note e = enough_descriptors [OF pool enough]
  let ?c0 = "\<lparr>reserved_descriptor_index = UINT16_MAX,
              current_last_descriptor_index = UINT16_MAX, chain_device_writable = False\<rparr>"
  have W: "\<exists>p. (if md_nonempty w then direct_writable env q1 c1 (the w) compl first
                else Some (Inr (q1, c1, first))) = Some p
        \<and> (case p of Inl _ \<Rightarrow> True | Inr (q2, _, _) \<Rightarrow> queue_wf q2)"
    if b: "building q0 q1 c1 [] fs1 ch sws" and f: "first = (if ch = [] then UINT16_MAX else of_nat (hd ch))"
      and fs1: "md_nonempty w \<Longrightarrow> fs1 \<noteq> []" for q0 q1 c1 fs1 ch sws first
  proof (cases "md_nonempty w")
    case True
    with fs1 obtain i fs' where "fs1 = i # fs'" by (cases fs1) auto
    with direct_writable_total [OF b [unfolded this] env f, of "the w" compl] True show ?thesis by auto
  qed (use building_bounds(1) [OF b] in simp)
  show ?thesis
  proof (cases "md_nonempty r")
    case False
    then have "readable_phase env q r compl (min_descs r w) = Some (Inr (q, ?c0, UINT16_MAX))"
      by (simp add: readable_phase_def Let_def)
    moreover have "md_nonempty w \<Longrightarrow> fs \<noteq> []" using e by auto
    ultimately show ?thesis
      using direct_parts_writable [of env q r compl "min_descs r w" q ?c0 UINT16_MAX w]
        W [OF building_start [OF pool, of False], of UINT16_MAX] by simp
  next
    case True
    then obtain i fs' where fs: "fs = i # fs'" using e by (cases fs) auto
    have m: "unat (num_unused_descriptors q - (min_descs r w - 1)) = length fs - (if md_nonempty w then 1 else 0)"
      using e(2) min_descs_minus [OF True] by simp
    let ?dr = "direct_readable env q ?c0 (the r) compl (min_descs r w - 1)"
    have rp: "readable_phase env q r compl (min_descs r w) = ?dr"
      using True by (simp add: readable_phase_def Let_def)
    from direct_readable_total [OF building_start [OF pool [unfolded fs]] env, of "min_descs r w - 1" False "the r" compl]
    consider (early) early where "?dr = Some (Inl early)"
      | (go) q2 c2 q0' sws2 and segs :: "Segment64 list" where "?dr = Some (Inr (q2, c2, of_nat i))" "segs \<noteq> []"
        "length segs \<le> unat (num_unused_descriptors q - (min_descs r w - 1))"
        "building q0' q2 c2 [] (drop (length segs) fs) (take (length segs) fs) sws2"
      using m fs by auto
    then show ?thesis
    proof cases
      case early
      with direct_parts_readable_early rp show ?thesis by auto
    next
      case go
      have "of_nat i = (if take (length segs) fs = [] then UINT16_MAX else of_nat (hd (take (length segs) fs)) :: u16)"
        using go(2) fs by (simp add: hd_take)
      moreover have "md_nonempty w \<Longrightarrow> drop (length segs) fs \<noteq> []" using go(3) m e(1) True by auto
      ultimately show ?thesis
        using W [OF go(4), of "of_nat i"] direct_parts_writable [OF rp [unfolded go(1)], of w] by simp
    qed
  qed
qed

text \<open>
  C3. Whatever the DMA layer answers, as long as it emits no more segments than asked for, direct
  submission to a well-formed queue returns: it accesses no array out of bounds and its loops end.
\<close>

theorem submit_direct_total:
  assumes inv: "queue_inv q fs chs" and env: "dma_bounded env"
  shows "\<exists>result q' notify. submitBuffersToVirtqueueDirect env q r w compl = Some (result, q', notify)"
proof (cases "md_nonempty r \<or> md_nonempty w")
  case False
  then show ?thesis by (auto simp: submitBuffersToVirtqueueDirect_def min_descs_def Let_def)
next
  case ne: True
  show ?thesis
  proof (cases "min_descs r w \<le> num_unused_descriptors q")
    case False
    then show ?thesis by (auto simp: submitBuffersToVirtqueueDirect_def Let_def)
  next
    case enough: True
    have pool: "free_pool q fs" using inv by (simp add: queue_inv_def)
    note e = enough_descriptors [OF pool enough]
    have "\<exists>p. direct_parts env q r w compl (min_descs r w) = Some p
        \<and> (case p of Inl _ \<Rightarrow> True | Inr (q2, _, _) \<Rightarrow> queue_wf q2)"
      by (rule direct_parts_total [OF pool env ne enough])
    then obtain p where p: "direct_parts env q r w compl (min_descs r w) = Some p"
      "case p of Inl _ \<Rightarrow> True | Inr (q2, _, _) \<Rightarrow> queue_wf q2" by blast
    then show ?thesis
      using direct_guards [OF inv ne enough]
      by (auto simp: submitBuffersToVirtqueueDirect_def Let_def add_to_ring_ok split: sum.splits)
  qed
qed


section \<open>Concrete instances\<close>

text \<open>A DMA layer that maps every buffer to one segment, and one that refuses every buffer; a new
  queue with four descriptors.\<close>

definition linear_dma :: dma_env where
  "linear_dma = \<lparr>set_md = (\<lambda>_. kIOReturnSuccess),
     gen_segs = (\<lambda>md n. if n = 0 then (kIOReturnNoSpace, 0, [])
        else (kIOReturnSuccess, md_length md, [\<lparr>fIOVMAddr = 4096 * of_nat (md_id md), fLength = md_length md\<rparr>]))\<rparr>"

definition refusing_dma :: dma_env where
  "refusing_dma = linear_dma\<lparr>set_md := (\<lambda>_. kIOReturnNoMemory)\<rparr>"

definition short_dma :: dma_env where
  "short_dma = linear_dma\<lparr>gen_segs := (\<lambda>md n. if n = 0 then (kIOReturnNoSpace, 0, [])
     else (kIOReturnSuccess, 1, [\<lparr>fIOVMAddr = 4096, fLength = 1\<rparr>]))\<rparr>"

lemma linear_dma_bounded: "dma_bounded linear_dma"
  by (auto simp: dma_bounded_def linear_dma_def unat_gt_0 Suc_le_eq)

definition queue4 :: VirtioVirtqueue where
  "queue4 = the (init_virtqueue 4 True False 0)"

lemma queue4_inv: "queue_inv queue4 [0, 1, 2, 3] []" "num_unused_descriptors queue4 = 4"
  "used_flags (used_ring queue4) = 0" "num_entries queue4 = 4"
proof -
  have "is_pow2 4" by (simp add: is_pow2_def)
  then obtain q where "init_virtqueue 4 True False 0 = Some q" "queue_inv q [0..<unat (4 :: u16)] []"
    by (rule init_virtqueue_inv) simp
  moreover have "[0..<unat (4 :: u16)] = [0, 1, 2, 3]" by (simp add: upt_rec)
  ultimately show "queue_inv queue4 [0, 1, 2, 3] []" by (simp only: queue4_def option.sel)
  show "num_unused_descriptors queue4 = 4" "used_flags (used_ring queue4) = 0" "num_entries queue4 = 4"
    by (simp_all add: queue4_def init_virtqueue_def Let_def init_free_list_eq)
qed

theorem submit_direct_publishes_witness:
  "\<exists>q'. submitBuffersToVirtqueueDirect linear_dma queue4 (Some \<lparr>md_id = 1, md_length = 16\<rparr>)
          (Some \<lparr>md_id = 2, md_length = 512\<rparr>) null_completion = Some (kIOReturnSuccess, q', True)
     \<and> queue_inv q' [2, 3] [[0, 1]]
     \<and> device_read_chain 4 (descriptor_table q') 0 = Some [(4096, 16, False), (8192, 512, True)]"
  using submit_direct_publishes [OF queue4_inv(1), of "Some \<lparr>md_id = 1, md_length = 16\<rparr>"
      "Some \<lparr>md_id = 2, md_length = 512\<rparr>" linear_dma
      "[\<lparr>fIOVMAddr = 4096, fLength = 16\<rparr>]" "[\<lparr>fIOVMAddr = 8192, fLength = 512\<rparr>]" null_completion]
  by (auto simp: queue4_inv md_nonempty_def min_descs_def dma_emits_def dma_outcome_def linear_dma_def
      seg_view_def has_bits_def)


theorem submit_direct_total_witness:
  "\<exists>result q' notify. submitBuffersToVirtqueueDirect linear_dma queue4 None
     (Some \<lparr>md_id = 2, md_length = 512\<rparr>) null_completion = Some (result, q', notify)"
  by (rule submit_direct_total [OF queue4_inv(1) linear_dma_bounded])


end
