(* ===== verification/Virtqueue_Complete.thy ===== *)
theory Virtqueue_Complete
  imports Virtqueue_Direct
begin

text \<open>
  Completed requests: \<^verbatim>\<open>processCompletedRequestsInVirtqueue\<close> of VirtioLegacyPCIDevice.cpp.

  The device writes the used ring while the driver reads it: \<open>snap k\<close> is what the used ring holds
  at the \<open>k\<close>-th time that the driver reads its head index. A completion action is client code, which
  may submit to the same queue: \<open>act\<close> maps the completion and the number of bytes written to a
  partial transformer of the client's state and the queue.
\<close>

section \<open>Definitions\<close>

type_synonym 's client_action =
  "VirtioCompletion \<Rightarrow> u32 \<Rightarrow> 's \<times> VirtioVirtqueue \<Rightarrow> ('s \<times> VirtioVirtqueue) option"

text \<open>One element of the used ring: the completion is read from the buffer of the descriptor named
  by the device, the chain is returned to the list of unused descriptors, and the completion action
  is called; a null action has no defined result.\<close>

definition complete_one ::
    "'s client_action \<Rightarrow> VirtioVringUsed \<Rightarrow> u16 \<Rightarrow> 's \<times> VirtioVirtqueue
     \<Rightarrow> ('s \<times> VirtioVirtqueue) option" where
  "complete_one act used nextUsedRingIndex = (\<lambda>(s, virtqueue).
     if num_entries virtqueue = 0 then None else do {
       let item = ucast nextUsedRingIndex mod num_entries virtqueue;
       element \<leftarrow> array_read (used_elems used) (unat item);
       let writtenBytes = written_bytes element;
       let dequeuedDescriptor = descriptor_id element;
       buf \<leftarrow> array_read (descriptor_buffers virtqueue) (unat dequeuedDescriptor);
       virtqueue \<leftarrow> release_chain (complete_dma (uses_indirect_descriptors virtqueue)) virtqueue
                      (ucast dequeuedDescriptor);
       if comp_action (completion buf) = NullAction then None
       else act (completion buf) writtenBytes (s, virtqueue)
     })"

function complete_items ::
    "'s client_action \<Rightarrow> VirtioVringUsed \<Rightarrow> u32 \<Rightarrow> u32 \<Rightarrow> u16 \<Rightarrow> u16 \<Rightarrow> 's \<times> VirtioVirtqueue
     \<Rightarrow> (u16 \<times> 's \<times> VirtioVirtqueue) option" where
  "complete_items act used total_handled completion_limit currentUsedRingHeadIndex
     nextUsedRingIndex st =
     (if nextUsedRingIndex \<noteq> currentUsedRingHeadIndex
         \<and> (completion_limit = 0 \<or> total_handled < completion_limit)
      then do {
        st' \<leftarrow> complete_one act used nextUsedRingIndex st;
        complete_items act used total_handled completion_limit currentUsedRingHeadIndex
          (nextUsedRingIndex + 1) st'
      }
      else Some (nextUsedRingIndex, st))"
  by pat_completeness auto
termination
proof (relation "measure (\<lambda>(_, _, _, _, head, next, _). unat (head - next))", goal_cases)
  case (2 act used total limit head "next" st st')
  then have "head - next \<noteq> 0" by auto
  then have "unat (head - next - 1) < unat (head - next)" by (simp add: unat_minus_one unat_gt_0)
  then show ?case by (simp add: algebra_simps)
qed simp

text \<open>
  The body of the outer loop: either the result of the function, or the state for the next round.
  \<open>k\<close> counts the reads of the head index. The variable \<^verbatim>\<open>total_handled\<close> of the source is never
  changed.
\<close>

definition nothing_to_do :: "u32 \<Rightarrow> u32 \<Rightarrow> VirtioVirtqueue \<Rightarrow> bool" where
  "nothing_to_do total_handled completion_limit virtqueue \<longleftrightarrow>
     used_head_index (used_ring virtqueue) - used_ring_last_head_index virtqueue = 0
     \<or> completion_limit \<noteq> 0 \<and> total_handled \<ge> completion_limit"

definition enable_interrupts :: "VirtioVirtqueue \<Rightarrow> VirtioVirtqueue" where
  "enable_interrupts virtqueue =
     (if interrupts_requested virtqueue
      then virtqueue\<lparr>available_ring := (available_ring virtqueue)\<lparr>avail_flags := 0\<rparr>\<rparr>
      else virtqueue)"

definition process_round ::
    "'s client_action \<Rightarrow> (nat \<Rightarrow> VirtioVringUsed) \<Rightarrow> u32 \<Rightarrow> u32 \<Rightarrow> nat \<Rightarrow> 's \<times> VirtioVirtqueue
     \<Rightarrow> ((u32 \<times> 's \<times> VirtioVirtqueue) + (nat \<times> 's \<times> VirtioVirtqueue)) option" where
  "process_round act snap total_handled completion_limit k = (\<lambda>(s, virtqueue).
     let virtqueue = virtqueue\<lparr>used_ring := snap k\<rparr>;
         (k, virtqueue) =
           (if nothing_to_do total_handled completion_limit virtqueue
            then (k + 1, (enable_interrupts virtqueue)\<lparr>used_ring := snap (k + 1)\<rparr>)
            else (k, virtqueue))
     in if nothing_to_do total_handled completion_limit virtqueue
        then Some (Inl (total_handled, s, virtqueue))
        else do {
          (nextUsedRingIndex, s, virtqueue) \<leftarrow>
            complete_items act (used_ring virtqueue) total_handled completion_limit
              (used_head_index (used_ring virtqueue)) (used_ring_last_head_index virtqueue)
              (s, virtqueue);
          Some (Inr (k + 1, s, virtqueue\<lparr>used_ring_last_head_index := nextUsedRingIndex\<rparr>))
        })"

partial_function (option) process_loop ::
    "'s client_action \<Rightarrow> (nat \<Rightarrow> VirtioVringUsed) \<Rightarrow> u32 \<Rightarrow> u32 \<Rightarrow> nat \<Rightarrow> 's \<times> VirtioVirtqueue
     \<Rightarrow> (u32 \<times> 's \<times> VirtioVirtqueue) option" where
  "process_loop act snap total_handled completion_limit k st = do {
     r \<leftarrow> process_round act snap total_handled completion_limit k st;
     case r of
       Inl result \<Rightarrow> Some result
     | Inr (k, st) \<Rightarrow> process_loop act snap total_handled completion_limit k st
   }"

declare process_loop.simps [code]

definition processCompletedRequestsInVirtqueue ::
    "'s client_action \<Rightarrow> (nat \<Rightarrow> VirtioVringUsed) \<Rightarrow> u32 \<Rightarrow> 's \<times> VirtioVirtqueue
     \<Rightarrow> (u32 \<times> 's \<times> VirtioVirtqueue) option" where
  "processCompletedRequestsInVirtqueue act snap completion_limit st =
     process_loop act snap 0 completion_limit 0 st"

declare complete_items.simps [simp del]

lemma complete_items_stop [driver_simps]:
  "complete_items act used n limit head head st = Some (head, st)"
  by (simp add: complete_items.simps)

lemma complete_items_step [driver_simps]:
  "nxt \<noteq> head \<Longrightarrow> limit = 0 \<or> n < limit \<Longrightarrow> complete_one act used nxt st = Some st' \<Longrightarrow>
   complete_items act used n limit head nxt st = complete_items act used n limit head (nxt + 1) st'"
  by (subst complete_items.simps) simp

section \<open>The return value\<close>

lemma process_round_total_handled:
  "process_round act snap n limit k st = Some (Inl r) \<Longrightarrow> fst r = n"
  by (cases st) (auto simp: process_round_def Let_def Option.bind_eq_Some_conv split: if_splits)

lemma process_loop_total_handled:
  "process_loop act snap n limit k st = Some r \<Longrightarrow> fst r = n"
proof (rule process_loop.raw_induct [where P = "\<lambda>act snap n limit k st r. fst r = n"], goal_cases)
  case (1 loop act snap n limit k st r)
  from 1(3) obtain x where x: "process_round act snap n limit k st = Some x"
    "(case x of Inl result \<Rightarrow> Some result | Inr (k, st) \<Rightarrow> loop act snap n limit k st) = Some r"
    by (auto simp: Option.bind_eq_Some_conv)
  show ?case
  proof (cases x)
    case (Inl y)
    with x show ?thesis using process_round_total_handled [of act snap n limit k st y] by simp
  next
    case (Inr y)
    with x show ?thesis using 1(2) by (auto split: prod.splits)
  qed
qed

section \<open>One element of the used ring\<close>

text \<open>The elements that the device has added since the last time.\<close>

definition pending_elements :: "VirtioVringUsed \<Rightarrow> u16 \<Rightarrow> nat \<Rightarrow> VirtioVringUsedElement list" where
  "pending_elements used lst n =
     map (\<lambda>i. used_elems used ! (unat (lst + of_nat i) mod n)) [0..<unat (used_head_index used - lst)]"

lemma keeps_completion_dma [simp]: "completion (complete_dma ind b) = completion b"
  by (simp add: complete_dma_def Let_def)

lemma complete_one_release:
  assumes inv: "queue_inv q fs (chs1 @ ch # chs2)"
    and len: "length (used_elems used) = queue_size q"
    and el: "used_elems used ! (unat nxt mod queue_size q) = el" "descriptor_id el = of_nat (hd ch)"
    and act: "comp_action (completion (descriptor_buffers q ! hd ch)) \<noteq> NullAction"
  obtains q' where
    "complete_one act used nxt (s, q)
       = act (completion (descriptor_buffers q ! hd ch)) (written_bytes el) (s, q')"
    "queue_inv q' (rev ch @ fs) (chs1 @ chs2)"
    "num_entries q' = num_entries q" "used_ring q' = used_ring q"
    "available_ring q' = available_ring q"
    "used_ring_last_head_index q' = used_ring_last_head_index q"
    "interrupts_requested q' = interrupts_requested q"
    "uses_indirect_descriptors q' = uses_indirect_descriptors q"
    "\<And>i. completion (descriptor_buffers q' ! i) = completion (descriptor_buffers q ! i)"
proof -
  have inv': "queue_inv q fs (ch # chs1 @ chs2)" using inv by (rule queue_inv_permute)
  have wf: "queue_wf q" using inv by (rule queue_inv_wf)
  note b = queue_wf_bounds [OF wf]
  have ch: "ch \<noteq> []" "hd ch < queue_size q" using inv' by (auto simp: queue_inv_def)
  have small: "hd ch < 65536" using ch b by simp
  have n0: "num_entries q \<noteq> 0" using b(1) by auto
  have slot: "unat (ucast nxt mod num_entries q) = unat nxt mod queue_size q"
    by (simp add: unat_mod_distrib unat_ucast_u16)
  have lt: "unat nxt mod queue_size q < length (used_elems used)" using b len by simp
  have id: "unat (descriptor_id el) = hd ch" "ucast (descriptor_id el) = (of_nat (hd ch) :: u16)"
    using el(2) small by (simp_all add: unat_of_nat take_bit_nat_eq_self unsigned_of_nat)
  let ?g = "complete_dma (uses_indirect_descriptors q)"
  obtain q' where q': "release_chain ?g q (of_nat (hd ch)) = Some q'"
    "queue_inv q' (rev ch @ fs) (chs1 @ chs2)"
    "num_entries q' = num_entries q" "descriptor_table q' = descriptor_table q"
    "available_ring q' = available_ring q" "used_ring q' = used_ring q"
    "used_ring_last_head_index q' = used_ring_last_head_index q"
    "interrupts_requested q' = interrupts_requested q"
    "uses_indirect_descriptors q' = uses_indirect_descriptors q"
    "\<forall>i. i \<notin> set ch \<longrightarrow> descriptor_buffers q' ! i = descriptor_buffers q ! i"
    "\<forall>i \<in> set ch. \<exists>n. descriptor_buffers q' ! i = (?g (descriptor_buffers q ! i))\<lparr>next_desc := n\<rparr>"
    by (rule release_chain_inv [OF inv', of ?g])
  have compl: "completion (descriptor_buffers q' ! i) = completion (descriptor_buffers q ! i)" for i
    using q'(10,11) by (cases "i \<in> set ch") fastforce+
  have "array_read (descriptor_buffers q) (hd ch) = Some (descriptor_buffers q ! hd ch)"
    using ch wf by (simp add: queue_wf_def)
  then have "complete_one act used nxt (s, q)
       = act (completion (descriptor_buffers q ! hd ch)) (written_bytes el) (s, q')"
    using n0 slot lt el id q'(1) act by (simp add: complete_one_def Let_def)
  then show ?thesis
    by (rule that) (use q' compl in auto)
qed

section \<open>All elements\<close>

lemma pending_elements_rec:
  "pending_elements used lst n =
     (if lst = used_head_index used then []
      else used_elems used ! (unat lst mod n) # pending_elements used (lst + 1) n)"
proof (cases "lst = used_head_index used")
  case False
  then have "used_head_index used - lst \<noteq> 0" by auto
  then have "unat (used_head_index used - lst) = Suc (unat (used_head_index used - (lst + 1)))"
    by (metis diff_diff_eq Suc_pred' unat_gt_0 unat_minus_one)
  then have "[0..<unat (used_head_index used - lst)]
      = 0 # map Suc [0..<unat (used_head_index used - (lst + 1))]"
    by (simp only: upt_conv_Cons map_Suc_upt zero_less_Suc)
  with False show ?thesis
    by (simp add: pending_elements_def add.assoc comp_def)
qed (simp add: pending_elements_def)

text \<open>
  The contract of a client: its completion action returns and keeps the queue well formed; it may
  submit new requests to the queue, but leaves those in flight alone, and it does not touch the used
  ring. Every completion in flight has an action.
\<close>

definition in_flight :: "VirtioVirtqueue \<Rightarrow> nat list list \<Rightarrow> bool" where
  "in_flight q chs \<longleftrightarrow>
     (\<exists>fs. queue_inv q fs chs)
     \<and> (\<forall>ch \<in> set chs. comp_action (completion (descriptor_buffers q ! hd ch)) \<noteq> NullAction)"

definition keeps_in_flight :: "VirtioVirtqueue \<Rightarrow> nat list list \<Rightarrow> VirtioVirtqueue \<Rightarrow> nat list list \<Rightarrow> bool" where
  "keeps_in_flight q chs q' chs' \<longleftrightarrow>
     in_flight q' chs' \<and> set chs \<subseteq> set chs'
     \<and> (\<forall>ch \<in> set chs. completion (descriptor_buffers q' ! hd ch) = completion (descriptor_buffers q ! hd ch))
     \<and> num_entries q' = num_entries q \<and> used_ring q' = used_ring q
     \<and> used_ring_last_head_index q' = used_ring_last_head_index q"

locale completion_client =
  fixes act :: "'s client_action" and cinv :: "'s \<Rightarrow> bool"
  assumes act_keeps: "cinv s \<Longrightarrow> in_flight q chs \<Longrightarrow> comp_action c \<noteq> NullAction \<Longrightarrow>
    \<exists>s' q' chs'. act c n (s, q) = Some (s', q') \<and> cinv s' \<and> keeps_in_flight q chs q' chs'"
begin

lemma complete_one_keeps:
  assumes s: "cinv s" and fl: "in_flight q chs" and ch: "ch \<in> set chs"
    and len: "length (used_elems used) = queue_size q"
    and el: "descriptor_id (used_elems used ! (unat nxt mod queue_size q)) = of_nat (hd ch)"
  shows "\<exists>s' q' chs'. complete_one act used nxt (s, q) = Some (s', q') \<and> cinv s'
     \<and> keeps_in_flight q (remove1 ch chs) q' chs'"
proof -
  obtain chs1 chs2 where split: "chs = chs1 @ ch # chs2" "ch \<notin> set chs1"
    using split_list_first [OF ch] by blast
  obtain fs where inv: "queue_inv q fs (chs1 @ ch # chs2)" using fl split by (auto simp: in_flight_def)
  have a: "comp_action (completion (descriptor_buffers q ! hd ch)) \<noteq> NullAction"
    using fl ch by (simp add: in_flight_def)
  obtain q1 where q1: "complete_one act used nxt (s, q)
       = act (completion (descriptor_buffers q ! hd ch))
           (written_bytes (used_elems used ! (unat nxt mod queue_size q))) (s, q1)"
    "queue_inv q1 (rev ch @ fs) (chs1 @ chs2)"
    "num_entries q1 = num_entries q" "used_ring q1 = used_ring q"
    "available_ring q1 = available_ring q"
    "used_ring_last_head_index q1 = used_ring_last_head_index q"
    "interrupts_requested q1 = interrupts_requested q"
    "uses_indirect_descriptors q1 = uses_indirect_descriptors q"
    "\<And>i. completion (descriptor_buffers q1 ! i) = completion (descriptor_buffers q ! i)"
    by (rule complete_one_release [OF inv len refl el a, where act = act and s = s]) blast
  have "in_flight q1 (chs1 @ chs2)" using q1(2,9) fl split by (auto simp: in_flight_def)
  from act_keeps [OF s this a] q1 split show ?thesis
    by (auto simp: remove1_append keeps_in_flight_def)
qed

lemma complete_items_keeps:
  assumes "cinv s" "in_flight q chs" "length (used_elems used) = queue_size q"
    "map descriptor_id (pending_elements used nxt (queue_size q)) = map (of_nat \<circ> hd) done"
    "distinct done" "set done \<subseteq> set chs" "limit = 0 \<or> n < limit"
  shows "\<exists>s' q' chs'. complete_items act used n limit (used_head_index used) nxt (s, q)
       = Some (used_head_index used, s', q') \<and> cinv s'
     \<and> keeps_in_flight q (filter (\<lambda>ch. ch \<notin> set done) chs) q' chs'"
  using assms
proof (induction "done" arbitrary: s q chs nxt)
  case Nil
  then have "nxt = used_head_index used" by (subst (asm) pending_elements_rec) (auto split: if_splits)
  then show ?case using Nil by (auto simp: keeps_in_flight_def complete_items_stop)
next
  case (Cons ch "done")
  from Cons.prems(4) have nxt: "nxt \<noteq> used_head_index used"
    and el: "descriptor_id (used_elems used ! (unat nxt mod queue_size q)) = of_nat (hd ch)"
    and rest: "map descriptor_id (pending_elements used (nxt + 1) (queue_size q)) = map (of_nat \<circ> hd) done"
    by (subst (asm) pending_elements_rec; simp split: if_splits)+
  obtain s1 q1 chs1 where 1: "complete_one act used nxt (s, q) = Some (s1, q1)" "cinv s1"
     "keeps_in_flight q (remove1 ch chs) q1 chs1"
    using complete_one_keeps [OF Cons.prems(1,2) _ Cons.prems(3) el] Cons.prems(6) by auto
  have k1: "in_flight q1 chs1" "set (remove1 ch chs) \<subseteq> set chs1" "num_entries q1 = num_entries q"
    using 1(3) by (auto simp: keeps_in_flight_def)
  have "set done \<subseteq> set (remove1 ch chs)"
  proof
    fix c assume "c \<in> set done"
    then have "c \<noteq> ch" "c \<in> set chs" using Cons.prems(5,6) by auto
    then show "c \<in> set (remove1 ch chs)" by (simp add: in_set_remove1)
  qed
  then have sub: "set done \<subseteq> set chs1" using k1(2) by blast
  obtain s2 q2 chs2 where 2: "complete_items act used n limit (used_head_index used) (nxt + 1) (s1, q1)
       = Some (used_head_index used, s2, q2)" "cinv s2"
     "keeps_in_flight q1 (filter (\<lambda>ch. ch \<notin> set done) chs1) q2 chs2"
    using Cons.IH [OF 1(2) k1(1) _ _ _ sub, of "nxt + 1"] Cons.prems(3,5,7) rest k1(3) by auto
  have "keeps_in_flight q (filter (\<lambda>c. c \<notin> set (ch # done)) chs) q2 chs2"
    using 1(3) 2(3) by (auto simp: keeps_in_flight_def in_set_remove1 subset_iff)
  then show ?case using complete_items_step [OF nxt Cons.prems(7) 1(1)] 2 by auto
qed

lemma process_keeps:
  assumes s: "cinv s" and fl: "in_flight q chs" and snap: "\<And>k. snap k = u"
    and len: "length (used_elems u) = queue_size q"
    and ids: "map descriptor_id (pending_elements u (used_ring_last_head_index q) (queue_size q))
                = map (of_nat \<circ> hd) done"
    and d: "distinct done" "set done \<subseteq> set chs"
  shows "\<exists>s' q' chs'. processCompletedRequestsInVirtqueue act snap limit (s, q) = Some (0, s', q')
     \<and> cinv s' \<and> in_flight q' chs' \<and> set (filter (\<lambda>ch. ch \<notin> set done) chs) \<subseteq> set chs'
     \<and> used_ring_last_head_index q' = used_head_index u"
proof -
  have lim: "limit = 0 \<or> 0 < limit" by (cases "limit = 0") (auto simp: word_gt_0)
  have idle: "nothing_to_do 0 limit q \<longleftrightarrow> used_head_index (used_ring q) = used_ring_last_head_index q" for q
    using lim by (auto simp: nothing_to_do_def)
  have final: "\<exists>q' chs'. process_loop act snap 0 limit k (s, q) = Some (0, s, q')
      \<and> in_flight q' chs \<and> used_ring_last_head_index q' = used_head_index u"
    if "in_flight q chs" "used_ring_last_head_index q = used_head_index u"
      "length (used_elems u) = queue_size q" for s q chs k
    using that
    by (subst process_loop.simps)
       (simp add: process_round_def snap idle Let_def enable_interrupts_def in_flight_def queue_inv_def
          free_pool_def queue_wf_def)
  show ?thesis
  proof (cases "used_head_index u = used_ring_last_head_index q")
    case True
    then have "done = []" using ids by (subst (asm) pending_elements_rec) simp
    then show ?thesis
      using final [OF fl True [symmetric] len, of 0 s] s
      unfolding processCompletedRequestsInVirtqueue_def by auto
  next
    case False
    let ?q = "q\<lparr>used_ring := u\<rparr>"
    have fl': "in_flight ?q chs"
      using fl len by (auto simp: in_flight_def queue_inv_def free_pool_def queue_wf_def)
    obtain s1 q1 chs1 where 1: "complete_items act u 0 limit (used_head_index u) (used_ring_last_head_index q) (s, ?q)
       = Some (used_head_index u, s1, q1)" "cinv s1"
       "keeps_in_flight ?q (filter (\<lambda>ch. ch \<notin> set done) chs) q1 chs1"
      using complete_items_keeps [OF s fl' _ _ d lim, of u "used_ring_last_head_index q"] len ids by auto
    let ?q1 = "q1\<lparr>used_ring_last_head_index := used_head_index u\<rparr>"
    have "in_flight ?q1 chs1" "num_entries q1 = num_entries q"
      using 1(3) by (auto simp: keeps_in_flight_def in_flight_def queue_inv_def free_pool_def queue_wf_def)
    moreover have "process_loop act snap 0 limit 0 (s, q) = process_loop act snap 0 limit 1 (s1, ?q1)"
      using False 1(1) by (subst process_loop.simps) (simp add: process_round_def snap idle Let_def)
    ultimately show ?thesis
      using final [of ?q1 chs1 1 s1] len 1(2,3)
      unfolding processCompletedRequestsInVirtqueue_def keeps_in_flight_def by auto
  qed
qed

end

section \<open>Completion in order\<close>

lemma distinct_concat_distinct: "distinct (concat xss) \<Longrightarrow> [] \<notin> set xss \<Longrightarrow> distinct xss"
  by (induction xss) (auto, metis disjoint_iff UN_I last_in_set)

lemma queue_inv_distinct_chains: "queue_inv q fs chs \<Longrightarrow> distinct chs"
  by (rule distinct_concat_distinct) (auto simp: queue_inv_def)


text \<open>A client that only records which completions it was called with.\<close>

definition record_client :: "(VirtioCompletion \<times> u32) list client_action" where
  "record_client c n = (\<lambda>(s, q). Some (s @ [(c, n)], q))"

lemma record_client_apply: "record_client c n (s, q) = Some (s @ [(c, n)], q)"
  by (simp add: record_client_def)

interpretation recorder: completion_client record_client "\<lambda>_. True"
  by unfold_locales (auto simp: record_client_def keeps_in_flight_def)

lemma complete_items_record:
  assumes "queue_inv q fs chs" "length (used_elems used) = queue_size q"
    "map descriptor_id (pending_elements used nxt (queue_size q)) = map (of_nat \<circ> hd) done"
    "distinct done" "set done \<subseteq> set chs" "limit = 0 \<or> n < limit"
    "\<forall>ch \<in> set done. comp_action (completion (descriptor_buffers q ! hd ch)) \<noteq> NullAction"
  shows "\<exists>q'. complete_items record_client used n limit (used_head_index used) nxt (s, q)
       = Some (used_head_index used,
           s @ map (\<lambda>(ch, el). (completion (descriptor_buffers q ! hd ch), written_bytes el))
                 (zip done (pending_elements used nxt (queue_size q))), q')
     \<and> queue_inv q' (concat (map rev (rev done)) @ fs) (filter (\<lambda>ch. ch \<notin> set done) chs)
     \<and> num_entries q' = num_entries q \<and> available_ring q' = available_ring q
     \<and> interrupts_requested q' = interrupts_requested q"
  using assms
proof (induction "done" arbitrary: s q fs chs nxt)
  case Nil
  then have "nxt = used_head_index used" by (subst (asm) pending_elements_rec) (auto split: if_splits)
  then show ?case using Nil by (auto simp: complete_items_stop)
next
  case (Cons ch "done")
  let ?el = "used_elems used ! (unat nxt mod queue_size q)"
  from Cons.prems(3) have nxt: "nxt \<noteq> used_head_index used" and el: "descriptor_id ?el = of_nat (hd ch)"
    and rest: "map descriptor_id (pending_elements used (nxt + 1) (queue_size q)) = map (of_nat \<circ> hd) done"
    by (subst (asm) pending_elements_rec; simp split: if_splits)+
  have pend: "pending_elements used nxt (queue_size q) = ?el # pending_elements used (nxt + 1) (queue_size q)"
    using nxt by (subst pending_elements_rec) simp
  obtain chs1 chs2 where split: "chs = chs1 @ ch # chs2" using Cons.prems(5) split_list [of ch chs] by auto
  have dist: "distinct chs" using Cons.prems(1) by (rule queue_inv_distinct_chains)
  obtain q1 where q1: "complete_one record_client used nxt (s, q)
       = record_client (completion (descriptor_buffers q ! hd ch)) (written_bytes ?el) (s, q1)"
    "queue_inv q1 (rev ch @ fs) (chs1 @ chs2)"
    "num_entries q1 = num_entries q" "used_ring q1 = used_ring q"
    "available_ring q1 = available_ring q"
    "used_ring_last_head_index q1 = used_ring_last_head_index q"
    "interrupts_requested q1 = interrupts_requested q"
    "uses_indirect_descriptors q1 = uses_indirect_descriptors q"
    "\<And>i. completion (descriptor_buffers q1 ! i) = completion (descriptor_buffers q ! i)"
    by (rule complete_one_release [OF Cons.prems(1) [unfolded split] Cons.prems(2) refl el,
          where act = record_client and s = s]) (use Cons.prems(7) in auto)
  have filt: "filter (\<lambda>c. c \<notin> set done) (chs1 @ chs2) = filter (\<lambda>c. c \<notin> set (ch # done)) chs"
  proof -
    have "ch \<notin> set chs1" "ch \<notin> set chs2" using dist split by auto
    then show ?thesis using Cons.prems(4) unfolding split by (auto intro!: filter_cong arg_cong2 [where f = append])
  qed
  have "set done \<subseteq> set (chs1 @ chs2)" using Cons.prems(4,5) split by auto
  then obtain q2 where "complete_items record_client used n limit (used_head_index used) (nxt + 1)
        (s @ [(completion (descriptor_buffers q ! hd ch), written_bytes ?el)], q1)
       = Some (used_head_index used,
           s @ [(completion (descriptor_buffers q ! hd ch), written_bytes ?el)]
             @ map (\<lambda>(ch, el). (completion (descriptor_buffers q ! hd ch), written_bytes el))
                 (zip done (pending_elements used (nxt + 1) (queue_size q))), q2)"
     "queue_inv q2 (concat (map rev (rev done)) @ rev ch @ fs) (filter (\<lambda>c. c \<notin> set done) (chs1 @ chs2))"
     "num_entries q2 = num_entries q" "available_ring q2 = available_ring q"
     "interrupts_requested q2 = interrupts_requested q"
    using Cons.IH [OF q1(2), of "nxt + 1" "s @ [(completion (descriptor_buffers q ! hd ch), written_bytes ?el)]"]
      Cons.prems(2,4,6,7) rest q1(3,5,7,9) by auto
  then show ?case
    using complete_items_step [OF nxt Cons.prems(6) q1(1) [unfolded record_client_apply]] pend filt
    by simp
qed

lemma process_record:
  assumes inv: "queue_inv q fs chs" and len: "length (used_elems u) = queue_size q"
    and ids: "map descriptor_id (pending_elements u (used_ring_last_head_index q) (queue_size q))
                = map (of_nat \<circ> hd) done"
    and d: "distinct done" "set done \<subseteq> set chs"
    and act: "\<forall>ch \<in> set done. comp_action (completion (descriptor_buffers q ! hd ch)) \<noteq> NullAction"
  shows "\<exists>q'. processCompletedRequestsInVirtqueue record_client (\<lambda>_. u) limit ([], q)
       = Some (0, map (\<lambda>(ch, el). (completion (descriptor_buffers q ! hd ch), written_bytes el))
                 (zip done (pending_elements u (used_ring_last_head_index q) (queue_size q))), q')
     \<and> queue_inv q' (concat (map rev (rev done)) @ fs) (filter (\<lambda>ch. ch \<notin> set done) chs)
     \<and> used_ring_last_head_index q' = used_head_index u
     \<and> (interrupts_requested q \<longrightarrow> avail_flags (available_ring q') = 0)"
proof -
  have lim: "limit = 0 \<or> 0 < limit" by (cases "limit = 0") (auto simp: word_gt_0)
  have idle: "nothing_to_do 0 limit q \<longleftrightarrow> used_head_index (used_ring q) = used_ring_last_head_index q" for q
    using lim by (auto simp: nothing_to_do_def)
  have final: "\<exists>q'. process_loop record_client (\<lambda>_. u) 0 limit k (s, q) = Some (0, s, q')
      \<and> queue_inv q' fs chs \<and> used_ring_last_head_index q' = used_head_index u
      \<and> (interrupts_requested q \<longrightarrow> avail_flags (available_ring q') = 0)"
    if "queue_inv q fs chs" "used_ring_last_head_index q = used_head_index u"
      "length (used_elems u) = queue_size q" for s q fs chs k
    using that
    by (subst process_loop.simps)
       (simp add: process_round_def idle Let_def enable_interrupts_def queue_inv_def free_pool_def queue_wf_def)
  show ?thesis
  proof (cases "used_head_index u = used_ring_last_head_index q")
    case True
    then have p: "pending_elements u (used_ring_last_head_index q) (queue_size q) = []"
      by (subst pending_elements_rec) simp
    then have "done = []" using ids by simp
    then show ?thesis
      using final [OF inv True [symmetric] len, of 0 "[]"] p
      unfolding processCompletedRequestsInVirtqueue_def by auto
  next
    case False
    let ?q = "q\<lparr>used_ring := u\<rparr>"
    have inv': "queue_inv ?q fs chs" using inv len by (simp add: queue_inv_def free_pool_def queue_wf_def)
    let ?tr = "map (\<lambda>(ch, el). (completion (descriptor_buffers q ! hd ch), written_bytes el))
                 (zip done (pending_elements u (used_ring_last_head_index q) (queue_size q)))"
    obtain q1 where 1: "complete_items record_client u 0 limit (used_head_index u)
          (used_ring_last_head_index q) ([], ?q) = Some (used_head_index u, ?tr, q1)"
       "queue_inv q1 (concat (map rev (rev done)) @ fs) (filter (\<lambda>ch. ch \<notin> set done) chs)"
       "num_entries q1 = num_entries q" "interrupts_requested q1 = interrupts_requested q"
      using complete_items_record [OF inv' _ _ d lim, of u "used_ring_last_head_index q" "[]"] len ids act
      by auto
    let ?q1 = "q1\<lparr>used_ring_last_head_index := used_head_index u\<rparr>"
    have "process_loop record_client (\<lambda>_. u) 0 limit 0 ([], q) = process_loop record_client (\<lambda>_. u) 0 limit 1 (?tr, ?q1)"
      using False 1(1) by (subst process_loop.simps) (simp add: process_round_def idle Let_def)
    moreover have "queue_inv ?q1 (concat (map rev (rev done)) @ fs) (filter (\<lambda>ch. ch \<notin> set done) chs)"
      using 1(2) by (simp add: queue_inv_def free_pool_def queue_wf_def)
    ultimately show ?thesis
      using final [of ?q1 _ _ 1 ?tr] len 1(3,4) unfolding processCompletedRequestsInVirtqueue_def by auto
  qed
qed

text \<open>
  C5. Completions in order. When the used ring holds, since the last time, the heads of distinct
  requests in flight, \<^verbatim>\<open>processCompletedRequestsInVirtqueue\<close> returns; it has called the completion
  action of each of these requests once, in the order of the used ring and with the number of bytes
  the device reported; exactly their descriptors are unused again, and the driver's position in the
  ring has caught up with the device. If the client asked for interrupts, they are enabled again.
\<close>

theorem process_completed_in_order:
  assumes "queue_inv q fs chs" "length (used_elems u) = queue_size q"
    "map descriptor_id (pending_elements u (used_ring_last_head_index q) (queue_size q))
       = map (of_nat \<circ> hd) done"
    "distinct done" "set done \<subseteq> set chs"
    "\<forall>ch \<in> set done. comp_action (completion (descriptor_buffers q ! hd ch)) \<noteq> NullAction"
  shows "\<exists>q'. processCompletedRequestsInVirtqueue record_client (\<lambda>_. u) limit ([], q)
       = Some (0, map (\<lambda>(ch, el). (completion (descriptor_buffers q ! hd ch), written_bytes el))
                 (zip done (pending_elements u (used_ring_last_head_index q) (queue_size q))), q')
     \<and> queue_inv q' (concat (map rev (rev done)) @ fs) (filter (\<lambda>ch. ch \<notin> set done) chs)
     \<and> used_ring_last_head_index q' = used_head_index u
     \<and> (interrupts_requested q \<longrightarrow> avail_flags (available_ring q') = 0)"
  using process_record [OF assms] .


text \<open>
  The function returns 0 however many requests it has completed: its counter
  \<^verbatim>\<open>total_handled\<close> is never incremented, and so the limit passed by the caller has no effect.
\<close>

theorem process_completed_returns_zero:
  "processCompletedRequestsInVirtqueue act snap limit st = Some (n, st') \<Longrightarrow> n = 0"
  using process_loop_total_handled [of act snap 0 limit 0 st "(n, st')"]
  by (simp add: processCompletedRequestsInVirtqueue_def)

text \<open>
  The index reported by the device is not checked: an index beyond the table makes the driver
  access its array of buffers out of bounds.
\<close>

theorem process_completed_unchecked_id:
  assumes "queue_wf q" "length (used_elems u) = queue_size q"
    "used_head_index u \<noteq> used_ring_last_head_index q"
    "queue_size q \<le> unat (descriptor_id
       (used_elems u ! (unat (used_ring_last_head_index q) mod queue_size q)))"
  shows "processCompletedRequestsInVirtqueue act (\<lambda>_. u) limit (s, q) = None"
proof -
  have "num_entries q \<noteq> 0" using queue_wf_bounds(1) [OF assms(1)] by auto
  moreover have "unat (ucast (used_ring_last_head_index q) mod num_entries q)
      = unat (used_ring_last_head_index q) mod queue_size q"
    by (simp add: unat_mod_distrib unat_ucast_u16)
  ultimately have one: "complete_one act u (used_ring_last_head_index q) (s, q\<lparr>used_ring := u\<rparr>) = None"
    using assms(1,2,4) queue_wf_bounds(1) [OF assms(1)]
    by (simp add: complete_one_def Let_def array_read_def queue_wf_def)
  have lim: "limit = 0 \<or> 0 < limit" by (cases "limit = 0") (auto simp: word_gt_0)
  then have "complete_items act u 0 limit (used_head_index u) (used_ring_last_head_index q)
      (s, q\<lparr>used_ring := u\<rparr>) = None"
    using assms(3) one by (subst complete_items.simps) auto
  moreover have "\<not> nothing_to_do 0 limit (q\<lparr>used_ring := u\<rparr>)"
    using assms(3) lim by (auto simp: nothing_to_do_def)
  ultimately show ?thesis
    by (simp add: processCompletedRequestsInVirtqueue_def process_loop.simps process_round_def Let_def)
qed

text \<open>
  C7. Round trip. A request that was submitted successfully and that the device then reports as
  completed calls the completion action given to \<^verbatim>\<open>submitBuffersToVirtqueue\<close> once, with the number
  of bytes written, and all descriptors that were unused before are unused again.
\<close>

theorem submit_complete_roundtrip:
  assumes "queue_inv q fs chs" "md_nonempty r \<or> md_nonempty w"
    "min_descs r w \<le> num_unused_descriptors q"
    "dma_emits env r (num_unused_descriptors q - (if md_nonempty w then 1 else 0)) rs"
    "dma_emits env w (num_unused_descriptors q - of_nat (length rs)) ws"
    "comp_action compl \<noteq> NullAction" "length (used_elems u) = queue_size q"
    "pending_elements u (used_ring_last_head_index q) (queue_size q) = [el]"
    "descriptor_id el = of_nat (hd fs)"
  shows "\<exists>notify q' q''. submitBuffersToVirtqueueDirect env q r w compl = Some (kIOReturnSuccess, q', notify)
     \<and> processCompletedRequestsInVirtqueue record_client (\<lambda>_. u) limit ([], q')
         = Some (0, [(compl, written_bytes el)], q'')
     \<and> queue_inv q'' (rev (take (length (rs @ ws)) fs) @ drop (length (rs @ ws)) fs) chs"
proof -
  let ?k = "length (rs @ ws)"
  obtain q' notify where q': "submitBuffersToVirtqueueDirect env q r w compl = Some (kIOReturnSuccess, q', notify)"
    "queue_inv q' (drop ?k fs) (take ?k fs # chs)" "completion (descriptor_buffers q' ! hd fs) = compl"
    "fs \<noteq> []" "num_entries q' = num_entries q" "used_ring_last_head_index q' = used_ring_last_head_index q"
    using submit_direct_ok [OF assms(1-5), of compl] by blast
  have tk: "take ?k fs \<noteq> []" using q'(2) by (auto simp: queue_inv_def)
  then have hd: "hd (take ?k fs) = hd fs" by (simp add: hd_take)
  have "distinct (take ?k fs # chs)" using q'(2) by (rule queue_inv_distinct_chains)
  then have filt: "filter (\<lambda>ch. ch \<notin> set [take ?k fs]) (take ?k fs # chs) = chs"
    by (auto simp: filter_id_conv)
  show ?thesis
    using process_record [OF q'(2), of u "[take ?k fs]" limit] q' assms(6-9) hd unfolding filt by auto
qed

section \<open>Concrete instances\<close>

text \<open>A queue with one request in flight, and the used ring in which the device reports it.\<close>

definition busy_queue4 :: VirtioVirtqueue where
  "busy_queue4 = (case submitBuffersToVirtqueueDirect linear_dma queue4 None
      (Some \<lparr>md_id = 2, md_length = 512\<rparr>) \<lparr>comp_action = blockRequestCompletedAction, comp_target = 0, comp_ref = 0\<rparr>
    of Some (_, q, _) \<Rightarrow> q | None \<Rightarrow> queue4)"

definition used4 :: "u32 \<Rightarrow> VirtioVringUsed" where
  "used4 i = \<lparr>used_flags = 0, used_head_index = 1,
     used_elems = \<lparr>descriptor_id = i, written_bytes = 512\<rparr> # replicate 3 zero_used_elem\<rparr>"

lemma used4_pending: "pending_elements (used4 i) 0 4 = [\<lparr>descriptor_id = i, written_bytes = 512\<rparr>]"
  by (simp add: pending_elements_def used4_def)

lemma used4_simps: "length (used_elems (used4 i)) = 4" "used_head_index (used4 i) = 1"
  by (simp_all add: used4_def)

lemma queue4_last: "used_ring_last_head_index queue4 = 0"
  by (simp add: queue4_def init_virtqueue_def Let_def init_free_list_eq)

lemma busy_queue4: "queue_inv busy_queue4 [1, 2, 3] [[0]]" "num_entries busy_queue4 = 4"
  "used_ring_last_head_index busy_queue4 = 0"
  "completion (descriptor_buffers busy_queue4 ! 0)
     = \<lparr>comp_action = blockRequestCompletedAction, comp_target = 0, comp_ref = 0\<rparr>"
  using submit_direct_ok [OF queue4_inv(1), of None "Some \<lparr>md_id = 2, md_length = 512\<rparr>" linear_dma "[]"
      "[\<lparr>fIOVMAddr = 8192, fLength = 512\<rparr>]"
      "\<lparr>comp_action = blockRequestCompletedAction, comp_target = 0, comp_ref = 0\<rparr>"]
  by (auto simp: queue4_inv queue4_last md_nonempty_def min_descs_def dma_emits_def dma_outcome_def
      linear_dma_def busy_queue4_def)

theorem process_completed_in_order_witness:
  "\<exists>q'. processCompletedRequestsInVirtqueue record_client (\<lambda>_. used4 0) 1 ([], busy_queue4)
     = Some (0, [(\<lparr>comp_action = blockRequestCompletedAction, comp_target = 0, comp_ref = 0\<rparr>, 512)], q')
     \<and> queue_inv q' [0, 1, 2, 3] []"
  using process_completed_in_order [OF busy_queue4(1), of "used4 0" "[[0]]" 1]
  by (auto simp: busy_queue4 used4_pending used4_simps)


theorem process_completed_returns_zero_witness:
  "\<exists>n st'. processCompletedRequestsInVirtqueue record_client (\<lambda>_. used4 0) 0 ([], busy_queue4) = Some (n, st')
     \<and> n = 0"
proof -
  obtain n st' where "processCompletedRequestsInVirtqueue record_client (\<lambda>_. used4 0) 0 ([], busy_queue4) = Some (n, st')"
    using process_record [OF busy_queue4(1), of "used4 0" "[[0]]" 0]
    by (auto simp: busy_queue4 used4_pending used4_simps)
  with process_completed_returns_zero [OF this] show ?thesis by blast
qed

theorem process_completed_unchecked_id_witness:
  "processCompletedRequestsInVirtqueue record_client (\<lambda>_. used4 7) 0 ([], busy_queue4) = None"
  using process_completed_unchecked_id [OF queue_inv_wf [OF busy_queue4(1)], of "used4 7" record_client 0 "[]"]
  by (simp add: busy_queue4 used4_def)

theorem submit_complete_roundtrip_witness:
  "\<exists>notify q' q''. submitBuffersToVirtqueueDirect linear_dma queue4 None (Some \<lparr>md_id = 2, md_length = 512\<rparr>)
       \<lparr>comp_action = blockRequestCompletedAction, comp_target = 0, comp_ref = 0\<rparr> = Some (kIOReturnSuccess, q', notify)
     \<and> processCompletedRequestsInVirtqueue record_client (\<lambda>_. used4 0) 0 ([], q')
         = Some (0, [(\<lparr>comp_action = blockRequestCompletedAction, comp_target = 0, comp_ref = 0\<rparr>, 512)], q'')
     \<and> queue_inv q'' [0, 1, 2, 3] []"
  using submit_complete_roundtrip [OF queue4_inv(1), of None "Some \<lparr>md_id = 2, md_length = 512\<rparr>" linear_dma "[]"
      "[\<lparr>fIOVMAddr = 8192, fLength = 512\<rparr>]"
      "\<lparr>comp_action = blockRequestCompletedAction, comp_target = 0, comp_ref = 0\<rparr>" "used4 0"
      "\<lparr>descriptor_id = 0, written_bytes = 512\<rparr>" 0]
  by (auto simp: queue4_inv queue4_last used4_pending md_nonempty_def min_descs_def dma_emits_def
      dma_outcome_def linear_dma_def used4_simps)

end
