(* ===== verification/Legacy_PCI.thy ===== *)
theory Legacy_PCI
  imports Virtqueue_Complete
begin

text \<open>
  The legacy PCI transport: VirtioLegacyPCIDevice.cpp apart from the virtqueue operations, which have
  their own theories. The state of the driver object is a record. Port I/O goes through a log:
  the device is a function \<open>dev\<close> from the log of earlier accesses and the offset to the
  value read. Each access records whether the header was mapped at that time. The services of the
  kernel are the fields of \<open>pci_env\<close>.
\<close>

section \<open>State and environment\<close>

text \<open>Offsets in the legacy header (\<^verbatim>\<open>VirtioLegacyHeaderOffset\<close>).\<close>

definition DEVICE_FEATURE_BITS_0_31 :: u16 where "DEVICE_FEATURE_BITS_0_31 = 0"
definition GUEST_FEATURE_BITS_0_31 :: u16 where "GUEST_FEATURE_BITS_0_31 = 4 + DEVICE_FEATURE_BITS_0_31"
definition QUEUE_ADDRESS :: u16 where "QUEUE_ADDRESS = 4 + GUEST_FEATURE_BITS_0_31"
definition QUEUE_SIZE :: u16 where "QUEUE_SIZE = 4 + QUEUE_ADDRESS"
definition QUEUE_SELECT :: u16 where "QUEUE_SELECT = 2 + QUEUE_SIZE"
definition QUEUE_NOTIFY :: u16 where "QUEUE_NOTIFY = 2 + QUEUE_SELECT"
definition DEVICE_STATUS :: u16 where "DEVICE_STATUS = 2 + QUEUE_NOTIFY"
definition ISR_STATUS :: u16 where "ISR_STATUS = 1 + DEVICE_STATUS"
definition BASIC_END_HEADER :: u16 where "BASIC_END_HEADER = 1 + ISR_STATUS"
definition MSIX_CONFIG_VECTOR :: u16 where "MSIX_CONFIG_VECTOR = BASIC_END_HEADER"
definition MSIX_QUEUE_VECTOR :: u16 where "MSIX_QUEUE_VECTOR = 2 + MSIX_CONFIG_VECTOR"
definition MSIX_END_HEADER :: u16 where "MSIX_END_HEADER = 2 + MSIX_QUEUE_VECTOR"

lemmas header_offsets = DEVICE_FEATURE_BITS_0_31_def GUEST_FEATURE_BITS_0_31_def QUEUE_ADDRESS_def
  QUEUE_SIZE_def QUEUE_SELECT_def QUEUE_NOTIFY_def DEVICE_STATUS_def ISR_STATUS_def
  BASIC_END_HEADER_def MSIX_CONFIG_VECTOR_def MSIX_QUEUE_VECTOR_def MSIX_END_HEADER_def

definition VIRTIO_F_RING_INDIRECT_DESC :: u32 where "VIRTIO_F_RING_INDIRECT_DESC = 2 ^ 28"
definition VIRTIO_F_RING_EVENT_IDX :: u32 where "VIRTIO_F_RING_EVENT_IDX = 2 ^ 29"

datatype io_width = W8 | W16 | W32

datatype io_event =
    IoWrite io_width (io_offset: u16) (io_value: u32) (io_mapped: bool)
  | IoRead io_width (io_offset: u16) (io_mapped: bool)

record legacy_dev =
  virtio_device_type :: u32
  pci_device :: bool
  pci_virtio_header_iomap :: bool
  msix_active :: bool
  features :: u32
  active_features :: u32
  virtqueues :: "VirtioVirtqueue list option"
  num_virtqueues :: u32
  eventIndexFeatureEnabled :: bool
  deviceSpecificConfigStartHeaderOffset :: u16
  configChangeAction :: bool
  intr_event_source :: bool
  work_loop :: bool
  received_config_change :: bool
  opened_by_client :: bool
  registered :: bool
  io_log :: "io_event list"

type_synonym port_device = "io_event list \<Rightarrow> u16 \<Rightarrow> u32"

text \<open>
  What the allocations for one queue return: the queue memory, its DMA command, and for each
  descriptor whether all its DMA objects could be allocated.
\<close>

record queue_alloc =
  queue_mem_ok :: bool
  queue_dma_ok :: bool
  queue_set_md :: IOReturn
  queue_gen :: "u32 \<Rightarrow> IOReturn \<times> u64 \<times> u32 \<times> Segment64"
  buffer_ok :: "nat \<Rightarrow> bool"

text \<open>\<open>subsystem_id\<close> is \<^term>\<open>None\<close> without the property, and \<^term>\<open>Some None\<close> when it is not
  an \<^verbatim>\<open>OSData\<close>. \<open>interrupt_type i\<close> is \<^term>\<open>None\<close> when \<^verbatim>\<open>getInterruptType\<close> fails.\<close>

record pci_env =
  provider_is_pci :: bool
  bar0 :: u32
  header_range_length :: "u64 option"
  service_start :: bool
  service_open :: bool
  subsystem_id :: "u8 list option option"
  pci_open_ok :: bool
  header_map_length :: "u64 option"
  queue_array_ok :: bool
  queue_allocs :: "nat \<Rightarrow> queue_alloc"
  interrupt_type :: "nat \<Rightarrow> u32 option"
  msix_cap_offset :: u64
  msix_control :: u16
  event_source_ok :: "int \<Rightarrow> bool"
  provider_work_loop :: bool
  new_work_loop :: bool
  add_event_source_ok :: bool

section \<open>Port I/O\<close>

definition io_write :: "io_width \<Rightarrow> u16 \<Rightarrow> u32 \<Rightarrow> legacy_dev \<Rightarrow> legacy_dev" where
  "io_write w off v d = d\<lparr>io_log := io_log d @ [IoWrite w off v (pci_virtio_header_iomap d)]\<rparr>"

definition io_read :: "port_device \<Rightarrow> io_width \<Rightarrow> u16 \<Rightarrow> legacy_dev \<Rightarrow> u32 \<times> legacy_dev" where
  "io_read dev w off d =
     (dev (io_log d) off, d\<lparr>io_log := io_log d @ [IoRead w off (pci_virtio_header_iomap d)]\<rparr>)"

section \<open>Start-up and features\<close>

definition VIRTIO_LEGACY_HEADER_MIN_LEN :: u64 where
  "VIRTIO_LEGACY_HEADER_MIN_LEN = ucast BASIC_END_HEADER"

definition kIOPCIIOSpace :: u32 where "kIOPCIIOSpace = 1"

definition probe :: "pci_env \<Rightarrow> bool" where
  "probe env =
     (if \<not> provider_is_pci env then False
      else if 0 = kIOPCIIOSpace AND bar0 env then False
      else case header_range_length env of
             Some header_len \<Rightarrow> \<not> header_len < VIRTIO_LEGACY_HEADER_MIN_LEN
           | None \<Rightarrow> False)"

text \<open>The loops that print the configuration area: the 16-bit offset wraps around.\<close>

partial_function (option) dump_config :: "port_device \<Rightarrow> u64 \<Rightarrow> u16 \<Rightarrow> legacy_dev \<Rightarrow> legacy_dev option" where
  "dump_config dev config_bytes offset d =
     (if ucast offset < config_bytes
      then dump_config dev config_bytes (offset + 4) (snd (io_read dev W32 offset d))
      else Some d)"

declare dump_config.simps [code]

definition mapHeaderIORegion :: "pci_env \<Rightarrow> port_device \<Rightarrow> legacy_dev \<Rightarrow> (bool \<times> legacy_dev) option" where
  "mapHeaderIORegion env dev d =
     (if \<not> pci_device d then None
      else case header_map_length env of
        None \<Rightarrow> Some (False, d)
      | Some config_bytes \<Rightarrow> do {
          d \<leftarrow> dump_config dev config_bytes 0 d;
          Some (True, d\<lparr>pci_virtio_header_iomap := True\<rparr>)
        })"

definition resetDevice :: "port_device \<Rightarrow> legacy_dev \<Rightarrow> (bool \<times> legacy_dev) option" where
  "resetDevice dev d =
     (if \<not> pci_device d then None
      else let d = io_write W8 DEVICE_STATUS 0 d;
          (deviceStatusValue, d) = io_read dev W8 DEVICE_STATUS d
      in if deviceStatusValue AND 0xff \<noteq> 0 then Some (False, d)
         else let d = io_write W8 DEVICE_STATUS 1 d;
                  d = io_write W8 DEVICE_STATUS (1 OR 2) d;
                  (val, d) = io_read dev W32 DEVICE_FEATURE_BITS_0_31 d
              in Some (True, d\<lparr>features := val\<rparr>))"

definition supportedFeatures :: "legacy_dev \<Rightarrow> u32" where
  "supportedFeatures d = features d"

definition requestFeatures :: "u32 \<Rightarrow> legacy_dev \<Rightarrow> (bool \<times> legacy_dev) option" where
  "requestFeatures use_features d =
     (let invertedSupportedFeatures = NOT (features d) in
      if invertedSupportedFeatures AND use_features \<noteq> 0 then Some (False, d)
      else if use_features AND VIRTIO_F_RING_EVENT_IDX \<noteq> 0 then Some (False, d)
      else if bit use_features 30 then Some (False, d)
      else if \<not> pci_device d then None
      else Some (True, io_write W32 GUEST_FEATURE_BITS_0_31 use_features
                    (d\<lparr>active_features := use_features\<rparr>)))"

definition endHandlingInterrupts :: "legacy_dev \<Rightarrow> legacy_dev option" where
  "endHandlingInterrupts d =
     (if intr_event_source d \<and> \<not> work_loop d then None
      else Some (d\<lparr>intr_event_source := False, work_loop := False\<rparr>))"

definition failDevice :: "legacy_dev \<Rightarrow> legacy_dev option" where
  "failDevice d =
     (if \<not> pci_device d then None
      else do {
        d \<leftarrow> endHandlingInterrupts (io_write W8 DEVICE_STATUS 128 d);
        Some (d\<lparr>pci_virtio_header_iomap := False\<rparr>)
      })"

text \<open>Four bytes in memory order as a number, on a little-endian machine.\<close>

definition u32_of_bytes :: "u8 list \<Rightarrow> u32" where
  "u32_of_bytes bs = horner_sum ucast 256 bs"

definition start :: "pci_env \<Rightarrow> port_device \<Rightarrow> legacy_dev \<Rightarrow> (bool \<times> legacy_dev) option" where
  "start env dev d =
     (if \<not> service_start env then Some (False, d)
      else case subsystem_id env of
        None \<Rightarrow> Some (False, d)
      | Some None \<Rightarrow> Some (False, d)
      | Some (Some bytes) \<Rightarrow>
          if length bytes \<noteq> 4 then Some (False, d)
          else do {
            let d = d\<lparr>virtio_device_type := u32_of_bytes bytes\<rparr>;
            if \<not> pci_open_ok env then Some (False, d)
            else do {
              (ok, d) \<leftarrow> mapHeaderIORegion env dev (d\<lparr>pci_device := True\<rparr>);
              if \<not> ok then Some (False, d\<lparr>pci_device := False\<rparr>)
              else do {
                let d = d\<lparr>deviceSpecificConfigStartHeaderOffset := BASIC_END_HEADER\<rparr>;
                (_, d) \<leftarrow> resetDevice dev d;
                d \<leftarrow> failDevice d;
                Some (True, d\<lparr>registered := True\<rparr>)
              }
            }
          })"

section \<open>Setting up virtqueues\<close>

definition kIOReturn_setup_check :: "u32 \<Rightarrow> queue_alloc \<Rightarrow> IOReturn" where
  "kIOReturn_setup_check queue_mem_size al =
     (let (result, offset, num_segments, phys_segment) = queue_gen al queue_mem_size
      in if result = kIOReturnSuccess
            \<and> (offset \<noteq> ucast queue_mem_size \<or> num_segments \<noteq> 1
               \<or> fLength phys_segment \<noteq> ucast queue_mem_size)
         then kIOReturnInternalError else result)"

text \<open>\<^verbatim>\<open>setupVirtqueue\<close>: the code returned, the queue on success, and the device.\<close>

definition setupVirtqueue ::
    "port_device \<Rightarrow> queue_alloc \<Rightarrow> u16 \<Rightarrow> bool \<Rightarrow> u32 \<Rightarrow> legacy_dev
     \<Rightarrow> (IOReturn \<times> VirtioVirtqueue option \<times> legacy_dev) option" where
  "setupVirtqueue dev al queue_id interrupts_enabled indirect_desc_per_request d = (if \<not> pci_device d then None else do {
     let d = io_write W16 QUEUE_SELECT (ucast queue_id) d;
     let (size, d) = io_read dev W16 QUEUE_SIZE d;
     let num_queue_entries = (ucast size :: u16);
     if num_queue_entries = 0 then Some (kIOReturnBadArgument, None, d)
     else if \<not> is_pow2 num_queue_entries then Some (kIOReturnDeviceError, None, d)
     else do {
       let queue_mem_size = vring_mem_size (ucast num_queue_entries);
       if \<not> queue_mem_ok al then Some (kIOReturnNoMemory, None, d)
       else if \<not> queue_dma_ok al then Some (kIOReturnNoMemory, None, d)
       else if queue_set_md al \<noteq> kIOReturnSuccess then Some (queue_set_md al, None, d)
       else if kIOReturn_setup_check queue_mem_size al \<noteq> kIOReturnSuccess
       then Some (kIOReturn_setup_check queue_mem_size al, None, d)
       else do {
         let use_indirect = (has_bits (active_features d) VIRTIO_F_RING_INDIRECT_DESC
                             \<and> indirect_desc_per_request > 0);
         if \<exists>i < unat num_queue_entries. \<not> buffer_ok al i then Some (kIOReturnNoMemory, None, d)
         else do {
           queue \<leftarrow> init_virtqueue num_queue_entries interrupts_enabled use_indirect
                      indirect_desc_per_request;
           let phys_segment = snd (snd (snd (queue_gen al queue_mem_size)));
           let address = (ucast (drop_bit 12 (fIOVMAddr phys_segment)) :: u32);
           Some (kIOReturnSuccess, Some queue, io_write W32 QUEUE_ADDRESS address d)
         }
       }
     }
   })"

text \<open>\<^verbatim>\<open>destroy_virtqueue\<close> visits every buffer of the queue before it frees the array.\<close>

definition destroy_virtqueue :: "VirtioVirtqueue \<Rightarrow> VirtioVirtqueue option" where
  "destroy_virtqueue queue =
     (if unat (num_entries queue) \<le> length (descriptor_buffers queue)
      then Some (queue\<lparr>descriptor_buffers := []\<rparr>) else None)"

text \<open>The loop of \<^verbatim>\<open>setupVirtqueues\<close>: \<open>queues\<close> are the queues set up so far; \<open>interrupts i\<close> and
  \<open>indirect i\<close> stand for the two optional arrays of the caller.\<close>

fun setup_queues_loop ::
    "pci_env \<Rightarrow> port_device \<Rightarrow> (nat \<Rightarrow> bool) \<Rightarrow> (nat \<Rightarrow> u32) \<Rightarrow> nat list \<Rightarrow> VirtioVirtqueue list
     \<Rightarrow> legacy_dev \<Rightarrow> (IOReturn \<times> VirtioVirtqueue list \<times> legacy_dev) option" where
  "setup_queues_loop env dev interrupts indirect [] queues d = Some (kIOReturnSuccess, queues, d)"
| "setup_queues_loop env dev interrupts indirect (i # is) queues d = do {
     (result, queue, d) \<leftarrow> setupVirtqueue dev (queue_allocs env i) (of_nat i) (interrupts i) (indirect i) d;
     (case queue of
        Some q \<Rightarrow> setup_queues_loop env dev interrupts indirect is (queues @ [q]) d
      | None \<Rightarrow> do {
          d \<leftarrow> failDevice d;
          foldM (\<lambda>q u. do { destroy_virtqueue q; Some u }) queues ();
          Some (result, queues, d)
        })
   }"

text \<open>\<^verbatim>\<open>setupVirtqueues\<close>: the code returned, the sizes reported to the caller and the device.\<close>

definition setupVirtqueues ::
    "pci_env \<Rightarrow> port_device \<Rightarrow> u16 \<Rightarrow> (nat \<Rightarrow> bool) \<Rightarrow> (nat \<Rightarrow> u32) \<Rightarrow> legacy_dev
     \<Rightarrow> (IOReturn \<times> u32 list \<times> legacy_dev) option" where
  "setupVirtqueues env dev number_queues interrupts indirect d =
     (if \<not> queue_array_ok env then Some (kIOReturnNoMemory, [], d)
      else do {
        (result, queues, d) \<leftarrow>
          setup_queues_loop env dev interrupts indirect [0..<unat number_queues] [] d;
        if result \<noteq> kIOReturnSuccess then Some (result, map num_entries queues, d)
        else Some (kIOReturnSuccess, map num_entries queues,
                   d\<lparr>virtqueues := Some queues, num_virtqueues := ucast number_queues\<rparr>)
      })"

definition setVirtqueueInterruptsEnabled :: "u16 \<Rightarrow> bool \<Rightarrow> legacy_dev \<Rightarrow> (IOReturn \<times> legacy_dev) option" where
  "setVirtqueueInterruptsEnabled queue_id enabled d =
     (if ucast queue_id > num_virtqueues d then Some (kIOReturnBadArgument, d)
      else do {
        queues \<leftarrow> virtqueues d;
        queue \<leftarrow> array_read queues (unat queue_id);
        if interrupts_requested queue \<noteq> enabled
        then Some (kIOReturnSuccess, d\<lparr>virtqueues := Some (queues[unat queue_id := queue
               \<lparr>interrupts_requested := enabled,
                available_ring := (available_ring queue)\<lparr>avail_flags := (if enabled then 0 else NO_INTERRUPT)\<rparr>\<rparr>])\<rparr>)
        else Some (kIOReturnSuccess, d)
      })"

section \<open>Opening, closing, configuration space\<close>

definition handleOpen :: "pci_env \<Rightarrow> port_device \<Rightarrow> legacy_dev \<Rightarrow> (bool \<times> legacy_dev) option" where
  "handleOpen env dev d =
     (if pci_virtio_header_iomap d then Some (False, d)
      else if \<not> service_open env then Some (False, d)
      else do {
        (ok, d) \<leftarrow> mapHeaderIORegion env dev (d\<lparr>opened_by_client := True\<rparr>);
        if \<not> ok then Some (False, d\<lparr>opened_by_client := False\<rparr>) else Some (True, d)
      })"

definition handleClose :: "legacy_dev \<Rightarrow> legacy_dev option" where
  "handleClose d = do {
     d \<leftarrow> (case virtqueues d of
            None \<Rightarrow> Some d
          | Some queues \<Rightarrow> do {
              d \<leftarrow> failDevice d;
              foldM (\<lambda>j u. do { q \<leftarrow> array_read queues j; destroy_virtqueue q; Some u })
                [0..<unat (num_virtqueues d)] ();
              Some (d\<lparr>virtqueues := None, num_virtqueues := 0\<rparr>)
            });
     Some (d\<lparr>pci_virtio_header_iomap := False, opened_by_client := False\<rparr>)
   }"

definition readDeviceConfig8 :: "port_device \<Rightarrow> u16 \<Rightarrow> legacy_dev \<Rightarrow> (u8 \<times> legacy_dev) option" where
  "readDeviceConfig8 dev off d =
     (if \<not> pci_device d then None
      else let (v, d) = io_read dev W8 (deviceSpecificConfigStartHeaderOffset d + off) d in Some (ucast v, d))"

definition readDeviceConfig16Native :: "port_device \<Rightarrow> u16 \<Rightarrow> legacy_dev \<Rightarrow> (u16 \<times> legacy_dev) option" where
  "readDeviceConfig16Native dev off d =
     (if \<not> pci_device d then None
      else let (v, d) = io_read dev W16 (deviceSpecificConfigStartHeaderOffset d + off) d in Some (ucast v, d))"

definition readDeviceConfig32Native :: "port_device \<Rightarrow> u16 \<Rightarrow> legacy_dev \<Rightarrow> (u32 \<times> legacy_dev) option" where
  "readDeviceConfig32Native dev off d =
     (if \<not> pci_device d then None
      else Some (io_read dev W32 (deviceSpecificConfigStartHeaderOffset d + off) d))"

text \<open>The little-endian variant of the conditional compilation; the drivers are built for x86.\<close>

definition readDeviceConfig64Native :: "port_device \<Rightarrow> u16 \<Rightarrow> legacy_dev \<Rightarrow> (u64 \<times> legacy_dev) option" where
  "readDeviceConfig64Native dev off d =
     (if \<not> pci_device d then None
      else let (low, d) = io_read dev W32 (deviceSpecificConfigStartHeaderOffset d + off) d;
               (high, d) = io_read dev W32 (deviceSpecificConfigStartHeaderOffset d + off + 4) d
      in Some (push_bit 32 (ucast high) OR ucast low, d))"

definition readDeviceConfig16LETransitional where
  "readDeviceConfig16LETransitional = readDeviceConfig16Native"
definition readDeviceConfig32LETransitional where
  "readDeviceConfig32LETransitional = readDeviceConfig32Native"
definition readDeviceConfig64LETransitional where
  "readDeviceConfig64LETransitional = readDeviceConfig64Native"

definition writeDeviceConfig8 :: "u16 \<Rightarrow> u8 \<Rightarrow> legacy_dev \<Rightarrow> legacy_dev option" where
  "writeDeviceConfig8 off v d =
     (if \<not> pci_device d then None
      else Some (io_write W8 (deviceSpecificConfigStartHeaderOffset d + off) (ucast v) d))"

definition writeDeviceConfig16Native :: "u16 \<Rightarrow> u16 \<Rightarrow> legacy_dev \<Rightarrow> legacy_dev option" where
  "writeDeviceConfig16Native off v d =
     (if \<not> pci_device d then None
      else Some (io_write W16 (deviceSpecificConfigStartHeaderOffset d + off) (ucast v) d))"

definition writeDeviceConfig32Native :: "u16 \<Rightarrow> u32 \<Rightarrow> legacy_dev \<Rightarrow> legacy_dev option" where
  "writeDeviceConfig32Native off v d =
     (if \<not> pci_device d then None
      else Some (io_write W32 (deviceSpecificConfigStartHeaderOffset d + off) v d))"

definition writeDeviceConfig16LETransitional where
  "writeDeviceConfig16LETransitional = writeDeviceConfig16Native"
definition writeDeviceConfig32LETransitional where
  "writeDeviceConfig32LETransitional = writeDeviceConfig32Native"

section \<open>Requests\<close>

definition submitBuffersToVirtqueue ::
    "dma_env \<Rightarrow> (u16 \<Rightarrow> nat) \<Rightarrow> u16 \<Rightarrow> IOMemoryDescriptor option \<Rightarrow> IOMemoryDescriptor option
     \<Rightarrow> VirtioCompletion \<Rightarrow> legacy_dev \<Rightarrow> (IOReturn \<times> legacy_dev) option" where
  "submitBuffersToVirtqueue env table_id queue_index device_readable_buf device_writable_buf compl d =
     (if ucast queue_index \<ge> num_virtqueues d then Some (kIOReturnBadArgument, d)
      else do {
        queues \<leftarrow> virtqueues d;
        queue \<leftarrow> array_read queues (unat queue_index);
        (result, queue, notify) \<leftarrow> submit_to_queue env table_id queue device_readable_buf
                                     device_writable_buf compl;
        let d = d\<lparr>virtqueues := Some (queues[unat queue_index := queue])\<rparr>;
        if \<not> notify then Some (result, d)
        else if \<not> pci_device d then None
        else Some (result, io_write W16 QUEUE_NOTIFY (ucast queue_index) d)
      })"

definition process_queue ::
    "'s client_action \<Rightarrow> (nat \<Rightarrow> VirtioVringUsed) \<Rightarrow> u32 \<Rightarrow> nat \<Rightarrow> 's \<times> legacy_dev
     \<Rightarrow> (u32 \<times> 's \<times> legacy_dev) option" where
  "process_queue act snap completion_limit i = (\<lambda>(s, d). do {
     queues \<leftarrow> virtqueues d;
     queue \<leftarrow> array_read queues i;
     (n, s, queue) \<leftarrow> processCompletedRequestsInVirtqueue act snap completion_limit (s, queue);
     Some (n, s, d\<lparr>virtqueues := Some (queues[i := queue])\<rparr>)
   })"

definition pollCompletedRequestsInVirtqueue ::
    "'s client_action \<Rightarrow> (nat \<Rightarrow> VirtioVringUsed) \<Rightarrow> u16 \<Rightarrow> u32 \<Rightarrow> 's \<times> legacy_dev
     \<Rightarrow> (u32 \<times> 's \<times> legacy_dev) option" where
  "pollCompletedRequestsInVirtqueue act snap queue_index completion_limit =
     process_queue act snap completion_limit (unat queue_index)"

section \<open>Interrupts\<close>

text \<open>
  The search for interrupt sources in \<^verbatim>\<open>beginHandlingInterrupts\<close>: the indices of the first and the
  last message signalled source and of the last other source, \<^verbatim>\<open>-1\<close> if there is none. The loop
  ends at the first index for which \<^verbatim>\<open>getInterruptType\<close> fails; \<open>fuel\<close> bounds the number of
  sources that the device can have.
\<close>

definition kIOInterruptTypePCIMessaged :: u32 where "kIOInterruptTypePCIMessaged = 0x00010000"

fun find_interrupts ::
    "(nat \<Rightarrow> u32 option) \<Rightarrow> nat \<Rightarrow> nat \<Rightarrow> int \<times> int \<times> int \<Rightarrow> (int \<times> int \<times> int) option" where
  "find_interrupts intr_type 0 intr_index res = None"
| "find_interrupts intr_type (Suc fuel) intr_index (msi_start_index, msi_last_index, legacy_index) =
     (case intr_type intr_index of
        None \<Rightarrow> Some (msi_start_index, msi_last_index, legacy_index)
      | Some t \<Rightarrow>
          if has_bits t kIOInterruptTypePCIMessaged
          then find_interrupts intr_type fuel (intr_index + 1)
                 (if msi_start_index < 0 then int intr_index else msi_start_index,
                  int intr_index, legacy_index)
          else find_interrupts intr_type fuel (intr_index + 1)
                 (msi_start_index, msi_last_index, int intr_index))"

text \<open>MSI-X active: the device-specific configuration starts later, and vector 0 is used for
  configuration changes and for every queue.\<close>

definition setup_msix :: "port_device \<Rightarrow> legacy_dev \<Rightarrow> legacy_dev" where
  "setup_msix dev d =
     (let d = d\<lparr>deviceSpecificConfigStartHeaderOffset := MSIX_END_HEADER\<rparr>;
          d = io_write W16 MSIX_CONFIG_VECTOR 0 d;
          d = snd (io_read dev W16 MSIX_CONFIG_VECTOR d)
      in fold (\<lambda>queue_id d.
                 let d = io_write W16 QUEUE_SELECT (of_nat queue_id) d;
                     d = io_write W16 MSIX_QUEUE_VECTOR 0 d
                 in snd (io_read dev W16 MSIX_QUEUE_VECTOR d))
           [0..<unat (num_virtqueues d)] d)"

text \<open>The check whether MSI-X is enabled on the device; \<open>msi\<close> says whether a message signalled
  source was found.\<close>

definition msix_checked :: "pci_env \<Rightarrow> port_device \<Rightarrow> bool \<Rightarrow> legacy_dev \<Rightarrow> legacy_dev" where
  "msix_checked env dev msi d =
     (if msi \<and> msix_cap_offset env > 0
      then let d = d\<lparr>msix_active := bit (msix_control env) 15\<rparr>
           in if msix_active d then setup_msix dev d else d
      else d)"

definition beginHandlingInterrupts ::
    "pci_env \<Rightarrow> port_device \<Rightarrow> nat \<Rightarrow> bool \<Rightarrow> legacy_dev \<Rightarrow> (bool \<times> legacy_dev) option" where
  "beginHandlingInterrupts env dev fuel workloop_given d =
     (if \<not> pci_device d then Some (False, d)
      else do {
        (msi_start_index, _, _) \<leftarrow> find_interrupts (interrupt_type env) fuel 0 (-1, -1, -1);
        let intr_index = (if msi_start_index \<ge> 0 then msi_start_index else 0);
        if \<not> event_source_ok env intr_index then Some (False, d\<lparr>intr_event_source := False\<rparr>)
        else do {
          let d = msix_checked env dev (msi_start_index \<ge> 0) (d\<lparr>intr_event_source := True\<rparr>);
          let d = d\<lparr>work_loop := (workloop_given \<or> provider_work_loop env \<or> new_work_loop env)\<rparr>;
          if \<not> work_loop d then Some (False, d)
          else if \<not> add_event_source_ok env then Some (False, d\<lparr>intr_event_source := False\<rparr>)
          else Some (True, d)
        }
      })"

definition startDevice ::
    "pci_env \<Rightarrow> port_device \<Rightarrow> nat \<Rightarrow> bool \<Rightarrow> bool \<Rightarrow> legacy_dev \<Rightarrow> legacy_dev option" where
  "startDevice env dev fuel action workloop_given d = do {
     (_, d) \<leftarrow> beginHandlingInterrupts env dev fuel workloop_given (d\<lparr>configChangeAction := action\<rparr>);
     let d = io_write W8 DEVICE_STATUS (1 OR 2 OR 4) d;
     if \<not> pci_device d \<or> \<not> pci_virtio_header_iomap d then None
     else do {
       config_bytes \<leftarrow> header_map_length env;
       dump_config dev config_bytes 0 d
     }
   }"

definition ISR_USED :: u32 where "ISR_USED = 0x01"
definition ISR_CONF_CHANGE :: u32 where "ISR_CONF_CHANGE = 0x02"

text \<open>\<^verbatim>\<open>interruptFilter\<close>; \<open>for_us\<close> is the test whether the interrupt source is the driver's own.\<close>

definition interruptFilter :: "port_device \<Rightarrow> bool \<Rightarrow> legacy_dev \<Rightarrow> (bool \<times> legacy_dev) option" where
  "interruptFilter dev for_us d =
     (if \<not> for_us then Some (False, d)
      else if \<not> pci_device d then None
      else do {
        let (isr, d) = io_read dev W8 ISR_STATUS d;
        if has_bits isr ISR_CONF_CHANGE then Some (True, d\<lparr>received_config_change := True\<rparr>)
        else if has_bits isr ISR_USED
        then (if num_virtqueues d = 0 then Some (True, d)
              else do {
                queues \<leftarrow> virtqueues d;
                queues \<leftarrow> foldM (\<lambda>i queues. array_modify queues i
                            (\<lambda>q. q\<lparr>available_ring := (available_ring q)\<lparr>avail_flags := NO_INTERRUPT\<rparr>\<rparr>))
                          [0..<unat (num_virtqueues d)] queues;
                Some (True, d\<lparr>virtqueues := Some queues\<rparr>)
              })
        else Some (False, d)
      })"

definition interruptAction ::
    "('s \<times> legacy_dev \<Rightarrow> ('s \<times> legacy_dev) option) \<Rightarrow> (nat \<Rightarrow> 's client_action)
     \<Rightarrow> (nat \<Rightarrow> nat \<Rightarrow> VirtioVringUsed) \<Rightarrow> 's \<times> legacy_dev \<Rightarrow> ('s \<times> legacy_dev) option" where
  "interruptAction config_change act snap = (\<lambda>(s, d). do {
     (s, d) \<leftarrow> (if received_config_change d
                then let d = d\<lparr>received_config_change := False\<rparr>
                     in if configChangeAction d then config_change (s, d) else Some (s, d)
                else Some (s, d));
     foldM (\<lambda>i st. do { (_, st) \<leftarrow> process_queue (act i) (snap i) 0 i st; Some st })
       [0..<unat (num_virtqueues d)] (s, d)
   })"

section \<open>Termination of the service\<close>

definition closePCIDevice :: "legacy_dev \<Rightarrow> legacy_dev option" where
  "closePCIDevice d = do {
     d \<leftarrow> endHandlingInterrupts d;
     Some (if pci_device d then d\<lparr>pci_device := False\<rparr> else d)
   }"

definition stop :: "legacy_dev \<Rightarrow> legacy_dev option" where
  "stop d = closePCIDevice d"

definition didTerminate :: "legacy_dev \<Rightarrow> legacy_dev option" where
  "didTerminate d = closePCIDevice d"

definition getWorkLoop :: "pci_env \<Rightarrow> legacy_dev \<Rightarrow> bool" where
  "getWorkLoop env d = (work_loop d \<or> (if pci_device d then provider_work_loop env else False))"

end
