(* ===== verification/Legacy_PCI_Props.thy ===== *)
theory Legacy_PCI_Props
  imports Legacy_PCI
begin

text \<open>
  Properties of the legacy PCI transport: feature negotiation, the status handshake, setting up and
  taking down virtqueues, interrupts, and the invariant of the driver object.
\<close>

section \<open>Feature negotiation\<close>

lemma NOT_and_eq_0_iff: "NOT a AND b = 0 \<longleftrightarrow> (\<forall>i. bit b i \<longrightarrow> bit a i)" for a b :: "'a::len word"
  by (auto simp: bit_eq_iff bit_simps dest: bit_imp_le_length)

lemma event_idx_bit: "use AND VIRTIO_F_RING_EVENT_IDX = 0 \<longleftrightarrow> \<not> bit use 29"
  by (simp only: VIRTIO_F_RING_EVENT_IDX_def and_exp_eq_0_iff_not_bit)

text \<open>
  C19. \<^verbatim>\<open>requestFeatures\<close> accepts exactly the sets of features that the device offers and that contain
  neither the event index (bit 29) nor the obsolete bit 30. It writes to the device, and changes
  the active features, only when it accepts.
\<close>

theorem requestFeatures_iff:
  assumes "pci_device d"
  shows "requestFeatures use d =
     (if (\<forall>i. bit use i \<longrightarrow> bit (features d) i) \<and> \<not> bit use 29 \<and> \<not> bit use 30
      then Some (True, d\<lparr>active_features := use,
             io_log := io_log d @ [IoWrite W32 4 use (pci_virtio_header_iomap d)]\<rparr>)
      else Some (False, d))"
  using assms
  by (auto simp: requestFeatures_def Let_def NOT_and_eq_0_iff event_idx_bit io_write_def header_offsets)

section \<open>The loop that prints the configuration area\<close>

lemma dump_config_frame:
  "dump_config dev n off d = Some d' \<Longrightarrow> \<exists>log. d' = d\<lparr>io_log := io_log d @ log\<rparr>
     \<and> (\<forall>e \<in> set log. \<exists>w a m. e = IoRead w a m)"
proof (rule dump_config.raw_induct [where P = "\<lambda>dev n off d d'. \<exists>log. d' = d\<lparr>io_log := io_log d @ log\<rparr>
     \<and> (\<forall>e \<in> set log. \<exists>w a m. e = IoRead w a m)"], goal_cases)
  case (1 rec dev n off d d')
  show ?case
  proof (cases "ucast off < n")
    case True
    with 1(3) have "rec dev n (off + 4) (snd (io_read dev W32 off d)) = Some d'" by simp
    from 1(2) [OF this] obtain log where
      "d' = (snd (io_read dev W32 off d))\<lparr>io_log := io_log (snd (io_read dev W32 off d)) @ log\<rparr>"
      "\<forall>e \<in> set log. \<exists>w a m. e = IoRead w a m" by blast
    then show ?thesis
      by (intro exI [of _ "IoRead W32 off (pci_virtio_header_iomap d) # log"]) (simp add: io_read_def)
  next
    case False
    with 1(3) show ?thesis by (intro exI [of _ "[]"]) simp
  qed
qed

lemma dump_config_returns:
  assumes "unat n \<le> 65532" "unat off mod 4 = 0"
  shows "\<exists>d'. dump_config dev n off d = Some d'"
  using assms(2)
proof (induction "65536 - unat off" arbitrary: off d rule: less_induct)
  case less
  show ?case
  proof (cases "(ucast off :: u64) < n")
    case True
    have u: "unat (ucast off :: u64) = unat off"
      using unat_u16_less [of off] by (simp add: unsigned_ucast_eq take_bit_nat_eq_self)
    with True have "unat off < unat n" by (simp add: word_less_nat_alt)
    then have "unat off + 4 < 65536" using assms(1) less.prems by presburger
    then have s: "unat (off + 4) = unat off + 4" by (simp add: unat_word_ariths)
    have "\<exists>d'. dump_config dev n (off + 4) (snd (io_read dev W32 off d)) = Some d'"
      by (rule less.hyps) (use s \<open>unat off + 4 < 65536\<close> less.prems in presburger)+
    with True show ?thesis by (subst dump_config.simps) simp
  qed (subst dump_config.simps, simp)
qed

lemma dump_config_diverges:
  assumes "65532 < unat n" "unat off mod 4 = 0"
  shows "dump_config dev n off d = None"
proof (rule ccontr)
  assume "dump_config dev n off d \<noteq> None"
  then obtain d' where d': "dump_config dev n off d = Some d'" by auto
  have "dump_config dev n off d = Some d' \<Longrightarrow> 65532 < unat n \<longrightarrow> unat off mod 4 \<noteq> 0"
  proof (rule dump_config.raw_induct [where P = "\<lambda>dev n off d d'.
      65532 < unat n \<longrightarrow> unat off mod 4 \<noteq> 0"], goal_cases)
    case (1 rec dev n off d d')
    show ?case
    proof (intro impI notI)
      assume n: "65532 < unat n" and off: "unat off mod 4 = 0"
      have "unat off \<le> 65532" using unat_u16_less [of off] off by presburger
      moreover have "unat (ucast off :: u64) = unat off"
        using unat_u16_less [of off] by (simp add: unsigned_ucast_eq take_bit_nat_eq_self)
      ultimately have "ucast off < n" using n by (simp add: word_less_nat_alt)
      with 1(3) have "rec dev n (off + 4) (snd (io_read dev W32 off d)) = Some d'" by simp
      from 1(2) [OF this] n have "unat (off + 4) mod 4 \<noteq> 0" by blast
      moreover have "unat (off + 4) = (unat off + 4) mod 65536" by (simp add: unat_word_ariths)
      then have "unat (off + 4) mod 4 = (unat off + 4) mod 4" by (simp add: mod_mod_cancel)
      ultimately show False using off by simp
    qed
  qed
  from this [OF d'] assms show False by simp
qed

text \<open>
  Mapping the header, which both starting the driver and opening the device do, returns exactly
  when the driver has its PCI device and the mapping fails or has at most 65532 bytes: the loop that prints the configuration area
  counts in 16 bits, and does not end for a longer area.
\<close>

theorem mapHeaderIORegion_returns_iff:
  "(\<exists>r. mapHeaderIORegion env dev d = Some r) \<longleftrightarrow>
     pci_device d \<and> (case header_map_length env of None \<Rightarrow> True | Some n \<Rightarrow> unat n \<le> 65532)"
proof (cases "header_map_length env")
  case (Some n)
  then show ?thesis
    using dump_config_returns [of n 0 dev d] dump_config_diverges [of n 0 dev d]
    by (cases "unat n \<le> 65532") (auto simp: mapHeaderIORegion_def)
qed (auto simp: mapHeaderIORegion_def)

section \<open>Setting up virtqueues\<close>

text \<open>The queue size the device reports for a queue, and the conditions on the allocations.\<close>

definition reported_size :: "port_device \<Rightarrow> u16 \<Rightarrow> legacy_dev \<Rightarrow> u16" where
  "reported_size dev queue_id d =
     ucast (dev (io_log d @ [IoWrite W16 QUEUE_SELECT (ucast queue_id) (pci_virtio_header_iomap d)]) QUEUE_SIZE)"

definition allocs_ok :: "queue_alloc \<Rightarrow> u16 \<Rightarrow> bool" where
  "allocs_ok al n \<longleftrightarrow> queue_mem_ok al \<and> queue_dma_ok al \<and> queue_set_md al = kIOReturnSuccess
     \<and> kIOReturn_setup_check (vring_mem_size (ucast n)) al = kIOReturnSuccess
     \<and> (\<forall>i < unat n. buffer_ok al i)"

definition is_status_write :: "io_event \<Rightarrow> bool" where
  "is_status_write e \<longleftrightarrow> (\<exists>w v m. e = IoWrite w DEVICE_STATUS v m)"

definition status_writes :: "io_event list \<Rightarrow> u32 list" where
  "status_writes log = map io_value (filter is_status_write log)"

lemma status_writes_append [simp]: "status_writes (xs @ ys) = status_writes xs @ status_writes ys"
  by (simp add: status_writes_def)

lemma is_status_write_simps [simp]:
  "\<not> is_status_write (IoRead w a m)" "is_status_write (IoWrite w a v m) \<longleftrightarrow> a = DEVICE_STATUS"
  by (auto simp: is_status_write_def)

lemma status_writes_Cons [simp]:
  "status_writes (IoWrite w a v m # xs) = (if a = DEVICE_STATUS then [v] else []) @ status_writes xs"
  "status_writes (IoRead w a m # xs) = status_writes xs" "status_writes [] = []"
  by (simp_all add: status_writes_def)

lemma queue_registers_not_status [simp]:
  "QUEUE_SELECT \<noteq> DEVICE_STATUS" "QUEUE_ADDRESS \<noteq> DEVICE_STATUS"
  "GUEST_FEATURE_BITS_0_31 \<noteq> DEVICE_STATUS" "MSIX_CONFIG_VECTOR \<noteq> DEVICE_STATUS"
  "MSIX_QUEUE_VECTOR \<noteq> DEVICE_STATUS" "QUEUE_NOTIFY \<noteq> DEVICE_STATUS"
  by (simp_all add: header_offsets)

text \<open>An operation that only talks to the device, and writes the given values to the status register.\<close>

definition only_io :: "legacy_dev \<Rightarrow> legacy_dev \<Rightarrow> u32 list \<Rightarrow> bool" where
  "only_io d d' vs \<longleftrightarrow> (\<exists>log. d' = d\<lparr>io_log := io_log d @ log\<rparr> \<and> status_writes log = vs)"

lemma only_io_refl [intro, simp]: "only_io d d []"
  by (auto simp: only_io_def intro: exI [of _ "[]"])

lemma only_io_trans [trans]: "only_io d d1 vs \<Longrightarrow> only_io d1 d2 ws \<Longrightarrow> only_io d d2 (vs @ ws)"
  by (fastforce simp: only_io_def)

lemma only_io_io [intro]:
  "only_io d (io_write w a v d) (if a = DEVICE_STATUS then [v] else [])"
  "only_io d (snd (io_read dev w a d)) []"
  by (auto simp: only_io_def io_write_def io_read_def)

lemma only_io_status: "only_io d d' vs \<Longrightarrow> status_writes (io_log d') = status_writes (io_log d) @ vs"
  by (auto simp: only_io_def)

lemma setupVirtqueue_spec:
  assumes "setupVirtqueue dev al queue_id ie per d = Some (result, queue, d')"
  shows "only_io d d' []"
    "result = kIOReturnSuccess \<longleftrightarrow> queue \<noteq> None"
    "queue \<noteq> None \<longleftrightarrow> is_pow2 (reported_size dev queue_id d) \<and> reported_size dev queue_id d \<noteq> 0
       \<and> allocs_ok al (reported_size dev queue_id d)"
    "queue = Some q \<Longrightarrow> init_virtqueue (reported_size dev queue_id d) ie
        (has_bits (active_features d) VIRTIO_F_RING_INDIRECT_DESC \<and> per > 0) per = Some q"
  using assms
  by (auto simp: setupVirtqueue_def Let_def io_write_def io_read_def reported_size_def allocs_ok_def
      only_io_def Option.bind_eq_Some_conv split: if_splits prod.splits)

lemma setupVirtqueue_returns: "pci_device d \<Longrightarrow> \<exists>r. setupVirtqueue dev al queue_id ie per d = Some r"
proof -
  assume "pci_device d"
  define n where "n = reported_size dev queue_id d"
  define ind where "ind \<longleftrightarrow> has_bits (active_features d) VIRTIO_F_RING_INDIRECT_DESC \<and> per > 0"
  have "\<exists>q. init_virtqueue n ie ind per = Some q" if "is_pow2 n" "n \<noteq> 0"
    using init_virtqueue_inv [OF that] by metis
  with \<open>pci_device d\<close> show ?thesis
    unfolding setupVirtqueue_def n_def ind_def reported_size_def
    by (auto simp: Let_def io_write_def io_read_def split: prod.splits)
qed

text \<open>A queue on which nothing is in flight.\<close>

definition fresh_queue :: "VirtioVirtqueue \<Rightarrow> bool" where
  "fresh_queue q \<longleftrightarrow> queue_inv q [0..<queue_size q] []"

lemma setupVirtqueue_fresh:
  assumes "setupVirtqueue dev al queue_id ie per d = Some (result, Some q, d')"
  shows "fresh_queue q" "interrupts_requested q = ie"
    "num_entries q = ucast (reported_size dev queue_id d)"
proof -
  let ?n = "reported_size dev queue_id d"
  have n: "is_pow2 ?n" "?n \<noteq> 0" using setupVirtqueue_spec(3) [OF assms] by auto
  have q: "init_virtqueue ?n ie (has_bits (active_features d) VIRTIO_F_RING_INDIRECT_DESC \<and> per > 0) per = Some q"
    using setupVirtqueue_spec(4) [OF assms] by simp
  obtain q' where "init_virtqueue ?n ie (has_bits (active_features d) VIRTIO_F_RING_INDIRECT_DESC \<and> per > 0) per = Some q'"
    "queue_inv q' [0..<unat ?n] []" "unat (num_entries q') = unat ?n" "interrupts_requested q' = ie"
    by (rule init_virtqueue_inv [OF n])
  with q show "fresh_queue q" "interrupts_requested q = ie" by (auto simp: fresh_queue_def)
  show "num_entries q = ucast ?n"
    using q by (auto simp: init_virtqueue_def Let_def Option.bind_eq_Some_conv)
qed

lemma destroy_fresh_queue: "fresh_queue q \<Longrightarrow> destroy_virtqueue q = Some (q\<lparr>descriptor_buffers := []\<rparr>)"
  by (auto simp: fresh_queue_def destroy_virtqueue_def dest!: queue_inv_wf simp: queue_wf_def)

lemma destroy_all:
  assumes "\<forall>q \<in> set queues. fresh_queue q"
  shows "foldM (\<lambda>q u. do { destroy_virtqueue q; Some u }) queues () = Some ()"
  using assms by (induction queues) (auto simp: destroy_fresh_queue)

lemma failDevice_eq:
  assumes "pci_device d \<and> (intr_event_source d \<longrightarrow> work_loop d)"
  shows "failDevice d = Some (d\<lparr>io_log := io_log d @ [IoWrite W8 DEVICE_STATUS 128 (pci_virtio_header_iomap d)],
     intr_event_source := False, work_loop := False, pci_virtio_header_iomap := False\<rparr>)"
  using assms by (auto simp: failDevice_def endHandlingInterrupts_def io_write_def)

text \<open>The part of the driver object that setting up queues does not touch.\<close>

lemma setup_queues_loop_spec:
  assumes "pci_device d \<and> (intr_event_source d \<longrightarrow> work_loop d)" "\<forall>q \<in> set queues. fresh_queue q"
  shows "\<exists>result qs d'. setup_queues_loop env dev ints inds is queues d = Some (result, qs, d')
    \<and> (\<forall>q \<in> set qs. fresh_queue q)
    \<and> (if result = kIOReturnSuccess
       then length qs = length queues + length is \<and> only_io d d' []
       else \<exists>d1. only_io d d1 [] \<and> failDevice d1 = Some d')"
  using assms
proof (induction "is" arbitrary: queues d)
  case (Cons i "is")
  obtain result queue d1 where 1: "setupVirtqueue dev (queue_allocs env i) (of_nat i) (ints i) (inds i) d
      = Some (result, queue, d1)"
    using setupVirtqueue_returns [of d dev "queue_allocs env i" "of_nat i" "ints i" "inds i"] Cons.prems(1) by fastforce
  note sp = setupVirtqueue_spec [OF 1]
  have io: "pci_device d1 \<and> (intr_event_source d1 \<longrightarrow> work_loop d1)" using sp(1) Cons.prems(1) by (auto simp: only_io_def)
  show ?case
  proof (cases queue)
    case None
    have "result \<noteq> kIOReturnSuccess" using sp(2) None by simp
    moreover have "setup_queues_loop env dev ints inds (i # is) queues d
        = do { d2 \<leftarrow> failDevice d1; Some (result, queues, d2) }"
      using 1 None destroy_all [OF Cons.prems(2)] by (simp add: failDevice_eq [OF io])
    ultimately show ?thesis using sp(1) Cons.prems(2) by (auto simp: failDevice_eq [OF io])
  next
    case (Some q)
    have "fresh_queue q" using setupVirtqueue_fresh(1) [OF 1 [unfolded Some]] .
    then obtain result' qs d' where 2: "setup_queues_loop env dev ints inds is (queues @ [q]) d1 = Some (result', qs, d')"
      "\<forall>q \<in> set qs. fresh_queue q"
      "if result' = kIOReturnSuccess then length qs = length (queues @ [q]) + length is \<and> only_io d1 d' []
       else \<exists>d2. only_io d1 d2 [] \<and> failDevice d2 = Some d'"
      using Cons.IH [OF io, of "queues @ [q]"] Cons.prems(2) by auto
    have "only_io d d2 []" if "only_io d1 d2 []" for d2
      using only_io_trans [OF sp(1) that] by simp
    then show ?thesis using 1 2 Some by (auto split: if_splits)
  qed
qed simp

lemma setupVirtqueues_result:
  assumes "pci_device d \<and> (intr_event_source d \<longrightarrow> work_loop d)"
  shows "\<exists>result sizes d'. setupVirtqueues env dev n ints inds d = Some (result, sizes, d')
    \<and> (if result = kIOReturnSuccess
       then \<exists>qs. virtqueues d' = Some qs \<and> length qs = unat n \<and> num_virtqueues d' = ucast n
              \<and> (\<forall>q \<in> set qs. fresh_queue q) \<and> sizes = map num_entries qs
              \<and> status_writes (io_log d') = status_writes (io_log d)
              \<and> pci_virtio_header_iomap d' = pci_virtio_header_iomap d
       else virtqueues d' = virtqueues d \<and> num_virtqueues d' = num_virtqueues d
            \<and> (queue_array_ok env \<longrightarrow> \<not> pci_virtio_header_iomap d'
                 \<and> status_writes (io_log d') = status_writes (io_log d) @ [128]))"
proof (cases "queue_array_ok env")
  case False
  then show ?thesis by (simp add: setupVirtqueues_def)
next
  case True
  obtain result qs d1 where 1: "setup_queues_loop env dev ints inds [0..<unat n] [] d = Some (result, qs, d1)"
    "\<forall>q \<in> set qs. fresh_queue q"
    "if result = kIOReturnSuccess then length qs = unat n \<and> only_io d d1 []
     else \<exists>d2. only_io d d2 [] \<and> failDevice d2 = Some d1"
    using setup_queues_loop_spec [OF assms, of "[]" env dev ints inds "[0..<unat n]"] by auto
  show ?thesis
  proof (cases "result = kIOReturnSuccess")
    case success: True
    then show ?thesis using 1 True only_io_status [of d d1 "[]"]
      by (auto simp: setupVirtqueues_def only_io_def)
  next
    case failure: False
    then obtain d2 where d2: "only_io d d2 []" "failDevice d2 = Some d1" using 1 by auto
    then have "pci_device d2 \<and> (intr_event_source d2 \<longrightarrow> work_loop d2)" using assms by (auto simp: only_io_def)
    note f = failDevice_eq [OF this]
    show ?thesis using 1 True failure d2 f
      by (auto simp: setupVirtqueues_def only_io_def)
  qed
qed


section \<open>Interrupts\<close>

lemma only_io_fold:
  assumes "\<And>x d. only_io d (f x d) []"
  shows "only_io d (fold f xs d) []"
proof (induction xs arbitrary: d)
  case (Cons x xs)
  from only_io_trans [OF assms [of d x] Cons.IH [of "f x d"]] show ?case by simp
qed simp

lemma setup_msix_io:
  "only_io (d\<lparr>deviceSpecificConfigStartHeaderOffset := MSIX_END_HEADER\<rparr>) (setup_msix dev d) []"
proof -
  let ?f = "\<lambda>queue_id d. snd (io_read dev W16 MSIX_QUEUE_VECTOR
       (io_write W16 MSIX_QUEUE_VECTOR 0 (io_write W16 QUEUE_SELECT (of_nat queue_id) d)))"
  let ?d = "d\<lparr>deviceSpecificConfigStartHeaderOffset := MSIX_END_HEADER\<rparr>"
  let ?d1 = "snd (io_read dev W16 MSIX_CONFIG_VECTOR (io_write W16 MSIX_CONFIG_VECTOR 0 ?d))"
  have "only_io ?d ?d1 []" by (auto simp: only_io_def io_write_def io_read_def)
  moreover have "only_io ?d1 (fold ?f [0..<unat (num_virtqueues ?d1)] ?d1) []"
    by (rule only_io_fold) (auto simp: only_io_def io_write_def io_read_def)
  ultimately have "only_io ?d (fold ?f [0..<unat (num_virtqueues ?d1)] ?d1) ([] @ [])" by (rule only_io_trans)
  then show ?thesis by (simp add: setup_msix_def Let_def)
qed

text \<open>Enough fuel: the search ends at the first index without an interrupt source.\<close>

lemma find_interrupts_returns:
  assumes "\<exists>k < fuel. intr_type (i + k) = None"
  shows "\<exists>r. find_interrupts intr_type fuel i res = Some r"
  using assms
proof (induction fuel arbitrary: i res)
  case (Suc fuel)
  obtain a b c where res: "res = (a, b, c)" by (cases res)
  show ?case
  proof (cases "intr_type i")
    case (Some t)
    with Suc.prems obtain k where "k < Suc fuel" "intr_type (i + k) = None" "k \<noteq> 0"
      by (metis add.right_neutral option.distinct(1))
    then have "\<exists>k < fuel. intr_type (Suc i + k) = None"
      by (intro exI [of _ "k - 1"]) auto
    with Suc.IH [of "Suc i"] Some res show ?thesis by auto
  qed (simp add: res)
qed simp

lemma setup_msix_frame:
  "status_writes (io_log (setup_msix dev e)) = status_writes (io_log e)"
  "virtqueues (setup_msix dev e) = virtqueues e" "num_virtqueues (setup_msix dev e) = num_virtqueues e"
  "pci_virtio_header_iomap (setup_msix dev e) = pci_virtio_header_iomap e"
  "features (setup_msix dev e) = features e" "active_features (setup_msix dev e) = active_features e"
  "msix_active (setup_msix dev e) = msix_active e"
  "intr_event_source (setup_msix dev e) = intr_event_source e" "pci_device (setup_msix dev e) = pci_device e"
  "opened_by_client (setup_msix dev e) = opened_by_client e"
  "deviceSpecificConfigStartHeaderOffset (setup_msix dev e) = MSIX_END_HEADER"
proof -
  obtain log where "setup_msix dev e = e\<lparr>deviceSpecificConfigStartHeaderOffset := MSIX_END_HEADER,
      io_log := io_log e @ log\<rparr>" "status_writes log = []"
    using setup_msix_io [of e dev] by (auto simp: only_io_def)
  then show "status_writes (io_log (setup_msix dev e)) = status_writes (io_log e)"
    "virtqueues (setup_msix dev e) = virtqueues e" "num_virtqueues (setup_msix dev e) = num_virtqueues e"
    "pci_virtio_header_iomap (setup_msix dev e) = pci_virtio_header_iomap e"
    "features (setup_msix dev e) = features e" "active_features (setup_msix dev e) = active_features e"
    "msix_active (setup_msix dev e) = msix_active e"
    "intr_event_source (setup_msix dev e) = intr_event_source e" "pci_device (setup_msix dev e) = pci_device e"
    "opened_by_client (setup_msix dev e) = opened_by_client e"
    "deviceSpecificConfigStartHeaderOffset (setup_msix dev e) = MSIX_END_HEADER"
    by simp_all
qed

lemma msix_checked_frame:
  "status_writes (io_log (msix_checked env dev msi d)) = status_writes (io_log d)"
  "virtqueues (msix_checked env dev msi d) = virtqueues d"
  "num_virtqueues (msix_checked env dev msi d) = num_virtqueues d"
  "pci_virtio_header_iomap (msix_checked env dev msi d) = pci_virtio_header_iomap d"
  "features (msix_checked env dev msi d) = features d"
  "active_features (msix_checked env dev msi d) = active_features d"
  "intr_event_source (msix_checked env dev msi d) = intr_event_source d"
  "pci_device (msix_checked env dev msi d) = pci_device d"
  "opened_by_client (msix_checked env dev msi d) = opened_by_client d"
  "msix_active (msix_checked env dev msi d) \<Longrightarrow> \<not> msix_active d
     \<Longrightarrow> deviceSpecificConfigStartHeaderOffset (msix_checked env dev msi d) = MSIX_END_HEADER"
  "\<not> msix_active (msix_checked env dev msi d) \<Longrightarrow>
     deviceSpecificConfigStartHeaderOffset (msix_checked env dev msi d) = deviceSpecificConfigStartHeaderOffset d"
  by (auto simp: msix_checked_def Let_def setup_msix_frame split: if_splits)

lemma beginHandlingInterrupts_cases:
  assumes "beginHandlingInterrupts env dev fuel wl d = Some (ok, d')"
  obtains (no_source) "\<not> ok" "d' = d \<or> d' = d\<lparr>intr_event_source := False\<rparr>"
  | (source) msi wloop src where
      "d' = (msix_checked env dev msi (d\<lparr>intr_event_source := True\<rparr>))\<lparr>work_loop := wloop, intr_event_source := src\<rparr>"
      "ok \<longleftrightarrow> wloop \<and> src"
proof (cases "pci_device d")
  case False
  then show ?thesis using assms by (intro no_source) (simp_all add: beginHandlingInterrupts_def)
next
  case True
  with assms obtain a b c where f: "find_interrupts (interrupt_type env) fuel 0 (-1, -1, -1) = Some (a, b, c)"
    by (auto simp: beginHandlingInterrupts_def Option.bind_eq_Some_conv)
  let ?e = "msix_checked env dev (a \<ge> 0) (d\<lparr>intr_event_source := True\<rparr>)"
  let ?w = "wl \<or> provider_work_loop env \<or> new_work_loop env"
  have e: "?e\<lparr>work_loop := w, intr_event_source := True\<rparr> = ?e\<lparr>work_loop := w\<rparr>" for w
    using msix_checked_frame(7) [of env dev "a \<ge> 0" "d\<lparr>intr_event_source := True\<rparr>"]
    by (cases ?e) simp
  show ?thesis
  proof (cases "event_source_ok env (if a \<ge> 0 then a else 0)")
    case False
    then show ?thesis using assms True f
      by (intro no_source) (auto simp: beginHandlingInterrupts_def Let_def)
  next
    case ok: True
    have eq: "Some (ok, d') = (if \<not> ?w then Some (False, ?e\<lparr>work_loop := ?w\<rparr>)
        else if \<not> add_event_source_ok env then Some (False, ?e\<lparr>work_loop := ?w, intr_event_source := False\<rparr>)
        else Some (True, ?e\<lparr>work_loop := ?w\<rparr>))"
      using assms True f ok unfolding beginHandlingInterrupts_def Let_def by simp
    show ?thesis
      by (rule source [where msi = "a \<ge> 0" and wloop = ?w and src = "?w \<longrightarrow> add_event_source_ok env"])
         (use eq e in \<open>auto split: if_splits\<close>)
  qed
qed

lemma resetDevice_frame:
  assumes "resetDevice dev d = Some (True, d1)"
  shows "pci_device d" "pci_device d1" "status_writes (io_log d1) = status_writes (io_log d) @ [0, 1, 3]"
    "intr_event_source d1 = intr_event_source d" "work_loop d1 = work_loop d"
    "msix_active d1 = msix_active d"
    "deviceSpecificConfigStartHeaderOffset d1 = deviceSpecificConfigStartHeaderOffset d"
  using assms by (auto simp: resetDevice_def Let_def io_write_def io_read_def split: if_splits)

lemma requestFeatures_frame:
  assumes "requestFeatures use d = Some (True, d1)"
  shows "pci_device d" "d1 = io_write W32 GUEST_FEATURE_BITS_0_31 use (d\<lparr>active_features := use\<rparr>)"
  using assms by (auto simp: requestFeatures_def Let_def split: if_splits)

lemma setupVirtqueues_success:
  assumes "setupVirtqueues env dev n ints inds d = Some (kIOReturnSuccess, sizes, d')"
    "pci_device d \<and> (intr_event_source d \<longrightarrow> work_loop d)"
  obtains d1 qs where "only_io d d1 []" "d' = d1\<lparr>virtqueues := Some qs, num_virtqueues := ucast n\<rparr>"
proof -
  obtain result qs d1 where 1: "setup_queues_loop env dev ints inds [0..<unat n] [] d = Some (result, qs, d1)"
    "if result = kIOReturnSuccess then length qs = unat n \<and> only_io d d1 []
     else \<exists>d2. only_io d d2 [] \<and> failDevice d2 = Some d1"
    using setup_queues_loop_spec [OF assms(2), of "[]" env dev ints inds "[0..<unat n]"] by auto
  with assms(1) show ?thesis
    by (intro that [of d1 qs]) (auto simp: setupVirtqueues_def split: if_splits)
qed

lemma startDevice_frame:
  assumes "startDevice env dev fuel act wl d = Some d'" "\<not> msix_active d"
  shows "status_writes (io_log d') = status_writes (io_log d) @ [7]"
    "active_features d' = active_features d"
    "deviceSpecificConfigStartHeaderOffset d'
       = (if msix_active d' then MSIX_END_HEADER else deviceSpecificConfigStartHeaderOffset d)"
proof -
  from assms(1) obtain ok d1 n where b: "beginHandlingInterrupts env dev fuel wl (d\<lparr>configChangeAction := act\<rparr>) = Some (ok, d1)"
    and e: "dump_config dev n 0 (io_write W8 DEVICE_STATUS 7 d1) = Some d'"
    by (auto simp: startDevice_def Let_def Option.bind_eq_Some_conv split: if_splits)
  obtain log where d': "d' = (io_write W8 DEVICE_STATUS 7 d1)\<lparr>io_log := io_log (io_write W8 DEVICE_STATUS 7 d1) @ log\<rparr>"
    and log: "\<forall>e \<in> set log. \<exists>w a m. e = IoRead w a m"
    using dump_config_frame [OF e] by blast
  have "status_writes log = []" using log by (auto simp: status_writes_def filter_empty_conv)
  then have 1: "status_writes (io_log d') = status_writes (io_log d1) @ [7]" "active_features d' = active_features d1"
    "deviceSpecificConfigStartHeaderOffset d' = deviceSpecificConfigStartHeaderOffset d1" "msix_active d' = msix_active d1"
    by (simp_all add: d' io_write_def)
  from b have 2: "status_writes (io_log d1) = status_writes (io_log d) \<and> active_features d1 = active_features d
    \<and> deviceSpecificConfigStartHeaderOffset d1
       = (if msix_active d1 then MSIX_END_HEADER else deviceSpecificConfigStartHeaderOffset d)"
  proof (cases rule: beginHandlingInterrupts_cases)
    case (source msi wloop src)
    let ?d = "d\<lparr>configChangeAction := act, intr_event_source := True\<rparr>"
    show ?thesis
      using source(1) msix_checked_frame [of env dev msi ?d] assms(2) by auto
  qed (use assms(2) in auto)
  show "status_writes (io_log d') = status_writes (io_log d) @ [7]"
    "active_features d' = active_features d"
    "deviceSpecificConfigStartHeaderOffset d'
       = (if msix_active d' then MSIX_END_HEADER else deviceSpecificConfigStartHeaderOffset d)"
    using 1 2 by simp_all
qed


section \<open>A concrete device\<close>

text \<open>A device that offers the indirect descriptor feature, has queues of four entries, answers 0
  otherwise, and on which all services of the kernel succeed.\<close>

definition example_port :: port_device where
  "example_port log off =
     (if off = DEVICE_FEATURE_BITS_0_31 then VIRTIO_F_RING_INDIRECT_DESC
      else if off = QUEUE_SIZE then 4 else 0)"

definition example_alloc :: queue_alloc where
  "example_alloc = \<lparr>queue_mem_ok = True, queue_dma_ok = True, queue_set_md = kIOReturnSuccess,
     queue_gen = (\<lambda>n. (kIOReturnSuccess, ucast n, 1, \<lparr>fIOVMAddr = 0x10000, fLength = ucast n\<rparr>)),
     buffer_ok = (\<lambda>_. True)\<rparr>"

definition example_env :: pci_env where
  "example_env = \<lparr>provider_is_pci = True, bar0 = 1, header_range_length = Some 32, service_start = True,
     service_open = True, subsystem_id = Some (Some [2, 0, 0, 0]), pci_open_ok = True,
     header_map_length = Some 32, queue_array_ok = True, queue_allocs = (\<lambda>_. example_alloc),
     interrupt_type = (\<lambda>i. if i = 0 then Some 0 else None), msix_cap_offset = 0, msix_control = 0,
     event_source_ok = (\<lambda>_. True), provider_work_loop = True, new_work_loop = True,
     add_event_source_ok = True\<rparr>"

definition new_legacy_dev :: legacy_dev where
  "new_legacy_dev = \<lparr>virtio_device_type = 2, pci_device = True, pci_virtio_header_iomap = True,
     msix_active = False, features = 0, active_features = 0, virtqueues = None, num_virtqueues = 0,
     eventIndexFeatureEnabled = False, deviceSpecificConfigStartHeaderOffset = BASIC_END_HEADER,
     configChangeAction = False, intr_event_source = False, work_loop = False,
     received_config_change = False, opened_by_client = True, registered = True, io_log = []\<rparr>"

lemma example_alloc_ok: "allocs_ok example_alloc n"
  by (simp add: allocs_ok_def example_alloc_def kIOReturn_setup_check_def)

lemma example_setup:
  assumes "pci_device d"
  obtains q d' where "setupVirtqueues example_env example_port 1 ints inds d = Some (kIOReturnSuccess, [4], d')"
    "only_io d (d'\<lparr>virtqueues := virtqueues d, num_virtqueues := num_virtqueues d\<rparr>) []"
    "virtqueues d' = Some [q]" "fresh_queue q"
proof -
  obtain result queue d1 where 1: "setupVirtqueue example_port example_alloc 0 (ints 0) (inds 0) d = Some (result, queue, d1)"
    using setupVirtqueue_returns [OF assms, of example_port example_alloc 0 "ints 0" "inds 0"] by auto
  have size: "reported_size example_port 0 d = 4"
    by (simp add: reported_size_def example_port_def header_offsets)
  have "queue \<noteq> None" "result = kIOReturnSuccess"
    using setupVirtqueue_spec(2,3) [OF 1] by (auto simp: size example_alloc_ok is_pow2_def)
  then obtain q where q: "queue = Some q" by auto
  have "num_entries q = 4" "fresh_queue q"
    using setupVirtqueue_fresh [OF 1 [unfolded q]] size by auto
  then show ?thesis
    using 1 q \<open>result = kIOReturnSuccess\<close> setupVirtqueue_spec(1) [OF 1]
    by (intro that [of "d1\<lparr>virtqueues := Some [q], num_virtqueues := 1\<rparr>" q])
       (auto simp: setupVirtqueues_def example_env_def only_io_def)
qed

lemma example_bring_up_steps:
  obtains d1 d2 sizes d3 d4 where "resetDevice example_port new_legacy_dev = Some (True, d1)"
    "requestFeatures VIRTIO_F_RING_INDIRECT_DESC d1 = Some (True, d2)"
    "setupVirtqueues example_env example_port 1 (\<lambda>_. True) (\<lambda>_. 0) d2 = Some (kIOReturnSuccess, sizes, d3)"
    "startDevice example_env example_port 4 False False d3 = Some d4"
proof -
  obtain d1 where d1: "resetDevice example_port new_legacy_dev = Some (True, d1)"
    by (simp add: resetDevice_def Let_def io_write_def io_read_def example_port_def header_offsets new_legacy_dev_def)
  then have f1: "features d1 = VIRTIO_F_RING_INDIRECT_DESC" "pci_device d1" "pci_virtio_header_iomap d1"
    by (auto simp: resetDevice_def Let_def io_write_def io_read_def example_port_def header_offsets new_legacy_dev_def)
  obtain d2 where d2: "requestFeatures VIRTIO_F_RING_INDIRECT_DESC d1 = Some (True, d2)"
    using f1 by (simp add: requestFeatures_def Let_def VIRTIO_F_RING_INDIRECT_DESC_def VIRTIO_F_RING_EVENT_IDX_def)
  obtain d3 q where d3: "setupVirtqueues example_env example_port 1 (\<lambda>_. True) (\<lambda>_. 0) d2 = Some (kIOReturnSuccess, [4], d3)"
    "only_io d2 (d3\<lparr>virtqueues := virtqueues d2, num_virtqueues := num_virtqueues d2\<rparr>) []"
    using example_setup [of d2 "\<lambda>_. True" "\<lambda>_. 0"] f1 requestFeatures_frame [OF d2] by (auto simp: io_write_def)
  have f3: "pci_device d3" "pci_virtio_header_iomap d3"
  proof -
    obtain log where "d3\<lparr>virtqueues := virtqueues d2, num_virtqueues := num_virtqueues d2\<rparr> = d2\<lparr>io_log := io_log d2 @ log\<rparr>"
      using d3(2) by (auto simp: only_io_def)
    from arg_cong [OF this, of pci_device] arg_cong [OF this, of pci_virtio_header_iomap]
    show "pci_device d3" "pci_virtio_header_iomap d3"
      using f1 requestFeatures_frame [OF d2] by (simp_all add: io_write_def)
  qed
  let ?e = "d3\<lparr>configChangeAction := False, intr_event_source := True, work_loop := True\<rparr>"
  have "beginHandlingInterrupts example_env example_port 4 False (d3\<lparr>configChangeAction := False\<rparr>) = Some (True, ?e)"
    using f3 by (simp add: beginHandlingInterrupts_def example_env_def msix_checked_def numeral_eq_Suc
        has_bits_def)
  moreover have "\<exists>d4. dump_config example_port 32 0 (io_write W8 DEVICE_STATUS 7 ?e) = Some d4"
    by (rule dump_config_returns) simp_all
  ultimately obtain d4 where "startDevice example_env example_port 4 False False d3 = Some d4"
    using f3 by (auto simp: startDevice_def io_write_def example_env_def)
  with d1 d2 d3(1) show ?thesis by (rule that)
qed



section \<open>The invariant of the driver object\<close>

definition queue_ok :: "VirtioVirtqueue \<Rightarrow> bool" where
  "queue_ok q \<longleftrightarrow> (\<exists>fs chs. queue_inv q fs chs)"

definition dev_inv :: "legacy_dev \<Rightarrow> bool" where
  "dev_inv d \<longleftrightarrow>
     (virtqueues d = None \<longrightarrow> num_virtqueues d = 0)
     \<and> (\<forall>qs. virtqueues d = Some qs \<longrightarrow>
          length qs = unat (num_virtqueues d) \<and> (\<forall>q \<in> set qs. queue_ok q))
     \<and> (intr_event_source d \<longrightarrow> work_loop d)"

lemma queue_ok_flags:
  "queue_ok (q\<lparr>interrupts_requested := b, available_ring := (available_ring q)\<lparr>avail_flags := f\<rparr>\<rparr>) \<longleftrightarrow> queue_ok q"
  "queue_ok (q\<lparr>available_ring := (available_ring q)\<lparr>avail_flags := f\<rparr>\<rparr>) \<longleftrightarrow> queue_ok q"
  by (simp_all add: queue_ok_def queue_inv_def free_pool_def queue_wf_def)

lemma fresh_queue_ok: "fresh_queue q \<Longrightarrow> queue_ok q"
  by (auto simp: fresh_queue_def queue_ok_def)

lemma dev_inv_only_io: "only_io d d' vs \<Longrightarrow> dev_inv d' \<longleftrightarrow> dev_inv d"
  by (auto simp: only_io_def dev_inv_def)

lemma dev_inv_failDevice:
  assumes "dev_inv d" "pci_device d"
  shows "\<exists>d'. failDevice d = Some d' \<and> dev_inv d' \<and> \<not> pci_virtio_header_iomap d'
    \<and> virtqueues d' = virtqueues d \<and> num_virtqueues d' = num_virtqueues d"
  using assms by (auto simp: failDevice_eq dev_inv_def)

lemma setVirtqueueInterruptsEnabled_eqs:
  assumes "dev_inv d" "virtqueues d = Some qs"
  shows "i < length qs \<Longrightarrow> i < 65536 \<Longrightarrow>
      \<exists>d' q'. setVirtqueueInterruptsEnabled (of_nat i) enabled d = Some (kIOReturnSuccess, d')
        \<and> d' = d\<lparr>virtqueues := Some (qs[i := q'])\<rparr> \<and> dev_inv d' \<and> interrupts_requested q' = enabled
        \<and> (interrupts_requested (qs ! i) \<noteq> enabled \<longrightarrow>
             (avail_flags (available_ring q') = NO_INTERRUPT \<longleftrightarrow> \<not> enabled))"
    "length qs = unat queue_id \<Longrightarrow> setVirtqueueInterruptsEnabled queue_id enabled d = None"
    "length qs < unat queue_id \<Longrightarrow>
      setVirtqueueInterruptsEnabled queue_id enabled d = Some (kIOReturnBadArgument, d)"
proof -
  have n: "unat (num_virtqueues d) = length qs" using assms by (simp add: dev_inv_def)
  have gt: "num_virtqueues d < ucast queue_id \<longleftrightarrow> length qs < unat queue_id" for queue_id :: u16
    by (simp add: word_less_nat_alt n)
  show "length qs = unat queue_id \<Longrightarrow> setVirtqueueInterruptsEnabled queue_id enabled d = None"
    "length qs < unat queue_id \<Longrightarrow>
      setVirtqueueInterruptsEnabled queue_id enabled d = Some (kIOReturnBadArgument, d)"
    using gt [of queue_id] assms(2) by (auto simp: setVirtqueueInterruptsEnabled_def array_read_def)
  assume i: "i < length qs" "i < 65536"
  let ?q = "qs ! i"
  let ?q' = "if interrupts_requested ?q \<noteq> enabled then ?q\<lparr>interrupts_requested := enabled,
      available_ring := (available_ring ?q)\<lparr>avail_flags := (if enabled then 0 else NO_INTERRUPT)\<rparr>\<rparr> else ?q"
  have "queue_ok ?q" using assms i by (simp add: dev_inv_def)
  then have "queue_ok ?q'" by (simp add: queue_ok_flags)
  then have inv: "dev_inv (d\<lparr>virtqueues := Some (qs[i := ?q'])\<rparr>)"
    using assms set_update_subset_insert [of qs i ?q'] by (auto simp: dev_inv_def)
  have "setVirtqueueInterruptsEnabled (of_nat i) enabled d
      = Some (kIOReturnSuccess, d\<lparr>virtqueues := Some (qs[i := ?q'])\<rparr>)"
    using assms(2) i gt [of "of_nat i"]
    by (auto simp: setVirtqueueInterruptsEnabled_def list_update_same_conv)
  then show "\<exists>d' q'. setVirtqueueInterruptsEnabled (of_nat i) enabled d = Some (kIOReturnSuccess, d')
        \<and> d' = d\<lparr>virtqueues := Some (qs[i := q'])\<rparr> \<and> dev_inv d' \<and> interrupts_requested q' = enabled
        \<and> (interrupts_requested (qs ! i) \<noteq> enabled \<longrightarrow>
             (avail_flags (available_ring q') = NO_INTERRUPT \<longleftrightarrow> \<not> enabled))"
    by (intro exI [of _ "d\<lparr>virtqueues := Some (qs[i := ?q'])\<rparr>"] exI [of _ ?q']) (use inv in auto)
qed

text \<open>
  Setting whether a queue uses interrupts: for a queue of the device, only the flags of that queue
  change, and the device sees interrupts suppressed exactly when they are disabled. The bounds
  check lets the number of queues itself pass: then the function reads beyond the array.
\<close>

theorem setVirtqueueInterruptsEnabled_cases:
  assumes "dev_inv d" "virtqueues d = Some qs"
  shows "(unat i < length qs \<longrightarrow> (\<exists>d' q'. setVirtqueueInterruptsEnabled i enabled d = Some (kIOReturnSuccess, d')
        \<and> d' = d\<lparr>virtqueues := Some (qs[unat i := q'])\<rparr> \<and> dev_inv d' \<and> interrupts_requested q' = enabled
        \<and> (interrupts_requested (qs ! unat i) \<noteq> enabled \<longrightarrow>
             (avail_flags (available_ring q') = NO_INTERRUPT \<longleftrightarrow> \<not> enabled))))
    \<and> (unat i = length qs \<longrightarrow> setVirtqueueInterruptsEnabled i enabled d = None)
    \<and> (unat i > length qs \<longrightarrow> setVirtqueueInterruptsEnabled i enabled d = Some (kIOReturnBadArgument, d))"
  using setVirtqueueInterruptsEnabled_eqs(1) [OF assms _ unat_u16_less [of i], of enabled]
    setVirtqueueInterruptsEnabled_eqs(2,3) [OF assms, of i enabled]
  by simp

lemma destroy_ok: "queue_ok q \<Longrightarrow> \<exists>q'. destroy_virtqueue q = Some q'"
  by (auto simp: queue_ok_def destroy_virtqueue_def dest!: queue_inv_wf simp: queue_wf_def)

lemma destroy_loop:
  assumes "\<forall>q \<in> set qs. queue_ok q" "m \<le> length qs"
  shows "foldM (\<lambda>j u. do { q \<leftarrow> array_read qs j; destroy_virtqueue q; Some u }) [0..<m] () = Some ()"
  using assms(2)
proof (induction m)
  case (Suc m)
  obtain q' where "destroy_virtqueue (qs ! m) = Some q'" using assms(1) Suc.prems destroy_ok by force
  with Suc show ?case by (simp add: foldM_append)
qed simp

lemma handleClose_keeps:
  assumes "dev_inv d" "virtqueues d \<noteq> None \<longrightarrow> pci_device d"
  shows "\<exists>d'. handleClose d = Some d' \<and> dev_inv d' \<and> virtqueues d' = None
      \<and> \<not> pci_virtio_header_iomap d' \<and> \<not> opened_by_client d' \<and> pci_device d' = pci_device d
      \<and> status_writes (io_log d') = status_writes (io_log d) @ (if virtqueues d = None then [] else [128])"
proof (cases "virtqueues d")
  case None
  then show ?thesis using assms by (auto simp: handleClose_def dev_inv_def)
next
  case (Some qs)
  have w: "pci_device d \<and> (intr_event_source d \<longrightarrow> work_loop d)" using assms Some by (simp add: dev_inv_def)
  have "\<forall>q \<in> set qs. queue_ok q" "unat (num_virtqueues d) \<le> length qs"
    using assms Some by (auto simp: dev_inv_def)
  from destroy_loop [OF this] show ?thesis
    using Some by (simp add: handleClose_def failDevice_eq [OF w] dev_inv_def)
qed

text \<open>
  Opening and closing. Closing always succeeds: it leaves no queues and no mapping, and
  reports failure to the device exactly when there were queues. A device that was closed can be opened
  again whenever the kernel lets the client open it and maps its header; an open device refuses a second client.
\<close>

theorem open_close:
  assumes "dev_inv d" "pci_device d"
  shows "\<exists>d'. handleClose d = Some d' \<and> dev_inv d' \<and> virtqueues d' = None
      \<and> \<not> pci_virtio_header_iomap d' \<and> \<not> opened_by_client d' \<and> pci_device d' = pci_device d
      \<and> status_writes (io_log d') = status_writes (io_log d) @ (if virtqueues d = None then [] else [128])
      \<and> (service_open env \<longrightarrow> header_map_length env = Some n \<longrightarrow> unat n \<le> 65532 \<longrightarrow>
           (\<exists>d''. handleOpen env dev d' = Some (True, d'') \<and> dev_inv d''
              \<and> handleOpen env dev d'' = Some (False, d'')))"
proof -
  obtain d' where d': "handleClose d = Some d'" "dev_inv d'" "virtqueues d' = None"
      "\<not> pci_virtio_header_iomap d'" "\<not> opened_by_client d'" "pci_device d'"
      "status_writes (io_log d') = status_writes (io_log d) @ (if virtqueues d = None then [] else [128])"
    using handleClose_keeps [OF assms(1) impI [OF assms(2)]] assms(2) by auto
  have "\<exists>d''. handleOpen env dev d' = Some (True, d'') \<and> dev_inv d'' \<and> handleOpen env dev d'' = Some (False, d'')"
    if h: "service_open env" "header_map_length env = Some n" "unat n \<le> 65532"
  proof -
    obtain e where e: "dump_config dev n 0 (d'\<lparr>opened_by_client := True\<rparr>) = Some e"
      using dump_config_returns [OF h(3), of 0] by auto
    obtain log where "e = (d'\<lparr>opened_by_client := True\<rparr>)\<lparr>io_log := io_log (d'\<lparr>opened_by_client := True\<rparr>) @ log\<rparr>"
      using dump_config_frame [OF e] by blast
    then show ?thesis using h e d'
      by (auto simp: handleOpen_def mapHeaderIORegion_def dev_inv_def)
  qed
  then show ?thesis using d' assms(2) by (intro exI [of _ d']) simp
qed

lemma interruptFilter_spec_keeps:
  assumes "dev_inv d" "pci_device d" "dev (io_log d) ISR_STATUS = isr"
  shows "\<exists>r d'. interruptFilter dev True d = Some (r, d') \<and> dev_inv d'
    \<and> (r \<longleftrightarrow> has_bits isr 1 \<or> has_bits isr 2)
    \<and> (received_config_change d' \<longleftrightarrow> received_config_change d \<or> has_bits isr 2)
    \<and> (has_bits isr 1 \<and> \<not> has_bits isr 2 \<longrightarrow>
         (\<forall>qs. virtqueues d' = Some qs \<longrightarrow> (\<forall>q \<in> set qs. avail_flags (available_ring q) = NO_INTERRUPT)))"
proof -
  define d1 where "d1 = d\<lparr>io_log := io_log d @ [IoRead W8 ISR_STATUS (pci_virtio_header_iomap d)]\<rparr>"
  have d: "dev_inv d1" "num_virtqueues d1 = num_virtqueues d" "virtqueues d1 = virtqueues d"
    "received_config_change d1 = received_config_change d"
    using assms(1) by (auto simp: d1_def dev_inv_def)
  have r: "io_read dev W8 ISR_STATUS d = (isr, d1)" using assms(3) by (simp add: io_read_def d1_def)
  consider "has_bits isr 2" | "\<not> has_bits isr 2" "\<not> has_bits isr 1 \<or> virtqueues d = None"
    | qs where "\<not> has_bits isr 2" "has_bits isr 1" "virtqueues d = Some qs"
    by (cases "virtqueues d") auto
  then show ?thesis
  proof cases
    case 1
    then have "interruptFilter dev True d = Some (True, d1\<lparr>received_config_change := True\<rparr>)"
      using assms(2) r by (simp add: interruptFilter_def ISR_CONF_CHANGE_def)
    moreover have "dev_inv (d1\<lparr>received_config_change := True\<rparr>)" using d(1) by (simp add: dev_inv_def)
    ultimately show ?thesis using 1 by auto
  next
    case 2
    have "virtqueues d = None \<Longrightarrow> num_virtqueues d = 0" using assms(1) by (simp add: dev_inv_def)
    then have "interruptFilter dev True d = Some (has_bits isr 1, d1)"
      using assms(2) r d(2) 2 by (auto simp: interruptFilter_def ISR_CONF_CHANGE_def ISR_USED_def)
    then show ?thesis using d 2 by auto
  next
    case (3 qs)
    let ?f = "\<lambda>q. q\<lparr>available_ring := (available_ring q)\<lparr>avail_flags := NO_INTERRUPT\<rparr>\<rparr>"
    have n: "unat (num_virtqueues d) = length qs" using assms(1) 3 by (simp add: dev_inv_def)
    have "map (\<lambda>i. ?f (qs ! i)) [0..<length qs] = map ?f qs"
      by (rule nth_equalityI) simp_all
    with foldM_array_modify [of "\<lambda>_. ?f" qs]
    have fold: "foldM (\<lambda>i queues. array_modify queues i ?f) [0..<length qs] qs = Some (map ?f qs)"
      by simp
    have inv: "dev_inv (d1\<lparr>virtqueues := Some (map ?f qs)\<rparr>)"
      using assms(1) 3 d(2) by (auto simp: dev_inv_def queue_ok_flags d1_def)
    have "interruptFilter dev True d
        = Some (True, if num_virtqueues d = 0 then d1 else d1\<lparr>virtqueues := Some (map ?f qs)\<rparr>)"
      using assms(2) d r 3 fold n by (simp add: interruptFilter_def ISR_USED_def ISR_CONF_CHANGE_def)
    then show ?thesis
      using inv d 3 n by (cases "num_virtqueues d = 0") auto
  qed
qed


text \<open>A device with one idle queue of four entries.\<close>

definition queue4_dev :: legacy_dev where
  "queue4_dev = new_legacy_dev\<lparr>virtqueues := Some [queue4], num_virtqueues := 1\<rparr>"

lemma queue4_dev_inv: "dev_inv queue4_dev" "virtqueues queue4_dev = Some [queue4]" "pci_device queue4_dev"
  using queue4_inv(1) by (auto simp: queue4_dev_def dev_inv_def queue_ok_def new_legacy_dev_def)

theorem setVirtqueueInterruptsEnabled_cases_witness:
  "(\<exists>d'. setVirtqueueInterruptsEnabled 0 False queue4_dev = Some (kIOReturnSuccess, d') \<and> dev_inv d')
   \<and> setVirtqueueInterruptsEnabled 1 False queue4_dev = None
   \<and> setVirtqueueInterruptsEnabled 2 False queue4_dev = Some (kIOReturnBadArgument, queue4_dev)"
  using setVirtqueueInterruptsEnabled_cases [OF queue4_dev_inv(1,2), of 0 False]
    setVirtqueueInterruptsEnabled_cases [OF queue4_dev_inv(1,2), of 1 False]
    setVirtqueueInterruptsEnabled_cases [OF queue4_dev_inv(1,2), of 2 False]
  by auto

theorem open_close_witness:
  "\<exists>d' d''. handleClose queue4_dev = Some d' \<and> virtqueues d' = None
     \<and> status_writes (io_log d') = [128] \<and> handleOpen example_env example_port d' = Some (True, d'')
     \<and> handleOpen example_env example_port d'' = Some (False, d'')"
proof -
  obtain d' where d': "handleClose queue4_dev = Some d'" "virtqueues d' = None"
    "status_writes (io_log d') = status_writes (io_log queue4_dev) @ [128]"
    "service_open example_env \<longrightarrow> header_map_length example_env = Some 32 \<longrightarrow> unat (32 :: u64) \<le> 65532 \<longrightarrow>
       (\<exists>d''. handleOpen example_env example_port d' = Some (True, d'') \<and> dev_inv d''
          \<and> handleOpen example_env example_port d'' = Some (False, d''))"
    using open_close [OF queue4_dev_inv(1,3), of example_env 32 example_port] queue4_dev_inv(2) by auto
  moreover have "io_log queue4_dev = []" by (simp add: queue4_dev_def new_legacy_dev_def)
  moreover have "service_open example_env" "header_map_length example_env = Some 32"
    by (simp_all add: example_env_def)
  ultimately show ?thesis by auto
qed


theorem requestFeatures_iff_witness:
  "requestFeatures (2 ^ 28) (new_legacy_dev\<lparr>features := 2 ^ 28\<rparr>)
     = Some (True, new_legacy_dev\<lparr>features := 2 ^ 28, active_features := 2 ^ 28, io_log := [IoWrite W32 4 (2 ^ 28) True]\<rparr>)"
  using requestFeatures_iff [of "new_legacy_dev\<lparr>features := 2 ^ 28\<rparr>" "2 ^ 28"]
  by (simp add: new_legacy_dev_def bit_exp_iff)

end
