(* ===== verification/Legacy_PCI_States.thy ===== *)
theory Legacy_PCI_States
  imports Legacy_PCI_Props
begin

text \<open>
  The legacy transport as a state machine. Its steps are the calls that the kernel and a client driver
  make from outside, in any order that the kernel allows: a client calls the device only
  between opening and closing it, and the kernel starts, stops and terminates the service only while it is
  not open. The invariant holds in every state reached this way, provided that the kernel can
  always make a work loop; without one, a null pointer is really dereferenced.
\<close>

inductive control_step :: "pci_env \<Rightarrow> port_device \<Rightarrow> nat \<Rightarrow> legacy_dev \<Rightarrow> legacy_dev \<Rightarrow> bool"
  for env dev fuel where
  step_start: "\<not> opened_by_client d \<Longrightarrow> start env dev d = Some (ok, d') \<Longrightarrow> control_step env dev fuel d d'"
| step_open: "\<not> opened_by_client d \<Longrightarrow> handleOpen env dev d = Some (ok, d') \<Longrightarrow> control_step env dev fuel d d'"
| step_reset: "opened_by_client d \<Longrightarrow> resetDevice dev d = Some (ok, d') \<Longrightarrow> control_step env dev fuel d d'"
| step_features: "opened_by_client d \<Longrightarrow> requestFeatures use d = Some (ok, d') \<Longrightarrow>
    control_step env dev fuel d d'"
| step_setup: "opened_by_client d \<Longrightarrow> setupVirtqueues env dev n ints inds d = Some (result, sizes, d') \<Longrightarrow>
    control_step env dev fuel d d'"
| step_startDevice: "opened_by_client d \<Longrightarrow> startDevice env dev fuel action wl d = Some d' \<Longrightarrow>
    control_step env dev fuel d d'"
| step_interrupts_enabled: "opened_by_client d \<Longrightarrow>
    setVirtqueueInterruptsEnabled i enabled d = Some (result, d') \<Longrightarrow> control_step env dev fuel d d'"
| step_filter: "interruptFilter dev for_us d = Some (ok, d') \<Longrightarrow> control_step env dev fuel d d'"
| step_fail: "opened_by_client d \<Longrightarrow> failDevice d = Some d' \<Longrightarrow> control_step env dev fuel d d'"
| step_close: "opened_by_client d \<Longrightarrow> handleClose d = Some d' \<Longrightarrow> control_step env dev fuel d d'"
| step_stop: "\<not> opened_by_client d \<Longrightarrow> stop d = Some d' \<Longrightarrow> control_step env dev fuel d d'"
| step_terminate: "\<not> opened_by_client d \<Longrightarrow> didTerminate d = Some d' \<Longrightarrow> control_step env dev fuel d d'"

inductive_cases control_stepE: "control_step env dev fuel d d'"

inductive control_reachable :: "pci_env \<Rightarrow> port_device \<Rightarrow> nat \<Rightarrow> legacy_dev \<Rightarrow> legacy_dev \<Rightarrow> bool"
  for env dev fuel d0 where
  reach_init: "control_reachable env dev fuel d0 d0"
| reach_step: "control_reachable env dev fuel d0 d \<Longrightarrow> control_step env dev fuel d d' \<Longrightarrow>
    control_reachable env dev fuel d0 d'"

section \<open>Each operation keeps the invariant\<close>

lemma dev_inv_frame:
  "virtqueues d' = virtqueues d \<Longrightarrow> num_virtqueues d' = num_virtqueues d \<Longrightarrow>
   (intr_event_source d' \<longrightarrow> work_loop d') \<Longrightarrow> dev_inv d \<Longrightarrow> dev_inv d'"
  by (simp add: dev_inv_def)

lemma dev_inv_work_loop: "dev_inv d \<Longrightarrow> intr_event_source d \<longrightarrow> work_loop d"
  by (simp add: dev_inv_def)

text \<open>Most operations touch neither the PCI device nor the open state.\<close>

definition same_session :: "legacy_dev \<Rightarrow> legacy_dev \<Rightarrow> bool" where
  "same_session d d' \<longleftrightarrow> opened_by_client d' = opened_by_client d \<and> pci_device d' = pci_device d"

definition session_inv :: "legacy_dev \<Rightarrow> bool" where
  "session_inv d \<longleftrightarrow> dev_inv d \<and> (opened_by_client d \<longrightarrow> pci_device d)
     \<and> (virtqueues d \<noteq> None \<longrightarrow> opened_by_client d)"

lemma session_inv_open:
  "opened_by_client d \<Longrightarrow> session_inv d \<Longrightarrow> dev_inv d' \<and> same_session d d' \<Longrightarrow> session_inv d'"
  by (auto simp: session_inv_def same_session_def)

lemma only_io_session: "only_io d d' vs \<Longrightarrow> same_session d d'"
  by (auto simp: only_io_def same_session_def)

lemma mapHeaderIORegion_keeps:
  assumes "mapHeaderIORegion env dev d = Some (ok, d')" "dev_inv d"
  shows "dev_inv d'" "same_session d d'" "virtqueues d' = virtqueues d" "pci_device d"
  using assms by (auto simp: mapHeaderIORegion_def dev_inv_def same_session_def
      split: option.splits Option.bind_splits if_splits dest!: dump_config_frame)

lemma resetDevice_keeps:
  assumes "resetDevice dev d = Some (ok, d')" "dev_inv d"
  shows "dev_inv d' \<and> same_session d d'" "virtqueues d' = virtqueues d"
  using assms by (auto simp: resetDevice_def Let_def io_write_def io_read_def dev_inv_def same_session_def
      split: if_splits)

lemma failDevice_keeps:
  assumes "failDevice d = Some d'" "dev_inv d"
  shows "dev_inv d' \<and> same_session d d'" "virtqueues d' = virtqueues d"
  using assms by (auto simp: failDevice_def endHandlingInterrupts_def io_write_def dev_inv_def same_session_def
      split: if_splits)

lemma start_keeps:
  assumes "start env dev d = Some (ok, d')" "dev_inv d"
  shows "dev_inv d'" "opened_by_client d' = opened_by_client d" "virtqueues d' = virtqueues d"
proof -
  have frame: "dev_inv (d\<lparr>virtio_device_type := t, pci_device := True\<rparr>)" for t
    using assms(2) by (simp add: dev_inv_def)
  from assms(1) consider "d' = d" | t where "d' = d\<lparr>virtio_device_type := t\<rparr>"
    | t e where "mapHeaderIORegion env dev (d\<lparr>virtio_device_type := t, pci_device := True\<rparr>) = Some (False, e)"
        "d' = e\<lparr>pci_device := False\<rparr>"
    | t e r e2 e3 where "mapHeaderIORegion env dev (d\<lparr>virtio_device_type := t, pci_device := True\<rparr>) = Some (True, e)"
        "resetDevice dev (e\<lparr>deviceSpecificConfigStartHeaderOffset := BASIC_END_HEADER\<rparr>) = Some (r, e2)"
        "failDevice e2 = Some e3" "d' = e3\<lparr>registered := True\<rparr>"
    by (auto simp: start_def Let_def split: if_splits option.splits Option.bind_splits)
  then have "dev_inv d' \<and> opened_by_client d' = opened_by_client d \<and> virtqueues d' = virtqueues d"
  proof cases
    case (3 t e)
    then show ?thesis using mapHeaderIORegion_keeps [OF 3(1) frame]
      by (auto simp: dev_inv_def same_session_def)
  next
    case (4 t e r e2 e3)
    let ?e = "e\<lparr>deviceSpecificConfigStartHeaderOffset := BASIC_END_HEADER\<rparr>"
    note m = mapHeaderIORegion_keeps [OF 4(1) frame]
    have "dev_inv ?e" using m(1) by (simp add: dev_inv_def)
    note r = resetDevice_keeps [OF 4(2) this]
    note f = failDevice_keeps [OF 4(3) conjunct1 [OF r(1)]]
    show ?thesis using m r f 4(4) by (auto simp: dev_inv_def same_session_def)
  qed (use assms(2) in \<open>auto simp: dev_inv_def\<close>)
  then show "dev_inv d'" "opened_by_client d' = opened_by_client d" "virtqueues d' = virtqueues d" by simp_all
qed

lemma handleOpen_keeps:
  assumes "handleOpen env dev d = Some (ok, d')" "dev_inv d"
  shows "dev_inv d'" "opened_by_client d' \<longrightarrow> opened_by_client d \<or> pci_device d'" "virtqueues d' = virtqueues d"
proof -
  have o: "dev_inv (d\<lparr>opened_by_client := True\<rparr>)" using assms(2) by (simp add: dev_inv_def)
  have "dev_inv (e\<lparr>opened_by_client := False\<rparr>)" if "dev_inv e" for e using that by (simp add: dev_inv_def)
  then show "dev_inv d'" "opened_by_client d' \<longrightarrow> opened_by_client d \<or> pci_device d'" "virtqueues d' = virtqueues d"
    using assms mapHeaderIORegion_keeps [OF _ o]
    by (auto simp: handleOpen_def same_session_def split: if_splits Option.bind_splits)
qed

lemma requestFeatures_keeps:
  assumes "requestFeatures use d = Some (ok, d')" "dev_inv d"
  shows "dev_inv d' \<and> same_session d d'"
  using assms by (auto simp: requestFeatures_def Let_def io_write_def dev_inv_def same_session_def split: if_splits)

lemma setupVirtqueues_keeps:
  assumes "setupVirtqueues env dev n ints inds d = Some (result, sizes, d')" "dev_inv d" "pci_device d"
  shows "dev_inv d' \<and> same_session d d'"
proof (cases "queue_array_ok env")
  case True
  obtain r qs d1 where l: "setup_queues_loop env dev ints inds [0..<unat n] [] d = Some (r, qs, d1)"
    "\<forall>q \<in> set qs. fresh_queue q"
    "if r = kIOReturnSuccess then length qs = unat n \<and> only_io d d1 []
     else \<exists>d2. only_io d d2 [] \<and> failDevice d2 = Some d1"
    using setup_queues_loop_spec [OF conjI [OF assms(3) dev_inv_work_loop [OF assms(2)]], of "[]" env dev ints inds "[0..<unat n]"] by auto
  show ?thesis
  proof (cases "r = kIOReturnSuccess")
    case success: True
    with l have "dev_inv d1" "length qs = unat n" "same_session d d1"
      using dev_inv_only_io assms(2) by (auto intro: only_io_session)
    moreover have "d' = d1\<lparr>virtqueues := Some qs, num_virtqueues := ucast n\<rparr>"
      using assms(1) True l(1) success by (simp add: setupVirtqueues_def)
    ultimately show ?thesis using l(2) fresh_queue_ok by (auto simp: dev_inv_def same_session_def)
  next
    case False
    with l obtain d2 where "only_io d d2 []" "failDevice d2 = Some d1" by auto
    moreover from this have "dev_inv d2" "same_session d d2"
      using dev_inv_only_io assms(2) by (auto intro: only_io_session)
    ultimately have "dev_inv d1 \<and> same_session d d1" using failDevice_keeps [of d2 d1] by (auto simp: same_session_def)
    with False l(1) assms(1) True show ?thesis by (simp add: setupVirtqueues_def)
  qed
qed (use assms in \<open>simp add: setupVirtqueues_def same_session_def\<close>)

lemma beginHandlingInterrupts_keeps:
  assumes "beginHandlingInterrupts env dev fuel wl d = Some (ok, d')" "dev_inv d" "new_work_loop env"
  shows "dev_inv d' \<and> same_session d d'"
proof -
  have m: "dev_inv ((msix_checked env dev msi (d\<lparr>intr_event_source := True\<rparr>))\<lparr>work_loop := True\<rparr>)"
    "dev_inv ((msix_checked env dev msi (d\<lparr>intr_event_source := True\<rparr>))\<lparr>work_loop := True, intr_event_source := False\<rparr>)"
    "same_session d (msix_checked env dev msi (d\<lparr>intr_event_source := True\<rparr>))" for msi
    using assms(2) by (simp_all add: dev_inv_def msix_checked_frame same_session_def)
  have "dev_inv (d\<lparr>intr_event_source := False\<rparr>)" using assms(2) by (simp add: dev_inv_def)
  with m assms show ?thesis
    by (auto simp: beginHandlingInterrupts_def Let_def same_session_def split: if_splits Option.bind_splits)
qed

lemma startDevice_keeps:
  assumes "startDevice env dev fuel action wl d = Some d'" "dev_inv d" "new_work_loop env"
  shows "dev_inv d' \<and> same_session d d'"
proof -
  obtain ok d1 n where b: "beginHandlingInterrupts env dev fuel wl (d\<lparr>configChangeAction := action\<rparr>) = Some (ok, d1)"
    and c: "dump_config dev n 0 (io_write W8 DEVICE_STATUS 7 d1) = Some d'"
    using assms(1) by (auto simp: startDevice_def Let_def split: Option.bind_splits if_splits)
  have "dev_inv (d\<lparr>configChangeAction := action\<rparr>)" using assms(2) by (simp add: dev_inv_def)
  from beginHandlingInterrupts_keeps [OF b this assms(3)] dump_config_frame [OF c] show ?thesis
    by (auto simp: dev_inv_def io_write_def same_session_def)
qed

lemma setVirtqueueInterruptsEnabled_keeps:
  assumes "setVirtqueueInterruptsEnabled i enabled d = Some (result, d')" "dev_inv d"
  shows "dev_inv d' \<and> same_session d d'"
proof -
  consider "d' = d" | qs q' where "virtqueues d = Some qs" "unat i < length qs" "queue_ok q' \<longleftrightarrow> queue_ok (qs ! unat i)"
      "d' = d\<lparr>virtqueues := Some (qs[unat i := q'])\<rparr>"
  proof (cases "virtqueues d")
    case (Some qs)
    let ?q = "qs ! unat i"
    let ?q' = "?q\<lparr>interrupts_requested := enabled,
      available_ring := (available_ring ?q)\<lparr>avail_flags := (if enabled then 0 else NO_INTERRUPT)\<rparr>\<rparr>"
    have "d' = d \<or> unat i < length qs \<and> d' = d\<lparr>virtqueues := Some (qs[unat i := ?q'])\<rparr>"
      using assms(1) Some by (auto simp: setVirtqueueInterruptsEnabled_def split: if_splits Option.bind_splits)
    then show ?thesis
      using that(1) that(2) [of qs ?q'] Some by (simp add: queue_ok_flags) blast
  qed (use that assms(1) in \<open>auto simp: setVirtqueueInterruptsEnabled_def split: if_splits\<close>)
  then show ?thesis
  proof cases
    case (2 qs q')
    then have "queue_ok q'" using assms(2) by (simp add: dev_inv_def)
    with 2 assms(2) show ?thesis
      using set_update_subset_insert [of qs "unat i" q'] by (auto simp: dev_inv_def same_session_def)
  qed (use assms(2) in \<open>simp add: same_session_def\<close>)
qed

lemma interruptFilter_keeps:
  assumes "interruptFilter dev for_us d = Some (ok, d')" "dev_inv d"
  shows "dev_inv d' \<and> same_session d d'" "virtqueues d' = None \<longleftrightarrow> virtqueues d = None"
proof -
  have "dev_inv d'"
  proof (cases for_us)
    case True
    then have "pci_device d" using assms(1) by (auto simp: interruptFilter_def split: if_splits)
    from interruptFilter_spec_keeps [OF assms(2) this refl, of dev] assms(1) True show ?thesis by auto
  qed (use assms in \<open>simp add: interruptFilter_def\<close>)
  then show "dev_inv d' \<and> same_session d d'" "virtqueues d' = None \<longleftrightarrow> virtqueues d = None"
    using assms(1) by (auto simp: interruptFilter_def same_session_def io_read_def
        split: if_splits Option.bind_splits)
qed

lemma closePCIDevice_keeps:
  assumes "closePCIDevice d = Some d'" "dev_inv d"
  shows "dev_inv d' \<and> opened_by_client d' = opened_by_client d \<and> virtqueues d' = virtqueues d"
  using assms by (auto simp: closePCIDevice_def endHandlingInterrupts_def dev_inv_def split: if_splits Option.bind_splits)

section \<open>Reachable states\<close>

lemma control_step_keeps:
  assumes "control_step env dev fuel d d'" "session_inv d" "new_work_loop env"
  shows "session_inv d'"
proof -
  have i: "dev_inv d" "virtqueues d \<noteq> None \<longrightarrow> pci_device d" "opened_by_client d \<Longrightarrow> pci_device d"
    "\<not> opened_by_client d \<Longrightarrow> virtqueues d = None"
    using assms(2) by (auto simp: session_inv_def)
  from assms(1) show ?thesis
  proof cases
    case (step_start ok)
    then show ?thesis using start_keeps [OF _ i(1)] i(4) by (auto simp: session_inv_def)
  next
    case (step_open ok)
    then show ?thesis using handleOpen_keeps [OF _ i(1)] i(4) by (auto simp: session_inv_def)
  next
    case (step_filter for_us ok)
    note k = interruptFilter_keeps [OF step_filter i(1)]
    then show ?thesis
      using session_inv_open [OF _ assms(2) k(1)] i(4) by (cases "opened_by_client d") (auto simp: session_inv_def same_session_def)
  next
    case step_close
    then show ?thesis using handleClose_keeps [OF i(1,2)] by (auto simp: session_inv_def)
  next
    case step_stop
    then show ?thesis using closePCIDevice_keeps [OF _ i(1)] i(4) by (fastforce simp: session_inv_def stop_def)
  next
    case step_terminate
    then show ?thesis using closePCIDevice_keeps [OF _ i(1)] i(4) by (fastforce simp: session_inv_def didTerminate_def)
  next
    case (step_setup n ints inds result sizes)
    then show ?thesis using session_inv_open [OF _ assms(2)] setupVirtqueues_keeps [OF _ i(1) i(3)] by blast
  next
    case (step_startDevice action wl)
    then show ?thesis using session_inv_open [OF _ assms(2)] startDevice_keeps [OF _ i(1) assms(3)] by blast
  qed (use session_inv_open [OF _ assms(2)] resetDevice_keeps(1) [OF _ i(1)] requestFeatures_keeps [OF _ i(1)]
      setVirtqueueInterruptsEnabled_keeps [OF _ i(1)] failDevice_keeps(1) [OF _ i(1)] in \<open>blast\<close>)+
qed



text \<open>
  Without any work loop, \<^verbatim>\<open>startDevice\<close> keeps the interrupt source but no work loop, does not report the
  failure, and the next \<^verbatim>\<open>failDevice\<close> or \<^verbatim>\<open>stop\<close> dereferences the null work loop.
\<close>

theorem startDevice_without_work_loop:
  assumes "pci_device d" "pci_virtio_header_iomap d" "header_map_length env = Some n" "unat n \<le> 65532"
    "\<exists>k < fuel. interrupt_type env k = None" "\<And>i. event_source_ok env i"
    "\<not> provider_work_loop env" "\<not> new_work_loop env"
  shows "\<exists>d'. startDevice env dev fuel action False d = Some d' \<and> intr_event_source d' \<and> \<not> work_loop d'
     \<and> failDevice d' = None \<and> stop d' = None"
proof -
  let ?d = "d\<lparr>configChangeAction := action\<rparr>"
  obtain a b c where f: "find_interrupts (interrupt_type env) fuel 0 (-1, -1, -1) = Some (a, b, c)"
    using find_interrupts_returns [of fuel "interrupt_type env" 0 "(-1, -1, -1)"] assms(5) by auto
  define e where "e = (msix_checked env dev (a \<ge> 0) (?d\<lparr>intr_event_source := True\<rparr>))\<lparr>work_loop := False\<rparr>"
  have e: "intr_event_source e" "\<not> work_loop e" "pci_virtio_header_iomap e" "pci_device e"
    using assms(1,2) by (simp_all add: e_def msix_checked_frame)
  have begin_eq: "beginHandlingInterrupts env dev fuel False ?d = Some (False, e)"
    using f assms by (simp add: beginHandlingInterrupts_def e_def)
  obtain d' where d': "dump_config dev n 0 (io_write W8 DEVICE_STATUS 7 e) = Some d'"
    using dump_config_returns [OF assms(4), of 0 dev] by auto
  then have "startDevice env dev fuel action False d = Some d'"
    using begin_eq e(3,4) assms(3) by (simp add: startDevice_def io_write_def)
  moreover have "intr_event_source d'" "\<not> work_loop d'"
    using dump_config_frame [OF d'] e by (auto simp: io_write_def)
  ultimately show ?thesis
    by (auto simp: failDevice_def stop_def closePCIDevice_def endHandlingInterrupts_def io_write_def)
qed

theorem startDevice_without_work_loop_witness:
  "\<exists>d'. startDevice (example_env\<lparr>provider_work_loop := False, new_work_loop := False\<rparr>) example_port 4 False False
      new_legacy_dev = Some d' \<and> failDevice d' = None"
proof -
  have "\<exists>k < 4. interrupt_type (example_env\<lparr>provider_work_loop := False, new_work_loop := False\<rparr>) k = None"
    by (rule exI [of _ 1]) (simp add: example_env_def)
  from startDevice_without_work_loop [OF _ _ _ _ this, of new_legacy_dev 32 example_port False] show ?thesis
    by (auto simp: example_env_def new_legacy_dev_def)
qed

end
