(* ===== verification/Virtio_Device.thy ===== *)
theory Virtio_Device
  imports Legacy_PCI_States
begin

text \<open>
  The abstract class \<^verbatim>\<open>VirtioDevice\<close> (VirtioDevice.h and VirtioDevice.cpp) as the device
  drivers see it. A transport object is a state together with a table of its virtual functions, so the
  drivers are modelled once and run on any transport. The locale \<open>virtio_transport\<close> is the contract
  that the drivers rely on; the legacy PCI transport fulfils it whenever the kernel maps a header of at
  most 65532 bytes and can make work loops.
\<close>

section \<open>Virtual functions\<close>

record 't VirtioDevice =
  vd_open :: "'t \<Rightarrow> (bool \<times> 't) option"
  vd_close :: "'t \<Rightarrow> 't option"
  vd_resetDevice :: "'t \<Rightarrow> (bool \<times> 't) option"
  vd_supportedFeatures :: "'t \<Rightarrow> u32"
  vd_requestFeatures :: "u32 \<Rightarrow> 't \<Rightarrow> (bool \<times> 't) option"
  vd_failDevice :: "'t \<Rightarrow> 't option"
  vd_setupVirtqueues :: "u16 \<Rightarrow> (nat \<Rightarrow> bool) \<Rightarrow> (nat \<Rightarrow> u32) \<Rightarrow> 't \<Rightarrow> (IOReturn \<times> u32 list \<times> 't) option"
  vd_setVirtqueueInterruptsEnabled :: "u16 \<Rightarrow> bool \<Rightarrow> 't \<Rightarrow> (IOReturn \<times> 't) option"
  vd_startDevice :: "bool \<Rightarrow> bool \<Rightarrow> 't \<Rightarrow> 't option"
  vd_submitBuffersToVirtqueue :: "u16 \<Rightarrow> IOMemoryDescriptor option \<Rightarrow> IOMemoryDescriptor option
    \<Rightarrow> VirtioCompletion \<Rightarrow> 't \<Rightarrow> (IOReturn \<times> 't) option"
  vd_readDeviceConfig8 :: "u16 \<Rightarrow> 't \<Rightarrow> (u8 \<times> 't) option"
  vd_readDeviceConfig16Native :: "u16 \<Rightarrow> 't \<Rightarrow> (u16 \<times> 't) option"
  vd_readDeviceConfig32Native :: "u16 \<Rightarrow> 't \<Rightarrow> (u32 \<times> 't) option"
  vd_readDeviceConfig64Native :: "u16 \<Rightarrow> 't \<Rightarrow> (u64 \<times> 't) option"
  vd_readDeviceConfig16LETransitional :: "u16 \<Rightarrow> 't \<Rightarrow> (u16 \<times> 't) option"
  vd_readDeviceConfig32LETransitional :: "u16 \<Rightarrow> 't \<Rightarrow> (u32 \<times> 't) option"
  vd_readDeviceConfig64LETransitional :: "u16 \<Rightarrow> 't \<Rightarrow> (u64 \<times> 't) option"
  vd_writeDeviceConfig8 :: "u16 \<Rightarrow> u8 \<Rightarrow> 't \<Rightarrow> 't option"
  vd_writeDeviceConfig16Native :: "u16 \<Rightarrow> u16 \<Rightarrow> 't \<Rightarrow> 't option"
  vd_writeDeviceConfig32Native :: "u16 \<Rightarrow> u32 \<Rightarrow> 't \<Rightarrow> 't option"
  vd_writeDeviceConfig16LETransitional :: "u16 \<Rightarrow> u16 \<Rightarrow> 't \<Rightarrow> 't option"
  vd_writeDeviceConfig32LETransitional :: "u16 \<Rightarrow> u32 \<Rightarrow> 't \<Rightarrow> 't option"

text \<open>The little-endian accessors: on x86 the byte swaps are the identity.\<close>

definition readDeviceConfig16LE :: "'t VirtioDevice \<Rightarrow> u16 \<Rightarrow> 't \<Rightarrow> (u16 \<times> 't) option" where
  "readDeviceConfig16LE vt offset t = vd_readDeviceConfig16Native vt offset t"

definition readDeviceConfig32LE :: "'t VirtioDevice \<Rightarrow> u16 \<Rightarrow> 't \<Rightarrow> (u32 \<times> 't) option" where
  "readDeviceConfig32LE vt offset t = vd_readDeviceConfig32Native vt offset t"

definition readDeviceConfig64LE :: "'t VirtioDevice \<Rightarrow> u16 \<Rightarrow> 't \<Rightarrow> (u64 \<times> 't) option" where
  "readDeviceConfig64LE vt offset t = vd_readDeviceConfig64Native vt offset t"

definition writeDeviceConfig16LE :: "'t VirtioDevice \<Rightarrow> u16 \<Rightarrow> u16 \<Rightarrow> 't \<Rightarrow> 't option" where
  "writeDeviceConfig16LE vt offset value t = vd_writeDeviceConfig16Native vt offset value t"

definition writeDeviceConfig32LE :: "'t VirtioDevice \<Rightarrow> u16 \<Rightarrow> u32 \<Rightarrow> 't \<Rightarrow> 't option" where
  "writeDeviceConfig32LE vt offset value t = vd_writeDeviceConfig32Native vt offset value t"

text \<open>\<^verbatim>\<open>matchPropertyTable\<close>: the entry of the personality for the device type is absent, a number or
  something else; \<open>super\<close> is the answer of \<^verbatim>\<open>IOService::matchPropertyTable\<close>.\<close>

datatype property_value = OSNumber u64 | OSOther

definition matchPropertyTable :: "bool \<Rightarrow> u32 \<Rightarrow> property_value option \<Rightarrow> bool" where
  "matchPropertyTable super device_type deviceTypeIDValue =
     (if \<not> super then False
      else case deviceTypeIDValue of
        None \<Rightarrow> True
      | Some (OSNumber n) \<Rightarrow> device_type = ucast n
      | Some OSOther \<Rightarrow> False)"

section \<open>The contract of a transport\<close>

text \<open>\<open>closed\<close>: no client has the device open; \<open>live\<close>: one has; \<open>mapped\<close>: the device registers are
  accessible, which is the case from opening the device until it fails.\<close>

locale virtio_transport =
  fixes vt :: "'t VirtioDevice" and closed live mapped :: "'t \<Rightarrow> bool"
  assumes open_ok: "closed t \<Longrightarrow> \<exists>ok t'. vd_open vt t = Some (ok, t')
      \<and> (if ok then live t' \<and> mapped t' else closed t')"
    and close_ok: "live t \<Longrightarrow> \<exists>t'. vd_close vt t = Some t' \<and> closed t'"
    and reset_ok: "live t \<Longrightarrow> \<exists>ok t'. vd_resetDevice vt t = Some (ok, t')
      \<and> live t' \<and> mapped t' = mapped t"
    and request_ok: "live t \<Longrightarrow> \<exists>ok t'. vd_requestFeatures vt use t = Some (ok, t')
      \<and> live t' \<and> mapped t' = mapped t"
    and fail_ok: "live t \<Longrightarrow> \<exists>t'. vd_failDevice vt t = Some t' \<and> live t'"
    and setup_ok: "live t \<Longrightarrow> \<exists>result sizes t'. vd_setupVirtqueues vt n ints inds t = Some (result, sizes, t')
      \<and> live t' \<and> (result = kIOReturnSuccess \<longrightarrow> mapped t' = mapped t \<and> length sizes = unat n)"
    and start_ok: "live t \<Longrightarrow> mapped t \<Longrightarrow> \<exists>t'. vd_startDevice vt action wl t = Some t' \<and> live t' \<and> mapped t'"
    and read8_ok: "live t \<Longrightarrow> \<exists>v t'. vd_readDeviceConfig8 vt off8 t = Some (v, t') \<and> live t' \<and> mapped t' = mapped t"
    and read16_ok: "live t \<Longrightarrow> \<exists>v t'. vd_readDeviceConfig16LETransitional vt off16 t = Some (v, t') \<and> live t' \<and> mapped t' = mapped t"
    and read32_ok: "live t \<Longrightarrow> \<exists>v t'. vd_readDeviceConfig32LETransitional vt off32 t = Some (v, t') \<and> live t' \<and> mapped t' = mapped t"
    and read32n_ok: "live t \<Longrightarrow> \<exists>v t'. vd_readDeviceConfig32Native vt off32 t = Some (v, t') \<and> live t' \<and> mapped t' = mapped t"
    and read64_ok: "live t \<Longrightarrow> \<exists>v t'. vd_readDeviceConfig64LETransitional vt off64 t = Some (v, t') \<and> live t' \<and> mapped t' = mapped t"

section \<open>The legacy transport fulfils the contract\<close>

definition legacy_ops ::
    "pci_env \<Rightarrow> port_device \<Rightarrow> nat \<Rightarrow> dma_env \<Rightarrow> (u16 \<Rightarrow> nat) \<Rightarrow> legacy_dev VirtioDevice" where
  "legacy_ops env dev fuel dma table_id = \<lparr>
     vd_open = handleOpen env dev,
     vd_close = handleClose,
     vd_resetDevice = resetDevice dev,
     vd_supportedFeatures = supportedFeatures,
     vd_requestFeatures = requestFeatures,
     vd_failDevice = failDevice,
     vd_setupVirtqueues = setupVirtqueues env dev,
     vd_setVirtqueueInterruptsEnabled = setVirtqueueInterruptsEnabled,
     vd_startDevice = startDevice env dev fuel,
     vd_submitBuffersToVirtqueue = submitBuffersToVirtqueue dma table_id,
     vd_readDeviceConfig8 = readDeviceConfig8 dev,
     vd_readDeviceConfig16Native = readDeviceConfig16Native dev,
     vd_readDeviceConfig32Native = readDeviceConfig32Native dev,
     vd_readDeviceConfig64Native = readDeviceConfig64Native dev,
     vd_readDeviceConfig16LETransitional = readDeviceConfig16LETransitional dev,
     vd_readDeviceConfig32LETransitional = readDeviceConfig32LETransitional dev,
     vd_readDeviceConfig64LETransitional = readDeviceConfig64LETransitional dev,
     vd_writeDeviceConfig8 = writeDeviceConfig8,
     vd_writeDeviceConfig16Native = writeDeviceConfig16Native,
     vd_writeDeviceConfig32Native = writeDeviceConfig32Native,
     vd_writeDeviceConfig16LETransitional = writeDeviceConfig16LETransitional,
     vd_writeDeviceConfig32LETransitional = writeDeviceConfig32LETransitional\<rparr>"

definition legacy_closed :: "legacy_dev \<Rightarrow> bool" where
  "legacy_closed d \<longleftrightarrow> session_inv d \<and> \<not> opened_by_client d \<and> pci_device d"

definition legacy_live :: "legacy_dev \<Rightarrow> bool" where
  "legacy_live d \<longleftrightarrow> session_inv d \<and> opened_by_client d"

lemma opened_step_live:
  "legacy_live d \<Longrightarrow> dev_inv d' \<and> same_session d d' \<Longrightarrow> legacy_live d'"
  by (auto simp: legacy_live_def session_inv_def same_session_def)

lemma legacy_live_facts:
  "legacy_live d \<Longrightarrow> dev_inv d" "legacy_live d \<Longrightarrow> pci_device d" "legacy_live d \<Longrightarrow> opened_by_client d"
  by (auto simp: legacy_live_def session_inv_def)

lemma legacy_live_io:
  "legacy_live d \<Longrightarrow> legacy_live (snd (io_read dev w a d))" "legacy_live d \<Longrightarrow> legacy_live (io_write w a v d)"
  by (auto simp: legacy_live_def session_inv_def dev_inv_def io_read_def io_write_def)

lemma config_reads_live:
  assumes "legacy_live d"
  shows "\<exists>v d'. readDeviceConfig8 dev a d = Some (v, d') \<and> legacy_live d' \<and> pci_virtio_header_iomap d' = pci_virtio_header_iomap d"
    "\<exists>v d'. readDeviceConfig16Native dev a d = Some (v, d') \<and> legacy_live d' \<and> pci_virtio_header_iomap d' = pci_virtio_header_iomap d"
    "\<exists>v d'. readDeviceConfig32Native dev a d = Some (v, d') \<and> legacy_live d' \<and> pci_virtio_header_iomap d' = pci_virtio_header_iomap d"
    "\<exists>v d'. readDeviceConfig64Native dev a d = Some (v, d') \<and> legacy_live d' \<and> pci_virtio_header_iomap d' = pci_virtio_header_iomap d"
  using legacy_live_facts(2) [OF assms] assms
  by (simp_all add: readDeviceConfig8_def readDeviceConfig16Native_def readDeviceConfig32Native_def
      readDeviceConfig64Native_def io_read_def legacy_live_def session_inv_def dev_inv_def)

lemma resetDevice_live:
  assumes "legacy_live d"
  shows "\<exists>ok d'. resetDevice dev d = Some (ok, d') \<and> legacy_live d' \<and> pci_virtio_header_iomap d' = pci_virtio_header_iomap d"
proof -
  note f = legacy_live_facts [OF assms]
  have "resetDevice dev d \<noteq> None" using f(2) by (simp add: resetDevice_def Let_def io_read_def del: not_None_eq)
  then obtain ok d' where r: "resetDevice dev d = Some (ok, d')" by auto
  then have "pci_virtio_header_iomap d' = pci_virtio_header_iomap d"
    by (auto simp: resetDevice_def Let_def io_read_def io_write_def split: if_splits)
  with r opened_step_live [OF assms resetDevice_keeps(1) [OF r f(1)]] show ?thesis by blast
qed

lemma requestFeatures_live:
  assumes "legacy_live d"
  shows "\<exists>ok d'. requestFeatures use d = Some (ok, d') \<and> legacy_live d' \<and> pci_virtio_header_iomap d' = pci_virtio_header_iomap d"
proof -
  note f = legacy_live_facts [OF assms]
  have "requestFeatures use d \<noteq> None" using f(2) by (simp add: requestFeatures_def Let_def del: not_None_eq)
  then obtain ok d' where r: "requestFeatures use d = Some (ok, d')" by auto
  then have "pci_virtio_header_iomap d' = pci_virtio_header_iomap d"
    by (auto simp: requestFeatures_def Let_def io_write_def split: if_splits)
  with r opened_step_live [OF assms requestFeatures_keeps [OF r f(1)]] show ?thesis by blast
qed

lemma failDevice_live:
  assumes "legacy_live d"
  shows "\<exists>d'. failDevice d = Some d' \<and> legacy_live d'"
proof -
  note f = legacy_live_facts [OF assms]
  obtain d' where r: "failDevice d = Some d'" using dev_inv_failDevice [OF f(1,2)] by auto
  with opened_step_live [OF assms failDevice_keeps(1) [OF r f(1)]] show ?thesis by blast
qed

lemma handleClose_contract:
  assumes "legacy_live d"
  shows "\<exists>d'. handleClose d = Some d' \<and> legacy_closed d'"
  using handleClose_keeps [of d] legacy_live_facts [OF assms] by (auto simp: legacy_closed_def session_inv_def)

text \<open>What the legacy transport needs of the kernel and of the device.\<close>

locale legacy_kernel =
  fixes env :: pci_env and dev :: port_device and fuel :: nat and dma :: dma_env and table_id :: "u16 \<Rightarrow> nat"
    and header_len :: u64
  assumes header_mapped: "header_map_length env = Some header_len" and header_short: "unat header_len \<le> 65532"
    and interrupts_end: "\<exists>k < fuel. interrupt_type env k = None" and makes_work_loops: "new_work_loop env"
begin

lemma startDevice_live:
  assumes "legacy_live d" "pci_virtio_header_iomap d"
  shows "\<exists>d'. startDevice env dev fuel action wl d = Some d' \<and> legacy_live d' \<and> pci_virtio_header_iomap d'"
proof -
  let ?d = "d\<lparr>configChangeAction := action\<rparr>"
  obtain r where r: "find_interrupts (interrupt_type env) fuel 0 (-1, -1, -1) = Some r"
    using find_interrupts_returns [of fuel "interrupt_type env" 0 "(-1, -1, -1)"] interrupts_end by auto
  have "beginHandlingInterrupts env dev fuel wl ?d \<noteq> None"
    using r by (cases r) (simp add: beginHandlingInterrupts_def Let_def del: not_None_eq)
  then obtain ok d1 where b: "beginHandlingInterrupts env dev fuel wl ?d = Some (ok, d1)" by auto
  then have m: "pci_virtio_header_iomap d1" "pci_device d1"
    using assms(2) legacy_live_facts(2) [OF assms(1)]
    by (auto elim!: beginHandlingInterrupts_cases simp: msix_checked_frame)
  obtain d' where d': "dump_config dev header_len 0 (io_write W8 DEVICE_STATUS 7 d1) = Some d'"
    using dump_config_returns [OF header_short, of 0 dev] by auto
  have eq: "startDevice env dev fuel action wl d = Some d'"
    using b m d' header_mapped by (simp add: startDevice_def io_write_def)
  from startDevice_keeps [OF this legacy_live_facts(1) [OF assms(1)] makes_work_loops] dump_config_frame [OF d'] m
  show ?thesis using opened_step_live [OF assms(1)] eq by (auto simp: io_write_def)
qed

lemma handleOpen_contract:
  assumes "legacy_closed d"
  shows "\<exists>ok d'. handleOpen env dev d = Some (ok, d')
    \<and> (if ok then legacy_live d' \<and> pci_virtio_header_iomap d' else legacy_closed d')"
proof -
  have d: "dev_inv d" "pci_device d" "\<not> opened_by_client d" "virtqueues d = None"
    using assms by (auto simp: legacy_closed_def session_inv_def)
  have o: "dev_inv (d\<lparr>opened_by_client := True\<rparr>)" using d(1) by (simp add: dev_inv_def)
  obtain e where e: "dump_config dev header_len 0 (d\<lparr>opened_by_client := True\<rparr>) = Some e"
    using dump_config_returns [OF header_short, of 0 dev] by auto
  then have m: "mapHeaderIORegion env dev (d\<lparr>opened_by_client := True\<rparr>) = Some (True, e\<lparr>pci_virtio_header_iomap := True\<rparr>)"
    using d header_mapped by (simp add: mapHeaderIORegion_def)
  note k = mapHeaderIORegion_keeps [OF m o]
  show ?thesis
  proof (cases "pci_virtio_header_iomap d \<or> \<not> service_open env")
    case True
    then show ?thesis using assms by (auto simp: handleOpen_def)
  next
    case False
    then have "handleOpen env dev d = Some (True, e\<lparr>pci_virtio_header_iomap := True\<rparr>)"
      using m by (simp add: handleOpen_def)
    then show ?thesis using k d by (auto simp: legacy_live_def session_inv_def same_session_def)
  qed
qed

lemma setupVirtqueues_contract:
  assumes "legacy_live d"
  shows "\<exists>result sizes d'. setupVirtqueues env dev n ints inds d = Some (result, sizes, d') \<and> legacy_live d'
    \<and> (result = kIOReturnSuccess \<longrightarrow>
         pci_virtio_header_iomap d' = pci_virtio_header_iomap d \<and> length sizes = unat n)"
proof -
  note f = legacy_live_facts [OF assms]
  have "pci_device d \<and> (intr_event_source d \<longrightarrow> work_loop d)" using f dev_inv_work_loop by blast
  from setupVirtqueues_result [OF this, of env dev n ints inds]
  obtain result sizes d' where s: "setupVirtqueues env dev n ints inds d = Some (result, sizes, d')"
    "result = kIOReturnSuccess \<longrightarrow> pci_virtio_header_iomap d' = pci_virtio_header_iomap d \<and> length sizes = unat n"
    by (auto split: if_splits)
  from setupVirtqueues_keeps [OF s(1) f(1,2)] have "legacy_live d'" by (rule opened_step_live [OF assms])
  with s show ?thesis by blast
qed

end

sublocale legacy_kernel \<subseteq> transport: virtio_transport "legacy_ops env dev fuel dma table_id" legacy_closed legacy_live
  pci_virtio_header_iomap
  unfolding legacy_ops_def
  by (rule virtio_transport.intro)
     (simp_all add: handleOpen_contract handleClose_contract resetDevice_live requestFeatures_live failDevice_live
      setupVirtqueues_contract startDevice_live config_reads_live readDeviceConfig16LETransitional_def
      readDeviceConfig32LETransitional_def readDeviceConfig64LETransitional_def)

context legacy_kernel
begin

lemma legacy_transport:
  "virtio_transport (legacy_ops env dev fuel dma table_id) legacy_closed legacy_live pci_virtio_header_iomap"
  by (rule transport.virtio_transport_axioms)

end

interpretation example_kernel: legacy_kernel example_env example_port 4 linear_dma "\<lambda>_. 0" 32
proof
  show "\<exists>k < 4. interrupt_type example_env k = None"
    by (rule exI [of _ 1]) (simp add: example_env_def)
qed (simp_all add: example_env_def)

end
