(* ===== verification/Mem_Balloon.thy ===== *)
theory Mem_Balloon
  imports Virtio_Device
begin

text \<open>
  The memory balloon driver, VirtioMemBalloonDevice.cpp: the driver gives pages of the guest to the device
  (inflating) or takes them back (deflating) until as many are given away as the device
  asks for. At most one request is in progress; its completion starts the next one.

  A buffer is represented by what \<^verbatim>\<open>getPhysicalSegment\<close> says of it: for an offset, the physical
  address and the number of contiguous bytes. Allocating a buffer may fail; the driver does not
  check that and dereferences the null pointer. The small objects (arrays, the command gate and the
  array of page addresses) are taken to be allocated.
\<close>

section \<open>State\<close>

type_synonym phys_buffer = "u64 \<Rightarrow> u64 \<times> u64"

definition PAGE_SIZE :: u64 where "PAGE_SIZE = 4096"
definition BIG_CHUNK_BYTES :: u32 where "BIG_CHUNK_BYTES = 2 * 1024 * 1024"
definition BIG_CHUNK_PAGES :: u32 where "BIG_CHUNK_PAGES = BIG_CHUNK_BYTES div ucast PAGE_SIZE"
definition INFLATE_QUEUE_INDEX :: u16 where "INFLATE_QUEUE_INDEX = 0"
definition DEFLATE_QUEUE_INDEX :: u16 where "DEFLATE_QUEUE_INDEX = 1"
definition CONFIG_NUM_REQUESTED_PAGES_OFFSET :: u16 where "CONFIG_NUM_REQUESTED_PAGES_OFFSET = 0"
definition CONFIG_ACTUAL_PAGES_OFFSET :: u16 where "CONFIG_ACTUAL_PAGES_OFFSET = 4"
definition VIRTIO_SUPPORTED_MEMORY_BALLOON_FEATURES :: u32 where
  "VIRTIO_SUPPORTED_MEMORY_BALLOON_FEATURES = 0"

record VirtioMemBalloonDevice =
  bl_virtio_device :: bool
  pageBuffers :: "phys_buffer list"
  bigChunkBuffers :: "phys_buffer list"
  deflatingBuffers :: "phys_buffer list"
  bl_command_gate :: bool
  page_address_array :: "u32 list"
  page_address_length :: u64
  inflateDeflateInProgress :: bool
  buffers_allocated :: nat

text \<open>\<open>alloc_buffer k n\<close> is the buffer of \<open>n\<close> bytes that the \<open>k\<close>-th allocation yields.\<close>

record balloon_env =
  bl_service_start :: bool
  bl_provider_is_virtio :: bool
  alloc_buffer :: "nat \<Rightarrow> u64 \<Rightarrow> phys_buffer option"

section \<open>Operations\<close>

definition totalPagesAllocated :: "VirtioMemBalloonDevice \<Rightarrow> u32" where
  "totalPagesAllocated b =
     (let num_pages_allocated = of_nat (length (pageBuffers b));
          num_big_chunks_allocated = of_nat (length (bigChunkBuffers b))
      in num_big_chunks_allocated * BIG_CHUNK_PAGES + num_pages_allocated)"

text \<open>\<^verbatim>\<open>virtio_mem_balloon_create_reserved_buffer\<close>: the new buffer is also appended to the array.\<close>

definition virtio_mem_balloon_create_reserved_buffer ::
    "balloon_env \<Rightarrow> u64 \<Rightarrow> phys_buffer list \<Rightarrow> VirtioMemBalloonDevice
     \<Rightarrow> (phys_buffer \<times> phys_buffer list \<times> VirtioMemBalloonDevice) option" where
  "virtio_mem_balloon_create_reserved_buffer env num_bytes buffer_array b = do {
     buffer \<leftarrow> alloc_buffer env (buffers_allocated b) num_bytes;
     Some (buffer, buffer_array @ [buffer], b\<lparr>buffers_allocated := buffers_allocated b + 1\<rparr>)
   }"

text \<open>The page frame at an offset in a buffer; the code checks for a zero address and for a
  segment shorter than a page.\<close>

definition page_frame :: "phys_buffer \<Rightarrow> u64 \<Rightarrow> u32 option" where
  "page_frame buf page_offset =
     (let (phys_addr, len) = buf page_offset
      in if phys_addr = 0 \<or> len < PAGE_SIZE then None else Some (ucast (phys_addr div 4096)))"

text \<open>The loop over the pages of a big chunk, from page \<open>page\<close> on.\<close>

fun chunk_pages ::
    "phys_buffer \<Rightarrow> nat list \<Rightarrow> VirtioMemBalloonDevice \<Rightarrow> (IOReturn \<times> VirtioMemBalloonDevice) option" where
  "chunk_pages chunk [] b = Some (kIOReturnSuccess, b)"
| "chunk_pages chunk (page # pages) b =
     (case page_frame chunk (of_nat page * PAGE_SIZE) of
        None \<Rightarrow> Some (kIOReturnInternalError, b)
      | Some frame \<Rightarrow> do {
          page_addresses \<leftarrow> array_modify (page_address_array b) page (\<lambda>_. frame);
          chunk_pages chunk pages (b\<lparr>page_address_array := page_addresses\<rparr>)
        })"

text \<open>The loop that allocates single pages: the result, the number of buffers created and the array.\<close>

fun inflate_pages ::
    "balloon_env \<Rightarrow> nat list \<Rightarrow> nat \<Rightarrow> phys_buffer list \<Rightarrow> VirtioMemBalloonDevice
     \<Rightarrow> (IOReturn \<times> nat \<times> phys_buffer list \<times> VirtioMemBalloonDevice) option" where
  "inflate_pages env [] buffers_created buffer_array b =
     Some (kIOReturnSuccess, buffers_created, buffer_array, b)"
| "inflate_pages env (i # is) buffers_created buffer_array b = do {
     (page_buf, buffer_array, b) \<leftarrow> virtio_mem_balloon_create_reserved_buffer env PAGE_SIZE buffer_array b;
     (case page_frame page_buf 0 of
        None \<Rightarrow> Some (kIOReturnInternalError, buffers_created + 1, buffer_array, b)
      | Some frame \<Rightarrow> do {
          page_addresses \<leftarrow> array_modify (page_address_array b) i (\<lambda>_. frame);
          inflate_pages env is (buffers_created + 1) buffer_array (b\<lparr>page_address_array := page_addresses\<rparr>)
        })
   }"

text \<open>The memory descriptor handed to the device; its contents are the page addresses.\<close>

definition address_descriptor :: "VirtioMemBalloonDevice \<Rightarrow> IOMemoryDescriptor" where
  "address_descriptor b = \<lparr>md_id = 0, md_length = page_address_length b\<rparr>"

text \<open>The end of \<^verbatim>\<open>inflateMemBalloon\<close>: submit the addresses; after an error, zero those already
  written and drop the buffers created.\<close>

definition submit_inflation ::
    "'t VirtioDevice \<Rightarrow> bool \<Rightarrow> IOReturn \<Rightarrow> nat \<Rightarrow> VirtioMemBalloonDevice \<times> 't
     \<Rightarrow> (VirtioMemBalloonDevice \<times> 't) option" where
  "submit_inflation vt big result buffers_created = (\<lambda>(b, t). do {
     (result, t) \<leftarrow> (if result = kIOReturnSuccess
       then vd_submitBuffersToVirtqueue vt INFLATE_QUEUE_INDEX (Some (address_descriptor b)) None
              \<lparr>comp_action = inflateRequestCompletedAction, comp_target = 0, comp_ref = 0\<rparr> t
       else Some (result, t));
     if result \<noteq> kIOReturnSuccess
     then Some ((if big
                 then b\<lparr>bigChunkBuffers := (butlast ^^ buffers_created) (bigChunkBuffers b)\<rparr>
                 else b\<lparr>pageBuffers := (butlast ^^ buffers_created) (pageBuffers b)\<rparr>)
                \<lparr>page_address_array := replicate buffers_created 0 @ drop buffers_created (page_address_array b),
                 inflateDeflateInProgress := False\<rparr>, t)
     else Some (b, t)
   })"

definition inflateMemBalloon ::
    "'t VirtioDevice \<Rightarrow> balloon_env \<Rightarrow> u32 \<Rightarrow> VirtioMemBalloonDevice \<times> 't
     \<Rightarrow> (VirtioMemBalloonDevice \<times> 't) option" where
  "inflateMemBalloon vt env num_pages_to_inflate_by = (\<lambda>(b, t). do {
     let b = b\<lparr>inflateDeflateInProgress := True\<rparr>;
     if num_pages_to_inflate_by \<ge> BIG_CHUNK_PAGES then do {
       (chunk, buffer_array, b) \<leftarrow>
         virtio_mem_balloon_create_reserved_buffer env (ucast BIG_CHUNK_BYTES) (bigChunkBuffers b) b;
       let b = b\<lparr>bigChunkBuffers := buffer_array, page_address_length := 4 * ucast BIG_CHUNK_PAGES\<rparr>;
       (result, b) \<leftarrow> chunk_pages chunk [0..<unat BIG_CHUNK_PAGES] b;
       submit_inflation vt True result 1 (b, t)
     } else do {
       let b = b\<lparr>page_address_length := 4 * ucast num_pages_to_inflate_by\<rparr>;
       (result, buffers_created, buffer_array, b) \<leftarrow>
         inflate_pages env [0..<unat num_pages_to_inflate_by] 0 (pageBuffers b) b;
       submit_inflation vt False result buffers_created (b\<lparr>pageBuffers := buffer_array\<rparr>, t)
     }
   })"

text \<open>The loop that takes back single pages: each is moved from the end of the array of page buffers to the
  buffers being deflated. An empty array has no last object.\<close>

fun deflate_pages ::
    "nat list \<Rightarrow> VirtioMemBalloonDevice \<Rightarrow> (IOReturn \<times> VirtioMemBalloonDevice) option" where
  "deflate_pages [] b = Some (kIOReturnSuccess, b)"
| "deflate_pages (i # is) b =
     (if pageBuffers b = [] then None
      else do {
        let page_buf = last (pageBuffers b);
        let b = b\<lparr>deflatingBuffers := deflatingBuffers b @ [page_buf],
                  pageBuffers := butlast (pageBuffers b)\<rparr>;
        (case page_frame page_buf 0 of
           None \<Rightarrow> Some (kIOReturnInternalError, b)
         | Some frame \<Rightarrow> do {
             page_addresses \<leftarrow> array_modify (page_address_array b) i (\<lambda>_. frame);
             deflate_pages is (b\<lparr>page_address_array := page_addresses\<rparr>)
           })
      })"

definition submit_deflation ::
    "'t VirtioDevice \<Rightarrow> IOReturn \<Rightarrow> VirtioMemBalloonDevice \<times> 't \<Rightarrow> (VirtioMemBalloonDevice \<times> 't) option" where
  "submit_deflation vt result = (\<lambda>(b, t).
     if result = kIOReturnSuccess then do {
       (result, t) \<leftarrow> vd_submitBuffersToVirtqueue vt DEFLATE_QUEUE_INDEX (Some (address_descriptor b)) None
              \<lparr>comp_action = deflateRequestCompletedAction, comp_target = 0, comp_ref = 0\<rparr> t;
       Some (b, t)
     } else Some (b, t))"

definition deflateMemBalloon ::
    "'t VirtioDevice \<Rightarrow> balloon_env \<Rightarrow> u32 \<Rightarrow> VirtioMemBalloonDevice \<times> 't
     \<Rightarrow> (VirtioMemBalloonDevice \<times> 't) option" where
  "deflateMemBalloon vt env num_pages_to_deflate_by = (\<lambda>(b, t). do {
     let b = b\<lparr>inflateDeflateInProgress := True\<rparr>;
     let numBigChunks = length (bigChunkBuffers b);
     if num_pages_to_deflate_by \<ge> BIG_CHUNK_PAGES \<and> numBigChunks > 0 then do {
       let chunk = last (bigChunkBuffers b);
       let b = b\<lparr>deflatingBuffers := deflatingBuffers b @ [chunk],
                 bigChunkBuffers := butlast (bigChunkBuffers b),
                 page_address_length := 4 * ucast BIG_CHUNK_PAGES\<rparr>;
       (result, b) \<leftarrow> chunk_pages chunk [0..<unat BIG_CHUNK_PAGES] b;
       submit_deflation vt result (b, t)
     } else do {
       let num_pages = (of_nat (length (pageBuffers b)) :: u32);
       if num_pages_to_deflate_by > num_pages then do {
         let new_num_pages = BIG_CHUNK_PAGES - num_pages_to_deflate_by;
         inflateMemBalloon vt env new_num_pages (b, t)
       } else do {
         let n = (if num_pages_to_deflate_by > BIG_CHUNK_PAGES then BIG_CHUNK_PAGES else num_pages_to_deflate_by);
         let b = b\<lparr>page_address_length := 4 * ucast n\<rparr>;
         (result, b) \<leftarrow> deflate_pages [0..<unat n] b;
         submit_deflation vt result (b, t)
       }
     }
   })"

definition inflateDeflateIfNecessary ::
    "'t VirtioDevice \<Rightarrow> balloon_env \<Rightarrow> u32 \<Rightarrow> VirtioMemBalloonDevice \<times> 't
     \<Rightarrow> (VirtioMemBalloonDevice \<times> 't) option" where
  "inflateDeflateIfNecessary vt env num_pages_requested = (\<lambda>(b, t).
     if inflateDeflateInProgress b then Some (b, t)
     else let total_pages_allocated = totalPagesAllocated b in
          if total_pages_allocated = num_pages_requested then Some (b, t)
          else if total_pages_allocated < num_pages_requested
          then inflateMemBalloon vt env (num_pages_requested - total_pages_allocated) (b, t)
          else deflateMemBalloon vt env (total_pages_allocated - num_pages_requested) (b, t))"

text \<open>Reading the two configuration fields and adjusting the balloon. The device pointer is null
  once the operation of the device has ended.\<close>

definition bl_deviceConfigChangeAction ::
    "'t VirtioDevice \<Rightarrow> balloon_env \<Rightarrow> VirtioMemBalloonDevice \<times> 't \<Rightarrow> (VirtioMemBalloonDevice \<times> 't) option" where
  "bl_deviceConfigChangeAction vt env = (\<lambda>(b, t).
     if \<not> bl_virtio_device b then None
     else do {
       (num_pages, t) \<leftarrow> readDeviceConfig32LE vt CONFIG_NUM_REQUESTED_PAGES_OFFSET t;
       (actual, t) \<leftarrow> readDeviceConfig32LE vt CONFIG_ACTUAL_PAGES_OFFSET t;
       inflateDeflateIfNecessary vt env num_pages (b, t)
     })"

definition report_and_continue ::
    "'t VirtioDevice \<Rightarrow> balloon_env \<Rightarrow> VirtioMemBalloonDevice \<times> 't \<Rightarrow> (VirtioMemBalloonDevice \<times> 't) option" where
  "report_and_continue vt env = (\<lambda>(b, t).
     if \<not> bl_virtio_device b then None
     else do {
       t \<leftarrow> writeDeviceConfig32LE vt CONFIG_ACTUAL_PAGES_OFFSET (totalPagesAllocated b) t;
       bl_deviceConfigChangeAction vt env (b, t)
     })"

definition inflateRequestCompleted ::
    "'t VirtioDevice \<Rightarrow> balloon_env \<Rightarrow> bool \<Rightarrow> VirtioMemBalloonDevice \<times> 't
     \<Rightarrow> (VirtioMemBalloonDevice \<times> 't) option" where
  "inflateRequestCompleted vt env device_reset = (\<lambda>(b, t).
     let b = b\<lparr>inflateDeflateInProgress := False\<rparr> in
     if device_reset then Some (b, t) else report_and_continue vt env (b, t))"

definition deflateRequestCompleted ::
    "'t VirtioDevice \<Rightarrow> balloon_env \<Rightarrow> bool \<Rightarrow> VirtioMemBalloonDevice \<times> 't
     \<Rightarrow> (VirtioMemBalloonDevice \<times> 't) option" where
  "deflateRequestCompleted vt env device_reset = (\<lambda>(b, t).
     let b = b\<lparr>inflateDeflateInProgress := False\<rparr> in
     if device_reset then Some (b, t)
     else report_and_continue vt env (b\<lparr>deflatingBuffers := []\<rparr>, t))"

section \<open>Start and stop\<close>

definition bl_start ::
    "'t VirtioDevice \<Rightarrow> balloon_env \<Rightarrow> VirtioMemBalloonDevice \<times> 't \<Rightarrow> (bool \<times> VirtioMemBalloonDevice \<times> 't) option" where
  "bl_start vt env = (\<lambda>(b, t).
     if \<not> bl_service_start env then Some (False, b, t)
     else if \<not> bl_provider_is_virtio env then Some (False, b, t)
     else do {
       (opened, t) \<leftarrow> vd_open vt t;
       if \<not> opened then Some (False, b, t)
       else do {
         (_, t) \<leftarrow> vd_resetDevice vt t;
         let use_features = vd_supportedFeatures vt t AND VIRTIO_SUPPORTED_MEMORY_BALLOON_FEATURES;
         (ok, t) \<leftarrow> vd_requestFeatures vt use_features t;
         if \<not> ok then do {
           t \<leftarrow> vd_failDevice vt t;
           t \<leftarrow> vd_close vt t;
           Some (False, b, t)
         } else do {
           (result, _, t) \<leftarrow> vd_setupVirtqueues vt 2 (\<lambda>_. True) (\<lambda>_. 0) t;
           if result \<noteq> kIOReturnSuccess then do {
             t \<leftarrow> vd_failDevice vt t;
             t \<leftarrow> vd_close vt t;
             Some (False, b, t)
           } else do {
             let b = b\<lparr>bl_command_gate := True, bl_virtio_device := True,
                       page_address_array := replicate (unat BIG_CHUNK_PAGES) 0,
                       page_address_length := 4 * ucast BIG_CHUNK_PAGES\<rparr>;
             t \<leftarrow> vd_startDevice vt True True t;
             let b = b\<lparr>pageBuffers := [], bigChunkBuffers := [], deflatingBuffers := [],
                       inflateDeflateInProgress := False\<rparr>;
             (b, t) \<leftarrow> bl_deviceConfigChangeAction vt env (b, t);
             Some (True, b, t)
           }
         }
       }
     })"

definition bl_endDeviceOperation ::
    "'t VirtioDevice \<Rightarrow> VirtioMemBalloonDevice \<times> 't \<Rightarrow> (VirtioMemBalloonDevice \<times> 't) option" where
  "bl_endDeviceOperation vt = (\<lambda>(b, t).
     if bl_virtio_device b then do {
       t \<leftarrow> vd_failDevice vt t;
       t \<leftarrow> vd_close vt t;
       Some (b\<lparr>bl_virtio_device := False\<rparr>, t)
     } else Some (b, t))"

definition bl_stop ::
    "'t VirtioDevice \<Rightarrow> VirtioMemBalloonDevice \<times> 't \<Rightarrow> (VirtioMemBalloonDevice \<times> 't) option" where
  "bl_stop vt st = do {
     (b, t) \<leftarrow> bl_endDeviceOperation vt st;
     Some (b\<lparr>bl_command_gate := False\<rparr>, t)
   }"

definition bl_didTerminate ::
    "'t VirtioDevice \<Rightarrow> VirtioMemBalloonDevice \<times> 't \<Rightarrow> (VirtioMemBalloonDevice \<times> 't) option" where
  "bl_didTerminate vt st = bl_endDeviceOperation vt st"

end
