(* ===== verification/Mem_Balloon_Props.thy ===== *)
theory Mem_Balloon_Props
  imports Mem_Balloon
begin

text \<open>
  Properties of the balloon driver: it refines an abstract balloon that only counts pages, it reaches the
  size the device asks for, and what it leaves behind when a request fails.
\<close>

section \<open>The abstract balloon\<close>

text \<open>A balloon is a number of single pages and a number of big chunks of 512 pages; one step
  towards the requested number of pages.\<close>

fun balloon_pages :: "nat \<times> nat \<Rightarrow> nat" where
  "balloon_pages (p, c) = p + 512 * c"

fun balloon_next :: "nat \<Rightarrow> nat \<times> nat \<Rightarrow> nat \<times> nat" where
  "balloon_next r (p, c) =
     (let n = balloon_pages (p, c) in
      if n = r then (p, c)
      else if n < r then (if 512 \<le> r - n then (p, c + 1) else (p + (r - n), c))
      else if 512 \<le> n - r \<and> 0 < c then (p, c - 1)
      else if p < n - r then (p + (512 - (n - r)), c)
      else (p - min (n - r) 512, c))"

text \<open>A bound on the number of steps.\<close>

fun balloon_distance :: "nat \<Rightarrow> nat \<times> nat \<Rightarrow> nat" where
  "balloon_distance r (p, c) =
     (let n = balloon_pages (p, c) in
      if n = r then 0
      else if n < r then 1 + (r - n)
      else if n - r = 512 \<and> 0 < c then 1
      else if n - r < 512 then (if p < n - r then 2 else 1)
      else 3 + (n - r))"

lemma balloon_next_distance:
  assumes "balloon_pages s \<noteq> r"
  shows "balloon_distance r (balloon_next r s) < balloon_distance r s"
proof (cases s)
  case (Pair p c)
  let ?n = "p + 512 * c"
  consider "?n < r" | "r < ?n" "0 < c" "512 \<le> ?n - r" | "r < ?n" "c = 0" "512 \<le> ?n - r"
    | "r < ?n" "?n - r < 512" "p < ?n - r" | "r < ?n" "?n - r < 512" "?n - r \<le> p"
    using assms Pair by fastforce
  then show ?thesis
  proof cases
    case 2
    then obtain c' where c': "c = Suc c'" by (cases c) auto
    show ?thesis using 2 by (auto simp: Pair Let_def c')
  next
    case 3
    then show ?thesis by (auto simp: Pair Let_def min_def) arith
  next
    case 4
    then obtain c' where c': "c = Suc c'" by (cases c) auto
    show ?thesis using 4 by (auto simp: Pair Let_def c')
  qed (use Pair in \<open>auto simp: Let_def min_def\<close>)
qed

lemma balloon_next_bound:
  "balloon_pages (balloon_next r s) \<le> max (balloon_pages s) (r + 512)"
  by (cases s) (auto simp: Let_def min_def)

lemma balloon_distance_bound:
  "balloon_distance r s \<le> (r - balloon_pages s) + (balloon_pages s - r) + 3"
  by (cases s) (auto simp: Let_def)

lemma balloon_distance_zero: "balloon_distance r s = 0 \<longleftrightarrow> balloon_pages s = r"
  by (cases s) (auto simp: Let_def)

section \<open>The loops over pages\<close>

definition balloon_abs :: "VirtioMemBalloonDevice \<Rightarrow> nat \<times> nat" where
  "balloon_abs b = (length (pageBuffers b), length (bigChunkBuffers b))"

definition good_page :: "phys_buffer \<Rightarrow> bool" where
  "good_page buf \<longleftrightarrow> page_frame buf 0 \<noteq> None"

definition good_chunk :: "phys_buffer \<Rightarrow> bool" where
  "good_chunk buf \<longleftrightarrow> (\<forall>page < 512. page_frame buf (of_nat page * PAGE_SIZE) \<noteq> None)"

definition balloon_inv :: "VirtioMemBalloonDevice \<Rightarrow> bool" where
  "balloon_inv b \<longleftrightarrow> length (page_address_array b) = 512 \<and> bl_virtio_device b
     \<and> (\<forall>buf \<in> set (pageBuffers b). good_page buf) \<and> (\<forall>buf \<in> set (bigChunkBuffers b). good_chunk buf)"

definition good_memory :: "balloon_env \<Rightarrow> bool" where
  "good_memory env \<longleftrightarrow> (\<forall>k. (\<exists>buf. alloc_buffer env k PAGE_SIZE = Some buf \<and> good_page buf)
     \<and> (\<exists>buf. alloc_buffer env k (ucast BIG_CHUNK_BYTES) = Some buf \<and> good_chunk buf))"

lemma big_chunk_pages [simp]: "BIG_CHUNK_PAGES = 512" "unat BIG_CHUNK_PAGES = 512"
  by (simp_all add: BIG_CHUNK_PAGES_def BIG_CHUNK_BYTES_def PAGE_SIZE_def)

lemma chunk_pages_ok:
  assumes "\<forall>p \<in> set ps. p < length (page_address_array b) \<and> page_frame chunk (of_nat p * PAGE_SIZE) \<noteq> None"
  shows "\<exists>arr. chunk_pages chunk ps b = Some (kIOReturnSuccess, b\<lparr>page_address_array := arr\<rparr>)
     \<and> length arr = length (page_address_array b)
     \<and> (\<forall>i < length arr. arr ! i = (if i \<in> set ps then the (page_frame chunk (of_nat i * PAGE_SIZE))
                                    else page_address_array b ! i))"
  using assms
proof (induction ps arbitrary: b)
  case (Cons p ps)
  then obtain frame where f: "page_frame chunk (of_nat p * PAGE_SIZE) = Some frame" and p: "p < length (page_address_array b)"
    by auto
  let ?b = "b\<lparr>page_address_array := (page_address_array b)[p := frame]\<rparr>"
  obtain arr where "chunk_pages chunk ps ?b = Some (kIOReturnSuccess, ?b\<lparr>page_address_array := arr\<rparr>)"
    "length arr = length (page_address_array ?b)"
    "\<forall>i < length arr. arr ! i = (if i \<in> set ps then the (page_frame chunk (of_nat i * PAGE_SIZE))
        else page_address_array ?b ! i)"
    using Cons.IH [of ?b] Cons.prems by auto
  then show ?case using f p by (intro exI [of _ arr]) (auto simp: nth_list_update)
qed (rule exI, auto)

lemma inflate_pages_ok:
  assumes "good_memory env" "\<forall>i \<in> set is. i < length (page_address_array b)" "\<forall>buf \<in> set bufs. good_page buf"
  shows "\<exists>new arr. inflate_pages env is n bufs b
       = Some (kIOReturnSuccess, n + length is, bufs @ new,
               b\<lparr>page_address_array := arr, buffers_allocated := buffers_allocated b + length is\<rparr>)
     \<and> length new = length is \<and> length arr = length (page_address_array b) \<and> (\<forall>buf \<in> set (bufs @ new). good_page buf)"
  using assms(2,3)
proof (induction "is" arbitrary: n bufs b)
  case Nil
  then show ?case by (intro exI [of _ "[]"] exI [of _ "page_address_array b"]) simp
next
  case (Cons i "is")
  obtain buf where buf: "alloc_buffer env (buffers_allocated b) PAGE_SIZE = Some buf" "good_page buf"
    using assms(1) by (auto simp: good_memory_def)
  then obtain frame where f: "page_frame buf 0 = Some frame" by (auto simp: good_page_def)
  let ?b = "b\<lparr>buffers_allocated := buffers_allocated b + 1, page_address_array := (page_address_array b)[i := frame]\<rparr>"
  obtain new arr where "inflate_pages env is (n + 1) (bufs @ [buf]) ?b
       = Some (kIOReturnSuccess, n + 1 + length is, (bufs @ [buf]) @ new,
               ?b\<lparr>page_address_array := arr, buffers_allocated := buffers_allocated ?b + length is\<rparr>)"
     "length new = length is" "length arr = length (page_address_array ?b)"
     "\<forall>buf \<in> set ((bufs @ [buf]) @ new). good_page buf"
    using Cons.IH [of ?b "bufs @ [buf]" "n + 1"] Cons.prems buf(2) by auto
  then show ?case
    using buf f Cons.prems(1)
    by (intro exI [of _ "buf # new"] exI [of _ arr])
       (auto simp: virtio_mem_balloon_create_reserved_buffer_def)
qed

lemma deflate_pages_ok:
  assumes "length is \<le> length (pageBuffers b)" "\<forall>i \<in> set is. i < length (page_address_array b)"
    "\<forall>buf \<in> set (pageBuffers b). good_page buf"
  shows "\<exists>arr. deflate_pages is b = Some (kIOReturnSuccess, b\<lparr>page_address_array := arr,
        pageBuffers := take (length (pageBuffers b) - length is) (pageBuffers b),
        deflatingBuffers := deflatingBuffers b @ rev (drop (length (pageBuffers b) - length is) (pageBuffers b))\<rparr>)
     \<and> length arr = length (page_address_array b)"
  using assms
proof (induction "is" arbitrary: b)
  case Nil
  then show ?case by (intro exI [of _ "page_address_array b"]) simp
next
  case (Cons i "is")
  then obtain bufs buf where p: "pageBuffers b = bufs @ [buf]" by (cases "pageBuffers b" rule: rev_cases) auto
  then obtain frame where f: "page_frame buf 0 = Some frame" using Cons.prems(3) by (auto simp: good_page_def)
  let ?b = "b\<lparr>deflatingBuffers := deflatingBuffers b @ [buf], pageBuffers := bufs,
      page_address_array := (page_address_array b)[i := frame]\<rparr>"
  obtain arr where "deflate_pages is ?b = Some (kIOReturnSuccess, ?b\<lparr>page_address_array := arr,
        pageBuffers := take (length bufs - length is) bufs,
        deflatingBuffers := deflatingBuffers ?b @ rev (drop (length bufs - length is) bufs)\<rparr>)"
    "length arr = length (page_address_array ?b)"
    using Cons.IH [of ?b] Cons.prems p by auto
  then show ?case using Cons.prems(1,2) p f by (intro exI [of _ arr]) auto
qed

section \<open>Refinement\<close>

text \<open>A device that accepts the requests of the driver and answers its accesses: \<open>tinv\<close> is an
  invariant of the transport, \<open>pending\<close> the action of the request it accepted last, and \<open>r\<close> the number of
  pages the host asks for.\<close>

definition balloon_host ::
    "'t VirtioDevice \<Rightarrow> ('t \<Rightarrow> bool) \<Rightarrow> ('t \<Rightarrow> VirtioCompletionAction) \<Rightarrow> u32 \<Rightarrow> bool" where
  "balloon_host vt tinv pending r \<longleftrightarrow>
     (\<forall>q md c t. tinv t \<longrightarrow> (\<exists>t'. vd_submitBuffersToVirtqueue vt q (Some md) None c t = Some (kIOReturnSuccess, t')
        \<and> tinv t' \<and> pending t' = comp_action c))
     \<and> (\<forall>t. tinv t \<longrightarrow> (\<exists>t'. vd_readDeviceConfig32Native vt CONFIG_NUM_REQUESTED_PAGES_OFFSET t = Some (r, t') \<and> tinv t'))
     \<and> (\<forall>t. tinv t \<longrightarrow> (\<exists>v t'. vd_readDeviceConfig32Native vt CONFIG_ACTUAL_PAGES_OFFSET t = Some (v, t') \<and> tinv t'))
     \<and> (\<forall>v t. tinv t \<longrightarrow> (\<exists>t'. vd_writeDeviceConfig32Native vt CONFIG_ACTUAL_PAGES_OFFSET v t = Some t' \<and> tinv t'))"

lemma balloon_hostD:
  assumes "balloon_host vt tinv pending r" "tinv t"
  shows "\<exists>t'. vd_submitBuffersToVirtqueue vt q (Some md) None c t = Some (kIOReturnSuccess, t') \<and> tinv t' \<and> pending t' = comp_action c"
    "\<exists>t'. vd_readDeviceConfig32Native vt CONFIG_NUM_REQUESTED_PAGES_OFFSET t = Some (r, t') \<and> tinv t'"
    "\<exists>v t'. vd_readDeviceConfig32Native vt CONFIG_ACTUAL_PAGES_OFFSET t = Some (v, t') \<and> tinv t'"
    "\<exists>t'. vd_writeDeviceConfig32Native vt CONFIG_ACTUAL_PAGES_OFFSET v t = Some t' \<and> tinv t'"
  using assms unfolding balloon_host_def by blast+

lemma totalPages_nat:
  assumes "balloon_pages (balloon_abs b) < 2 ^ 32"
  shows "unat (totalPagesAllocated b) = balloon_pages (balloon_abs b)"
proof -
  have "totalPagesAllocated b = of_nat (balloon_pages (balloon_abs b))"
    by (simp add: totalPagesAllocated_def balloon_abs_def Let_def)
  then show ?thesis using assms by (simp add: unat_of_nat take_bit_nat_eq_self)
qed

lemma inflate_refines:
  assumes "balloon_inv b" "good_memory env" "balloon_host vt tinv pending r" "tinv t"
  shows "\<exists>b' t'. inflateMemBalloon vt env n (b, t) = Some (b', t') \<and> tinv t' \<and> balloon_inv b'
     \<and> balloon_abs b' = (if 512 \<le> unat n then (fst (balloon_abs b), snd (balloon_abs b) + 1)
                         else (fst (balloon_abs b) + unat n, snd (balloon_abs b)))
     \<and> inflateDeflateInProgress b' \<and> pending t' = inflateRequestCompletedAction
     \<and> deflatingBuffers b' = deflatingBuffers b"
proof -
  note inv = assms(1) [unfolded balloon_inv_def]
  let ?c = "\<lparr>comp_action = inflateRequestCompletedAction, comp_target = 0, comp_ref = 0\<rparr>"
  note sub = balloon_hostD(1) [OF assms(3,4), of INFLATE_QUEUE_INDEX _ ?c]
  have ge: "BIG_CHUNK_PAGES \<le> n \<longleftrightarrow> 512 \<le> unat n" by (simp add: word_le_nat_alt)
  show ?thesis
  proof (cases "512 \<le> unat n")
    case True
    obtain buf where buf: "alloc_buffer env (buffers_allocated b) (ucast BIG_CHUNK_BYTES) = Some buf" "good_chunk buf"
      using assms(2) by (auto simp: good_memory_def)
    let ?b = "b\<lparr>inflateDeflateInProgress := True, buffers_allocated := buffers_allocated b + 1,
       bigChunkBuffers := bigChunkBuffers b @ [buf], page_address_length := 4 * ucast BIG_CHUNK_PAGES\<rparr>"
    obtain arr where arr: "chunk_pages buf [0..<512] ?b = Some (kIOReturnSuccess, ?b\<lparr>page_address_array := arr\<rparr>)"
      "length arr = 512"
      using chunk_pages_ok [of "[0..<512]" ?b buf] inv buf(2) by (auto simp: good_chunk_def)
    obtain t' where t': "vd_submitBuffersToVirtqueue vt INFLATE_QUEUE_INDEX
        (Some (address_descriptor (?b\<lparr>page_address_array := arr\<rparr>))) None ?c t = Some (kIOReturnSuccess, t')"
      "tinv t'" "pending t' = inflateRequestCompletedAction" using sub by fastforce
    have "inflateMemBalloon vt env n (b, t) = Some (?b\<lparr>page_address_array := arr\<rparr>, t')"
      using True ge buf(1) arr(1) t'(1)
      by (simp add: inflateMemBalloon_def virtio_mem_balloon_create_reserved_buffer_def submit_inflation_def)
    with True inv arr(2) buf(2) t' show ?thesis
      by (auto simp: balloon_inv_def balloon_abs_def)
  next
    case False
    let ?b = "b\<lparr>inflateDeflateInProgress := True, page_address_length := 4 * ucast n\<rparr>"
    have small: "\<forall>i \<in> set [0..<unat n]. i < length (page_address_array ?b)" using False inv by auto
    obtain new arr where i: "inflate_pages env [0..<unat n] 0 (pageBuffers b) ?b
       = Some (kIOReturnSuccess, unat n, pageBuffers b @ new,
               ?b\<lparr>page_address_array := arr, buffers_allocated := buffers_allocated b + unat n\<rparr>)"
      "length new = unat n" "length arr = 512" "\<forall>buf \<in> set (pageBuffers b @ new). good_page buf"
      using inflate_pages_ok [OF assms(2) small, of "pageBuffers b" 0] inv by auto
    let ?e = "?b\<lparr>page_address_array := arr, buffers_allocated := buffers_allocated b + unat n,
       pageBuffers := pageBuffers b @ new\<rparr>"
    obtain t' where t': "vd_submitBuffersToVirtqueue vt INFLATE_QUEUE_INDEX (Some (address_descriptor ?e)) None ?c t
         = Some (kIOReturnSuccess, t')"
      "tinv t'" "pending t' = inflateRequestCompletedAction" using sub by fastforce
    have "inflateMemBalloon vt env n (b, t) = Some (?e, t')"
      using False ge i(1) t'(1) by (simp add: inflateMemBalloon_def submit_inflation_def)
    with False inv i t' show ?thesis by (auto simp: balloon_inv_def balloon_abs_def)
  qed
qed

lemma deflate_refines:
  assumes "balloon_inv b" "good_memory env" "balloon_host vt tinv pending r" "tinv t"
    "unat n \<le> balloon_pages (balloon_abs b)" "balloon_pages (balloon_abs b) < 2 ^ 32"
  shows "\<exists>b' t'. deflateMemBalloon vt env n (b, t) = Some (b', t') \<and> tinv t' \<and> balloon_inv b'
     \<and> balloon_abs b' = (case balloon_abs b of (p, c) \<Rightarrow>
          if 512 \<le> unat n \<and> 0 < c then (p, c - 1)
          else if p < unat n then (p + (512 - unat n), c) else (p - min (unat n) 512, c))
     \<and> inflateDeflateInProgress b' \<and> pending t' \<in> {inflateRequestCompletedAction, deflateRequestCompletedAction}"
proof -
  note inv = assms(1) [unfolded balloon_inv_def]
  let ?c = "\<lparr>comp_action = deflateRequestCompletedAction, comp_target = 0, comp_ref = 0\<rparr>"
  let ?p = "length (pageBuffers b)" and ?k = "length (bigChunkBuffers b)"
  note sub = balloon_hostD(1) [OF assms(3,4), of DEFLATE_QUEUE_INDEX _ ?c]
  have ge: "BIG_CHUNK_PAGES \<le> n \<longleftrightarrow> 512 \<le> unat n" by (simp add: word_le_nat_alt)
  have p: "unat (of_nat ?p :: u32) = ?p"
    using assms(6) by (simp add: unat_of_nat take_bit_nat_eq_self balloon_abs_def)
  have gt: "of_nat ?p < n \<longleftrightarrow> ?p < unat n" by (simp add: word_less_nat_alt p)
  consider "512 \<le> unat n" "0 < ?k" | "unat n < 512 \<or> ?k = 0" "?p < unat n" | "unat n < 512 \<or> ?k = 0" "unat n \<le> ?p"
    by linarith
  then show ?thesis
  proof cases
    case 1
    then obtain bufs buf where l: "bigChunkBuffers b = bufs @ [buf]" by (cases "bigChunkBuffers b" rule: rev_cases) auto
    let ?b = "b\<lparr>inflateDeflateInProgress := True, deflatingBuffers := deflatingBuffers b @ [buf],
       bigChunkBuffers := bufs, page_address_length := 4 * ucast BIG_CHUNK_PAGES\<rparr>"
    have "good_chunk buf" using inv l by simp
    then obtain arr where arr: "chunk_pages buf [0..<512] ?b = Some (kIOReturnSuccess, ?b\<lparr>page_address_array := arr\<rparr>)"
      "length arr = 512"
      using chunk_pages_ok [of "[0..<512]" ?b buf] inv by (auto simp: good_chunk_def)
    obtain t' where t': "vd_submitBuffersToVirtqueue vt DEFLATE_QUEUE_INDEX
        (Some (address_descriptor (?b\<lparr>page_address_array := arr\<rparr>))) None ?c t = Some (kIOReturnSuccess, t')"
      "tinv t'" "pending t' = deflateRequestCompletedAction" using sub by fastforce
    have "deflateMemBalloon vt env n (b, t) = Some (?b\<lparr>page_address_array := arr\<rparr>, t')"
      using 1 ge l arr(1) t'(1) by (simp add: deflateMemBalloon_def submit_deflation_def)
    with 1 inv arr(2) l t' show ?thesis by (auto simp: balloon_inv_def balloon_abs_def)
  next
    case 2
    have k: "0 < ?k" "unat n < 512" using 2 assms(5) by (auto simp: balloon_abs_def)
    have m: "unat (BIG_CHUNK_PAGES - n) = 512 - unat n"
      using k(2) unat_minus_of_nat [of "unat n" BIG_CHUNK_PAGES] by simp
    let ?b = "b\<lparr>inflateDeflateInProgress := True\<rparr>"
    have "balloon_inv ?b" using inv by (simp add: balloon_inv_def)
    from inflate_refines [OF this assms(2-4), of "BIG_CHUNK_PAGES - n"]
    obtain b' t' where i: "inflateMemBalloon vt env (BIG_CHUNK_PAGES - n) (?b, t) = Some (b', t')" "tinv t'" "balloon_inv b'"
      "balloon_abs b' = (if 512 \<le> 512 - unat n then (?p, ?k + 1) else (?p + (512 - unat n), ?k))"
      "inflateDeflateInProgress b'" "pending t' = inflateRequestCompletedAction"
      unfolding m by (auto simp: balloon_abs_def)
    have "deflateMemBalloon vt env n (b, t) = Some (b', t')"
      using 2 k ge gt i(1) by (simp add: deflateMemBalloon_def)
    with i 2 k show ?thesis by (auto simp: balloon_abs_def split: if_splits)
  next
    case 3
    let ?n = "if n > BIG_CHUNK_PAGES then BIG_CHUNK_PAGES else n"
    have n: "unat ?n = min (unat n) 512" by (auto simp: word_less_nat_alt min_def)
    let ?b = "b\<lparr>inflateDeflateInProgress := True, page_address_length := 4 * ucast ?n\<rparr>"
    have len: "length [0..<unat ?n] \<le> length (pageBuffers ?b)" unfolding n using 3 by simp
    have small: "\<forall>i \<in> set [0..<unat ?n]. i < length (page_address_array ?b)" unfolding n using inv by auto
    obtain arr where d: "deflate_pages [0..<unat ?n] ?b = Some (kIOReturnSuccess, ?b\<lparr>page_address_array := arr,
        pageBuffers := take (?p - unat ?n) (pageBuffers b),
        deflatingBuffers := deflatingBuffers b @ rev (drop (?p - unat ?n) (pageBuffers b))\<rparr>)" "length arr = 512"
      using deflate_pages_ok [OF len small] inv by auto
    let ?e = "?b\<lparr>page_address_array := arr, pageBuffers := take (?p - unat ?n) (pageBuffers b),
        deflatingBuffers := deflatingBuffers b @ rev (drop (?p - unat ?n) (pageBuffers b))\<rparr>"
    obtain t' where t': "vd_submitBuffersToVirtqueue vt DEFLATE_QUEUE_INDEX (Some (address_descriptor ?e)) None ?c t
         = Some (kIOReturnSuccess, t')"
      "tinv t'" "pending t' = deflateRequestCompletedAction" using sub by fastforce
    have no: "\<not> (512 \<le> unat n \<and> bigChunkBuffers b \<noteq> [])" using 3(1) by auto
    have "deflateMemBalloon vt env n (b, t) = Some (?e, t')"
      using 3(2) no ge gt d(1) t'(1)
      by (simp add: deflateMemBalloon_def submit_deflation_def Let_def) blast
    moreover have "balloon_inv ?e" using inv d(2) by (auto simp: balloon_inv_def dest: in_set_takeD)
    moreover have "balloon_abs ?e = (?p - min (unat n) 512, ?k)" unfolding balloon_abs_def n by simp
    ultimately show ?thesis using 3 t' by (auto simp: balloon_abs_def)
  qed
qed

lemma necessary_refines:
  assumes "balloon_inv b" "good_memory env" "balloon_host vt tinv pending r" "tinv t"
    "balloon_pages (balloon_abs b) < 2 ^ 32" "\<not> inflateDeflateInProgress b"
  shows "\<exists>b' t'. inflateDeflateIfNecessary vt env r (b, t) = Some (b', t') \<and> tinv t' \<and> balloon_inv b'
     \<and> balloon_abs b' = balloon_next (unat r) (balloon_abs b)
     \<and> (inflateDeflateInProgress b' \<longleftrightarrow> balloon_pages (balloon_abs b) \<noteq> unat r)
     \<and> (inflateDeflateInProgress b' \<longrightarrow>
          pending t' \<in> {inflateRequestCompletedAction, deflateRequestCompletedAction})"
proof -
  let ?T = "totalPagesAllocated b" and ?n = "balloon_pages (balloon_abs b)"
  note n = totalPages_nat [OF assms(5)]
  obtain p c where pc: "balloon_abs b = (p, c)" by (cases "balloon_abs b")
  consider "?n = unat r" | "?n < unat r" | "unat r < ?n" by linarith
  then show ?thesis
  proof cases
    case 1
    then have "?T = r" using n by (simp add: word_unat_eq_iff)
    then show ?thesis using assms 1 pc by (simp add: inflateDeflateIfNecessary_def)
  next
    case 2
    then have T: "?T \<noteq> r" "?T < r" "unat (r - ?T) = unat r - ?n"
      using n by (auto simp: word_less_nat_alt unat_sub word_le_nat_alt)
    show ?thesis
      using inflate_refines [OF assms(1-4), of "r - ?T"] 2 T assms(6) pc
      by (auto simp: inflateDeflateIfNecessary_def Let_def)
  next
    case 3
    then have T: "?T \<noteq> r" "\<not> ?T < r" "unat (?T - r) = ?n - unat r"
      using n by (auto simp: word_less_nat_alt unat_sub word_le_nat_alt)
    from T(3) have le: "unat (?T - r) \<le> ?n" by simp
    have eq: "inflateDeflateIfNecessary vt env r (b, t) = deflateMemBalloon vt env (?T - r) (b, t)"
      using T assms(6) by (simp add: inflateDeflateIfNecessary_def)
    obtain b' t' where d: "deflateMemBalloon vt env (?T - r) (b, t) = Some (b', t')" "tinv t'" "balloon_inv b'"
      "balloon_abs b' = (if 512 \<le> ?n - unat r \<and> 0 < c then (p, c - 1)
          else if p < ?n - unat r then (p + (512 - (?n - unat r)), c) else (p - min (?n - unat r) 512, c))"
      "inflateDeflateInProgress b'" "pending t' \<in> {inflateRequestCompletedAction, deflateRequestCompletedAction}"
      using deflate_refines [OF assms(1-4) le assms(5)] unfolding T(3) pc prod.case by blast
    have "balloon_abs b' = balloon_next (unat r) (balloon_abs b)" using d(4) 3 pc by (simp add: Let_def)
    then show ?thesis using eq d 3 by auto
  qed
qed


section \<open>Convergence\<close>

text \<open>The completion of the request in progress, and the completions of up to \<open>k\<close> requests in a row.\<close>

definition complete_request ::
    "'t VirtioDevice \<Rightarrow> balloon_env \<Rightarrow> ('t \<Rightarrow> VirtioCompletionAction) \<Rightarrow> VirtioMemBalloonDevice \<times> 't
     \<Rightarrow> (VirtioMemBalloonDevice \<times> 't) option" where
  "complete_request vt env pending = (\<lambda>(b, t).
     if pending t = inflateRequestCompletedAction then inflateRequestCompleted vt env False (b, t)
     else deflateRequestCompleted vt env False (b, t))"

fun complete_requests ::
    "'t VirtioDevice \<Rightarrow> balloon_env \<Rightarrow> ('t \<Rightarrow> VirtioCompletionAction) \<Rightarrow> nat \<Rightarrow> VirtioMemBalloonDevice \<times> 't
     \<Rightarrow> (VirtioMemBalloonDevice \<times> 't) option" where
  "complete_requests vt env pending 0 st = Some st"
| "complete_requests vt env pending (Suc k) st =
     (if inflateDeflateInProgress (fst st)
      then do { st' \<leftarrow> complete_request vt env pending st; complete_requests vt env pending k st' }
      else Some st)"

lemma report_refines:
  assumes "balloon_inv b" "good_memory env" "balloon_host vt tinv pending r" "tinv t"
    "balloon_pages (balloon_abs b) < 2 ^ 32" "\<not> inflateDeflateInProgress b"
  shows "\<exists>b' t'. report_and_continue vt env (b, t) = Some (b', t') \<and> tinv t' \<and> balloon_inv b'
     \<and> balloon_abs b' = balloon_next (unat r) (balloon_abs b)
     \<and> (inflateDeflateInProgress b' \<longleftrightarrow> balloon_pages (balloon_abs b) \<noteq> unat r)"
proof -
  have v: "bl_virtio_device b" using assms(1) by (simp add: balloon_inv_def)
  obtain t1 where t1: "vd_writeDeviceConfig32Native vt CONFIG_ACTUAL_PAGES_OFFSET (totalPagesAllocated b) t = Some t1" "tinv t1"
    using balloon_hostD(4) [OF assms(3,4)] by blast
  obtain t2 where t2: "vd_readDeviceConfig32Native vt CONFIG_NUM_REQUESTED_PAGES_OFFSET t1 = Some (r, t2)" "tinv t2"
    using balloon_hostD(2) [OF assms(3) t1(2)] by blast
  obtain a t3 where t3: "vd_readDeviceConfig32Native vt CONFIG_ACTUAL_PAGES_OFFSET t2 = Some (a, t3)" "tinv t3"
    using balloon_hostD(3) [OF assms(3) t2(2)] by blast
  have "report_and_continue vt env (b, t) = inflateDeflateIfNecessary vt env r (b, t3)"
    using v t1(1) t2(1) t3(1)
    by (simp add: report_and_continue_def bl_deviceConfigChangeAction_def writeDeviceConfig32LE_def readDeviceConfig32LE_def)
  with necessary_refines [OF assms(1-3) t3(2) assms(5,6)] show ?thesis by auto
qed

lemma complete_refines:
  assumes "balloon_inv b" "good_memory env" "balloon_host vt tinv pending r" "tinv t"
    "balloon_pages (balloon_abs b) < 2 ^ 32"
  shows "\<exists>b' t'. complete_request vt env pending (b, t) = Some (b', t') \<and> tinv t' \<and> balloon_inv b'
     \<and> balloon_abs b' = balloon_next (unat r) (balloon_abs b)
     \<and> (inflateDeflateInProgress b' \<longleftrightarrow> balloon_pages (balloon_abs b) \<noteq> unat r)"
proof -
  let ?b = "b\<lparr>inflateDeflateInProgress := False\<rparr>"
  have e: "balloon_inv ?b" "balloon_abs ?b = balloon_abs b"
    "balloon_inv (?b\<lparr>deflatingBuffers := []\<rparr>)" "balloon_abs (?b\<lparr>deflatingBuffers := []\<rparr>) = balloon_abs b"
    using assms(1) by (simp_all add: balloon_inv_def balloon_abs_def)
  show ?thesis
    using report_refines [OF e(1) assms(2-4)] report_refines [OF e(3) assms(2-4)] e(2,4) assms(5)
    by (auto simp: complete_request_def inflateRequestCompleted_def deflateRequestCompleted_def Let_def)
qed

lemma complete_requests_converge:
  assumes "balloon_inv b" "good_memory env" "balloon_host vt tinv pending r" "tinv t"
    "balloon_pages (balloon_abs b) < 2 ^ 32" "unat r + 512 < 2 ^ 32"
    "balloon_distance (unat r) (balloon_abs b) < k"
    "\<not> inflateDeflateInProgress b \<longrightarrow> balloon_pages (balloon_abs b) = unat r"
  shows "\<exists>b' t'. complete_requests vt env pending k (b, t) = Some (b', t')
     \<and> balloon_pages (balloon_abs b') = unat r \<and> \<not> inflateDeflateInProgress b' \<and> balloon_inv b'"
  using assms(1,4,5,7,8)
proof (induction k arbitrary: b t)
  case (Suc k)
  show ?case
  proof (cases "inflateDeflateInProgress b")
    case True
    let ?s = "balloon_abs b"
    obtain b' t' where c: "complete_request vt env pending (b, t) = Some (b', t')" "tinv t'" "balloon_inv b'"
      "balloon_abs b' = balloon_next (unat r) ?s" "inflateDeflateInProgress b' \<longleftrightarrow> balloon_pages ?s \<noteq> unat r"
      using complete_refines [OF Suc.prems(1) assms(2,3) Suc.prems(2,3)] by blast
    have run: "complete_requests vt env pending (Suc k) (b, t) = complete_requests vt env pending k (b', t')"
      using True c(1) by simp
    show ?thesis
    proof (cases "balloon_pages ?s = unat r")
      case same: True
      then have "balloon_abs b' = ?s" using c(4) by (cases ?s) simp
      moreover have "complete_requests vt env pending k (b', t') = Some (b', t')"
        using same c(5) by (cases k) auto
      ultimately show ?thesis using run same c by auto
    next
      case False
      have "balloon_pages (balloon_abs b') < 2 ^ 32"
        using balloon_next_bound [of "unat r" ?s] Suc.prems(3) assms(6) unfolding c(4) by linarith
      moreover have "balloon_distance (unat r) (balloon_abs b') < k"
        using balloon_next_distance [OF False] Suc.prems(4) unfolding c(4) by linarith
      ultimately show ?thesis using Suc.IH [OF c(3,2)] run False c(5) by auto
    qed
  qed (use Suc.prems in auto)
qed simp


section \<open>Failed requests\<close>

lemma butlast_pow_append: "length new = m \<Longrightarrow> (butlast ^^ m) (bufs @ new) = bufs"
proof (induction m arbitrary: new)
  case (Suc m)
  then obtain xs x where "new = xs @ [x]" by (cases new rule: rev_cases) auto
  with Suc show ?case by (simp add: funpow_Suc_right butlast_append del: funpow.simps)
qed simp

lemma chunk_pages_returns:
  assumes "\<forall>p \<in> set ps. p < length (page_address_array b)"
  shows "\<exists>result arr. chunk_pages chunk ps b = Some (result, b\<lparr>page_address_array := arr\<rparr>)"
  using assms
proof (induction ps arbitrary: b)
  case (Cons p ps)
  show ?case
  proof (cases "page_frame chunk (of_nat p * PAGE_SIZE)")
    case None
    then show ?thesis by (intro exI [of _ kIOReturnInternalError] exI [of _ "page_address_array b"]) simp
  next
    case (Some frame)
    then show ?thesis
      using Cons.IH [of "b\<lparr>page_address_array := (page_address_array b)[p := frame]\<rparr>"] Cons.prems by auto
  qed
qed (simp, metis VirtioMemBalloonDevice.surjective VirtioMemBalloonDevice.update_convs(6))

lemma inflate_pages_returns:
  assumes "\<And>k n. alloc_buffer env k n \<noteq> None" "\<forall>i \<in> set is. i < length (page_address_array b)"
  shows "\<exists>result new arr k. inflate_pages env is n bufs b
       = Some (result, n + length new, bufs @ new, b\<lparr>page_address_array := arr, buffers_allocated := k\<rparr>)"
  using assms(2)
proof (induction "is" arbitrary: n bufs b)
  case Nil
  then show ?case
    by (intro exI [of _ kIOReturnSuccess] exI [of _ "[]"] exI [of _ "page_address_array b"] exI [of _ "buffers_allocated b"]) simp
next
  case (Cons i "is")
  obtain buf where buf: "alloc_buffer env (buffers_allocated b) PAGE_SIZE = Some buf" using assms(1) by blast
  show ?case
  proof (cases "page_frame buf 0")
    case None
    with buf show ?thesis
      by (intro exI [of _ kIOReturnInternalError] exI [of _ "[buf]"] exI [of _ "page_address_array b"]
          exI [of _ "buffers_allocated b + 1"])
         (simp add: virtio_mem_balloon_create_reserved_buffer_def)
  next
    case (Some frame)
    let ?b = "b\<lparr>buffers_allocated := buffers_allocated b + 1, page_address_array := (page_address_array b)[i := frame]\<rparr>"
    obtain result new arr k where "inflate_pages env is (n + 1) (bufs @ [buf]) ?b
        = Some (result, n + 1 + length new, (bufs @ [buf]) @ new, ?b\<lparr>page_address_array := arr, buffers_allocated := k\<rparr>)"
      using Cons.IH [of ?b "n + 1" "bufs @ [buf]"] Cons.prems by auto
    then show ?thesis using buf Some Cons.prems
      by (intro exI [of _ result] exI [of _ "buf # new"] exI [of _ arr] exI [of _ k])
         (simp add: virtio_mem_balloon_create_reserved_buffer_def)
  qed
qed

text \<open>
  A failed inflation leaves no trace. When the request is refused by the virtqueue, or a page is
  refused by the driver because its physical address cannot be told, every buffer just allocated is given up
  again: the page and chunk buffers are those from before, and no request is in progress, so that the
  next configuration change tries again.
\<close>

theorem inflate_failure_restores:
  assumes "length (page_address_array b) = 512" "\<And>k n. alloc_buffer env k n \<noteq> None"
    "\<And>md c. vd_submitBuffersToVirtqueue vt INFLATE_QUEUE_INDEX (Some md) None c t = Some (result, t')"
    "result \<noteq> kIOReturnSuccess"
  shows "\<exists>b' t''. inflateMemBalloon vt env n (b, t) = Some (b', t'') \<and> t'' \<in> {t, t'}
     \<and> pageBuffers b' = pageBuffers b \<and> bigChunkBuffers b' = bigChunkBuffers b
     \<and> deflatingBuffers b' = deflatingBuffers b \<and> \<not> inflateDeflateInProgress b'"
proof (cases "BIG_CHUNK_PAGES \<le> n")
  case True
  obtain buf where buf: "alloc_buffer env (buffers_allocated b) (ucast BIG_CHUNK_BYTES) = Some buf" using assms(2) by blast
  let ?b = "b\<lparr>inflateDeflateInProgress := True, buffers_allocated := buffers_allocated b + 1,
     bigChunkBuffers := bigChunkBuffers b @ [buf], page_address_length := 4 * ucast BIG_CHUNK_PAGES\<rparr>"
  obtain res arr where arr: "chunk_pages buf [0..<512] ?b = Some (res, ?b\<lparr>page_address_array := arr\<rparr>)"
    using chunk_pages_returns [of "[0..<512]" ?b buf] assms(1) by auto
  then show ?thesis
    using True buf assms(3,4)
    by (cases "res = kIOReturnSuccess")
       (simp_all add: inflateMemBalloon_def virtio_mem_balloon_create_reserved_buffer_def submit_inflation_def)
next
  case False
  let ?b = "b\<lparr>inflateDeflateInProgress := True, page_address_length := 4 * ucast n\<rparr>"
  have small: "\<forall>i \<in> set [0..<unat n]. i < length (page_address_array ?b)"
    using False assms(1) by (auto simp: word_le_nat_alt)
  obtain res new arr k where i: "inflate_pages env [0..<unat n] 0 (pageBuffers b) ?b
     = Some (res, length new, pageBuffers b @ new, ?b\<lparr>page_address_array := arr, buffers_allocated := k\<rparr>)"
    using inflate_pages_returns [OF assms(2) small, of 0 "pageBuffers b"] by auto
  then show ?thesis
    using False assms(3,4) butlast_pow_append [OF refl, of new "pageBuffers b"]
    by (cases "res = kIOReturnSuccess") (simp_all add: inflateMemBalloon_def submit_inflation_def)
qed

text \<open>
  A failed deflation leaves the driver stuck: the flag stays set, so that every later configuration
  change is ignored, whatever number of pages the host asks for.
\<close>

theorem deflate_failure_stuck:
  assumes "balloon_inv b" "balloon_pages (balloon_abs b) < 2 ^ 32"
    "unat n \<le> length (pageBuffers b) \<or> (512 \<le> unat n \<and> bigChunkBuffers b \<noteq> [])"
    "\<And>md c. vd_submitBuffersToVirtqueue vt DEFLATE_QUEUE_INDEX (Some md) None c t = Some (result, t')"
    "result \<noteq> kIOReturnSuccess"
  shows "\<exists>b'. deflateMemBalloon vt env n (b, t) = Some (b', t')
     \<and> (\<forall>r t''. inflateDeflateIfNecessary vt env r (b', t'') = Some (b', t''))"
proof -
  note inv = assms(1) [unfolded balloon_inv_def]
  have ge: "BIG_CHUNK_PAGES \<le> n \<longleftrightarrow> 512 \<le> unat n" by (simp add: word_le_nat_alt)
  have p: "unat (of_nat (length (pageBuffers b)) :: u32) = length (pageBuffers b)"
    using assms(2) by (simp add: unat_of_nat take_bit_nat_eq_self balloon_abs_def)
  have gt: "of_nat (length (pageBuffers b)) < n \<longleftrightarrow> length (pageBuffers b) < unat n" by (simp add: word_less_nat_alt p)
  show ?thesis
  proof (cases "512 \<le> unat n \<and> bigChunkBuffers b \<noteq> []")
    case True
    then obtain bufs buf where l: "bigChunkBuffers b = bufs @ [buf]" by (cases "bigChunkBuffers b" rule: rev_cases) auto
    let ?b = "b\<lparr>inflateDeflateInProgress := True, deflatingBuffers := deflatingBuffers b @ [buf],
       bigChunkBuffers := bufs, page_address_length := 4 * ucast BIG_CHUNK_PAGES\<rparr>"
    have "good_chunk buf" using inv l by simp
    then obtain arr where "chunk_pages buf [0..<512] ?b = Some (kIOReturnSuccess, ?b\<lparr>page_address_array := arr\<rparr>)"
      using chunk_pages_ok [of "[0..<512]" ?b buf] inv by (auto simp: good_chunk_def)
    then have "deflateMemBalloon vt env n (b, t) = Some (?b\<lparr>page_address_array := arr\<rparr>, t')"
      using True ge l assms(4) by (simp add: deflateMemBalloon_def submit_deflation_def)
    then show ?thesis by (auto simp: inflateDeflateIfNecessary_def)
  next
    case False
    then have n: "unat n \<le> length (pageBuffers b)" using assms(3) by auto
    let ?n = "if n > BIG_CHUNK_PAGES then BIG_CHUNK_PAGES else n"
    have m: "unat ?n = min (unat n) 512" by (auto simp: word_less_nat_alt min_def)
    let ?b = "b\<lparr>inflateDeflateInProgress := True, page_address_length := 4 * ucast ?n\<rparr>"
    have len: "length [0..<unat ?n] \<le> length (pageBuffers ?b)" unfolding m using n by simp
    have small: "\<forall>i \<in> set [0..<unat ?n]. i < length (page_address_array ?b)" unfolding m using inv by auto
    obtain e where "deflate_pages [0..<unat ?n] ?b = Some (kIOReturnSuccess, e)" "inflateDeflateInProgress e"
      using deflate_pages_ok [OF len small] inv by auto
    moreover from this have "deflateMemBalloon vt env n (b, t) = Some (e, t')"
      using False n ge gt assms(4) by (simp add: deflateMemBalloon_def submit_deflation_def Let_def) blast
    ultimately show ?thesis by (auto simp: inflateDeflateIfNecessary_def)
  qed
qed

section \<open>Start and stop\<close>

context virtio_transport
begin

lemma bl_start_result:
  assumes "closed t"
  shows "(\<exists>t'. bl_start vt env (b, t) = Some (False, b, t') \<and> closed t')
     \<or> (\<exists>b' t'. bl_start vt env (b, t) = do { (b, t) \<leftarrow> bl_deviceConfigChangeAction vt env (b', t'); Some (True, b, t) }
          \<and> live t' \<and> mapped t' \<and> bl_virtio_device b' \<and> balloon_abs b' = (0, 0) \<and> \<not> inflateDeflateInProgress b'
          \<and> balloon_inv b')"
proof (cases "bl_service_start env \<and> bl_provider_is_virtio env")
  case True
  obtain ok t1 where t1: "vd_open vt t = Some (ok, t1)" "if ok then live t1 \<and> mapped t1 else closed t1"
    using open_ok [OF assms] by blast
  show ?thesis
  proof (cases ok)
    case True
    with t1 have "live t1" "mapped t1" by simp_all
    then obtain r t2 where t2: "vd_resetDevice vt t1 = Some (r, t2)" "live t2" "mapped t2" using reset_ok by blast
    let ?use = "vd_supportedFeatures vt t2 AND VIRTIO_SUPPORTED_MEMORY_BALLOON_FEATURES"
    obtain f t3 where t3: "vd_requestFeatures vt ?use t2 = Some (f, t3)" "live t3" "mapped t3"
      using request_ok [OF t2(2)] t2(3) by blast
    have giveup: "\<exists>t5. do { t \<leftarrow> vd_failDevice vt t4; t \<leftarrow> vd_close vt t; Some (False, b, t) } = Some (False, b, t5)
        \<and> closed t5" if "live t4" for t4
      using fail_ok [OF that] close_ok by fastforce
    obtain result sizes t4 where t4: "vd_setupVirtqueues vt 2 (\<lambda>_. True) (\<lambda>_. 0) t3 = Some (result, sizes, t4)" "live t4"
      "result = kIOReturnSuccess \<longrightarrow> mapped t4" using setup_ok [OF t3(2)] t3(3) by fastforce
    show ?thesis
    proof (cases "f \<and> result = kIOReturnSuccess")
      case ready: True
      obtain t5 where t5: "vd_startDevice vt True True t4 = Some t5" "live t5" "mapped t5"
        using start_ok [OF t4(2)] t4(3) ready by blast
      let ?b = "b\<lparr>bl_command_gate := True, bl_virtio_device := True,
         page_address_array := replicate (unat BIG_CHUNK_PAGES) 0, page_address_length := 4 * ucast BIG_CHUNK_PAGES,
         pageBuffers := [], bigChunkBuffers := [], deflatingBuffers := [], inflateDeflateInProgress := False\<rparr>"
      have "bl_start vt env (b, t) = do { (b, t) \<leftarrow> bl_deviceConfigChangeAction vt env (?b, t5); Some (True, b, t) }"
        using \<open>bl_service_start env \<and> bl_provider_is_virtio env\<close> True ready t1(1) t2(1) t3(1) t4(1) t5(1)
        by (simp add: bl_start_def)
      with t5 show ?thesis
        by (intro disjI2 exI [of _ ?b] exI [of _ t5]) (simp add: balloon_abs_def balloon_inv_def)
    next
      case False
      have eq: "bl_start vt env (b, t) = do { t \<leftarrow> vd_failDevice vt (if f then t4 else t3); t \<leftarrow> vd_close vt t; Some (False, b, t) }"
        using \<open>bl_service_start env \<and> bl_provider_is_virtio env\<close> True False t1(1) t2(1) t3(1) t4(1)
        by (auto simp: bl_start_def)
      show ?thesis unfolding eq using giveup [of "if f then t4 else t3"] t3(2) t4(2) by auto
    qed
  next
    case False
    then show ?thesis
      using \<open>bl_service_start env \<and> bl_provider_is_virtio env\<close> t1 by (auto simp: bl_start_def)
  qed
qed (use assms in \<open>auto simp: bl_start_def\<close>)

lemma bl_stop_closes:
  assumes "bl_virtio_device b \<longrightarrow> live t"
  shows "\<exists>b' t'. bl_stop vt (b, t) = Some (b', t') \<and> \<not> bl_virtio_device b' \<and> (bl_virtio_device b \<longrightarrow> closed t')"
proof (cases "bl_virtio_device b")
  case True
  then obtain t1 t2 where "vd_failDevice vt t = Some t1" "vd_close vt t1 = Some t2" "closed t2"
    using fail_ok close_ok assms by blast
  with True show ?thesis by (simp add: bl_stop_def bl_endDeviceOperation_def)
qed (simp add: bl_stop_def bl_endDeviceOperation_def)

end

text \<open>
  Starting the balloon driver on the legacy transport never dereferences a null pointer before the
  device runs, and is all or nothing: either it fails, with the device closed and the driver object
  unchanged, or it gets as far as the first adjustment of an empty balloon on a started device.
\<close>

theorem balloon_start_all_or_nothing:
  assumes "legacy_kernel env fuel len" "legacy_closed d"
    "vt = legacy_ops env dev fuel dma table_id"
  shows "(\<exists>d'. bl_start vt benv (b, d) = Some (False, b, d') \<and> legacy_closed d')
     \<or> (\<exists>b' d'. bl_start vt benv (b, d) = do { (b, d) \<leftarrow> bl_deviceConfigChangeAction vt benv (b', d'); Some (True, b, d) }
          \<and> legacy_live d' \<and> pci_virtio_header_iomap d' \<and> balloon_abs b' = (0, 0) \<and> balloon_inv b'
          \<and> \<not> inflateDeflateInProgress b')"
  using virtio_transport.bl_start_result [OF legacy_kernel.legacy_transport [OF assms(1)] assms(2)] unfolding assms(3) by blast

text \<open>
  Stopping the balloon driver on the legacy transport while its device is open always returns, tells
  the device and closes it; stopping a driver that never opened a device, or has already ended its operation, also returns.
\<close>

theorem balloon_stop_closes:
  assumes "legacy_kernel env fuel len" "bl_virtio_device b \<longrightarrow> legacy_live d"
  shows "\<exists>b' d'. bl_stop (legacy_ops env dev fuel dma table_id) (b, d) = Some (b', d') \<and> \<not> bl_virtio_device b'
     \<and> (bl_virtio_device b \<longrightarrow> legacy_closed d')"
  by (rule virtio_transport.bl_stop_closes [OF legacy_kernel.legacy_transport [OF assms(1)] assms(2)])

section \<open>A concrete host\<close>

text \<open>A host that asks for \<open>r\<close> pages and accepts every request; its state is the size reported to it
  and the action of the last request.\<close>

definition host_ops :: "u32 \<Rightarrow> IOReturn \<Rightarrow> (u32 \<times> VirtioCompletionAction) VirtioDevice" where
  "host_ops r result = \<lparr>
     vd_open = (\<lambda>t. Some (True, t)), vd_close = Some, vd_resetDevice = (\<lambda>t. Some (True, t)),
     vd_supportedFeatures = (\<lambda>_. 0), vd_requestFeatures = (\<lambda>_ t. Some (True, t)), vd_failDevice = Some,
     vd_setupVirtqueues = (\<lambda>n _ _ t. Some (kIOReturnSuccess, replicate (unat n) 4, t)),
     vd_setVirtqueueInterruptsEnabled = (\<lambda>_ _ t. Some (kIOReturnSuccess, t)), vd_startDevice = (\<lambda>_ _ t. Some t),
     vd_submitBuffersToVirtqueue = (\<lambda>_ _ _ c t.
       Some (result, if result = kIOReturnSuccess then (fst t, comp_action c) else t)),
     vd_readDeviceConfig8 = (\<lambda>_ t. Some (0, t)), vd_readDeviceConfig16Native = (\<lambda>_ t. Some (0, t)),
     vd_readDeviceConfig32Native = (\<lambda>off t. Some (if off = 0 then r else fst t, t)),
     vd_readDeviceConfig64Native = (\<lambda>_ t. Some (0, t)), vd_readDeviceConfig16LETransitional = (\<lambda>_ t. Some (0, t)),
     vd_readDeviceConfig32LETransitional = (\<lambda>_ t. Some (0, t)), vd_readDeviceConfig64LETransitional = (\<lambda>_ t. Some (0, t)),
     vd_writeDeviceConfig8 = (\<lambda>_ _ t. Some t), vd_writeDeviceConfig16Native = (\<lambda>_ _ t. Some t),
     vd_writeDeviceConfig32Native = (\<lambda>_ v t. Some (v, snd t)), vd_writeDeviceConfig16LETransitional = (\<lambda>_ _ t. Some t),
     vd_writeDeviceConfig32LETransitional = (\<lambda>_ _ t. Some t)\<rparr>"

definition example_memory :: balloon_env where
  "example_memory = \<lparr>bl_service_start = True, bl_provider_is_virtio = True,
     alloc_buffer = (\<lambda>k n. Some (\<lambda>off. (off + 4096, 4096)))\<rparr>"

definition empty_balloon :: VirtioMemBalloonDevice where
  "empty_balloon = \<lparr>bl_virtio_device = True, pageBuffers = [], bigChunkBuffers = [], deflatingBuffers = [],
     bl_command_gate = True, page_address_array = replicate 512 0, page_address_length = 2048,
     inflateDeflateInProgress = False, buffers_allocated = 0\<rparr>"

definition chunk_balloon :: VirtioMemBalloonDevice where
  "chunk_balloon = empty_balloon\<lparr>bigChunkBuffers := [\<lambda>off. (off + 4096, 4096)]\<rparr>"

lemma example_chunk_good: "good_chunk (\<lambda>off. (off + 4096, 4096))" "good_page (\<lambda>off. (off + 4096, 4096))"
proof -
  have "(of_nat page * PAGE_SIZE) + 4096 \<noteq> (0 :: u64)" if "page < 512" for page
  proof -
    have "(of_nat page * PAGE_SIZE) + 4096 = (of_nat (page * 4096 + 4096) :: u64)" by (simp add: PAGE_SIZE_def)
    moreover have "unat (of_nat (page * 4096 + 4096) :: u64) = page * 4096 + 4096"
      using that by (simp add: unat_of_nat take_bit_nat_eq_self del: of_nat_add of_nat_mult)
    ultimately show ?thesis by (metis add_is_0 unat_0 zero_neq_numeral)
  qed
  then show "good_chunk (\<lambda>off. (off + 4096, 4096))" "good_page (\<lambda>off. (off + 4096, 4096))"
    by (auto simp: good_chunk_def good_page_def page_frame_def PAGE_SIZE_def)
qed

lemma example_memory_good: "good_memory example_memory"
  using example_chunk_good by (simp add: good_memory_def example_memory_def)

lemma host_ops_accepts: "balloon_host (host_ops r kIOReturnSuccess) (\<lambda>_. True) snd r"
  by (simp add: balloon_host_def host_ops_def CONFIG_NUM_REQUESTED_PAGES_OFFSET_def CONFIG_ACTUAL_PAGES_OFFSET_def)

lemma example_balloons:
  "balloon_inv empty_balloon" "balloon_abs empty_balloon = (0, 0)" "\<not> inflateDeflateInProgress empty_balloon"
  "balloon_inv chunk_balloon" "balloon_abs chunk_balloon = (0, 1)" "\<not> inflateDeflateInProgress chunk_balloon"
  "bigChunkBuffers chunk_balloon \<noteq> []" "length (page_address_array empty_balloon) = 512"
  using example_chunk_good by (simp_all add: balloon_inv_def balloon_abs_def empty_balloon_def chunk_balloon_def)



lemma host_ops_refuses:
  "result \<noteq> kIOReturnSuccess \<Longrightarrow> vd_submitBuffersToVirtqueue (host_ops r result) q md1 md2 c t = Some (result, t)"
  by (simp add: host_ops_def)

theorem inflate_failure_restores_witness:
  "\<exists>b' t'. inflateMemBalloon (host_ops 700 kIOReturnNoMemory) example_memory 700 (empty_balloon, (0, NullAction)) = Some (b', t')
     \<and> bigChunkBuffers b' = [] \<and> pageBuffers b' = [] \<and> \<not> inflateDeflateInProgress b'"
proof -
  have "alloc_buffer example_memory k n \<noteq> None" for k n by (simp add: example_memory_def)
  moreover have "bigChunkBuffers empty_balloon = []" "pageBuffers empty_balloon = []" by (simp_all add: empty_balloon_def)
  ultimately show ?thesis
    using inflate_failure_restores [OF example_balloons(8) _ host_ops_refuses [of kIOReturnNoMemory 700],
        where env = example_memory and t = "(0, NullAction)" and n = 700] by simp blast
qed

theorem deflate_failure_stuck_witness:
  "\<exists>b' t'. deflateMemBalloon (host_ops 0 kIOReturnNoMemory) example_memory 512 (chunk_balloon, (512, NullAction)) = Some (b', t')
     \<and> inflateDeflateIfNecessary (host_ops 0 kIOReturnNoMemory) example_memory 0 (b', t') = Some (b', t')"
  using deflate_failure_stuck [OF example_balloons(4) _ _ host_ops_refuses [of kIOReturnNoMemory 0], where n = 512
      and t = "(512, NullAction)" and env = example_memory] example_balloons(5,7)
  by auto

definition closed_legacy_dev :: legacy_dev where
  "closed_legacy_dev = new_legacy_dev\<lparr>opened_by_client := False, pci_virtio_header_iomap := False\<rparr>"

lemma closed_legacy_dev: "legacy_closed closed_legacy_dev"
  by (simp add: legacy_closed_def closed_legacy_dev_def new_legacy_dev_def session_inv_def dev_inv_def)

lemma new_legacy_dev_live: "legacy_live new_legacy_dev"
  by (simp add: legacy_live_def new_legacy_dev_def session_inv_def dev_inv_def)

theorem balloon_start_all_or_nothing_witness:
  "\<exists>d'. bl_start (legacy_ops example_env example_port 4 linear_dma (\<lambda>_. 0)) (example_memory\<lparr>bl_service_start := False\<rparr>)
      (empty_balloon, closed_legacy_dev) = Some (False, empty_balloon, d') \<and> legacy_closed d'"
  using balloon_start_all_or_nothing [OF example_kernel.legacy_kernel_axioms closed_legacy_dev refl,
      where benv = "example_memory\<lparr>bl_service_start := False\<rparr>" and b = empty_balloon]
  by (auto simp: bl_start_def closed_legacy_dev)

theorem balloon_stop_closes_witness:
  "\<exists>b' d'. bl_stop (legacy_ops example_env example_port 4 linear_dma (\<lambda>_. 0)) (empty_balloon, new_legacy_dev) = Some (b', d')
     \<and> \<not> bl_virtio_device b' \<and> legacy_closed d'"
  using balloon_stop_closes [OF example_kernel.legacy_kernel_axioms, where b = empty_balloon and d = new_legacy_dev] new_legacy_dev_live
  by (auto simp: empty_balloon_def)

end
