(* ===== verification/Block_Device.thy ===== *)
theory Block_Device
  imports Virtio_Device
begin

text \<open>
  The block device driver, VirtioBlockDevice.cpp. Requests live in a fixed array and are named by
  their index in it; those not in use are in a pool, those that did not fit into the virtqueue wait in
  a queue. The containers are those of the genccont library, which is not part of the repository: they are
  the functions of the record \<open>genc_ops\<close>, and the locale \<open>genc_containers\<close> says what the driver
  relies on.

  The storage stack above the driver is represented by the log of the completions it is called with.
  A sleeping flush request is split at the point where the thread sleeps.
\<close>

section \<open>Containers\<close>

record ('l, 'q) genc_ops =
  slist_empty :: 'l
  slist_insert_at :: "nat \<Rightarrow> 'l \<Rightarrow> 'l"
  slist_remove_object_at :: "'l \<Rightarrow> nat option \<times> 'l"
  slq_init :: 'q
  slq_is_empty :: "'q \<Rightarrow> bool"
  slq_push_back :: "nat \<Rightarrow> 'q \<Rightarrow> 'q"
  slq_push_front :: "nat \<Rightarrow> 'q \<Rightarrow> 'q"
  slq_pop_front_object :: "'q \<Rightarrow> nat option \<times> 'q"

text \<open>The documented behaviour: a stack and a double-ended queue, read as the lists of their elements.\<close>

locale genc_containers =
  fixes g :: "('l, 'q) genc_ops" and sl :: "'l \<Rightarrow> nat list" and ql :: "'q \<Rightarrow> nat list"
  assumes sl_empty [simp]: "sl (slist_empty g) = []"
    and sl_insert [simp]: "sl (slist_insert_at g x l) = x # sl l"
    and sl_remove_empty: "sl l = [] \<Longrightarrow> slist_remove_object_at g l = (None, l)"
    and sl_remove: "sl l = x # xs \<Longrightarrow> \<exists>l'. slist_remove_object_at g l = (Some x, l') \<and> sl l' = xs"
    and ql_init [simp]: "ql (slq_init g) = []"
    and ql_is_empty [simp]: "slq_is_empty g q \<longleftrightarrow> ql q = []"
    and ql_push_back [simp]: "ql (slq_push_back g x q) = ql q @ [x]"
    and ql_push_front [simp]: "ql (slq_push_front g x q) = x # ql q"
    and ql_pop_front: "ql q = x # xs \<Longrightarrow> \<exists>q'. slq_pop_front_object g q = (Some x, q') \<and> ql q' = xs"

text \<open>HOL lists behave this way.\<close>

definition list_genc :: "(nat list, nat list) genc_ops" where
  "list_genc = \<lparr>slist_empty = [], slist_insert_at = Cons,
     slist_remove_object_at = (\<lambda>l. case l of [] \<Rightarrow> (None, l) | x # xs \<Rightarrow> (Some x, xs)),
     slq_init = [], slq_is_empty = (\<lambda>q. q = []), slq_push_back = (\<lambda>x q. q @ [x]), slq_push_front = Cons,
     slq_pop_front_object = (\<lambda>q. case q of [] \<Rightarrow> (None, q) | x # xs \<Rightarrow> (Some x, xs))\<rparr>"

interpretation list_genc: genc_containers list_genc "\<lambda>l. l" "\<lambda>q. q"
  by unfold_locales (simp_all add: list_genc_def)

section \<open>State\<close>

definition VIRTIO_BLK_F_SEG_MAX :: u32 where "VIRTIO_BLK_F_SEG_MAX = push_bit 2 1"
definition VIRTIO_BLK_F_RO :: u32 where "VIRTIO_BLK_F_RO = push_bit 5 1"
definition VIRTIO_BLK_F_BLK_SIZE :: u32 where "VIRTIO_BLK_F_BLK_SIZE = push_bit 6 1"
definition VIRTIO_BLK_F_TOPOLOGY :: u32 where "VIRTIO_BLK_F_TOPOLOGY = push_bit 10 1"
definition BLK_SUPPORTED_FEATURES :: u32 where
  "BLK_SUPPORTED_FEATURES = VIRTIO_BLK_F_SEG_MAX OR VIRTIO_BLK_F_BLK_SIZE OR VIRTIO_BLK_F_TOPOLOGY
     OR VIRTIO_BLK_F_RO OR VIRTIO_F_RING_INDIRECT_DESC"

definition VIRTIO_BLK_T_IN :: u32 where "VIRTIO_BLK_T_IN = 0"
definition VIRTIO_BLK_T_OUT :: u32 where "VIRTIO_BLK_T_OUT = 1"
definition VIRTIO_BLK_T_FLUSH :: u32 where "VIRTIO_BLK_T_FLUSH = 4"
definition VIRTIO_BLK_S_OK :: u8 where "VIRTIO_BLK_S_OK = 0"
definition VIRTIO_BLK_S_IOERR :: u8 where "VIRTIO_BLK_S_IOERR = 1"
definition VIRTIO_BLK_S_UNSUPP :: u8 where "VIRTIO_BLK_S_UNSUPP = 2"

definition CONFIG_CAPCITY_OFFSET :: u16 where "CONFIG_CAPCITY_OFFSET = 0"
definition CONFIG_SIZE_MAX_OFFSET :: u16 where "CONFIG_SIZE_MAX_OFFSET = 8"
definition CONFIG_SEG_MAX_OFFSET :: u16 where "CONFIG_SEG_MAX_OFFSET = 12"
definition CONFIG_BLK_SIZE_OFFSET :: u16 where "CONFIG_BLK_SIZE_OFFSET = 20"

record virtio_blk_req_header =
  hdr_type :: u32
  hdr_reserved :: u32
  hdr_sector :: u64

text \<open>The three lambda functions stored in \<^verbatim>\<open>submit_fn\<close>.\<close>

datatype submit_fn = SubmitNull | SubmitRead | SubmitWrite | SubmitFlush

text \<open>
  \<open>req_sync\<close> says which member of the union is active: \<^verbatim>\<open>sync_result\<close>, or the storage completion with
  its length. The completion is the client's reference, \<^term>\<open>None\<close> in zeroed memory.
\<close>

record VirtioBlockDeviceRequest =
  req_header :: virtio_blk_req_header
  req_subranges :: "(IOMemoryDescriptor \<times> u64) list"
  req_status :: u8
  req_completion :: "nat option"
  req_length :: u64
  req_sync_result :: IOReturn
  req_sync :: bool
  req_submit :: submit_fn

record ('l, 'q) VirtioBlockDevice =
  blk_virtio_device :: bool
  blk_command_gate :: bool
  block_size :: u32
  blk_active_features :: u32
  capacity_in_bytes :: u64
  sectors_per_block :: u32
  max_request_segments :: u32
  max_concurrent_requests :: u32
  pending_requests :: 'q
  request_pool :: 'l
  requests :: "VirtioBlockDeviceRequest list"
  storage_log :: "(nat \<times> IOReturn \<times> u64) list"

record block_env =
  blk_service_start :: bool
  blk_provider_is_virtio :: bool
  request_alloc_ok :: "nat \<Rightarrow> bool"

section \<open>Requests and their pool\<close>

definition virtio_block_device_request_create :: "block_env \<Rightarrow> nat \<Rightarrow> VirtioBlockDeviceRequest option" where
  "virtio_block_device_request_create env k =
     (if request_alloc_ok env k
      then Some \<lparr>req_header = \<lparr>hdr_type = 0, hdr_reserved = 0, hdr_sector = 0\<rparr>, req_subranges = [],
             req_status = 0, req_completion = None, req_length = 0, req_sync_result = kIOReturnSuccess,
             req_sync = False, req_submit = SubmitNull\<rparr>
      else None)"

text \<open>With an empty pool the loop never looks at the pool again: it does not end.\<close>

definition requestFromPool ::
    "('l, 'q) genc_ops \<Rightarrow> ('l, 'q) VirtioBlockDevice \<Rightarrow> (nat \<times> ('l, 'q) VirtioBlockDevice) option" where
  "requestFromPool g b =
     (let (request, pool) = slist_remove_object_at g (request_pool b)
      in case request of None \<Rightarrow> None | Some i \<Rightarrow> Some (i, b\<lparr>request_pool := pool\<rparr>))"

definition returnRequestToPool ::
    "('l, 'q) genc_ops \<Rightarrow> nat \<Rightarrow> ('l, 'q) VirtioBlockDevice \<Rightarrow> ('l, 'q) VirtioBlockDevice option" where
  "returnRequestToPool g i b =
     (if blk_command_gate b then Some (b\<lparr>request_pool := slist_insert_at g i (request_pool b)\<rparr>) else None)"

definition modify_request ::
    "nat \<Rightarrow> (VirtioBlockDeviceRequest \<Rightarrow> VirtioBlockDeviceRequest) \<Rightarrow> ('l, 'q) VirtioBlockDevice
     \<Rightarrow> ('l, 'q) VirtioBlockDevice option" where
  "modify_request i f b = do {
     rs \<leftarrow> array_modify (requests b) i f;
     Some (b\<lparr>requests := rs\<rparr>)
   }"

text \<open>The memory descriptors of request \<open>i\<close>: header, status and the combined subranges.\<close>

definition header_md :: "nat \<Rightarrow> IOMemoryDescriptor" where
  "header_md i = \<lparr>md_id = 3 * i, md_length = 16\<rparr>"
definition status_md :: "nat \<Rightarrow> IOMemoryDescriptor" where
  "status_md i = \<lparr>md_id = 3 * i + 1, md_length = 1\<rparr>"
definition subrange_md :: "nat \<Rightarrow> VirtioBlockDeviceRequest \<Rightarrow> IOMemoryDescriptor" where
  "subrange_md i r = \<lparr>md_id = 3 * i + 2, md_length = sum_list (map snd (req_subranges r))\<rparr>"

text \<open>Calling \<^verbatim>\<open>submit_fn\<close> of a request.\<close>

definition call_submit_fn ::
    "'t VirtioDevice \<Rightarrow> nat \<Rightarrow> ('l, 'q) VirtioBlockDevice \<times> 't
     \<Rightarrow> (IOReturn \<times> ('l, 'q) VirtioBlockDevice \<times> 't) option" where
  "call_submit_fn vt i = (\<lambda>(b, t). do {
     r \<leftarrow> array_read (requests b) i;
     if \<not> blk_virtio_device b then None
     else do {
       (result, t) \<leftarrow> (case req_submit r of
          SubmitNull \<Rightarrow> None
        | SubmitRead \<Rightarrow> vd_submitBuffersToVirtqueue vt 0 (Some (header_md i)) (Some (subrange_md i r))
            \<lparr>comp_action = blockRequestCompletedAction, comp_target = 0, comp_ref = i\<rparr> t
        | SubmitWrite \<Rightarrow> vd_submitBuffersToVirtqueue vt 0 (Some (subrange_md i r)) (Some (status_md i))
            \<lparr>comp_action = blockRequestCompletedAction, comp_target = 0, comp_ref = i\<rparr> t
        | SubmitFlush \<Rightarrow> vd_submitBuffersToVirtqueue vt 0 (Some (header_md i)) (Some (status_md i))
            \<lparr>comp_action = flushRequestCompletedAction, comp_target = 0, comp_ref = i\<rparr> t);
       Some (result, b, t)
     }
   })"

text \<open>The end of both kinds of request: submit at once if nothing is waiting, else join the queue.\<close>

definition submit_or_defer ::
    "('l, 'q) genc_ops \<Rightarrow> 't VirtioDevice \<Rightarrow> nat \<Rightarrow> ('l, 'q) VirtioBlockDevice \<times> 't
     \<Rightarrow> (IOReturn \<times> ('l, 'q) VirtioBlockDevice \<times> 't) option" where
  "submit_or_defer g vt i = (\<lambda>(b, t). do {
     (submit_result, b, t) \<leftarrow>
       (if slq_is_empty g (pending_requests b) then call_submit_fn vt i (b, t) else Some (kIOReturnNoSpace, b, t));
     if submit_result = kIOReturnNoSpace \<or> submit_result = kIOReturnBusy
     then Some (kIOReturnSuccess, b\<lparr>pending_requests := slq_push_back g i (pending_requests b)\<rparr>, t)
     else Some (submit_result, b, t)
   })"

section \<open>Reading and writing\<close>

datatype IODirection = kIODirectionIn | kIODirectionOut | kIODirectionOther

definition doAsyncReadWriteOnWorkLoop ::
    "('l, 'q) genc_ops \<Rightarrow> 't VirtioDevice \<Rightarrow> IODirection \<Rightarrow> IOMemoryDescriptor \<Rightarrow> u64 \<Rightarrow> u64 \<Rightarrow> nat
     \<Rightarrow> ('l, 'q) VirtioBlockDevice \<times> 't \<Rightarrow> (IOReturn \<times> ('l, 'q) VirtioBlockDevice \<times> 't) option" where
  "doAsyncReadWriteOnWorkLoop g vt direction buffer block nblks compl = (\<lambda>(b, t). do {
     let request_length = nblks * ucast (block_size b);
     if md_length buffer < request_length then Some (kIOReturnBadArgument, b, t)
     else if (block + nblks) * ucast (block_size b) > capacity_in_bytes b then Some (kIOReturnBadArgument, b, t)
     else do {
       (i, b) \<leftarrow> requestFromPool g b;
       b \<leftarrow> modify_request i (\<lambda>r. r\<lparr>req_length := request_length, req_sync := False\<rparr>) b;
       let sector = block * ucast (sectors_per_block b);
       if direction = kIODirectionOther then Some (kIOReturnBadArgument, b, t)
       else do {
         b \<leftarrow> modify_request i (\<lambda>r. if direction = kIODirectionIn
            then r\<lparr>req_header := \<lparr>hdr_type = VIRTIO_BLK_T_IN, hdr_reserved = 0, hdr_sector = sector\<rparr>,
                   req_subranges := [(buffer, request_length), (status_md i, 1)],
                   req_completion := Some compl, req_submit := SubmitRead\<rparr>
            else r\<lparr>req_header := \<lparr>hdr_type = VIRTIO_BLK_T_OUT, hdr_reserved = 0, hdr_sector = sector\<rparr>,
                   req_subranges := [(header_md i, 16), (buffer, request_length)],
                   req_completion := Some compl, req_submit := SubmitWrite\<rparr>) b;
         (submit_result, b, t) \<leftarrow> submit_or_defer g vt i (b, t);
         if submit_result \<noteq> kIOReturnSuccess then do {
           b \<leftarrow> modify_request i (\<lambda>r. r\<lparr>req_subranges := []\<rparr>) b;
           b \<leftarrow> returnRequestToPool g i b;
           Some (submit_result, b, t)
         } else Some (submit_result, b, t)
       }
     }
   })"

definition doAsyncReadWrite ::
    "('l, 'q) genc_ops \<Rightarrow> 't VirtioDevice \<Rightarrow> IODirection \<Rightarrow> IOMemoryDescriptor \<Rightarrow> u64 \<Rightarrow> u64 \<Rightarrow> nat
     \<Rightarrow> ('l, 'q) VirtioBlockDevice \<times> 't \<Rightarrow> (IOReturn \<times> ('l, 'q) VirtioBlockDevice \<times> 't) option" where
  "doAsyncReadWrite g vt direction buffer block nblks compl = (\<lambda>(b, t).
     if \<not> blk_command_gate b then None
     else doAsyncReadWriteOnWorkLoop g vt direction buffer block nblks compl (b, t))"

section \<open>Flushing\<close>

text \<open>\<^verbatim>\<open>doSynchronizeCacheOnWorkLoop\<close> up to the point where the thread sleeps, with the request it sleeps on
  (\<^term>\<open>Inr\<close>), or to an early return (\<^term>\<open>Inl\<close>); and what it does once woken up.\<close>

definition doSynchronizeCache_submit ::
    "('l, 'q) genc_ops \<Rightarrow> 't VirtioDevice \<Rightarrow> ('l, 'q) VirtioBlockDevice \<times> 't
     \<Rightarrow> ((IOReturn + nat) \<times> ('l, 'q) VirtioBlockDevice \<times> 't) option" where
  "doSynchronizeCache_submit g vt = (\<lambda>(b, t). do {
     (i, b) \<leftarrow> requestFromPool g b;
     b \<leftarrow> modify_request i (\<lambda>r. r\<lparr>req_header := \<lparr>hdr_type = VIRTIO_BLK_T_FLUSH, hdr_reserved = 0, hdr_sector = 0\<rparr>,
            req_submit := SubmitFlush\<rparr>) b;
     (submit_result, b, t) \<leftarrow> submit_or_defer g vt i (b, t);
     if submit_result \<noteq> kIOReturnSuccess then do {
       b \<leftarrow> returnRequestToPool g i b;
       Some (Inl submit_result, b, t)
     } else Some (Inr i, b, t)
   })"

definition doSynchronizeCache_wake ::
    "('l, 'q) genc_ops \<Rightarrow> nat \<Rightarrow> ('l, 'q) VirtioBlockDevice \<Rightarrow> (IOReturn \<times> ('l, 'q) VirtioBlockDevice) option" where
  "doSynchronizeCache_wake g i b = do {
     r \<leftarrow> array_read (requests b) i;
     b \<leftarrow> returnRequestToPool g i b;
     Some (req_sync_result r, b)
   }"

section \<open>Completions\<close>

definition virtioBlockDeviceGetRequestResult :: "VirtioBlockDeviceRequest \<Rightarrow> bool \<Rightarrow> IOReturn" where
  "virtioBlockDeviceGetRequestResult request device_reset =
     (if device_reset then kIOReturnAborted
      else if req_status request = VIRTIO_BLK_S_OK then kIOReturnSuccess
      else if req_status request = VIRTIO_BLK_S_IOERR then kIOReturnIOError
      else if req_status request = VIRTIO_BLK_S_UNSUPP then kIOReturnUnsupported
      else kIOReturnDeviceError)"

text \<open>Handing a request back to the storage stack. The completion is a null pointer in a request that was
  never used for reading or writing, and garbage when the other member of the union is active.\<close>

definition complete_storage ::
    "('l, 'q) genc_ops \<Rightarrow> nat \<Rightarrow> IOReturn \<Rightarrow> u64 \<Rightarrow> ('l, 'q) VirtioBlockDevice \<Rightarrow> ('l, 'q) VirtioBlockDevice option" where
  "complete_storage g i result actual_bytes b = do {
     b \<leftarrow> modify_request i (\<lambda>r. r\<lparr>req_subranges := []\<rparr>) b;
     r \<leftarrow> array_read (requests b) i;
     b \<leftarrow> returnRequestToPool g i b;
     if req_sync r then None
     else do {
       c \<leftarrow> req_completion r;
       Some (b\<lparr>storage_log := storage_log b @ [(c, result, actual_bytes)]\<rparr>)
     }
   }"

text \<open>The two loops of \<^verbatim>\<open>handlePendingRequests\<close>; \<open>fuel\<close> bounds the number of rounds.\<close>

fun submit_pending ::
    "('l, 'q) genc_ops \<Rightarrow> 't VirtioDevice \<Rightarrow> nat \<Rightarrow> ('l, 'q) VirtioBlockDevice \<times> 't
     \<Rightarrow> (('l, 'q) VirtioBlockDevice \<times> 't) option" where
  "submit_pending g vt 0 (b, t) = (if slq_is_empty g (pending_requests b) then Some (b, t) else None)"
| "submit_pending g vt (Suc fuel) (b, t) =
     (if slq_is_empty g (pending_requests b) then Some (b, t)
      else let (next_request, q) = slq_pop_front_object g (pending_requests b) in
        case next_request of
          None \<Rightarrow> None
        | Some i \<Rightarrow> do {
            (submit_result, b, t) \<leftarrow> call_submit_fn vt i (b\<lparr>pending_requests := q\<rparr>, t);
            if submit_result \<noteq> kIOReturnSuccess
            then Some (b\<lparr>pending_requests := slq_push_front g i (pending_requests b)\<rparr>, t)
            else submit_pending g vt fuel (b, t)
          })"

fun abort_pending ::
    "('l, 'q) genc_ops \<Rightarrow> nat \<Rightarrow> ('l, 'q) VirtioBlockDevice \<Rightarrow> ('l, 'q) VirtioBlockDevice option" where
  "abort_pending g 0 b = (if slq_is_empty g (pending_requests b) then Some b else None)"
| "abort_pending g (Suc fuel) b =
     (if slq_is_empty g (pending_requests b) then Some b
      else let (next_request, q) = slq_pop_front_object g (pending_requests b) in
        case next_request of
          None \<Rightarrow> None
        | Some i \<Rightarrow> do {
            b \<leftarrow> complete_storage g i kIOReturnAborted 0 (b\<lparr>pending_requests := q\<rparr>);
            abort_pending g fuel b
          })"

definition handlePendingRequests ::
    "('l, 'q) genc_ops \<Rightarrow> 't VirtioDevice \<Rightarrow> nat \<Rightarrow> bool \<Rightarrow> ('l, 'q) VirtioBlockDevice \<times> 't
     \<Rightarrow> (('l, 'q) VirtioBlockDevice \<times> 't) option" where
  "handlePendingRequests g vt fuel device_reset = (\<lambda>(b, t).
     if \<not> device_reset then submit_pending g vt fuel (b, t)
     else do { b \<leftarrow> abort_pending g fuel b; Some (b, t) })"

definition blockRequestCompleted ::
    "('l, 'q) genc_ops \<Rightarrow> 't VirtioDevice \<Rightarrow> nat \<Rightarrow> nat \<Rightarrow> bool \<Rightarrow> ('l, 'q) VirtioBlockDevice \<times> 't
     \<Rightarrow> (('l, 'q) VirtioBlockDevice \<times> 't) option" where
  "blockRequestCompleted g vt fuel i device_reset = (\<lambda>(b, t). do {
     r \<leftarrow> array_read (requests b) i;
     let result = virtioBlockDeviceGetRequestResult r device_reset;
     let actual_bytes = (if result = kIOReturnSuccess then req_length r else 0);
     b \<leftarrow> complete_storage g i result actual_bytes b;
     handlePendingRequests g vt fuel device_reset (b, t)
   })"

definition flushRequestCompleted ::
    "('l, 'q) genc_ops \<Rightarrow> 't VirtioDevice \<Rightarrow> nat \<Rightarrow> nat \<Rightarrow> bool \<Rightarrow> ('l, 'q) VirtioBlockDevice \<times> 't
     \<Rightarrow> (('l, 'q) VirtioBlockDevice \<times> 't) option" where
  "flushRequestCompleted g vt fuel i device_reset = (\<lambda>(b, t). do {
     r \<leftarrow> array_read (requests b) i;
     let result = virtioBlockDeviceGetRequestResult r device_reset;
     b \<leftarrow> modify_request i (\<lambda>r. r\<lparr>req_sync_result := result, req_sync := True\<rparr>) b;
     (b, t) \<leftarrow> handlePendingRequests g vt fuel device_reset (b, t);
     if blk_command_gate b then Some (b, t) else None
   })"

section \<open>Start and stop\<close>

text \<open>The loop that fills the pool with \<open>n\<close> new requests, the first of them with index \<open>i\<close>.\<close>

fun fill_pool ::
    "('l, 'q) genc_ops \<Rightarrow> block_env \<Rightarrow> nat \<Rightarrow> nat \<Rightarrow> ('l, 'q) VirtioBlockDevice \<Rightarrow> ('l, 'q) VirtioBlockDevice option" where
  "fill_pool g env i 0 b = Some b"
| "fill_pool g env i (Suc n) b = do {
     request \<leftarrow> virtio_block_device_request_create env i;
     b \<leftarrow> returnRequestToPool g i (b\<lparr>requests := requests b @ [request]\<rparr>);
     fill_pool g env (i + 1) n b
   }"

definition read_geometry ::
    "'t VirtioDevice \<Rightarrow> ('l, 'q) VirtioBlockDevice \<times> 't \<Rightarrow> (('l, 'q) VirtioBlockDevice \<times> 't) option" where
  "read_geometry vt = (\<lambda>(b, t). do {
     (capacity, t) \<leftarrow> vd_readDeviceConfig64LETransitional vt CONFIG_CAPCITY_OFFSET t;
     let b = b\<lparr>capacity_in_bytes := capacity * 512\<rparr>;
     (size_max, t) \<leftarrow> readDeviceConfig32LE vt CONFIG_SIZE_MAX_OFFSET t;
     (bsize, t) \<leftarrow> (if has_bits (blk_active_features b) VIRTIO_BLK_F_BLK_SIZE
                    then readDeviceConfig32LE vt CONFIG_BLK_SIZE_OFFSET t else Some (512, t));
     Some (b\<lparr>block_size := bsize, sectors_per_block := bsize div 512\<rparr>, t)
   })"

definition blk_start ::
    "('l, 'q) genc_ops \<Rightarrow> 't VirtioDevice \<Rightarrow> block_env \<Rightarrow> ('l, 'q) VirtioBlockDevice \<times> 't
     \<Rightarrow> (bool \<times> ('l, 'q) VirtioBlockDevice \<times> 't) option" where
  "blk_start g vt env = (\<lambda>(b, t).
     if \<not> blk_service_start env then Some (False, b, t)
     else if \<not> blk_provider_is_virtio env then Some (False, b, t)
     else do {
       (opened, t) \<leftarrow> vd_open vt t;
       if \<not> opened then Some (False, b, t)
       else do {
         (_, t) \<leftarrow> vd_resetDevice vt t;
         let use_features = vd_supportedFeatures vt t AND BLK_SUPPORTED_FEATURES;
         let b = b\<lparr>blk_active_features := use_features, pending_requests := slq_init g\<rparr>;
         (ok, t) \<leftarrow> vd_requestFeatures vt use_features t;
         if \<not> ok then do {
           t \<leftarrow> vd_failDevice vt t;
           t \<leftarrow> vd_close vt t;
           Some (False, b, t)
         } else do {
           (seg_max, t) \<leftarrow> (if has_bits (blk_active_features b) VIRTIO_BLK_F_SEG_MAX
                             then readDeviceConfig32LE vt CONFIG_SEG_MAX_OFFSET t else Some (510, t));
           (result, sizes, t) \<leftarrow> vd_setupVirtqueues vt 1 (\<lambda>_. True) (\<lambda>_. seg_max + 2) t;
           if result \<noteq> kIOReturnSuccess then do {
             t \<leftarrow> vd_failDevice vt t;
             t \<leftarrow> vd_close vt t;
             Some (False, b, t)
           } else do {
             queue_size \<leftarrow> array_read sizes 0;
             let direct = \<not> has_bits (blk_active_features b) VIRTIO_F_RING_INDIRECT_DESC;
             let b = b\<lparr>max_request_segments :=
                         (if direct \<and> seg_max > queue_size - 2 then queue_size - 2 else seg_max),
                       max_concurrent_requests := (if direct then queue_size div 3 else queue_size),
                       blk_command_gate := True\<rparr>;
             b \<leftarrow> fill_pool g env (length (requests b)) (unat (queue_size + 32)) b;
             let b = b\<lparr>blk_virtio_device := True\<rparr>;
             t \<leftarrow> vd_startDevice vt True False t;
             (b, t) \<leftarrow> read_geometry vt (b, t);
             Some (True, b, t)
           }
         }
       }
     })"

definition blk_endDeviceOperation ::
    "'t VirtioDevice \<Rightarrow> ('l, 'q) VirtioBlockDevice \<times> 't \<Rightarrow> (('l, 'q) VirtioBlockDevice \<times> 't) option" where
  "blk_endDeviceOperation vt = (\<lambda>(b, t).
     if blk_virtio_device b then do {
       t \<leftarrow> vd_failDevice vt t;
       t \<leftarrow> vd_close vt t;
       Some (b\<lparr>blk_virtio_device := False\<rparr>, t)
     } else Some (b, t))"

text \<open>Freeing the requests in the pool; \<open>fuel\<close> bounds their number.\<close>

fun empty_pool :: "('l, 'q) genc_ops \<Rightarrow> nat \<Rightarrow> 'l \<Rightarrow> 'l option" where
  "empty_pool g fuel pool = (case slist_remove_object_at g pool of
     (None, _) \<Rightarrow> Some pool
   | (Some _, pool') \<Rightarrow> (case fuel of 0 \<Rightarrow> None | Suc fuel' \<Rightarrow> empty_pool g fuel' pool'))"

definition blk_stop ::
    "('l, 'q) genc_ops \<Rightarrow> 't VirtioDevice \<Rightarrow> nat \<Rightarrow> ('l, 'q) VirtioBlockDevice \<times> 't
     \<Rightarrow> (('l, 'q) VirtioBlockDevice \<times> 't) option" where
  "blk_stop g vt fuel st = do {
     (b, t) \<leftarrow> blk_endDeviceOperation vt st;
     pool \<leftarrow> empty_pool g fuel (request_pool b);
     Some (b\<lparr>blk_command_gate := False, request_pool := pool\<rparr>, t)
   }"

definition blk_didTerminate ::
    "'t VirtioDevice \<Rightarrow> ('l, 'q) VirtioBlockDevice \<times> 't \<Rightarrow> (('l, 'q) VirtioBlockDevice \<times> 't) option" where
  "blk_didTerminate vt st = blk_endDeviceOperation vt st"

section \<open>Reports to the storage stack\<close>

text \<open>\<^verbatim>\<open>handleOpen\<close>: the limits given to the block storage driver when the superclass accepts it.\<close>

definition blk_handleOpen :: "bool \<Rightarrow> bool \<Rightarrow> ('l, 'q) VirtioBlockDevice \<Rightarrow> bool \<times> (u32 \<times> u32 \<times> u32) option" where
  "blk_handleOpen super is_storage_driver b =
     (super, if super \<and> is_storage_driver
             then Some (max_request_segments b, max_request_segments b, max_concurrent_requests b) else None)"

text \<open>The capacities are written only through a non-null pointer, but printed through any.\<close>

definition doGetFormatCapacities :: "u64 list option \<Rightarrow> u32 \<Rightarrow> ('l, 'q) VirtioBlockDevice \<Rightarrow> (u32 \<times> u64 list) option" where
  "doGetFormatCapacities capacities capacitiesMaxCount b =
     (case capacities of
        None \<Rightarrow> None
      | Some caps \<Rightarrow>
          if capacitiesMaxCount < 1 then Some (0, caps)
          else do { caps \<leftarrow> array_modify caps 0 (\<lambda>_. capacity_in_bytes b); Some (1, caps) })"

definition reportBlockSize :: "('l, 'q) VirtioBlockDevice \<Rightarrow> IOReturn \<times> u64" where
  "reportBlockSize b = (kIOReturnSuccess, ucast (block_size b))"

text \<open>Division by a zero block size traps.\<close>

definition reportMaxValidBlock :: "('l, 'q) VirtioBlockDevice \<Rightarrow> (IOReturn \<times> u64) option" where
  "reportMaxValidBlock b =
     (if block_size b = 0 then None
      else Some (kIOReturnSuccess, capacity_in_bytes b div ucast (block_size b) - 1))"

definition reportWriteProtection :: "('l, 'q) VirtioBlockDevice \<Rightarrow> IOReturn \<times> bool" where
  "reportWriteProtection b = (kIOReturnSuccess, has_bits (blk_active_features b) VIRTIO_BLK_F_RO)"

definition reportEjectability :: "IOReturn \<times> bool" where "reportEjectability = (kIOReturnSuccess, False)"
definition reportLockability :: "IOReturn \<times> bool" where "reportLockability = (kIOReturnSuccess, False)"
definition reportRemovability :: "IOReturn \<times> bool" where "reportRemovability = (kIOReturnSuccess, False)"
definition reportMediaState :: "IOReturn \<times> bool \<times> bool" where
  "reportMediaState = (kIOReturnSuccess, True, False)"
definition reportPollRequirements :: "IOReturn \<times> bool \<times> bool" where
  "reportPollRequirements = (kIOReturnSuccess, False, False)"
definition doEjectMedia :: IOReturn where "doEjectMedia = kIOReturnUnsupported"
definition doFormatMedia :: "u64 \<Rightarrow> IOReturn" where "doFormatMedia byteCapacity = kIOReturnUnsupported"
definition doLockUnlockMedia :: "bool \<Rightarrow> IOReturn" where "doLockUnlockMedia doLock = kIOReturnUnsupported"
definition getWriteCacheState :: IOReturn where "getWriteCacheState = kIOReturnUnsupported"
definition setWriteCacheState :: "bool \<Rightarrow> IOReturn" where "setWriteCacheState enabled = kIOReturnUnsupported"
definition getVendorString :: string where "getVendorString = ''Virtio''"
definition getProductString :: string where "getProductString = ''Virtio Block Device''"
definition getRevisionString :: string where "getRevisionString = ''VirtioBlockDevice::getRevisionString''"
definition getAdditionalDeviceInfoString :: string where
  "getAdditionalDeviceInfoString = ''VirtioBlockDevice::getAdditionalDeviceInfoString''"

end
