(* ===== verification/Block_Device_Props.thy ===== *)
theory Block_Device_Props
  imports Block_Device
begin

text \<open>
  Properties of the block device driver: no request is lost, requests reach the device in the order in
  which they arrived, completions carry the result the device reported, requests stay within the disk unless
  the arithmetic wraps around; and the paths on which a request is leaked.
\<close>

section \<open>Invariant\<close>

text \<open>Every request is in the pool, waiting, or out: with the device or with a thread that waits for
  it. A request that waits knows how to be submitted. \<open>sl\<close> and \<open>ql\<close> read the containers.\<close>

definition blk_inv ::
    "('l \<Rightarrow> nat list) \<Rightarrow> ('q \<Rightarrow> nat list) \<Rightarrow> ('l, 'q) VirtioBlockDevice \<Rightarrow> nat list \<Rightarrow> bool" where
  "blk_inv sl ql b out \<longleftrightarrow>
     distinct (sl (request_pool b) @ ql (pending_requests b) @ out)
     \<and> set (sl (request_pool b) @ ql (pending_requests b) @ out) = {..<length (requests b)}
     \<and> (\<forall>i \<in> set (ql (pending_requests b)). req_submit (requests b ! i) \<noteq> SubmitNull)
     \<and> blk_command_gate b \<and> blk_virtio_device b"

text \<open>A transport whose virtqueue takes or refuses requests; \<open>log\<close> lists the requests taken.\<close>

definition blk_transport :: "'t VirtioDevice \<Rightarrow> ('t \<Rightarrow> bool) \<Rightarrow> ('t \<Rightarrow> nat list) \<Rightarrow> bool" where
  "blk_transport vt tinv log \<longleftrightarrow> (\<forall>r w c t. tinv t \<longrightarrow>
     (\<exists>result t'. vd_submitBuffersToVirtqueue vt 0 r w c t = Some (result, t') \<and> tinv t'
        \<and> log t' = (if result = kIOReturnSuccess then log t @ [comp_ref c] else log t)))"

lemma call_submit_fn_ok:
  assumes "blk_transport vt tinv log" "tinv t" "i < length (requests b)"
    "req_submit (requests b ! i) \<noteq> SubmitNull" "blk_virtio_device b"
  shows "\<exists>result t'. call_submit_fn vt i (b, t) = Some (result, b, t') \<and> tinv t'
     \<and> log t' = (if result = kIOReturnSuccess then log t @ [i] else log t)"
proof -
  obtain r w a where "call_submit_fn vt i (b, t) = do {
      (result, t) \<leftarrow> vd_submitBuffersToVirtqueue vt 0 r w \<lparr>comp_action = a, comp_target = 0, comp_ref = i\<rparr> t;
      Some (result, b, t) }"
    using assms(3-5) by (cases "req_submit (requests b ! i)") (auto simp: call_submit_fn_def)
  moreover obtain result t' where
    "vd_submitBuffersToVirtqueue vt 0 r w \<lparr>comp_action = a, comp_target = 0, comp_ref = i\<rparr> t = Some (result, t')"
    "tinv t'" "log t' = (if result = kIOReturnSuccess then log t @ [i] else log t)"
    using assms(1) [unfolded blk_transport_def, rule_format, OF assms(2), of r w
        "\<lparr>comp_action = a, comp_target = 0, comp_ref = i\<rparr>"] by auto
  ultimately show ?thesis by auto
qed

section \<open>Waiting requests\<close>

context genc_containers
begin

lemma requestFromPool_Cons:
  assumes "sl (request_pool b) = i # is"
  shows "\<exists>l'. requestFromPool g b = Some (i, b\<lparr>request_pool := l'\<rparr>) \<and> sl l' = is"
  using sl_remove [OF assms] by (auto simp: requestFromPool_def)

lemma requestFromPool_empty: "sl (request_pool b) = [] \<Longrightarrow> requestFromPool g b = None"
  by (simp add: requestFromPool_def sl_remove_empty)

lemma submit_pending_ok:
  assumes "blk_transport vt tinv log" "tinv t" "length (ql (pending_requests b)) \<le> fuel"
    "\<forall>i \<in> set (ql (pending_requests b)). i < length (requests b) \<and> req_submit (requests b ! i) \<noteq> SubmitNull"
    "blk_virtio_device b"
  shows "\<exists>q t' k. submit_pending g vt fuel (b, t) = Some (b\<lparr>pending_requests := q\<rparr>, t') \<and> tinv t'
     \<and> k \<le> length (ql (pending_requests b))
     \<and> ql q = drop k (ql (pending_requests b)) \<and> log t' = log t @ take k (ql (pending_requests b))"
  using assms(2-)
proof (induction fuel arbitrary: b t)
  case 0
  then show ?case by (intro exI [of _ "pending_requests b"] exI [of _ t] exI [of _ 0]) simp
next
  case (Suc fuel)
  show ?case
  proof (cases "ql (pending_requests b)")
    case Nil
    then show ?thesis using Suc.prems
      by (intro exI [of _ "pending_requests b"] exI [of _ t] exI [of _ 0]) simp
  next
    case (Cons i "is")
    obtain q where q: "slq_pop_front_object g (pending_requests b) = (Some i, q)" "ql q = is"
      using ql_pop_front [OF Cons] by blast
    let ?b = "b\<lparr>pending_requests := q\<rparr>"
    obtain result t1 where t1: "call_submit_fn vt i (?b, t) = Some (result, ?b, t1)" "tinv t1"
      "log t1 = (if result = kIOReturnSuccess then log t @ [i] else log t)"
      using call_submit_fn_ok [OF assms(1) Suc.prems(1), of i ?b] Suc.prems(3,4) Cons by auto
    show ?thesis
    proof (cases "result = kIOReturnSuccess")
      case True
      obtain q' t' k where "submit_pending g vt fuel (?b, t1) = Some (?b\<lparr>pending_requests := q'\<rparr>, t')" "tinv t'"
        "k \<le> length is" "ql q' = drop k is" "log t' = log t1 @ take k is"
        using Suc.IH [of t1 ?b] t1(2) Suc.prems Cons q(2) by auto
      then show ?thesis using True Cons q t1
        by (intro exI [of _ q'] exI [of _ t'] exI [of _ "Suc k"]) simp
    next
      case False
      then show ?thesis using Cons q t1
        by (intro exI [of _ "slq_push_front g i q"] exI [of _ t1] exI [of _ 0]) simp
    qed
  qed
qed

lemma complete_storage_ok:
  assumes "i < length (requests b)" "\<not> req_sync (requests b ! i)" "req_completion (requests b ! i) = Some c"
    "blk_command_gate b"
  shows "complete_storage g i result bytes b = Some (b\<lparr>requests := (requests b)[i := (requests b ! i)\<lparr>req_subranges := []\<rparr>],
     request_pool := slist_insert_at g i (request_pool b), storage_log := storage_log b @ [(c, result, bytes)]\<rparr>)"
  using assms by (simp add: complete_storage_def modify_request_def returnRequestToPool_def)

end

section \<open>Reading and writing\<close>

text \<open>What the request for a transfer looks like to the device and to the completion handler.\<close>

definition request_matches ::
    "IODirection \<Rightarrow> IOMemoryDescriptor \<Rightarrow> u64 \<Rightarrow> u64 \<Rightarrow> nat \<Rightarrow> nat \<Rightarrow> VirtioBlockDeviceRequest \<Rightarrow> bool" where
  "request_matches direction buffer sector bytes compl i r \<longleftrightarrow>
     req_header r = \<lparr>hdr_type = (if direction = kIODirectionIn then 0 else 1), hdr_reserved = 0, hdr_sector = sector\<rparr>
     \<and> req_subranges r = (if direction = kIODirectionIn then [(buffer, bytes), (status_md i, 1)]
                          else [(header_md i, 16), (buffer, bytes)])
     \<and> req_submit r = (if direction = kIODirectionIn then SubmitRead else SubmitWrite)
     \<and> req_completion r = Some compl \<and> req_length r = bytes \<and> \<not> req_sync r"

context genc_containers
begin

lemma submit_or_defer_ok:
  assumes "blk_transport vt tinv log" "tinv t" "i < length (requests b)"
    "req_submit (requests b ! i) \<noteq> SubmitNull" "blk_virtio_device b"
  shows "\<exists>result b' t'. submit_or_defer g vt i (b, t) = Some (result, b', t') \<and> tinv t'
     \<and> (b' = b \<and> log t' = log t @ [i] \<and> result = kIOReturnSuccess \<and> ql (pending_requests b) = []
        \<or> b' = b\<lparr>pending_requests := slq_push_back g i (pending_requests b)\<rparr> \<and> log t' = log t \<and> result = kIOReturnSuccess
        \<or> b' = b \<and> log t' = log t \<and> result \<noteq> kIOReturnSuccess)"
proof (cases "ql (pending_requests b) = []")
  case True
  obtain result t' where "call_submit_fn vt i (b, t) = Some (result, b, t')" "tinv t'"
    "log t' = (if result = kIOReturnSuccess then log t @ [i] else log t)"
    using call_submit_fn_ok [OF assms] by blast
  with True show ?thesis by (cases "result = kIOReturnNoSpace \<or> result = kIOReturnBusy") (auto simp: submit_or_defer_def)
qed (use assms(2) in \<open>simp add: submit_or_defer_def\<close>)

lemma read_write_result:
  assumes "blk_inv sl ql b out" "blk_transport vt tinv log" "tinv t" "direction \<noteq> kIODirectionOther"
    "sl (request_pool b) = i # is" "nblks * ucast (block_size b) \<le> md_length buffer"
    "(block + nblks) * ucast (block_size b) \<le> capacity_in_bytes b"
  shows "\<exists>result b' t' out'. doAsyncReadWriteOnWorkLoop g vt direction buffer block nblks compl (b, t) = Some (result, b', t')
     \<and> tinv t' \<and> blk_inv sl ql b' out'
     \<and> (if result = kIOReturnSuccess
        then sl (request_pool b') = is
             \<and> request_matches direction buffer (block * ucast (sectors_per_block b)) (nblks * ucast (block_size b))
                 compl i (requests b' ! i)
             \<and> (ql (pending_requests b) = [] \<and> ql (pending_requests b') = [] \<and> log t' = log t @ [i]
                \<or> ql (pending_requests b') = ql (pending_requests b) @ [i] \<and> log t' = log t)
        else sl (request_pool b') = i # is \<and> ql (pending_requests b') = ql (pending_requests b)
             \<and> log t' = log t)"
proof -
  note inv = assms(1) [unfolded blk_inv_def]
  obtain l' where l': "requestFromPool g b = Some (i, b\<lparr>request_pool := l'\<rparr>)" "sl l' = is"
    using requestFromPool_Cons [OF assms(5)] by blast
  have i: "i < length (requests b)" "i \<notin> set (ql (pending_requests b))" "i \<notin> set out" "i \<notin> set is"
    using inv assms(5) by auto
  let ?bytes = "nblks * ucast (block_size b) :: u64" and ?sector = "block * ucast (sectors_per_block b) :: u64"
  define r where "r = (if direction = kIODirectionIn
      then (requests b ! i)\<lparr>req_length := ?bytes, req_sync := False,
             req_header := \<lparr>hdr_type = VIRTIO_BLK_T_IN, hdr_reserved = 0, hdr_sector = ?sector\<rparr>,
             req_subranges := [(buffer, ?bytes), (status_md i, 1)], req_completion := Some compl, req_submit := SubmitRead\<rparr>
      else (requests b ! i)\<lparr>req_length := ?bytes, req_sync := False,
             req_header := \<lparr>hdr_type = VIRTIO_BLK_T_OUT, hdr_reserved = 0, hdr_sector = ?sector\<rparr>,
             req_subranges := [(header_md i, 16), (buffer, ?bytes)], req_completion := Some compl, req_submit := SubmitWrite\<rparr>)"
  have r: "request_matches direction buffer ?sector ?bytes compl i r" "req_submit r \<noteq> SubmitNull"
    using assms(4) by (auto simp: r_def request_matches_def VIRTIO_BLK_T_IN_def VIRTIO_BLK_T_OUT_def)
  let ?b = "b\<lparr>request_pool := l', requests := (requests b)[i := r]\<rparr>"
  have start: "doAsyncReadWriteOnWorkLoop g vt direction buffer block nblks compl (b, t) = do {
      (submit_result, b, t) \<leftarrow> submit_or_defer g vt i (?b, t);
      if submit_result \<noteq> kIOReturnSuccess then do {
        b \<leftarrow> modify_request i (\<lambda>r. r\<lparr>req_subranges := []\<rparr>) b;
        b \<leftarrow> returnRequestToPool g i b;
        Some (submit_result, b, t)
      } else Some (submit_result, b, t) }"
  proof -
    have checks: "\<not> md_length buffer < ?bytes" "\<not> capacity_in_bytes b < (block + nblks) * ucast (block_size b)"
      using assms(6,7) by (simp_all add: linorder_not_less)
    show ?thesis
      using assms(4) checks l'(1) i(1)
      by (cases direction) (simp_all add: doAsyncReadWriteOnWorkLoop_def modify_request_def r_def Let_def)
  qed
  have "blk_virtio_device ?b" "i < length (requests ?b)" "req_submit (requests ?b ! i) \<noteq> SubmitNull"
    using inv i(1) r(2) by auto
  then obtain result b1 t1 where s: "submit_or_defer g vt i (?b, t) = Some (result, b1, t1)" "tinv t1"
    "b1 = ?b \<and> log t1 = log t @ [i] \<and> result = kIOReturnSuccess \<and> ql (pending_requests b) = []
     \<or> b1 = ?b\<lparr>pending_requests := slq_push_back g i (pending_requests b)\<rparr> \<and> log t1 = log t \<and> result = kIOReturnSuccess
     \<or> b1 = ?b \<and> log t1 = log t \<and> result \<noteq> kIOReturnSuccess"
    using submit_or_defer_ok [OF assms(2,3), of i ?b] by auto
  from s(3) consider (sent) "b1 = ?b" "log t1 = log t @ [i]" "result = kIOReturnSuccess" "ql (pending_requests b) = []"
    | (waits) "b1 = ?b\<lparr>pending_requests := slq_push_back g i (pending_requests b)\<rparr>" "log t1 = log t" "result = kIOReturnSuccess"
    | (refused) "b1 = ?b" "log t1 = log t" "result \<noteq> kIOReturnSuccess" by blast
  then show ?thesis
  proof cases
    case sent
    have "blk_inv sl ql ?b (i # out)" using inv i l'(2) assms(5) r(2) by (auto simp: blk_inv_def nth_list_update)
    with sent s(1,2) start r(1) l'(2) i(1) show ?thesis
      by (intro exI [of _ kIOReturnSuccess] exI [of _ ?b] exI [of _ t1] exI [of _ "i # out"]) simp
  next
    case waits
    have "blk_inv sl ql b1 out" using inv i l'(2) assms(5) r(2) by (auto simp: blk_inv_def nth_list_update waits(1))
    with waits s(1,2) start r(1) l'(2) i(1) show ?thesis
      by (intro exI [of _ kIOReturnSuccess] exI [of _ b1] exI [of _ t1] exI [of _ out]) simp
  next
    case refused
    let ?e = "?b\<lparr>requests := (requests b)[i := r\<lparr>req_subranges := []\<rparr>], request_pool := slist_insert_at g i l'\<rparr>"
    have "blk_inv sl ql ?e out" using inv i l'(2) assms(5) r(2) by (auto simp: blk_inv_def nth_list_update)
    moreover have "doAsyncReadWriteOnWorkLoop g vt direction buffer block nblks compl (b, t) = Some (result, ?e, t1)"
      using refused s(1) start i(1) inv by (simp add: modify_request_def returnRequestToPool_def)
    ultimately show ?thesis using refused s(2) l'(2) assms(5)
      by (intro exI [of _ result] exI [of _ ?e] exI [of _ t1] exI [of _ out]) simp
  qed
qed

end

text \<open>
  C24. A read or write that passes the checks takes a request from the pool and either hands it to the
  device, when nothing is waiting, or puts it at the end of the waiting requests, so that it overtakes
  none of them; the request describes the transfer: type and sector in the header, the buffer and the header
  or status block in the order the device expects, the length and the completion of the caller. When the
  device refuses the request, it is back in the pool. In every case all requests are accounted for.
\<close>

theorem read_write_queued_in_order:
  assumes "genc_containers g sl ql" "blk_inv sl ql b out" "blk_transport vt tinv log" "tinv t"
    "direction \<noteq> kIODirectionOther" "sl (request_pool b) = i # rest"
    "nblks * ucast (block_size b) \<le> md_length buffer"
    "(block + nblks) * ucast (block_size b) \<le> capacity_in_bytes b"
  shows "\<exists>result b' t' out'. doAsyncReadWriteOnWorkLoop g vt direction buffer block nblks compl (b, t) = Some (result, b', t')
     \<and> tinv t' \<and> blk_inv sl ql b' out'
     \<and> (if result = kIOReturnSuccess
        then sl (request_pool b') = rest
             \<and> request_matches direction buffer (block * ucast (sectors_per_block b)) (nblks * ucast (block_size b))
                 compl i (requests b' ! i)
             \<and> (ql (pending_requests b) = [] \<and> ql (pending_requests b') = [] \<and> log t' = log t @ [i]
                \<or> ql (pending_requests b') = ql (pending_requests b) @ [i] \<and> log t' = log t)
        else sl (request_pool b') = i # rest \<and> ql (pending_requests b') = ql (pending_requests b)
             \<and> log t' = log t)"
  by (rule genc_containers.read_write_result [OF assms])

lemma unat_u64_mult:
  fixes a c :: u64
  assumes "unat a * unat c < 2 ^ 64"
  shows "unat (a * c) = unat a * unat c"
  using assms by (simp add: unat_word_ariths)

lemma unat_ucast_u32_u64 [simp]: "unat (ucast (w :: u32) :: u64) = unat w"
proof -
  have "unat w < 2 ^ 64" using unsigned_less [of w, where ?'a = nat] by simp
  then show ?thesis by (simp add: unsigned_ucast_eq take_bit_nat_eq_self)
qed

text \<open>
  C25. Bounds. As long as the end of the transfer does not overflow 64 bits, a transfer that does not lie within
  the capacity of the disk, or is longer than the buffer, is rejected and changes nothing.
\<close>

theorem transfer_outside_disk_rejected:
  assumes "0 < block_size b" "(unat block + unat nblks) * unat (block_size b) < 2 ^ 64"
    "unat (capacity_in_bytes b) < (unat block + unat nblks) * unat (block_size b)
      \<or> unat (md_length buffer) < unat nblks * unat (block_size b)"
  shows "doAsyncReadWriteOnWorkLoop g vt direction buffer block nblks compl (b, t) = Some (kIOReturnBadArgument, b, t)"
proof -
  have pos: "0 < unat (block_size b)" using assms(1) by (simp add: word_less_nat_alt)
  have "unat block + unat nblks \<le> (unat block + unat nblks) * unat (block_size b)"
    using mult_le_mono2 [of 1 "unat (block_size b)" "unat block + unat nblks"] pos by simp
  then have "unat block + unat nblks < 2 ^ 64" using assms(2) by (rule order.strict_trans1)
  then have sum: "unat (block + nblks) = unat block + unat nblks" by (simp add: unat_word_ariths)
  have "unat nblks * unat (block_size b) < 2 ^ 64"
    using assms(2) by (simp add: algebra_simps)
  then have 1: "unat (nblks * ucast (block_size b)) = unat nblks * unat (block_size b)"
    using unat_u64_mult [of nblks "ucast (block_size b)"] by simp
  have 2: "unat ((block + nblks) * ucast (block_size b)) = (unat block + unat nblks) * unat (block_size b)"
    using unat_u64_mult [of "block + nblks" "ucast (block_size b)"] assms(2) sum by simp
  from assms(3) show ?thesis
    by (auto simp: doAsyncReadWriteOnWorkLoop_def Let_def word_less_nat_alt 1 2)
qed

context genc_containers
begin

lemma transfer_beyond_disk:
  assumes "blk_inv sl ql b out" "sl (request_pool b) = i # is" "block_size b = 512" "512 \<le> md_length buffer"
    "direction \<noteq> kIODirectionOther" "ql (pending_requests b) = []"
    "\<And>r w c. vd_submitBuffersToVirtqueue vt 0 r w c t = Some (kIOReturnSuccess, t')"
  shows "\<exists>b'. doAsyncReadWriteOnWorkLoop g vt direction buffer (2 ^ 55 - 1) 1 compl (b, t) = Some (kIOReturnSuccess, b', t')
     \<and> hdr_sector (req_header (requests b' ! i)) = (2 ^ 55 - 1) * ucast (sectors_per_block b)"
proof -
  obtain l' where l': "requestFromPool g b = Some (i, b\<lparr>request_pool := l'\<rparr>)"
    using requestFromPool_Cons [OF assms(2)] by blast
  have i: "i < length (requests b)" "blk_virtio_device b" using assms(1,2) by (auto simp: blk_inv_def)
  have "\<not> md_length buffer < 1 * ucast (block_size b)"
    using assms(3,4) by (simp add: linorder_not_less)
  moreover have "(2 ^ 55 - 1 + 1) * ucast (block_size b) = (0 :: u64)"
  proof -
    have "(2 ^ 55 - 1 + 1) * ucast (block_size b) = (of_nat (2 ^ 64) :: u64)" using assms(3) by simp
    also have "\<dots> = 0" by (simp only: word_of_nat_eq_0_iff) simp
    finally show ?thesis .
  qed
  then have "\<not> capacity_in_bytes b < (2 ^ 55 - 1 + 1) * ucast (block_size b)" by (simp only:) simp
  ultimately show ?thesis
    using assms l' i
    by (cases direction)
       (simp_all add: doAsyncReadWriteOnWorkLoop_def modify_request_def Let_def submit_or_defer_def call_submit_fn_def)
qed

end

text \<open>
  The check of the end of the transfer wraps around: a transfer of the block with number \<^term>\<open>(2::nat) ^ 55 - 1\<close>
  is accepted on every disk with blocks of 512 bytes, however small, and its sector number reaches the device.
\<close>

theorem transfer_beyond_disk_accepted:
  assumes "genc_containers g sl ql" "blk_inv sl ql b out" "sl (request_pool b) = i # is"
    "block_size b = 512" "512 \<le> md_length buffer" "direction \<noteq> kIODirectionOther" "ql (pending_requests b) = []"
    "\<And>r w c. vd_submitBuffersToVirtqueue vt 0 r w c t = Some (kIOReturnSuccess, t')"
  shows "\<exists>b'. doAsyncReadWriteOnWorkLoop g vt direction buffer (2 ^ 55 - 1) 1 compl (b, t) = Some (kIOReturnSuccess, b', t')
     \<and> hdr_sector (req_header (requests b' ! i)) = (2 ^ 55 - 1) * ucast (sectors_per_block b)"
  by (rule genc_containers.transfer_beyond_disk [OF assms])

section \<open>Completions\<close>

context genc_containers
begin

lemma block_completed_result:
  assumes "blk_inv sl ql b out" "blk_transport vt tinv log" "tinv t" "i \<in> set out"
    "\<not> req_sync (requests b ! i)" "req_completion (requests b ! i) = Some c"
    "length (ql (pending_requests b)) \<le> fuel"
  shows "\<exists>b' t' k. blockRequestCompleted g vt fuel i False (b, t) = Some (b', t') \<and> tinv t'
     \<and> blk_inv sl ql b' (remove1 i out @ take k (ql (pending_requests b)))
     \<and> sl (request_pool b') = i # sl (request_pool b) \<and> ql (pending_requests b') = drop k (ql (pending_requests b))
     \<and> log t' = log t @ take k (ql (pending_requests b))
     \<and> storage_log b' = storage_log b @ [(c, virtioBlockDeviceGetRequestResult (requests b ! i) False,
          if req_status (requests b ! i) = 0 then req_length (requests b ! i) else 0)]"
proof -
  note inv = assms(1) [unfolded blk_inv_def]
  let ?pend = "ql (pending_requests b)" and ?r = "requests b ! i"
  have i: "i < length (requests b)" "i \<notin> set ?pend" using inv assms(4) by auto
  let ?result = "virtioBlockDeviceGetRequestResult ?r False"
  let ?bytes = "if req_status ?r = 0 then req_length ?r else 0"
  have bytes: "(if ?result = kIOReturnSuccess then req_length ?r else 0) = ?bytes"
    by (simp add: virtioBlockDeviceGetRequestResult_def VIRTIO_BLK_S_OK_def)
  define b1 where "b1 = b\<lparr>requests := (requests b)[i := ?r\<lparr>req_subranges := []\<rparr>],
     request_pool := slist_insert_at g i (request_pool b), storage_log := storage_log b @ [(c, ?result, ?bytes)]\<rparr>"
  have complete: "complete_storage g i ?result ?bytes b = Some b1"
    using complete_storage_ok [OF i(1) assms(5,6)] inv by (simp add: b1_def)
  have pend: "\<forall>j \<in> set (ql (pending_requests b1)). j < length (requests b1) \<and> req_submit (requests b1 ! j) \<noteq> SubmitNull"
    using inv i by (auto simp: b1_def nth_list_update)
  have len: "length (ql (pending_requests b1)) \<le> fuel" using assms(7) by (simp add: b1_def)
  have dev: "blk_virtio_device b1" using inv by (simp add: b1_def)
  obtain q t' k where s: "submit_pending g vt fuel (b1, t) = Some (b1\<lparr>pending_requests := q\<rparr>, t')" "tinv t'"
    "k \<le> length ?pend" "ql q = drop k ?pend" "log t' = log t @ take k ?pend"
    using submit_pending_ok [OF assms(2,3) len pend dev] by (auto simp: b1_def)
  have "blockRequestCompleted g vt fuel i False (b, t) = Some (b1\<lparr>pending_requests := q\<rparr>, t')"
    using i(1) complete s(1) bytes by (simp add: blockRequestCompleted_def handlePendingRequests_def)
  moreover have "blk_inv sl ql (b1\<lparr>pending_requests := q\<rparr>) (remove1 i out @ take k ?pend)"
  proof -
    have d: "distinct out" "distinct ?pend" "set ?pend \<inter> set out = {}" "set (sl (request_pool b)) \<inter> (set ?pend \<union> set out) = {}"
      "distinct (sl (request_pool b))"
      using inv by auto
    have parts: "set ?pend = set (take k ?pend) \<union> set (drop k ?pend)"
      "set (take k ?pend) \<inter> set (drop k ?pend) = {}"
      using set_take_disj_set_drop_if_distinct [OF d(2), of k k]
      by (simp_all add: set_append [symmetric] del: set_append)
    have all: "set (sl (request_pool b)) \<union> set ?pend \<union> set out = {..<length (requests b)}" using inv by auto
    have "distinct (i # sl (request_pool b) @ drop k ?pend @ remove1 i out @ take k ?pend)"
      using d parts i(2) assms(4) by (auto dest: in_set_takeD in_set_dropD)
    moreover have "set (i # sl (request_pool b) @ drop k ?pend @ remove1 i out @ take k ?pend) = {..<length (requests b)}"
      using all parts(1) assms(4) d(1) by auto
    moreover have "\<forall>j \<in> set (drop k ?pend). req_submit (requests b1 ! j) \<noteq> SubmitNull"
      using pend by (auto simp: b1_def dest: in_set_dropD)
    ultimately show ?thesis using inv s(4) by (simp add: blk_inv_def b1_def)
  qed
  ultimately show ?thesis using s
    by (intro exI [of _ "b1\<lparr>pending_requests := q\<rparr>"] exI [of _ t'] exI [of _ k]) (simp add: b1_def)
qed

lemma invalid_direction_leaks:
  assumes "blk_inv sl ql b out" "sl (request_pool b) = i # is" "nblks * ucast (block_size b) \<le> md_length buffer"
    "(block + nblks) * ucast (block_size b) \<le> capacity_in_bytes b"
  shows "\<exists>b'. doAsyncReadWriteOnWorkLoop g vt kIODirectionOther buffer block nblks compl (b, t) = Some (kIOReturnBadArgument, b', t)
     \<and> sl (request_pool b') = is \<and> ql (pending_requests b') = ql (pending_requests b)
     \<and> (is = [] \<longrightarrow> doAsyncReadWriteOnWorkLoop g vt direction buffer block nblks compl (b', t') = None)"
proof -
  obtain l' where l': "requestFromPool g b = Some (i, b\<lparr>request_pool := l'\<rparr>)" "sl l' = is"
    using requestFromPool_Cons [OF assms(2)] by blast
  have i: "i < length (requests b)" using assms(1,2) by (auto simp: blk_inv_def)
  have checks: "\<not> md_length buffer < nblks * ucast (block_size b)"
      "\<not> capacity_in_bytes b < (block + nblks) * ucast (block_size b)"
    using assms(3,4) by (simp_all add: linorder_not_less)
  let ?b = "b\<lparr>request_pool := l', requests := (requests b)[i := (requests b ! i)
      \<lparr>req_length := nblks * ucast (block_size b), req_sync := False\<rparr>]\<rparr>"
  have "doAsyncReadWriteOnWorkLoop g vt kIODirectionOther buffer block nblks compl (b, t) = Some (kIOReturnBadArgument, ?b, t)"
    using l'(1) i checks by (simp add: doAsyncReadWriteOnWorkLoop_def modify_request_def Let_def)
  moreover have "doAsyncReadWriteOnWorkLoop g vt direction buffer block nblks compl (?b, t') = None" if "is = []"
    using checks requestFromPool_empty [of ?b] l'(2) that by (simp add: doAsyncReadWriteOnWorkLoop_def Let_def)
  ultimately show ?thesis using l'(2) by (intro exI [of _ ?b]) simp
qed

end

text \<open>
  C26. Completion of a read or write. The storage stack is told exactly once, with the result that the
  status byte of the device stands for and the full length on success; the request goes back to the pool; then the
  waiting requests are submitted from the front, in order, until the device refuses one, which
  stays at the front. No request is lost.
\<close>

theorem block_completion_order:
  assumes "genc_containers g sl ql" "blk_inv sl ql b out" "blk_transport vt tinv log" "tinv t" "i \<in> set out"
    "\<not> req_sync (requests b ! i)" "req_completion (requests b ! i) = Some c"
    "length (ql (pending_requests b)) \<le> fuel"
  shows "\<exists>b' t' k. blockRequestCompleted g vt fuel i False (b, t) = Some (b', t') \<and> tinv t'
     \<and> blk_inv sl ql b' (remove1 i out @ take k (ql (pending_requests b)))
     \<and> sl (request_pool b') = i # sl (request_pool b) \<and> ql (pending_requests b') = drop k (ql (pending_requests b))
     \<and> log t' = log t @ take k (ql (pending_requests b))
     \<and> storage_log b' = storage_log b @ [(c, virtioBlockDeviceGetRequestResult (requests b ! i) False,
          if req_status (requests b ! i) = 0 then req_length (requests b ! i) else 0)]"
  by (rule genc_containers.block_completed_result [OF assms])

text \<open>
  A buffer that is neither for reading nor for writing is rejected only after a request was taken
  from the pool, and that request is never returned: each such call makes the pool smaller, and once it is
  empty the next transfer never returns.
\<close>

theorem invalid_direction_leaks_request:
  assumes "genc_containers g sl ql" "blk_inv sl ql b out" "sl (request_pool b) = i # is"
    "nblks * ucast (block_size b) \<le> md_length buffer"
    "(block + nblks) * ucast (block_size b) \<le> capacity_in_bytes b"
  shows "\<exists>b'. doAsyncReadWriteOnWorkLoop g vt kIODirectionOther buffer block nblks compl (b, t) = Some (kIOReturnBadArgument, b', t)
     \<and> sl (request_pool b') = is \<and> ql (pending_requests b') = ql (pending_requests b)
     \<and> (is = [] \<longrightarrow> doAsyncReadWriteOnWorkLoop g vt direction buffer block nblks compl (b', t') = None)"
  by (rule genc_containers.invalid_direction_leaks [OF assms])

section \<open>Start and stop\<close>

context genc_containers
begin

lemma fill_pool_ok:
  assumes "\<And>k. request_alloc_ok env k" "blk_command_gate b"
  shows "\<exists>l rs. fill_pool g env (length (requests b)) n b = Some (b\<lparr>requests := requests b @ rs, request_pool := l\<rparr>)
     \<and> length rs = n \<and> sl l = rev [length (requests b)..<length (requests b) + n] @ sl (request_pool b)"
  using assms(2)
proof (induction n arbitrary: b)
  case 0
  then show ?case by (intro exI [of _ "request_pool b"] exI [of _ "[]"]) simp
next
  case (Suc n)
  obtain r where r: "virtio_block_device_request_create env (length (requests b)) = Some r"
    using assms(1) by (simp add: virtio_block_device_request_create_def)
  let ?b = "b\<lparr>requests := requests b @ [r], request_pool := slist_insert_at g (length (requests b)) (request_pool b)\<rparr>"
  obtain l rs where l: "fill_pool g env (length (requests ?b)) n ?b = Some (?b\<lparr>requests := requests ?b @ rs, request_pool := l\<rparr>)"
    "length rs = n" "sl l = rev [length (requests ?b)..<length (requests ?b) + n] @ sl (request_pool ?b)"
    using Suc.IH [of ?b] Suc.prems by auto
  then show ?case using r Suc.prems
    by (intro exI [of _ l] exI [of _ "r # rs"]) (simp add: returnRequestToPool_def upt_rec [of "length (requests b)"])
qed

lemma empty_pool_ok:
  assumes "length (sl l) \<le> fuel"
  shows "\<exists>l'. empty_pool g fuel l = Some l' \<and> sl l' = []"
  using assms
proof (induction fuel arbitrary: l)
  case 0
  then show ?case using sl_remove_empty [of l] by auto
next
  case (Suc fuel)
  show ?case
  proof (cases "sl l")
    case Nil
    then show ?thesis using sl_remove_empty [of l] by auto
  next
    case (Cons x xs)
    then obtain l' where "slist_remove_object_at g l = (Some x, l')" "sl l' = xs" using sl_remove by blast
    with Suc Cons show ?thesis by simp
  qed
qed

end

definition blk_limits :: "u32 \<Rightarrow> ('l, 'q) VirtioBlockDevice \<Rightarrow> bool" where
  "blk_limits qsize b \<longleftrightarrow>
     (\<not> has_bits (blk_active_features b) VIRTIO_F_RING_INDIRECT_DESC \<and> 2 \<le> qsize \<longrightarrow>
        unat (max_request_segments b) + 2 \<le> unat qsize
        \<and> 3 * unat (max_concurrent_requests b) \<le> unat qsize)"

lemma u32_minus_two: "2 \<le> (n :: u32) \<Longrightarrow> unat (n - 2) = unat n - 2"
  using unat_minus_of_nat [of 2 n] by (simp add: word_le_nat_alt)

lemma blk_limits_set:
  "blk_limits qsize (b\<lparr>max_request_segments :=
       (if \<not> has_bits (blk_active_features b) VIRTIO_F_RING_INDIRECT_DESC \<and> seg_max > qsize - 2
        then qsize - 2 else seg_max),
     max_concurrent_requests := (if \<not> has_bits (blk_active_features b) VIRTIO_F_RING_INDIRECT_DESC
        then qsize div 3 else qsize), blk_command_gate := True\<rparr>)"
  using u32_minus_two [of qsize]
  by (auto simp: blk_limits_def word_less_nat_alt word_le_nat_alt unat_div)

context virtio_transport
begin

lemma read_geometry_ok:
  assumes "live t" "mapped t"
  shows "\<exists>b' t'. read_geometry vt (b, t) = Some (b', t') \<and> live t'
     \<and> request_pool b' = request_pool b \<and> pending_requests b' = pending_requests b \<and> requests b' = requests b
     \<and> blk_command_gate b' = blk_command_gate b \<and> blk_virtio_device b' = blk_virtio_device b
     \<and> blk_active_features b' = blk_active_features b \<and> max_request_segments b' = max_request_segments b
     \<and> max_concurrent_requests b' = max_concurrent_requests b \<and> sectors_per_block b' = block_size b' div 512"
proof -
  obtain c t1 where t1: "vd_readDeviceConfig64LETransitional vt CONFIG_CAPCITY_OFFSET t = Some (c, t1)" "live t1"
    using read64_ok [OF assms(1)] by blast
  obtain s t2 where t2: "vd_readDeviceConfig32Native vt CONFIG_SIZE_MAX_OFFSET t1 = Some (s, t2)" "live t2"
    using read32n_ok [OF t1(2)] by blast
  obtain z t3 where t3: "vd_readDeviceConfig32Native vt CONFIG_BLK_SIZE_OFFSET t2 = Some (z, t3)" "live t3"
    using read32n_ok [OF t2(2)] by blast
  show ?thesis using t1 t2 t3
    by (cases "has_bits (blk_active_features b) VIRTIO_BLK_F_BLK_SIZE")
       (simp_all add: read_geometry_def readDeviceConfig32LE_def)
qed

lemma blk_start_result:
  assumes "genc_containers g sl ql" "closed t" "\<And>k. request_alloc_ok env k" "requests b = []" "sl (request_pool b) = []"
  shows "(\<exists>b' t'. blk_start g vt env (b, t) = Some (False, b', t') \<and> closed t')
     \<or> (\<exists>b' t' qsize. blk_start g vt env (b, t) = Some (True, b', t') \<and> live t' \<and> blk_inv sl ql b' []
          \<and> ql (pending_requests b') = [] \<and> length (requests b') = unat (qsize + 32) \<and> blk_limits qsize b')"
proof (cases "blk_service_start env \<and> blk_provider_is_virtio env")
  case service: True
  obtain ok t1 where t1: "vd_open vt t = Some (ok, t1)" "if ok then live t1 \<and> mapped t1 else closed t1"
    using open_ok [OF assms(2)] by blast
  show ?thesis
  proof (cases ok)
    case opened: True
    with t1 have "live t1" "mapped t1" by simp_all
    then obtain r t2 where t2: "vd_resetDevice vt t1 = Some (r, t2)" "live t2" "mapped t2" using reset_ok by blast
    let ?use = "vd_supportedFeatures vt t2 AND BLK_SUPPORTED_FEATURES"
    let ?b = "b\<lparr>blk_active_features := ?use, pending_requests := slq_init g\<rparr>"
    obtain f t3 where t3: "vd_requestFeatures vt ?use t2 = Some (f, t3)" "live t3" "mapped t3"
      using request_ok [OF t2(2)] t2(3) by blast
    have giveup: "\<exists>t5. do { t \<leftarrow> vd_failDevice vt t4; t \<leftarrow> vd_close vt t; Some (False, ?b, t) } = Some (False, ?b, t5)
        \<and> closed t5" if "live t4" for t4
      using fail_ok [OF that] close_ok by fastforce
    obtain seg t4 where t4: "(if has_bits ?use VIRTIO_BLK_F_SEG_MAX then readDeviceConfig32LE vt CONFIG_SEG_MAX_OFFSET t3
        else Some (510, t3)) = Some (seg, t4)" "live t4" "mapped t4"
      using read32n_ok [OF t3(2), of CONFIG_SEG_MAX_OFFSET] t3(2,3)
      by (cases "has_bits ?use VIRTIO_BLK_F_SEG_MAX") (auto simp: readDeviceConfig32LE_def)
    obtain result sizes t5 where t5: "vd_setupVirtqueues vt 1 (\<lambda>_. True) (\<lambda>_. seg + 2) t4 = Some (result, sizes, t5)" "live t5"
      "result = kIOReturnSuccess \<longrightarrow> mapped t5 \<and> length sizes = 1" using setup_ok [OF t4(2)] t4(3) by fastforce
    show ?thesis
    proof (cases "f \<and> result = kIOReturnSuccess")
      case ready: True
      then obtain n where n: "sizes = [n]" "mapped t5" using t5(3) by (auto simp: length_Suc_conv)
      let ?direct = "\<not> has_bits ?use VIRTIO_F_RING_INDIRECT_DESC"
      let ?b1 = "?b\<lparr>max_request_segments := (if ?direct \<and> seg > n - 2 then n - 2 else seg),
          max_concurrent_requests := (if ?direct then n div 3 else n), blk_command_gate := True\<rparr>"
      obtain l rs where fill: "fill_pool g env (length (requests ?b1)) (unat (n + 32)) ?b1
          = Some (?b1\<lparr>requests := requests ?b1 @ rs, request_pool := l\<rparr>)" "length rs = unat (n + 32)"
        "sl l = rev [length (requests ?b1)..<length (requests ?b1) + unat (n + 32)] @ sl (request_pool ?b1)"
        using genc_containers.fill_pool_ok [OF assms(1,3), of ?b1 "unat (n + 32)"] by auto
      let ?b2 = "?b1\<lparr>requests := rs, request_pool := l, blk_virtio_device := True\<rparr>"
      obtain t6 where t6: "vd_startDevice vt True False t5 = Some t6" "live t6" "mapped t6"
        using start_ok [OF t5(2) n(2)] by blast
      obtain b3 t7 where geo: "read_geometry vt (?b2, t6) = Some (b3, t7)" "live t7"
         "request_pool b3 = l" "pending_requests b3 = slq_init g" "requests b3 = rs" "blk_command_gate b3" "blk_virtio_device b3"
         "blk_active_features b3 = ?use" "max_request_segments b3 = max_request_segments ?b1"
         "max_concurrent_requests b3 = max_concurrent_requests ?b1"
        using read_geometry_ok [OF t6(2,3), of ?b2] by auto
      have "blk_start g vt env (b, t) = Some (True, b3, t7)"
        using service opened ready t1(1) t2(1) t3(1) t4(1) t5(1) n(1) fill(1) t6(1) geo(1) assms(4)
        by (simp add: blk_start_def Let_def)
      moreover have "ql (slq_init g) = []" by (rule genc_containers.ql_init [OF assms(1)])
      moreover from this have "blk_inv sl ql b3 []"
        using fill(2,3) geo assms(4,5) by (auto simp: blk_inv_def atLeast0LessThan)
      moreover have "blk_limits n b3" using blk_limits_set [of n ?b seg] geo by (simp add: blk_limits_def)
      ultimately show ?thesis
        using geo(2,4,5) fill(2) by (intro disjI2 exI [of _ b3] exI [of _ t7] exI [of _ n]) simp
    next
      case False
      have eq: "blk_start g vt env (b, t) = do { t \<leftarrow> vd_failDevice vt (if f then t5 else t3); t \<leftarrow> vd_close vt t; Some (False, ?b, t) }"
        using service opened False t1(1) t2(1) t3(1) t4(1) t5(1) by (simp add: blk_start_def Let_def)
      show ?thesis unfolding eq using giveup [of "if f then t5 else t3"] t3(2) t5(2) by auto
    qed
  next
    case False
    then show ?thesis using service t1 by (auto simp: blk_start_def)
  qed
qed (use assms in \<open>auto simp: blk_start_def\<close>)

lemma blk_stop_closes:
  assumes "genc_containers g sl ql" "blk_virtio_device b \<longrightarrow> live t" "length (sl (request_pool b)) \<le> fuel"
  shows "\<exists>b' t'. blk_stop g vt fuel (b, t) = Some (b', t') \<and> sl (request_pool b') = [] \<and> \<not> blk_virtio_device b'
     \<and> (blk_virtio_device b \<longrightarrow> closed t')"
proof -
  obtain l' where l': "empty_pool g fuel (request_pool b) = Some l'" "sl l' = []"
    using genc_containers.empty_pool_ok [OF assms(1,3)] by blast
  show ?thesis
  proof (cases "blk_virtio_device b")
    case True
    then obtain t1 t2 where "vd_failDevice vt t = Some t1" "vd_close vt t1 = Some t2" "closed t2"
      using fail_ok close_ok assms(2) by blast
    with True l' show ?thesis by (simp add: blk_stop_def blk_endDeviceOperation_def del: empty_pool.simps)
  qed (use l' in \<open>simp add: blk_stop_def blk_endDeviceOperation_def del: empty_pool.simps\<close>)
qed

end

text \<open>
  Starting the block driver on the legacy transport returns, whatever the device answers. It fails with the
  device closed, or it succeeds with the device started, all of the requests in the pool, nothing
  waiting, and, on a device without indirect descriptors, limits given to the storage stack for which a request with its
  header and status fits into the virtqueue.
\<close>

theorem block_start_all_or_nothing:
  assumes "legacy_kernel env fuel len" "legacy_closed d" "genc_containers g sl ql"
    "\<And>k. request_alloc_ok benv k" "requests b = []" "sl (request_pool b) = []"
    "vt = legacy_ops env dev fuel dma table_id"
  shows "(\<exists>b' d'. blk_start g vt benv (b, d) = Some (False, b', d') \<and> legacy_closed d')
     \<or> (\<exists>b' d' qsize. blk_start g vt benv (b, d) = Some (True, b', d') \<and> legacy_live d' \<and> blk_inv sl ql b' []
          \<and> ql (pending_requests b') = [] \<and> length (requests b') = unat (qsize + 32) \<and> blk_limits qsize b')"
  unfolding assms(7)
  by (rule virtio_transport.blk_start_result [OF legacy_kernel.legacy_transport [OF assms(1)] assms(3,2,4-6)])

section \<open>A concrete disk\<close>

text \<open>A transport that takes every request; its state is the list of the requests taken.\<close>

definition disk_ops :: "nat list VirtioDevice" where
  "disk_ops = \<lparr>
     vd_open = (\<lambda>t. Some (True, t)), vd_close = Some, vd_resetDevice = (\<lambda>t. Some (True, t)),
     vd_supportedFeatures = (\<lambda>_. 0), vd_requestFeatures = (\<lambda>_ t. Some (True, t)), vd_failDevice = Some,
     vd_setupVirtqueues = (\<lambda>n _ _ t. Some (kIOReturnSuccess, replicate (unat n) 4, t)),
     vd_setVirtqueueInterruptsEnabled = (\<lambda>_ _ t. Some (kIOReturnSuccess, t)), vd_startDevice = (\<lambda>_ _ t. Some t),
     vd_submitBuffersToVirtqueue = (\<lambda>_ _ _ c t. Some (kIOReturnSuccess, t @ [comp_ref c])),
     vd_readDeviceConfig8 = (\<lambda>_ t. Some (0, t)), vd_readDeviceConfig16Native = (\<lambda>_ t. Some (0, t)),
     vd_readDeviceConfig32Native = (\<lambda>_ t. Some (0, t)), vd_readDeviceConfig64Native = (\<lambda>_ t. Some (0, t)),
     vd_readDeviceConfig16LETransitional = (\<lambda>_ t. Some (0, t)), vd_readDeviceConfig32LETransitional = (\<lambda>_ t. Some (0, t)),
     vd_readDeviceConfig64LETransitional = (\<lambda>_ t. Some (0, t)), vd_writeDeviceConfig8 = (\<lambda>_ _ t. Some t),
     vd_writeDeviceConfig16Native = (\<lambda>_ _ t. Some t), vd_writeDeviceConfig32Native = (\<lambda>_ _ t. Some t),
     vd_writeDeviceConfig16LETransitional = (\<lambda>_ _ t. Some t), vd_writeDeviceConfig32LETransitional = (\<lambda>_ _ t. Some t)\<rparr>"

definition example_request :: VirtioBlockDeviceRequest where
  "example_request = \<lparr>req_header = \<lparr>hdr_type = 0, hdr_reserved = 0, hdr_sector = 0\<rparr>, req_subranges = [],
     req_status = 0, req_completion = Some 7, req_length = 512, req_sync_result = kIOReturnSuccess, req_sync = False,
     req_submit = SubmitRead\<rparr>"

text \<open>A disk of 2048 blocks with four requests: two in the pool, one waiting, one with the device.\<close>

definition example_disk :: "(nat list, nat list) VirtioBlockDevice" where
  "example_disk = \<lparr>blk_virtio_device = True, blk_command_gate = True, block_size = 512, blk_active_features = 0,
     capacity_in_bytes = 1048576, sectors_per_block = 1, max_request_segments = 2, max_concurrent_requests = 1,
     pending_requests = [2], request_pool = [0, 1], requests = replicate 4 example_request, storage_log = []\<rparr>"

lemma example_disk_inv: "blk_inv (\<lambda>l. l) (\<lambda>q. q) example_disk [3]"
  by (auto simp: blk_inv_def example_disk_def example_request_def nth_Cons numeral_eq_Suc less_Suc_eq split: nat.splits)

lemma disk_ops_transport: "blk_transport disk_ops (\<lambda>_. True) (\<lambda>t. t)"
  by (simp add: blk_transport_def disk_ops_def)

theorem read_write_queued_in_order_witness:
  "\<exists>result b' t'. doAsyncReadWriteOnWorkLoop list_genc disk_ops kIODirectionIn \<lparr>md_id = 100, md_length = 1024\<rparr> 5 2 9
       (example_disk, [3]) = Some (result, b', t')
     \<and> (result = kIOReturnSuccess \<longrightarrow> pending_requests b' = [2, 0] \<and> request_pool b' = [1])"
  using read_write_queued_in_order [OF list_genc.genc_containers_axioms example_disk_inv disk_ops_transport TrueI,
      where direction = kIODirectionIn and i = 0 and rest = "[1]" and nblks = 2 and buffer = "\<lparr>md_id = 100, md_length = 1024\<rparr>"
      and block = 5 and t = "[3]" and compl = 9]
  by (auto simp: example_disk_def split: if_splits)

theorem transfer_outside_disk_rejected_witness:
  "doAsyncReadWriteOnWorkLoop list_genc disk_ops kIODirectionIn \<lparr>md_id = 100, md_length = 1024\<rparr> 2047 2 9
     (example_disk, [3]) = Some (kIOReturnBadArgument, example_disk, [3])"
  using transfer_outside_disk_rejected [of example_disk 2047 2 "\<lparr>md_id = 100, md_length = 1024\<rparr>" list_genc disk_ops
      kIODirectionIn 9 "[3]"]
  by (simp add: example_disk_def)

definition idle_disk :: "(nat list, nat list) VirtioBlockDevice" where
  "idle_disk = example_disk\<lparr>pending_requests := []\<rparr>"

lemma idle_disk_inv: "blk_inv (\<lambda>l. l) (\<lambda>q. q) idle_disk [2, 3]"
  by (auto simp: blk_inv_def example_disk_def idle_disk_def)

theorem transfer_beyond_disk_accepted_witness:
  "\<exists>b'. doAsyncReadWriteOnWorkLoop list_genc (disk_ops\<lparr>vd_submitBuffersToVirtqueue := \<lambda>_ _ _ _ t. Some (kIOReturnSuccess, t)\<rparr>)
      kIODirectionIn \<lparr>md_id = 100, md_length = 512\<rparr> (2 ^ 55 - 1) 1 9 (idle_disk, []) = Some (kIOReturnSuccess, b', [])"
  using transfer_beyond_disk_accepted [OF list_genc.genc_containers_axioms idle_disk_inv, of 0 "[1]" "\<lparr>md_id = 100, md_length = 512\<rparr>"
      kIODirectionIn "disk_ops\<lparr>vd_submitBuffersToVirtqueue := \<lambda>_ _ _ _ t. Some (kIOReturnSuccess, t)\<rparr>" "[]" "[]" 9]
  by (auto simp: idle_disk_def example_disk_def)

theorem block_completion_order_witness:
  "\<exists>b' t'. blockRequestCompleted list_genc disk_ops 1 3 False (example_disk, [3]) = Some (b', t')
     \<and> request_pool b' = [3, 0, 1] \<and> storage_log b' = [(7, kIOReturnSuccess, 512)]"
proof -
  have r: "requests example_disk ! 3 = example_request" by (simp add: example_disk_def)
  have e: "\<not> req_sync example_request" "req_completion example_request = Some 7" "req_status example_request = 0"
    "req_length example_request = 512" "virtioBlockDeviceGetRequestResult example_request False = kIOReturnSuccess"
    by (simp_all add: example_request_def virtioBlockDeviceGetRequestResult_def VIRTIO_BLK_S_OK_def)
  have p: "request_pool example_disk = [0, 1]" "pending_requests example_disk = [2]" "storage_log example_disk = []"
    by (simp_all add: example_disk_def)
  from block_completion_order [OF list_genc.genc_containers_axioms example_disk_inv disk_ops_transport TrueI,
      where i = 3 and c = 7 and fuel = 1 and t = "[3]"]
  show ?thesis by (auto simp: r e p)
qed

theorem invalid_direction_leaks_request_witness:
  "\<exists>b'. doAsyncReadWriteOnWorkLoop list_genc disk_ops kIODirectionOther \<lparr>md_id = 100, md_length = 512\<rparr> 0 1 9 (idle_disk, [])
      = Some (kIOReturnBadArgument, b', []) \<and> request_pool b' = [1]"
  using invalid_direction_leaks_request [OF list_genc.genc_containers_axioms idle_disk_inv, of 0 "[1]" 1
      "\<lparr>md_id = 100, md_length = 512\<rparr>" 0 disk_ops 9 "[]" kIODirectionIn "[]"]
  by (auto simp: idle_disk_def example_disk_def)

definition new_disk :: "(nat list, nat list) VirtioBlockDevice" where
  "new_disk = example_disk\<lparr>requests := [], request_pool := [], pending_requests := [], blk_virtio_device := False\<rparr>"

definition example_block_env :: block_env where
  "example_block_env = \<lparr>blk_service_start = True, blk_provider_is_virtio = True, request_alloc_ok = (\<lambda>_. True)\<rparr>"

definition unopened_dev :: legacy_dev where
  "unopened_dev = new_legacy_dev\<lparr>opened_by_client := False, pci_virtio_header_iomap := False\<rparr>"

lemma unopened_dev_closed: "legacy_closed unopened_dev"
  by (simp add: legacy_closed_def unopened_dev_def new_legacy_dev_def session_inv_def dev_inv_def)

theorem block_start_all_or_nothing_witness:
  "\<exists>ok b' d'. blk_start list_genc (legacy_ops example_env example_port 4 linear_dma (\<lambda>_. 0)) example_block_env
      (new_disk, unopened_dev) = Some (ok, b', d') \<and> (\<not> ok \<longrightarrow> legacy_closed d') \<and> (ok \<longrightarrow> blk_inv (\<lambda>l. l) (\<lambda>q. q) b' [])"
  using block_start_all_or_nothing [OF example_kernel.legacy_kernel_axioms unopened_dev_closed list_genc.genc_containers_axioms,
      of example_block_env new_disk "legacy_ops example_env example_port 4 linear_dma (\<lambda>_. 0)" example_port linear_dma "\<lambda>_. 0"]
  by (auto simp: example_block_env_def new_disk_def)

end
