(* ===== verification/Multi_Subrange.thy ===== *)
theory Multi_Subrange
  imports Virtqueue
begin

text \<open>
  The memory descriptor that joins ranges of other memory descriptors
  (SSDCMultiSubrangeMemoryDescriptor.cpp). The block driver and the SCSI driver hand such descriptors to
  the virtqueues. Modelled are its (re-)initialisation with the references it takes and drops, the
  lookup of a physical segment, and \<^verbatim>\<open>prepare\<close> and \<^verbatim>\<open>complete\<close>. The member descriptors belong to the
  kernel; of them only reference counts are tracked, and their methods are parameters.
  Assertions are compiled out of the release build and are not part of the model.
\<close>

section \<open>State\<close>

record SSDCMemoryDescriptorSubrange =
  sr_md :: "IOMemoryDescriptor option"
  sr_offset :: u64
  sr_length :: u64

record SSDCMultiSubrangeMemoryDescriptor =
  subranges :: "SSDCMemoryDescriptorSubrange list option"
  num_subranges :: nat
  subranges_allocated :: bool
  initialised :: bool
  ssdc_direction :: u32
  ssdc_length :: u64
  ssdc_tag :: u32

text \<open>A freshly allocated object: the kernel allocator clears all instance variables.\<close>

definition new_ssdc :: SSDCMultiSubrangeMemoryDescriptor where
  "new_ssdc = \<lparr>subranges = None, num_subranges = 0, subranges_allocated = False, initialised = False,
     ssdc_direction = 0, ssdc_length = 0, ssdc_tag = 0\<rparr>"

type_synonym refcounts = "nat \<Rightarrow> int"

record ssdc_env =
  super_init :: bool
  zmalloc_ok :: bool
  md_getTag :: "nat \<Rightarrow> u32"

section \<open>Operations\<close>

definition md_retain :: "SSDCMemoryDescriptorSubrange \<Rightarrow> refcounts \<Rightarrow> refcounts option" where
  "md_retain r refs = do { m \<leftarrow> sr_md r; Some (refs(md_id m := refs (md_id m) + 1)) }"

definition md_release :: "SSDCMemoryDescriptorSubrange \<Rightarrow> refcounts \<Rightarrow> refcounts option" where
  "md_release r refs = do { m \<leftarrow> sr_md r; Some (refs(md_id m := refs (md_id m) - 1)) }"

text \<open>A loop over the first \<open>n\<close> elements of an array.\<close>

definition for_each :: "nat \<Rightarrow> 'a list \<Rightarrow> ('a \<Rightarrow> 's \<Rightarrow> 's option) \<Rightarrow> 's \<Rightarrow> 's option" where
  "for_each n xs f = foldM (\<lambda>i s. do { x \<leftarrow> array_read xs i; f x s }) [0..<n]"

definition add_subrange ::
    "ssdc_env \<Rightarrow> SSDCMemoryDescriptorSubrange \<Rightarrow> SSDCMultiSubrangeMemoryDescriptor \<times> refcounts
     \<Rightarrow> (SSDCMultiSubrangeMemoryDescriptor \<times> refcounts) option" where
  "add_subrange env r = (\<lambda>(d, refs). do {
     refs \<leftarrow> md_retain r refs;
     m \<leftarrow> sr_md r;
     Some (d\<lparr>ssdc_length := ssdc_length d + sr_length r,
             ssdc_tag := (if ssdc_tag d = 0 then md_getTag env (md_id m) else ssdc_tag d)\<rparr>, refs)
   })"

definition initWithDescriptorRanges ::
    "ssdc_env \<Rightarrow> SSDCMemoryDescriptorSubrange list option \<Rightarrow> nat \<Rightarrow> u32 \<Rightarrow> bool
     \<Rightarrow> SSDCMultiSubrangeMemoryDescriptor \<times> refcounts
     \<Rightarrow> (bool \<times> SSDCMultiSubrangeMemoryDescriptor \<times> refcounts) option" where
  "initWithDescriptorRanges env descriptor_ranges count direction copy_ranges = (\<lambda>(d, refs). do {
     refs \<leftarrow> (case subranges d of
                Some rs \<Rightarrow> for_each (num_subranges d) rs md_release refs
              | None \<Rightarrow> Some refs);
     if subranges d = None \<and> \<not> initialised d \<and> \<not> super_init env then Some (False, d, refs)
     else do {
       let d = d\<lparr>initialised := initialised d \<or> subranges d = None, ssdc_direction := direction, ssdc_length := 0, ssdc_tag := 0,
                 subranges_allocated := False\<rparr>;
       if count = 0 then Some (True, d\<lparr>subranges := None, num_subranges := 0\<rparr>, refs)
       else if copy_ranges \<and> \<not> zmalloc_ok env
       then Some (False, d\<lparr>num_subranges := count, subranges_allocated := True, subranges := None\<rparr>, refs)
       else do {
         rs \<leftarrow> descriptor_ranges;
         let d = d\<lparr>num_subranges := count, subranges_allocated := copy_ranges, subranges := Some rs\<rparr>;
         (d, refs) \<leftarrow> for_each count rs (add_subrange env) (d, refs);
         Some (True, d, refs)
       }
     }
   })"

definition withDescriptorRanges ::
    "ssdc_env \<Rightarrow> SSDCMemoryDescriptorSubrange list option \<Rightarrow> nat \<Rightarrow> u32 \<Rightarrow> bool \<Rightarrow> refcounts
     \<Rightarrow> (SSDCMultiSubrangeMemoryDescriptor option \<times> refcounts) option" where
  "withDescriptorRanges env descriptor_ranges count direction copy_ranges refs = do {
     (ok, d, refs) \<leftarrow> initWithDescriptorRanges env descriptor_ranges count direction copy_ranges (new_ssdc, refs);
     Some (if ok then Some d else None, refs)
   }"

definition ssdc_free :: "SSDCMultiSubrangeMemoryDescriptor \<Rightarrow> refcounts \<Rightarrow> refcounts option" where
  "ssdc_free d refs = (case subranges d of
     Some rs \<Rightarrow> for_each (num_subranges d) rs md_release refs
   | None \<Rightarrow> Some refs)"

text \<open>The loop of \<^verbatim>\<open>getPhysicalSegment\<close>; \<open>phys\<close> is the method of the members, giving the address of
  the byte at an offset and the number of bytes that follow it contiguously.\<close>

fun find_segment ::
    "(nat \<Rightarrow> u64 \<Rightarrow> u64 \<times> u64) \<Rightarrow> SSDCMemoryDescriptorSubrange list \<Rightarrow> nat \<Rightarrow> u64 \<Rightarrow> (u64 \<times> u64) option" where
  "find_segment phys rs 0 offset = Some (0, 0)"
| "find_segment phys [] (Suc n) offset = None"
| "find_segment phys (r # rs) (Suc n) offset =
     (if offset < sr_length r
      then do {
        m \<leftarrow> sr_md r;
        let (addr, phys_len) = phys (md_id m) (offset + sr_offset r);
        Some (addr, if phys_len > sr_length r then sr_length r else phys_len)
      }
      else find_segment phys rs n (offset - sr_length r))"

definition getPhysicalSegment ::
    "(nat \<Rightarrow> u64 \<Rightarrow> u64 \<times> u64) \<Rightarrow> u64 \<Rightarrow> SSDCMultiSubrangeMemoryDescriptor \<Rightarrow> (u64 \<times> u64) option" where
  "getPhysicalSegment phys offset d =
     find_segment phys (case subranges d of None \<Rightarrow> [] | Some rs \<Rightarrow> rs) (num_subranges d) offset"

text \<open>\<^verbatim>\<open>prepare\<close> and \<^verbatim>\<open>complete\<close> of the members, with the state \<open>'s\<close> of the virtual memory system.\<close>

record 's md_ops =
  md_prepare :: "nat \<Rightarrow> u32 \<Rightarrow> 's \<Rightarrow> IOReturn \<times> 's"
  md_complete :: "nat \<Rightarrow> u32 \<Rightarrow> 's \<Rightarrow> IOReturn \<times> 's"

fun prepare_loop ::
    "'s md_ops \<Rightarrow> u32 \<Rightarrow> SSDCMemoryDescriptorSubrange list \<Rightarrow> nat \<Rightarrow> nat \<Rightarrow> 's \<Rightarrow> (IOReturn \<times> nat \<times> 's) option" where
  "prepare_loop ops dir rs 0 i s = Some (kIOReturnSuccess, i, s)"
| "prepare_loop ops dir [] (Suc n) i s = None"
| "prepare_loop ops dir (r # rs) (Suc n) i s = do {
     m \<leftarrow> sr_md r;
     let (status, s) = md_prepare ops (md_id m) dir s;
     if status \<noteq> kIOReturnSuccess then Some (status, i, s) else prepare_loop ops dir rs n (i + 1) s
   }"

definition complete_member ::
    "'s md_ops \<Rightarrow> u32 \<Rightarrow> SSDCMemoryDescriptorSubrange \<Rightarrow> IOReturn \<times> 's \<Rightarrow> (IOReturn \<times> 's) option" where
  "complete_member ops dir r = (\<lambda>(final_status, s). do {
     m \<leftarrow> sr_md r;
     let (status, s) = md_complete ops (md_id m) dir s;
     Some (if status \<noteq> kIOReturnSuccess then status else final_status, s)
   })"

definition ssdc_prepare ::
    "'s md_ops \<Rightarrow> u32 \<Rightarrow> SSDCMultiSubrangeMemoryDescriptor \<Rightarrow> 's \<Rightarrow> (IOReturn \<times> 's) option" where
  "ssdc_prepare ops forDirection d s = do {
     let dir = (if forDirection = 0 then ssdc_direction d else forDirection);
     let rs = (case subranges d of None \<Rightarrow> [] | Some rs \<Rightarrow> rs);
     (status, i, s) \<leftarrow> prepare_loop ops dir rs (num_subranges d) 0 s;
     if status \<noteq> kIOReturnSuccess then do {
       (_, s) \<leftarrow> for_each i rs (complete_member ops dir) (kIOReturnSuccess, s);
       Some (status, s)
     } else Some (status, s)
   }"

definition ssdc_complete ::
    "'s md_ops \<Rightarrow> u32 \<Rightarrow> SSDCMultiSubrangeMemoryDescriptor \<Rightarrow> 's \<Rightarrow> (IOReturn \<times> 's) option" where
  "ssdc_complete ops forDirection d s =
     (let dir = (if forDirection = 0 then ssdc_direction d else forDirection);
          rs = (case subranges d of None \<Rightarrow> [] | Some rs \<Rightarrow> rs)
      in for_each (num_subranges d) rs (complete_member ops dir) (kIOReturnSuccess, s))"

section \<open>References\<close>

lemma foldM_Nil_fun: "foldM g [] = Some"
  by (rule ext) simp

lemma for_each_take: "m \<le> length xs \<Longrightarrow> for_each m xs f s = foldM f (take m xs) s"
proof (induction m)
  case (Suc m)
  from Suc.prems have "take (Suc m) xs = take m xs @ [xs ! m]" by (simp add: take_Suc_conv_app_nth)
  with Suc show ?case by (simp add: for_each_def foldM_append foldM_Nil_fun)
qed (simp add: for_each_def)

lemma for_each_all [driver_simps]: "for_each (length xs) xs f s = foldM f xs s"
  by (simp add: for_each_take)

text \<open>The ranges a descriptor holds, how often member \<open>m\<close> occurs in them, and well-formedness.\<close>

definition held_ranges :: "SSDCMultiSubrangeMemoryDescriptor \<Rightarrow> SSDCMemoryDescriptorSubrange list" where
  "held_ranges d = (case subranges d of None \<Rightarrow> [] | Some rs \<Rightarrow> rs)"

definition md_uses :: "SSDCMemoryDescriptorSubrange list \<Rightarrow> nat \<Rightarrow> int" where
  "md_uses rs m = int (length (filter (\<lambda>r. map_option md_id (sr_md r) = Some m) rs))"

definition ranges_ok :: "SSDCMemoryDescriptorSubrange list \<Rightarrow> bool" where
  "ranges_ok rs \<longleftrightarrow> (\<forall>r \<in> set rs. sr_md r \<noteq> None)"

definition ssdc_inv :: "SSDCMultiSubrangeMemoryDescriptor \<Rightarrow> bool" where
  "ssdc_inv d \<longleftrightarrow> num_subranges d = length (held_ranges d) \<and> ranges_ok (held_ranges d)
     \<and> ssdc_length d = sum_list (map sr_length (held_ranges d)) \<and> (subranges d \<noteq> None \<longrightarrow> initialised d)"

lemma md_uses_Nil [simp]: "md_uses [] m = 0"
  by (simp add: md_uses_def)

lemma md_uses_Cons [simp]: "sr_md r = Some x \<Longrightarrow> md_uses (r # rs) m = (if m = md_id x then 1 else 0) + md_uses rs m"
  by (auto simp: md_uses_def)

lemma ranges_ok_simps [simp]: "ranges_ok []" "ranges_ok (r # rs) \<longleftrightarrow> sr_md r \<noteq> None \<and> ranges_ok rs"
  by (simp_all add: ranges_ok_def)

lemma foldM_release:
  "ranges_ok rs \<Longrightarrow> foldM md_release rs refs = Some (\<lambda>m. refs m - md_uses rs m)"
  by (induction rs arbitrary: refs) (auto simp: md_release_def fun_eq_iff)

lemma foldM_add_subrange:
  "ranges_ok rs \<Longrightarrow> \<exists>tag. foldM (add_subrange env) rs (d, refs)
     = Some (d\<lparr>ssdc_length := ssdc_length d + sum_list (map sr_length rs), ssdc_tag := tag\<rparr>, \<lambda>m. refs m + md_uses rs m)"
proof (induction rs arbitrary: d refs)
  case (Cons r rs)
  then obtain m where m: "sr_md r = Some m" "ranges_ok rs" by auto
  obtain d1 where d1: "add_subrange env r (d, refs) = Some (d1, refs(md_id m := refs (md_id m) + 1))"
     "\<exists>tag. d1 = d\<lparr>ssdc_length := ssdc_length d + sr_length r, ssdc_tag := tag\<rparr>"
    using m(1) by (auto simp: add_subrange_def md_retain_def)
  moreover have "(\<lambda>x. (refs(md_id m := refs (md_id m) + 1)) x + md_uses rs x) = (\<lambda>x. refs x + md_uses (r # rs) x)"
    using m(1) by auto
  ultimately show ?case
    using Cons.IH [OF m(2), of d1 "refs(md_id m := refs (md_id m) + 1)"] by (auto simp: add.assoc fun_upd_def)
next
  case Nil
  show ?case by (rule exI [of _ "ssdc_tag d"]) simp
qed

lemma init_result:
  assumes "ssdc_inv d" "initialised d \<or> super_init env" "copy_ranges \<longrightarrow> zmalloc_ok env" "ranges_ok rs"
  shows "\<exists>d'. initWithDescriptorRanges env (Some rs) (length rs) direction copy_ranges (d, refs)
      = Some (True, d', \<lambda>m. refs m - md_uses (held_ranges d) m + md_uses rs m)
    \<and> ssdc_inv d' \<and> held_ranges d' = rs \<and> initialised d' \<and> ssdc_direction d' = direction
    \<and> ssdc_length d' = sum_list (map sr_length rs)"
proof -
  have rel: "(case subranges d of Some rs \<Rightarrow> for_each (num_subranges d) rs md_release refs | None \<Rightarrow> Some refs)
      = Some (\<lambda>m. refs m - md_uses (held_ranges d) m)"
    using assms(1) foldM_release [of "held_ranges d" refs]
    by (auto simp: ssdc_inv_def held_ranges_def for_each_all split: option.splits)
  let ?refs = "\<lambda>m. refs m - md_uses (held_ranges d) m"
  let ?d = "d\<lparr>initialised := True, ssdc_direction := direction, ssdc_length := 0,
     ssdc_tag := 0, num_subranges := length rs, subranges_allocated := copy_ranges, subranges := Some rs\<rparr>"
  have i: "(initialised d \<or> subranges d = None) = True" using assms(1) by (auto simp: ssdc_inv_def)
  show ?thesis
  proof (cases "rs = []")
    case True
    with assms rel i show ?thesis
      by (auto simp: initWithDescriptorRanges_def Let_def ssdc_inv_def held_ranges_def)
  next
    case False
    obtain tag where f: "foldM (add_subrange env) rs (?d, ?refs)
       = Some (?d\<lparr>ssdc_length := sum_list (map sr_length rs), ssdc_tag := tag\<rparr>, \<lambda>m. ?refs m + md_uses rs m)"
      using foldM_add_subrange [OF assms(4), of env ?d ?refs] by auto
    have "initWithDescriptorRanges env (Some rs) (length rs) direction copy_ranges (d, refs)
       = Some (True, ?d\<lparr>ssdc_length := sum_list (map sr_length rs), ssdc_tag := tag\<rparr>, \<lambda>m. ?refs m + md_uses rs m)"
      using False assms(2,3) f unfolding initWithDescriptorRanges_def by (simp add: rel i Let_def for_each_all)
    then show ?thesis using assms(4) by (auto simp: ssdc_inv_def held_ranges_def)
  qed
qed

lemma init_empty:
  assumes "ssdc_inv d" "initialised d \<or> super_init env"
  shows "\<exists>d'. initWithDescriptorRanges env rs 0 direction copy_ranges (d, refs)
      = Some (True, d', \<lambda>m. refs m - md_uses (held_ranges d) m)
    \<and> ssdc_inv d' \<and> held_ranges d' = [] \<and> initialised d' \<and> ssdc_length d' = 0"
proof -
  have "initWithDescriptorRanges env rs 0 direction copy_ranges (d, refs)
     = initWithDescriptorRanges env (Some []) (length []) direction False (d, refs)"
    by (cases "subranges d") (simp_all add: initWithDescriptorRanges_def)
  with init_result [OF assms, of False "[]"] show ?thesis by auto
qed

text \<open>
  C27. Round trip of the references. Installing ranges in a descriptor that holds none and taking them out again
  leaves every reference count as it was; in between each member has one more reference per range it
  occurs in, and the descriptor is as long as its ranges together. Neither call dereferences a null pointer.
\<close>

theorem ssdc_references_balance:
  assumes "ssdc_inv d" "held_ranges d = []" "initialised d \<or> super_init env" "copy_ranges \<longrightarrow> zmalloc_ok env" "ranges_ok rs"
  shows "\<exists>d1 d2. initWithDescriptorRanges env (Some rs) (length rs) direction copy_ranges (d, refs)
        = Some (True, d1, \<lambda>m. refs m + md_uses rs m)
      \<and> ssdc_inv d1 \<and> held_ranges d1 = rs \<and> ssdc_length d1 = sum_list (map sr_length rs)
      \<and> initWithDescriptorRanges env None 0 0 False (d1, \<lambda>m. refs m + md_uses rs m) = Some (True, d2, refs)
      \<and> ssdc_inv d2 \<and> held_ranges d2 = []"
proof -
  obtain d1 where d1: "initWithDescriptorRanges env (Some rs) (length rs) direction copy_ranges (d, refs)
      = Some (True, d1, \<lambda>m. refs m + md_uses rs m)" "ssdc_inv d1" "held_ranges d1 = rs" "initialised d1"
      "ssdc_length d1 = sum_list (map sr_length rs)"
    using init_result [OF assms(1,3,4,5), of direction refs] assms(2) by auto
  then show ?thesis
    using init_empty [of d1 env None 0 False "\<lambda>m. refs m + md_uses rs m"] by auto
qed

section \<open>Physical segments\<close>

text \<open>Reference: the bytes of the ranges one after the other, each as member and offset in the member.\<close>

definition range_bytes :: "SSDCMemoryDescriptorSubrange \<Rightarrow> (nat \<times> u64) list" where
  "range_bytes r = (case sr_md r of None \<Rightarrow> []
     | Some m \<Rightarrow> map (\<lambda>k. (md_id m, of_nat k + sr_offset r)) [0..<unat (sr_length r)])"

definition flat_bytes :: "SSDCMemoryDescriptorSubrange list \<Rightarrow> (nat \<times> u64) list" where
  "flat_bytes rs = concat (map range_bytes rs)"

lemma length_range_bytes [simp]: "sr_md r = Some m \<Longrightarrow> length (range_bytes r) = unat (sr_length r)"
  by (simp add: range_bytes_def)

lemma nth_range_bytes: "sr_md r = Some m \<Longrightarrow> k < unat (sr_length r) \<Longrightarrow> range_bytes r ! k = (md_id m, of_nat k + sr_offset r)"
  by (simp add: range_bytes_def)

lemma flat_bytes_simps [simp]:
  "flat_bytes [] = []" "flat_bytes (r # rs) = range_bytes r @ flat_bytes rs" "flat_bytes (rs @ rs') = flat_bytes rs @ flat_bytes rs'"
  by (simp_all add: flat_bytes_def)

lemma find_segment_hit:
  assumes "sr_md r = Some m" "k < unat (sr_length r)" "ranges_ok before" "unat offset = length (flat_bytes before) + k"
  shows "find_segment phys (before @ r # after) (length (before @ r # after)) offset
    = Some (fst (phys (md_id m) (of_nat k + sr_offset r)), min (snd (phys (md_id m) (of_nat k + sr_offset r))) (sr_length r))"
  using assms(3,4)
proof (induction before arbitrary: offset)
  case Nil
  then have "offset = of_nat k" "offset < sr_length r" using assms(2) by (auto simp: word_less_nat_alt intro: eq_of_nat_unat)
  with assms(1) show ?case by (auto simp: case_prod_unfold min_def Let_def)
next
  case (Cons r0 before)
  then obtain m0 where m0: "sr_md r0 = Some m0" by auto
  then have le: "sr_length r0 \<le> offset" using Cons.prems by (simp add: word_le_nat_alt)
  then have "unat (offset - sr_length r0) = length (flat_bytes before) + k"
    using Cons.prems m0 by (simp add: unat_sub word_le_nat_alt)
  with Cons.IH Cons.prems(1) le show ?case by (simp add: leD)
qed

lemma find_segment_miss:
  "ranges_ok rs \<Longrightarrow> length (flat_bytes rs) \<le> unat offset \<Longrightarrow> find_segment phys rs (length rs) offset = Some (0, 0)"
proof (induction rs arbitrary: offset)
  case (Cons r rs)
  then obtain m where m: "sr_md r = Some m" by auto
  with Cons.prems have "sr_length r \<le> offset" by (simp add: word_le_nat_alt)
  moreover from this have "length (flat_bytes rs) \<le> unat (offset - sr_length r)"
    using Cons.prems m by (simp add: unat_sub word_le_nat_alt)
  ultimately show ?case using Cons.IH Cons.prems(1) by (simp add: leD)
qed simp

lemma flat_bytes_split:
  "ranges_ok rs \<Longrightarrow> n < length (flat_bytes rs) \<Longrightarrow> \<exists>before r after k m. rs = before @ r # after \<and> sr_md r = Some m
     \<and> n = length (flat_bytes before) + k \<and> k < unat (sr_length r) \<and> flat_bytes rs ! n = (md_id m, of_nat k + sr_offset r)"
proof (induction rs arbitrary: n)
  case (Cons r rs)
  then obtain m where m: "sr_md r = Some m" by auto
  show ?case
  proof (cases "n < unat (sr_length r)")
    case True
    with m show ?thesis
      by (intro exI [of _ "[]"] exI [of _ r] exI [of _ rs] exI [of _ n] exI [of _ m]) (simp add: nth_append nth_range_bytes)
  next
    case False
    with Cons.prems m have "n - unat (sr_length r) < length (flat_bytes rs)" by auto
    then obtain before r' after k m' where h: "rs = before @ r' # after" "sr_md r' = Some m'"
      "n - unat (sr_length r) = length (flat_bytes before) + k" "k < unat (sr_length r')"
      "flat_bytes rs ! (n - unat (sr_length r)) = (md_id m', of_nat k + sr_offset r')"
      using Cons.IH [of "n - unat (sr_length r)"] Cons.prems(1) by auto
    with False m show ?thesis
      by (intro exI [of _ "r # before"] exI [of _ r'] exI [of _ after] exI [of _ k] exI [of _ m']) (auto simp: nth_append)
  qed
qed simp

lemma getPhysicalSegment_held: "ssdc_inv d \<Longrightarrow> getPhysicalSegment phys offset d = find_segment phys (held_ranges d) (length (held_ranges d)) offset"
  by (simp add: getPhysicalSegment_def ssdc_inv_def held_ranges_def)

text \<open>
  C28. Equivalence. The address found for an offset is that of the byte at this offset when the ranges are
  laid out one after the other, and 0 beyond the last byte, for every offset, also when the sum of
  the lengths exceeds 64 bits. The lookup never leaves the array of ranges.
\<close>

theorem ssdc_segment_address:
  assumes "ssdc_inv d"
  shows "map_option fst (getPhysicalSegment phys offset d)
    = Some (if unat offset < length (flat_bytes (held_ranges d))
            then fst (case_prod phys (flat_bytes (held_ranges d) ! unat offset)) else 0)"
proof (cases "unat offset < length (flat_bytes (held_ranges d))")
  case True
  have ok: "ranges_ok (held_ranges d)" using assms by (simp add: ssdc_inv_def)
  then obtain before r after k m where h: "held_ranges d = before @ r # after" "sr_md r = Some m"
    "unat offset = length (flat_bytes before) + k" "k < unat (sr_length r)"
    "flat_bytes (held_ranges d) ! unat offset = (md_id m, of_nat k + sr_offset r)"
    using flat_bytes_split [OF _ True] by blast
  moreover have "ranges_ok before" using ok h(1) by (simp add: ranges_ok_def)
  ultimately show ?thesis
    using find_segment_hit [OF h(2,4), of before offset phys after] True assms by (simp add: getPhysicalSegment_held)
next
  case False
  then show ?thesis using assms find_segment_miss by (simp add: getPhysicalSegment_held ssdc_inv_def)
qed

text \<open>
  The length of the segment found is limited by the length of the whole range, not by what is left of it
  after the offset: inside a range of contiguous memory the segment extends beyond the
  end of the range by as many bytes as the offset is into it.
\<close>

theorem ssdc_segment_overrun:
  assumes "ssdc_inv d" "held_ranges d = before @ r # after" "sr_md r = Some m" "0 < k" "k < unat (sr_length r)"
    "unat offset = length (flat_bytes before) + k" "sr_length r \<le> snd (phys (md_id m) (of_nat k + sr_offset r))"
  shows "\<exists>addr. getPhysicalSegment phys offset d = Some (addr, sr_length r)
    \<and> unat offset + unat (sr_length r) = length (flat_bytes (before @ [r])) + k"
proof -
  have "ranges_ok before" using assms(1,2) by (simp add: ssdc_inv_def ranges_ok_def)
  then show ?thesis
    using find_segment_hit [OF assms(3,5) _ assms(6), of phys after] assms by (simp add: getPhysicalSegment_held min_def)
qed

section \<open>Preparing and completing the members\<close>

text \<open>What the members promise: \<open>cnt\<close> tells how often a member is prepared. A successful \<^verbatim>\<open>prepare\<close> counts one
  up, a failed one changes nothing, and \<^verbatim>\<open>complete\<close> of a prepared member succeeds and counts one down.\<close>

locale md_members =
  fixes ops :: "'s md_ops" and cnt :: "'s \<Rightarrow> nat \<Rightarrow> nat"
  assumes prepare_law: "md_prepare ops m dir s = (status, s') \<Longrightarrow>
      cnt s' = (if status = kIOReturnSuccess then (cnt s)(m := cnt s m + 1) else cnt s)"
    and complete_law: "0 < cnt s m \<Longrightarrow> \<exists>s'. md_complete ops m dir s = (kIOReturnSuccess, s') \<and> cnt s' = (cnt s)(m := cnt s m - 1)"
begin

abbreviation uses :: "SSDCMemoryDescriptorSubrange list \<Rightarrow> nat \<Rightarrow> nat" where
  "uses rs m \<equiv> nat (md_uses rs m)"

lemma md_uses_nonneg [simp]: "0 \<le> md_uses rs m"
  by (simp add: md_uses_def)

lemma prepare_loop_result:
  "ranges_ok rs \<Longrightarrow> \<exists>status k s'. prepare_loop ops dir rs (length rs) i s = Some (status, i + k, s') \<and> k \<le> length rs
     \<and> cnt s' = (\<lambda>m. cnt s m + uses (take k rs) m) \<and> (status = kIOReturnSuccess \<longrightarrow> k = length rs)"
proof (induction rs arbitrary: i s)
  case (Cons r rs)
  then obtain m where m: "sr_md r = Some m" "ranges_ok rs" by auto
  obtain status s1 where p: "md_prepare ops (md_id m) dir s = (status, s1)" by force
  show ?case
  proof (cases "status = kIOReturnSuccess")
    case True
    obtain status' k s' where "prepare_loop ops dir rs (length rs) (i + 1) s1 = Some (status', i + 1 + k, s')" "k \<le> length rs"
      "cnt s' = (\<lambda>m. cnt s1 m + uses (take k rs) m)" "status' = kIOReturnSuccess \<longrightarrow> k = length rs"
      using Cons.IH [OF m(2), of "i + 1" s1] by blast
    with True p m(1) prepare_law [OF p] show ?thesis
      by (intro exI [of _ status'] exI [of _ "Suc k"] exI [of _ s']) (auto simp: nat_add_distrib)
  next
    case False
    with p m(1) prepare_law [OF p] show ?thesis by (intro exI [of _ status] exI [of _ 0] exI [of _ s1]) simp
  qed
qed simp

lemma complete_all:
  "ranges_ok rs \<Longrightarrow> \<forall>m. uses rs m \<le> cnt s m \<Longrightarrow> \<exists>s'. foldM (complete_member ops dir) rs (kIOReturnSuccess, s) = Some (kIOReturnSuccess, s')
     \<and> cnt s' = (\<lambda>m. cnt s m - uses rs m)"
proof (induction rs arbitrary: s)
  case (Cons r rs)
  then obtain m where m: "sr_md r = Some m" "ranges_ok rs" by auto
  have u: "uses (r # rs) x = (if x = md_id m then 1 else 0) + uses rs x" for x using m(1) by (simp add: nat_add_distrib)
  have "uses (r # rs) (md_id m) = 1 + uses rs (md_id m)" using u by simp
  then have "0 < cnt s (md_id m)" using Cons.prems(2) [rule_format, of "md_id m"] by linarith
  then obtain s1 where s1: "md_complete ops (md_id m) dir s = (kIOReturnSuccess, s1)" "cnt s1 = (cnt s)(md_id m := cnt s (md_id m) - 1)"
    using complete_law by blast
  have "\<forall>x. uses rs x \<le> cnt s1 x"
  proof
    fix x
    have "(if x = md_id m then 1 else 0) + uses rs x \<le> cnt s x" using Cons.prems(2) [rule_format, of x] unfolding u .
    then show "uses rs x \<le> cnt s1 x" using s1(2) by (cases "x = md_id m") simp_all
  qed
  from Cons.IH [OF m(2) this] obtain s' where "foldM (complete_member ops dir) rs (kIOReturnSuccess, s1) = Some (kIOReturnSuccess, s')"
    "cnt s' = (\<lambda>m. cnt s1 m - uses rs m)" by blast
  moreover have "(\<lambda>x. cnt s1 x - uses rs x) = (\<lambda>x. cnt s x - uses (r # rs) x)" unfolding u s1(2) by auto
  moreover have "complete_member ops dir r (kIOReturnSuccess, s) = Some (kIOReturnSuccess, s1)"
    using s1(1) m(1) by (simp add: complete_member_def)
  ultimately show ?case by simp
qed simp

lemma prepare_result:
  assumes "ssdc_inv d"
  shows "\<exists>status s'. ssdc_prepare ops dir d s = Some (status, s')
    \<and> cnt s' = (\<lambda>m. cnt s m + (if status = kIOReturnSuccess then uses (held_ranges d) m else 0))"
proof -
  let ?rs = "held_ranges d" and ?dir = "if dir = 0 then ssdc_direction d else dir"
  have ok: "ranges_ok ?rs" and n: "num_subranges d = length ?rs" using assms by (auto simp: ssdc_inv_def)
  have rs: "(case subranges d of None \<Rightarrow> [] | Some rs \<Rightarrow> rs) = ?rs" by (simp add: held_ranges_def)
  obtain status k s1 where p: "prepare_loop ops ?dir ?rs (length ?rs) 0 s = Some (status, k, s1)" "k \<le> length ?rs"
    "cnt s1 = (\<lambda>m. cnt s m + uses (take k ?rs) m)" "status = kIOReturnSuccess \<longrightarrow> k = length ?rs"
    using prepare_loop_result [OF ok, of ?dir 0 s] by auto
  show ?thesis
  proof (cases "status = kIOReturnSuccess")
    case True
    with p n show ?thesis by (auto simp: ssdc_prepare_def rs)
  next
    case False
    have "ranges_ok (take k ?rs)" using ok by (auto simp: ranges_ok_def dest: in_set_takeD)
    then obtain s' where "foldM (complete_member ops ?dir) (take k ?rs) (kIOReturnSuccess, s1) = Some (kIOReturnSuccess, s')"
      "cnt s' = (\<lambda>m. cnt s1 m - uses (take k ?rs) m)" using complete_all [of "take k ?rs" s1 ?dir] p(3) by auto
    with False p n show ?thesis by (auto simp: ssdc_prepare_def rs for_each_take)
  qed
qed

lemma complete_result:
  assumes "ssdc_inv d" "\<forall>m. uses (held_ranges d) m \<le> cnt s m"
  shows "\<exists>s'. ssdc_complete ops dir d s = Some (kIOReturnSuccess, s')
    \<and> cnt s' = (\<lambda>m. cnt s m - uses (held_ranges d) m)"
proof -
  have "(case subranges d of None \<Rightarrow> [] | Some rs \<Rightarrow> rs) = held_ranges d" by (simp add: held_ranges_def)
  with assms complete_all [of "held_ranges d" s "if dir = 0 then ssdc_direction d else dir"]
  show ?thesis by (simp add: ssdc_complete_def Let_def ssdc_inv_def for_each_all del: for_each_def)
qed

end

text \<open>
  C29. Preparing is all or nothing. If every member can be prepared, each is prepared once per range it
  occurs in, and completing the descriptor undoes exactly this; if one member refuses, the descriptor
  reports its error and every member is prepared as often as before.
\<close>

theorem ssdc_prepare_all_or_nothing:
  assumes "md_members ops cnt" "ssdc_inv d"
  shows "\<exists>status s1. ssdc_prepare ops dir d s = Some (status, s1)
    \<and> (if status = kIOReturnSuccess
       then (\<forall>m. int (cnt s1 m) = int (cnt s m) + md_uses (held_ranges d) m)
          \<and> (\<exists>s2. ssdc_complete ops dir d s1 = Some (kIOReturnSuccess, s2) \<and> cnt s2 = cnt s)
       else cnt s1 = cnt s)"
proof -
  obtain status s1 where p: "ssdc_prepare ops dir d s = Some (status, s1)"
    "cnt s1 = (\<lambda>m. cnt s m + (if status = kIOReturnSuccess then nat (md_uses (held_ranges d) m) else 0))"
    using md_members.prepare_result [OF assms] by blast
  show ?thesis
  proof (cases "status = kIOReturnSuccess")
    case True
    with p(2) have "\<forall>m. nat (md_uses (held_ranges d) m) \<le> cnt s1 m" by simp
    from md_members.complete_result [OF assms this, of dir] p True
    obtain s2 where "ssdc_complete ops dir d s1 = Some (kIOReturnSuccess, s2)" "cnt s2 = cnt s" by auto
    with p True show ?thesis by (auto simp: md_uses_def)
  qed (use p in auto)
qed

section \<open>Examples\<close>

text \<open>Members that count their preparations, all but number 7, which refuses; and a contiguous memory.\<close>

definition counting_members :: "(nat \<Rightarrow> nat) md_ops" where
  "counting_members = \<lparr>md_prepare = (\<lambda>m dir s. if m = 7 then (kIOReturnNoMemory, s) else (kIOReturnSuccess, s(m := s m + 1))),
     md_complete = (\<lambda>m dir s. (kIOReturnSuccess, s(m := s m - 1)))\<rparr>"

interpretation counting: md_members counting_members "\<lambda>s. s"
  by unfold_locales (auto simp: counting_members_def split: if_splits)

definition example_ranges :: "SSDCMemoryDescriptorSubrange list" where
  "example_ranges = [\<lparr>sr_md = Some \<lparr>md_id = 1, md_length = 100\<rparr>, sr_offset = 20, sr_length = 30\<rparr>,
     \<lparr>sr_md = Some \<lparr>md_id = 2, md_length = 40\<rparr>, sr_offset = 0, sr_length = 40\<rparr>]"

definition example_ssdc :: SSDCMultiSubrangeMemoryDescriptor where
  "example_ssdc = \<lparr>subranges = Some example_ranges, num_subranges = 2, subranges_allocated = False, initialised = True,
     ssdc_direction = 1, ssdc_length = 70, ssdc_tag = 0\<rparr>"

definition example_ssdc_env :: ssdc_env where
  "example_ssdc_env = \<lparr>super_init = True, zmalloc_ok = True, md_getTag = (\<lambda>_. 0)\<rparr>"

definition contiguous :: "nat \<Rightarrow> u64 \<Rightarrow> u64 \<times> u64" where
  "contiguous m offset = (of_nat m * 4096 + offset, 4096 - offset)"

lemma example_ssdc_inv: "ssdc_inv example_ssdc" "held_ranges example_ssdc = example_ranges"
  by (simp_all add: ssdc_inv_def example_ssdc_def held_ranges_def example_ranges_def)

theorem ssdc_references_balance_witness:
  "\<exists>d1 d2. initWithDescriptorRanges example_ssdc_env (Some example_ranges) 2 1 False (new_ssdc, \<lambda>_. 1)
        = Some (True, d1, \<lambda>m. 1 + md_uses example_ranges m)
      \<and> ssdc_inv d1 \<and> held_ranges d1 = example_ranges \<and> ssdc_length d1 = 70
      \<and> initWithDescriptorRanges example_ssdc_env None 0 0 False (d1, \<lambda>m. 1 + md_uses example_ranges m) = Some (True, d2, \<lambda>_. 1)
      \<and> ssdc_inv d2 \<and> held_ranges d2 = []"
  using ssdc_references_balance [where d = new_ssdc and env = example_ssdc_env and rs = example_ranges and copy_ranges = False
      and direction = 1 and refs = "\<lambda>_. 1"]
  by (simp add: ssdc_inv_def held_ranges_def new_ssdc_def example_ssdc_env_def example_ranges_def numeral_2_eq_2)

theorem ssdc_segment_address_witness:
  "map_option fst (getPhysicalSegment contiguous 35 example_ssdc) = Some 8197"
  using ssdc_segment_address [OF example_ssdc_inv(1), of contiguous 35]
  by (simp add: example_ssdc_inv flat_bytes_def range_bytes_def example_ranges_def contiguous_def nth_append)

theorem ssdc_segment_overrun_witness:
  "\<exists>addr. getPhysicalSegment contiguous 10 example_ssdc = Some (addr, 30)
    \<and> unat (10 :: u64) + unat (30 :: u64) = length (flat_bytes [example_ranges ! 0]) + 10"
  using ssdc_segment_overrun [where before = "[]" and r = "example_ranges ! 0" and after = "[example_ranges ! 1]" and k = 10
      and offset = 10 and phys = contiguous and d = example_ssdc and m = "\<lparr>md_id = 1, md_length = 100\<rparr>"] example_ssdc_inv
  by (simp add: example_ranges_def contiguous_def)

theorem ssdc_prepare_all_or_nothing_witness:
  "\<exists>status s1. ssdc_prepare counting_members 0 example_ssdc (\<lambda>_. 0) = Some (status, s1)
    \<and> (if status = kIOReturnSuccess
       then (\<forall>m. int (s1 m) = md_uses example_ranges m)
          \<and> (\<exists>s2. ssdc_complete counting_members 0 example_ssdc s1 = Some (kIOReturnSuccess, s2) \<and> s2 = (\<lambda>_. 0))
       else s1 = (\<lambda>_. 0))"
  using ssdc_prepare_all_or_nothing [OF counting.md_members_axioms example_ssdc_inv(1), of 0 "\<lambda>_. 0"]
  by (simp only: example_ssdc_inv(2) int_ops(1) add_0_left cong: if_cong)

end
