(* ===== verification/SCSI_Controller.thy ===== *)
theory SCSI_Controller
  imports Virtio_Device Multi_Subrange
begin

text \<open>
  The SCSI driver (VirtioSCSIController.cpp): bringing up the controller, SCSI tasks with their two memory
  descriptors from the pools, task management functions, events of the device, and what the driver
  reports to the SCSI family. The family and the kernel are parameters: the attributes of a task
  identifier, which element of a pool \<^verbatim>\<open>getAnyObject\<close> picks, and whether allocations succeed.
  The calls of the driver to the family are recorded in order.
\<close>

section \<open>Constants and types\<close>

definition VIRTIO_SCSI_F_INOUT :: u32 where "VIRTIO_SCSI_F_INOUT = push_bit 0 1"
definition VIRTIO_SCSI_F_HOTPLUG :: u32 where "VIRTIO_SCSI_F_HOTPLUG = push_bit 1 1"
definition SCSI_SUPPORTED_FEATURES :: u32 where
  "SCSI_SUPPORTED_FEATURES = VIRTIO_SCSI_F_INOUT OR VIRTIO_SCSI_F_HOTPLUG OR VIRTIO_F_RING_INDIRECT_DESC"

definition VIRTIO_SCSI_T_TRANSPORT_RESET :: u32 where "VIRTIO_SCSI_T_TRANSPORT_RESET = 1"
definition VIRTIO_SCSI_EVT_RESET_RESCAN :: u32 where "VIRTIO_SCSI_EVT_RESET_RESCAN = 1"
definition VIRTIO_SCSI_EVT_RESET_REMOVED :: u32 where "VIRTIO_SCSI_EVT_RESET_REMOVED = 2"

definition VIRTIO_SCSI_T_TMF :: u32 where "VIRTIO_SCSI_T_TMF = 0"
definition VIRTIO_SCSI_T_TMF_ABORT_TASK :: u32 where "VIRTIO_SCSI_T_TMF_ABORT_TASK = 0"
definition VIRTIO_SCSI_T_TMF_ABORT_TASK_SET :: u32 where "VIRTIO_SCSI_T_TMF_ABORT_TASK_SET = 1"
definition VIRTIO_SCSI_T_TMF_CLEAR_ACA :: u32 where "VIRTIO_SCSI_T_TMF_CLEAR_ACA = 2"
definition VIRTIO_SCSI_T_TMF_CLEAR_TASK_SET :: u32 where "VIRTIO_SCSI_T_TMF_CLEAR_TASK_SET = 3"
definition VIRTIO_SCSI_T_TMF_I_T_NEXUS_RESET :: u32 where "VIRTIO_SCSI_T_TMF_I_T_NEXUS_RESET = 4"
definition VIRTIO_SCSI_T_TMF_LOGICAL_UNIT_RESET :: u32 where "VIRTIO_SCSI_T_TMF_LOGICAL_UNIT_RESET = 5"

definition VIRTIO_SCSI_S_FUNCTION_COMPLETE :: u8 where "VIRTIO_SCSI_S_FUNCTION_COMPLETE = 0"
definition VIRTIO_SCSI_S_FUNCTION_SUCCEEDED :: u8 where "VIRTIO_SCSI_S_FUNCTION_SUCCEEDED = 10"
definition VIRTIO_SCSI_S_FUNCTION_REJECTED :: u8 where "VIRTIO_SCSI_S_FUNCTION_REJECTED = 11"
definition VIRTIO_SCSI_S_OK :: u8 where "VIRTIO_SCSI_S_OK = 0"
definition VIRTIO_SCSI_S_BAD_TARGET :: u8 where "VIRTIO_SCSI_S_BAD_TARGET = 3"

definition CONFIG_NUM_QUEUES_OFFSET :: u16 where "CONFIG_NUM_QUEUES_OFFSET = 0"
definition CONFIG_SEG_MAX_OFFSET :: u16 where "CONFIG_SEG_MAX_OFFSET = 4"
definition CONFIG_MAX_SECTORS_OFFSET :: u16 where "CONFIG_MAX_SECTORS_OFFSET = 8"
definition CONFIG_CMD_PER_LUN_OFFSET :: u16 where "CONFIG_CMD_PER_LUN_OFFSET = 12"
definition CONFIG_EVENT_INFO_SIZE_OFFSET :: u16 where "CONFIG_EVENT_INFO_SIZE_OFFSET = 16"
definition CONFIG_SENSE_SIZE_OFFSET :: u16 where "CONFIG_SENSE_SIZE_OFFSET = 20"
definition CONFIG_CDB_SIZE_OFFSET :: u16 where "CONFIG_CDB_SIZE_OFFSET = 24"
definition CONFIG_MAX_CHANNEL_OFFSET :: u16 where "CONFIG_MAX_CHANNEL_OFFSET = 28"
definition CONFIG_MAX_TARGET_OFFSET :: u16 where "CONFIG_MAX_TARGET_OFFSET = 30"
definition CONFIG_MAX_LUN_OFFSET :: u16 where "CONFIG_MAX_LUN_OFFSET = 32"
definition kSCSICDBSize_Maximum :: u32 where "kSCSICDBSize_Maximum = 16"

datatype SCSIServiceResponse =
    kSCSIServiceResponse_Request_In_Process | kSCSIServiceResponse_SERVICE_DELIVERY_OR_TARGET_FAILURE
  | kSCSIServiceResponse_TASK_COMPLETE | kSCSIServiceResponse_FUNCTION_COMPLETE | kSCSIServiceResponse_FUNCTION_REJECTED

text \<open>A status byte of the SCSI standard (0 is \<^verbatim>\<open>GOOD\<close>), or the family's own code for a missing device.\<close>

datatype SCSITaskStatus = SCSIStatusByte u8 | kSCSITaskStatus_DeviceNotPresent

datatype SCSIDirection =
    kSCSIDataTransfer_NoDataTransfer | kSCSIDataTransfer_FromInitiatorToTarget | kSCSIDataTransfer_FromTargetToInitiator

record virtio_scsi_ctrl_tmf_dev_readable =
  tmf_type :: u32
  tmf_subtype :: u32
  tmf_lun :: "u8 list"
  tmf_id :: u64

record virtio_scsi_event =
  ev_event :: u32
  ev_lun :: "u8 list"
  ev_reason :: u32

record virtio_scsi_req_cmd_to_device =
  td_lun :: "u8 list"
  td_id :: u64
  td_task_attr :: u8
  td_prio :: u8
  td_crn :: u8
  td_cdb :: "u8 list"

record virtio_scsi_req_cmd_from_device =
  sense_len :: u32
  residual :: u32
  status_qualifier :: u16
  fd_status :: u8
  fd_response :: u8
  sense_bytes :: "u8 list"

text \<open>The driver's part of a SCSI task. Sizes and offsets are those of the 64-bit layout: two pointers and two
  ranges of 24 bytes precede the 35 packed bytes of \<^verbatim>\<open>to_device\<close>; \<^verbatim>\<open>from_device\<close> is aligned to 4 bytes.\<close>

record virtio_scsi_task =
  task_sub_md :: "nat option"
  task_multi_md :: "nat option"
  task_subrange :: "SSDCMemoryDescriptorSubrange list"
  to_device :: virtio_scsi_req_cmd_to_device
  from_device :: virtio_scsi_req_cmd_from_device

definition to_device_offset :: u64 where "to_device_offset = 64"
definition to_device_size :: u64 where "to_device_size = 35"
definition from_device_offset :: u64 where "from_device_offset = 100"
definition from_device_size :: u64 where "from_device_size = 108"

record virtio_scsi_management_task =
  mt_readable :: "nat option"
  mt_writable :: "nat option"
  mt_theT :: u64
  mt_theL :: u64
  mt_theQ :: u64
  mt_command :: u32

text \<open>Calls of the driver to the SCSI family.\<close>

datatype family_call =
    CreateTargetForID u64 | DestroyTargetForID u64
  | SetAutoSenseData nat "u8 list" u32 | SetRealizedDataTransferCount nat u64
  | CompleteParallelTask nat SCSITaskStatus SCSIServiceResponse
  | CompleteAbortTask u64 u64 u64 SCSIServiceResponse | CompleteAbortTaskSet u64 u64 SCSIServiceResponse
  | CompleteClearACA u64 u64 SCSIServiceResponse | CompleteClearTaskSet u64 u64 SCSIServiceResponse
  | CompleteTargetReset u64 SCSIServiceResponse | CompleteLogicalUnitReset u64 u64 SCSIServiceResponse

text \<open>The attributes of a task identifier, as the accessors of the family return them.\<close>

record scsi_request =
  GetHBADataDescriptor :: IOMemoryDescriptor
  GetTargetIdentifier :: u64
  GetLogicalUnitNumber :: u64
  GetTaggedTaskIdentifier :: u64
  GetTaskAttribute :: u8
  GetCommandDescriptorBlock :: "u8 list"
  GetDataBuffer :: "IOMemoryDescriptor option"
  GetDataBufferOffset :: u64
  GetRequestedDataTransferCount :: u64
  GetDataTransferDirection :: SCSIDirection

record scsi_env =
  family :: "nat \<Rightarrow> scsi_request"
  getAnyObject :: "nat list \<Rightarrow> nat option"
  ssdc :: ssdc_env
  event_alloc_ok :: "nat \<Rightarrow> bool"
  sub_alloc_ok :: "nat \<Rightarrow> bool"
  ctrl_alloc_ok :: "nat \<Rightarrow> bool"
  mgmt_alloc_ok :: "nat \<Rightarrow> bool"

text \<open>The controller object. Its pools hold the numbers of descriptor objects; the objects themselves, the reference
  counts they hold on other descriptors, and the memory of tasks and control requests are kept beside it.
  \<open>sub_ranges\<close> are the arguments of the last \<^verbatim>\<open>initSubRange\<close> of the kernel's sub-descriptors.\<close>

record VirtioSCSIController =
  scsi_active_features :: u32
  max_target :: u16
  max_task_count :: u32
  max_lun :: u32
  seg_max :: u32
  max_sectors :: u32
  virtio_dev :: bool
  multi_subrange_MD_pool :: "nat list option"
  single_subrange_MD_pool :: "nat list option"
  ctrl_readable_pool :: "nat list option"
  ctrl_writable_pool :: "nat list option"
  max_ctrl_tmf :: u32
  multi_mds :: "nat \<Rightarrow> SSDCMultiSubrangeMemoryDescriptor"
  sub_ranges :: "nat \<Rightarrow> (IOMemoryDescriptor \<times> u64 \<times> u64) option"
  md_refs :: refcounts
  tasks :: "nat \<Rightarrow> virtio_scsi_task"
  ctrl_readables :: "nat \<Rightarrow> virtio_scsi_ctrl_tmf_dev_readable"
  ctrl_responses :: "nat \<Rightarrow> u8"
  mgmt_tasks :: "nat \<Rightarrow> virtio_scsi_management_task option"
  next_mgmt :: nat
  event_buffers :: "nat \<Rightarrow> (u64 \<times> virtio_scsi_event) option"
  family_log :: "family_call list"

section \<open>Addresses of logical units\<close>

definition virtio_scsi_target_from_lun_bytes :: "u8 list \<Rightarrow> u64 option" where
  "virtio_scsi_target_from_lun_bytes lun_bytes = do { b \<leftarrow> array_read lun_bytes 1; Some (ucast b) }"

definition virtio_scsi_lun_from_lun_bytes :: "u8 list \<Rightarrow> u64 option" where
  "virtio_scsi_lun_from_lun_bytes lun_bytes = do {
     b2 \<leftarrow> array_read lun_bytes 2;
     b3 \<leftarrow> array_read lun_bytes 3;
     Some (push_bit 8 (ucast b2) OR ucast b3)
   }"

definition virtio_scsi_lun_bytes_from_target_lun :: "u64 \<Rightarrow> u64 \<Rightarrow> u8 list" where
  "virtio_scsi_lun_bytes_from_target_lun target lun =
     [1, ucast target, ucast (drop_bit 8 lun AND 0xff), ucast (lun AND 0xff), 0, 0, 0, 0]"

section \<open>Pools\<close>

definition item_from_pool ::
    "(nat list \<Rightarrow> nat option) \<Rightarrow> nat list option \<Rightarrow> (nat option \<times> nat list option) option" where
  "item_from_pool any pool = do {
     xs \<leftarrow> pool;
     Some (case any xs of None \<Rightarrow> (None, Some xs) | Some item \<Rightarrow> (Some item, Some (remove1 item xs)))
   }"

definition return_item_to_pool :: "nat option \<Rightarrow> nat list option \<Rightarrow> nat list option option" where
  "return_item_to_pool item pool = do {
     xs \<leftarrow> pool;
     i \<leftarrow> item;
     Some (Some (if i \<in> set xs then xs else xs @ [i]))
   }"

section \<open>SCSI tasks\<close>

definition init_multi ::
    "scsi_env \<Rightarrow> nat \<Rightarrow> SSDCMemoryDescriptorSubrange list option \<Rightarrow> nat \<Rightarrow> u32 \<Rightarrow> VirtioSCSIController
     \<Rightarrow> VirtioSCSIController option" where
  "init_multi env i rs count dir c = do {
     (_, d, refs) \<leftarrow> initWithDescriptorRanges (ssdc env) rs count dir False (multi_mds c i, md_refs c);
     Some (c\<lparr>multi_mds := (multi_mds c)(i := d), md_refs := refs\<rparr>)
   }"

definition init_sub :: "nat \<Rightarrow> (IOMemoryDescriptor \<times> u64 \<times> u64) option \<Rightarrow> VirtioSCSIController \<Rightarrow> VirtioSCSIController" where
  "init_sub i r c = c\<lparr>sub_ranges := (sub_ranges c)(i := r)\<rparr>"

definition multi_descriptor :: "VirtioSCSIController \<Rightarrow> nat \<Rightarrow> IOMemoryDescriptor" where
  "multi_descriptor c i = \<lparr>md_id = i, md_length = ssdc_length (multi_mds c i)\<rparr>"

definition sub_descriptor :: "VirtioSCSIController \<Rightarrow> nat \<Rightarrow> IOMemoryDescriptor" where
  "sub_descriptor c i = \<lparr>md_id = i, md_length = (case sub_ranges c i of None \<Rightarrow> 0 | Some (_, _, len) \<Rightarrow> len)\<rparr>"

text \<open>Giving the two descriptors of a task back.\<close>

definition return_descriptors ::
    "scsi_env \<Rightarrow> nat option \<Rightarrow> nat option \<Rightarrow> VirtioSCSIController \<Rightarrow> VirtioSCSIController option" where
  "return_descriptors env multi_md sub_md c = do {
     m \<leftarrow> multi_md;
     c \<leftarrow> init_multi env m None 0 0 c;
     pool \<leftarrow> return_item_to_pool (Some m) (multi_subrange_MD_pool c);
     let c = c\<lparr>multi_subrange_MD_pool := pool\<rparr>;
     s \<leftarrow> sub_md;
     let c = init_sub s None c;
     pool \<leftarrow> return_item_to_pool (Some s) (single_subrange_MD_pool c);
     Some (c\<lparr>single_subrange_MD_pool := pool\<rparr>)
   }"

definition data_size :: "scsi_request \<Rightarrow> u64" where
  "data_size rq = min (GetRequestedDataTransferCount rq)
     (case GetDataBuffer rq of None \<Rightarrow> 0 | Some md \<Rightarrow> md_length md - GetDataBufferOffset rq)"

definition task_header :: "scsi_request \<Rightarrow> virtio_scsi_req_cmd_to_device" where
  "task_header rq = \<lparr>td_lun = virtio_scsi_lun_bytes_from_target_lun (GetTargetIdentifier rq) (GetLogicalUnitNumber rq),
     td_id = GetTaggedTaskIdentifier rq, td_task_attr = GetTaskAttribute rq, td_prio = 0, td_crn = 0,
     td_cdb = GetCommandDescriptorBlock rq\<rparr>"

text \<open>Setting up the descriptors for the direction of the transfer: the ranges of the multi-range descriptor, the
  range of the sub-descriptor, and which of the two the device reads.\<close>

definition task_ranges ::
    "scsi_request \<Rightarrow> SSDCMemoryDescriptorSubrange list \<times> (IOMemoryDescriptor \<times> u64 \<times> u64) \<times> bool" where
  "task_ranges rq =
     (let hba = GetHBADataDescriptor rq;
          to_dev = \<lparr>sr_md = Some hba, sr_offset = to_device_offset, sr_length = to_device_size\<rparr>;
          from_dev = \<lparr>sr_md = Some hba, sr_offset = from_device_offset, sr_length = from_device_size\<rparr>;
          data = \<lparr>sr_md = GetDataBuffer rq, sr_offset = GetDataBufferOffset rq, sr_length = data_size rq\<rparr>
      in case GetDataTransferDirection rq of
           kSCSIDataTransfer_FromInitiatorToTarget \<Rightarrow> ([to_dev, data], (hba, from_device_offset, from_device_size), True)
         | kSCSIDataTransfer_FromTargetToInitiator \<Rightarrow> ([from_dev, data], (hba, to_device_offset, to_device_size), False)
         | kSCSIDataTransfer_NoDataTransfer \<Rightarrow> ([to_dev], (hba, from_device_offset, from_device_size), True))"

definition ProcessParallelTaskInGate ::
    "scsi_env \<Rightarrow> 't VirtioDevice \<Rightarrow> nat \<Rightarrow> VirtioSCSIController \<times> 't
     \<Rightarrow> (SCSIServiceResponse \<times> VirtioSCSIController \<times> 't) option" where
  "ProcessParallelTaskInGate env vt parallelRequest = (\<lambda>(c, t). do {
     let rq = family env parallelRequest;
     let c = c\<lparr>tasks := (tasks c)(parallelRequest := (tasks c parallelRequest)\<lparr>to_device := task_header rq\<rparr>)\<rparr>;
     (multi_md, pool) \<leftarrow> item_from_pool (getAnyObject env) (multi_subrange_MD_pool c);
     let c = c\<lparr>multi_subrange_MD_pool := pool\<rparr>;
     (sub_md, pool) \<leftarrow> item_from_pool (getAnyObject env) (single_subrange_MD_pool c);
     let c = c\<lparr>single_subrange_MD_pool := pool\<rparr>;
     m \<leftarrow> multi_md;
     s \<leftarrow> sub_md;
     let (ranges, sub, multi_readable) = task_ranges rq;
     let old = task_subrange (tasks c parallelRequest);
     c \<leftarrow> init_multi env m (Some ranges) (length ranges) (if multi_readable then 2 else 1) c;
     let c = init_sub s (Some sub) c;
     let c = c\<lparr>tasks := (tasks c)(parallelRequest := (tasks c parallelRequest)
       \<lparr>task_subrange := ranges @ drop (length ranges) old, task_sub_md := sub_md, task_multi_md := multi_md\<rparr>)\<rparr>;
     let (readable, writable) = (if multi_readable then (multi_descriptor c m, sub_descriptor c s)
                                 else (sub_descriptor c s, multi_descriptor c m));
     if \<not> virtio_dev c then None
     else do {
       (result, t) \<leftarrow> vd_submitBuffersToVirtqueue vt 2 (Some readable) (Some writable)
          \<lparr>comp_action = parallelTaskCompletedAction, comp_target = 0, comp_ref = parallelRequest\<rparr> t;
       if result = kIOReturnSuccess then Some (kSCSIServiceResponse_Request_In_Process, c, t)
       else do {
         c \<leftarrow> return_descriptors env multi_md sub_md c;
         Some (kSCSIServiceResponse_SERVICE_DELIVERY_OR_TARGET_FAILURE, c, t)
       }
     }
   })"

definition notify :: "family_call \<Rightarrow> VirtioSCSIController \<Rightarrow> VirtioSCSIController" where
  "notify call c = c\<lparr>family_log := family_log c @ [call]\<rparr>"

definition parallelTaskCompleted ::
    "scsi_env \<Rightarrow> nat \<Rightarrow> bool \<Rightarrow> VirtioSCSIController \<Rightarrow> VirtioSCSIController option" where
  "parallelTaskCompleted env parallelRequest device_reset c = do {
     let task = tasks c parallelRequest;
     let rq = family env parallelRequest;
     c \<leftarrow> return_descriptors env (task_multi_md task) (task_sub_md task) c;
     if \<not> device_reset then do {
       let response = fd_response (from_device task);
       let status = SCSIStatusByte (fd_status (from_device task));
       let (c, service, status, bytes_transferred) =
         (if response = VIRTIO_SCSI_S_OK
          then (notify (SetAutoSenseData parallelRequest (sense_bytes (from_device task)) (sense_len (from_device task))) c,
                kSCSIServiceResponse_TASK_COMPLETE, status,
                if status = SCSIStatusByte 0 then GetRequestedDataTransferCount rq - ucast (residual (from_device task)) else 0)
          else if response = VIRTIO_SCSI_S_BAD_TARGET
          then (notify (DestroyTargetForID (GetTargetIdentifier rq)) c,
                kSCSIServiceResponse_SERVICE_DELIVERY_OR_TARGET_FAILURE, kSCSITaskStatus_DeviceNotPresent, 0)
          else (c, kSCSIServiceResponse_SERVICE_DELIVERY_OR_TARGET_FAILURE, status, 0));
       let c = notify (SetRealizedDataTransferCount parallelRequest bytes_transferred) c;
       Some (notify (CompleteParallelTask parallelRequest status service) c)
     }
     else Some (notify (CompleteParallelTask parallelRequest kSCSITaskStatus_DeviceNotPresent
                  kSCSIServiceResponse_SERVICE_DELIVERY_OR_TARGET_FAILURE) c)
   }"

section \<open>Task management functions\<close>

definition processTaskManagementFunctionInGate ::
    "scsi_env \<Rightarrow> 't VirtioDevice \<Rightarrow> u64 \<Rightarrow> u64 \<Rightarrow> u64 \<Rightarrow> u32 \<Rightarrow> VirtioSCSIController \<times> 't
     \<Rightarrow> (SCSIServiceResponse \<times> VirtioSCSIController \<times> 't) option" where
  "processTaskManagementFunctionInGate env vt theT theL theQ command = (\<lambda>(c, t). do {
     let task = next_mgmt c;
     (device_readable, pool) \<leftarrow> item_from_pool (getAnyObject env) (ctrl_readable_pool c);
     let c = c\<lparr>ctrl_readable_pool := pool\<rparr>;
     (device_writable, pool) \<leftarrow> item_from_pool (getAnyObject env) (ctrl_writable_pool c);
     let c = c\<lparr>ctrl_writable_pool := pool\<rparr>;
     r \<leftarrow> device_readable;
     let c = c\<lparr>ctrl_readables := (ctrl_readables c)(r := \<lparr>tmf_type = VIRTIO_SCSI_T_TMF, tmf_subtype = command,
               tmf_lun = virtio_scsi_lun_bytes_from_target_lun theT theL, tmf_id = theQ\<rparr>)\<rparr>;
     if \<not> mgmt_alloc_ok env task then None
     else do {
       let c = c\<lparr>next_mgmt := task + 1, mgmt_tasks := (mgmt_tasks c)(task \<mapsto>
            \<lparr>mt_readable = device_readable, mt_writable = device_writable, mt_theT = theT, mt_theL = theL,
             mt_theQ = theQ, mt_command = command\<rparr>)\<rparr>;
       if \<not> virtio_dev c then None
       else do {
         (result, t) \<leftarrow> vd_submitBuffersToVirtqueue vt 0 (Some \<lparr>md_id = r, md_length = 24\<rparr>)
            (map_option (\<lambda>w. \<lparr>md_id = w, md_length = 1\<rparr>) device_writable)
            \<lparr>comp_action = processTaskManagementCompletedAction, comp_target = 0, comp_ref = task\<rparr> t;
         if result = kIOReturnSuccess then Some (kSCSIServiceResponse_Request_In_Process, c, t)
         else do {
           let c = c\<lparr>mgmt_tasks := (mgmt_tasks c)(task := None)\<rparr>;
           pool \<leftarrow> return_item_to_pool device_readable (ctrl_readable_pool c);
           let c = c\<lparr>ctrl_readable_pool := pool\<rparr>;
           pool \<leftarrow> return_item_to_pool device_writable (ctrl_writable_pool c);
           Some (kSCSIServiceResponse_SERVICE_DELIVERY_OR_TARGET_FAILURE, c\<lparr>ctrl_writable_pool := pool\<rparr>, t)
         }
       }
     }
   })"

definition tmf_response :: "bool \<Rightarrow> u8 \<Rightarrow> SCSIServiceResponse" where
  "tmf_response device_reset response =
     (if device_reset then kSCSIServiceResponse_SERVICE_DELIVERY_OR_TARGET_FAILURE
      else if response = VIRTIO_SCSI_S_FUNCTION_COMPLETE \<or> response = VIRTIO_SCSI_S_FUNCTION_SUCCEEDED
      then kSCSIServiceResponse_FUNCTION_COMPLETE
      else if response = VIRTIO_SCSI_S_FUNCTION_REJECTED then kSCSIServiceResponse_FUNCTION_REJECTED
      else kSCSIServiceResponse_SERVICE_DELIVERY_OR_TARGET_FAILURE)"

definition tmf_completion_calls :: "virtio_scsi_management_task \<Rightarrow> SCSIServiceResponse \<Rightarrow> family_call list" where
  "tmf_completion_calls task response =
     (let command = mt_command task; theT = mt_theT task; theL = mt_theL task in
      if command = VIRTIO_SCSI_T_TMF_ABORT_TASK then [CompleteAbortTask theT theL (mt_theQ task) response]
      else if command = VIRTIO_SCSI_T_TMF_ABORT_TASK_SET then [CompleteAbortTaskSet theT theL response]
      else if command = VIRTIO_SCSI_T_TMF_CLEAR_ACA then [CompleteClearACA theT theL response]
      else if command = VIRTIO_SCSI_T_TMF_CLEAR_TASK_SET then [CompleteClearTaskSet theT theL response]
      else if command = VIRTIO_SCSI_T_TMF_I_T_NEXUS_RESET then [CompleteTargetReset theT response]
      else if command = VIRTIO_SCSI_T_TMF_LOGICAL_UNIT_RESET then [CompleteLogicalUnitReset theT theL response]
      else [])"

definition taskManagementFunctionCompleted ::
    "nat \<Rightarrow> bool \<Rightarrow> VirtioSCSIController \<Rightarrow> VirtioSCSIController option" where
  "taskManagementFunctionCompleted i device_reset c = do {
     task \<leftarrow> mgmt_tasks c i;
     w \<leftarrow> mt_writable task;
     let scsi_response = tmf_response device_reset (ctrl_responses c w);
     pool \<leftarrow> return_item_to_pool (mt_readable task) (ctrl_readable_pool c);
     let c = c\<lparr>ctrl_readable_pool := pool\<rparr>;
     pool \<leftarrow> return_item_to_pool (Some w) (ctrl_writable_pool c);
     let c = c\<lparr>ctrl_writable_pool := pool\<rparr>;
     Some (c\<lparr>family_log := family_log c @ tmf_completion_calls task scsi_response,
             mgmt_tasks := (mgmt_tasks c)(i := None)\<rparr>)
   }"

definition AbortTaskRequest ::
    "scsi_env \<Rightarrow> 't VirtioDevice \<Rightarrow> u64 \<Rightarrow> u64 \<Rightarrow> u64 \<Rightarrow> VirtioSCSIController \<times> 't
     \<Rightarrow> (SCSIServiceResponse \<times> VirtioSCSIController \<times> 't) option" where
  "AbortTaskRequest env vt theT theL theQ =
     processTaskManagementFunctionInGate env vt theT theL theQ VIRTIO_SCSI_T_TMF_ABORT_TASK"

definition AbortTaskSetRequest ::
    "scsi_env \<Rightarrow> 't VirtioDevice \<Rightarrow> u64 \<Rightarrow> u64 \<Rightarrow> VirtioSCSIController \<times> 't
     \<Rightarrow> (SCSIServiceResponse \<times> VirtioSCSIController \<times> 't) option" where
  "AbortTaskSetRequest env vt theT theL =
     processTaskManagementFunctionInGate env vt theT theL 0 VIRTIO_SCSI_T_TMF_ABORT_TASK_SET"

definition ClearACARequest ::
    "scsi_env \<Rightarrow> 't VirtioDevice \<Rightarrow> u64 \<Rightarrow> u64 \<Rightarrow> VirtioSCSIController \<times> 't
     \<Rightarrow> (SCSIServiceResponse \<times> VirtioSCSIController \<times> 't) option" where
  "ClearACARequest env vt theT theL = processTaskManagementFunctionInGate env vt theT theL 0 VIRTIO_SCSI_T_TMF_CLEAR_ACA"

definition ClearTaskSetRequest ::
    "scsi_env \<Rightarrow> 't VirtioDevice \<Rightarrow> u64 \<Rightarrow> u64 \<Rightarrow> VirtioSCSIController \<times> 't
     \<Rightarrow> (SCSIServiceResponse \<times> VirtioSCSIController \<times> 't) option" where
  "ClearTaskSetRequest env vt theT theL =
     processTaskManagementFunctionInGate env vt theT theL 0 VIRTIO_SCSI_T_TMF_CLEAR_TASK_SET"

definition LogicalUnitResetRequest ::
    "scsi_env \<Rightarrow> 't VirtioDevice \<Rightarrow> u64 \<Rightarrow> u64 \<Rightarrow> VirtioSCSIController \<times> 't
     \<Rightarrow> (SCSIServiceResponse \<times> VirtioSCSIController \<times> 't) option" where
  "LogicalUnitResetRequest env vt theT theL =
     processTaskManagementFunctionInGate env vt theT theL 0 VIRTIO_SCSI_T_TMF_LOGICAL_UNIT_RESET"

definition TargetResetRequest ::
    "scsi_env \<Rightarrow> 't VirtioDevice \<Rightarrow> u64 \<Rightarrow> VirtioSCSIController \<times> 't
     \<Rightarrow> (SCSIServiceResponse \<times> VirtioSCSIController \<times> 't) option" where
  "TargetResetRequest env vt theT = processTaskManagementFunctionInGate env vt theT 0 0 VIRTIO_SCSI_T_TMF_I_T_NEXUS_RESET"

section \<open>Events\<close>

definition eventCompleted ::
    "'t VirtioDevice \<Rightarrow> nat \<Rightarrow> bool \<Rightarrow> VirtioSCSIController \<times> 't \<Rightarrow> (VirtioSCSIController \<times> 't) option" where
  "eventCompleted vt e device_reset = (\<lambda>(c, t).
     if device_reset then Some (c\<lparr>event_buffers := (event_buffers c)(e := None)\<rparr>, t)
     else do {
       (len, event) \<leftarrow> event_buffers c e;
       target \<leftarrow> array_read (ev_lun event) 1;
       let c = (if ev_event event = VIRTIO_SCSI_T_TRANSPORT_RESET
                then if ev_reason event = VIRTIO_SCSI_EVT_RESET_RESCAN then notify (CreateTargetForID (ucast target)) c
                     else if ev_reason event = VIRTIO_SCSI_EVT_RESET_REMOVED then notify (DestroyTargetForID (ucast target)) c
                     else c
                else c);
       if \<not> virtio_dev c then None
       else do {
         (res, t) \<leftarrow> vd_submitBuffersToVirtqueue vt 1 None (Some \<lparr>md_id = e, md_length = len\<rparr>)
            \<lparr>comp_action = eventCompletedAction, comp_target = 0, comp_ref = e\<rparr> t;
         Some (if res \<noteq> kIOReturnSuccess then c\<lparr>event_buffers := (event_buffers c)(e := None)\<rparr> else c, t)
       }
     })"

text \<open>Handing buffers \<open>i, i + 1, \<dots>\<close> for events to the device, \<open>n\<close> at most.\<close>

fun submit_events ::
    "scsi_env \<Rightarrow> 't VirtioDevice \<Rightarrow> u32 \<Rightarrow> nat \<Rightarrow> nat \<Rightarrow> VirtioSCSIController \<times> 't \<Rightarrow> (VirtioSCSIController \<times> 't) option" where
  "submit_events env vt info_size i 0 st = Some st"
| "submit_events env vt info_size i (Suc n) (c, t) = do {
     let ok = event_alloc_ok env i;
     let c = (if ok then c\<lparr>event_buffers := (event_buffers c)(i \<mapsto>
               (ucast info_size, \<lparr>ev_event = 0, ev_lun = replicate 8 0, ev_reason = 0\<rparr>))\<rparr> else c);
     (res, t) \<leftarrow> vd_submitBuffersToVirtqueue vt 1 None (if ok then Some \<lparr>md_id = i, md_length = ucast info_size\<rparr> else None)
        \<lparr>comp_action = eventCompletedAction, comp_target = 0, comp_ref = i\<rparr> t;
     if res \<noteq> kIOReturnSuccess
     then if ok then Some (c\<lparr>event_buffers := (event_buffers c)(i := None)\<rparr>, t) else None
     else submit_events env vt info_size (i + 1) n (c, t)
   }"

section \<open>Initialisation and termination\<close>

text \<open>Filling a pool: \<open>alloc\<close> tells whether object \<open>i\<close> can be made; a failed allocation is dereferenced.\<close>

fun fill_MD_pools :: "scsi_env \<Rightarrow> nat \<Rightarrow> nat \<Rightarrow> VirtioSCSIController \<Rightarrow> VirtioSCSIController option" where
  "fill_MD_pools env i 0 c = Some c"
| "fill_MD_pools env i (Suc n) c = do {
     (multi_md, refs) \<leftarrow> withDescriptorRanges (ssdc env) None 0 0 False (md_refs c);
     d \<leftarrow> multi_md;
     multi \<leftarrow> multi_subrange_MD_pool c;
     single \<leftarrow> single_subrange_MD_pool c;
     if \<not> sub_alloc_ok env i then None
     else fill_MD_pools env (i + 1) n (c\<lparr>multi_mds := (multi_mds c)(i := d), md_refs := refs,
            sub_ranges := (sub_ranges c)(i := None),
            multi_subrange_MD_pool := Some (multi @ [i]), single_subrange_MD_pool := Some (single @ [i])\<rparr>)
   }"

fun fill_ctrl_pools :: "scsi_env \<Rightarrow> nat \<Rightarrow> nat \<Rightarrow> VirtioSCSIController \<Rightarrow> VirtioSCSIController option" where
  "fill_ctrl_pools env i 0 c = Some c"
| "fill_ctrl_pools env i (Suc n) c = do {
     readable \<leftarrow> ctrl_readable_pool c;
     writable \<leftarrow> ctrl_writable_pool c;
     if \<not> ctrl_alloc_ok env i then None
     else fill_ctrl_pools env (i + 1) n
       (c\<lparr>ctrl_readable_pool := Some (readable @ [i]), ctrl_writable_pool := Some (writable @ [i])\<rparr>)
   }"

text \<open>The fields of the configuration area in the order they are read; those that are only printed are dropped.\<close>

definition read_scsi_config ::
    "'t VirtioDevice \<Rightarrow> VirtioSCSIController \<times> 't \<Rightarrow> ((u32 \<times> u32) \<times> VirtioSCSIController \<times> 't) option" where
  "read_scsi_config vt = (\<lambda>(c, t). do {
     (num_queues, t) \<leftarrow> vd_readDeviceConfig32LETransitional vt CONFIG_NUM_QUEUES_OFFSET t;
     (v_seg_max, t) \<leftarrow> vd_readDeviceConfig32LETransitional vt CONFIG_SEG_MAX_OFFSET t;
     (v_max_sectors, t) \<leftarrow> vd_readDeviceConfig32LETransitional vt CONFIG_MAX_SECTORS_OFFSET t;
     (cmd_per_lun, t) \<leftarrow> vd_readDeviceConfig32LETransitional vt CONFIG_CMD_PER_LUN_OFFSET t;
     (event_info_size, t) \<leftarrow> vd_readDeviceConfig32LETransitional vt CONFIG_EVENT_INFO_SIZE_OFFSET t;
     (sense_size, t) \<leftarrow> vd_readDeviceConfig32LETransitional vt CONFIG_SENSE_SIZE_OFFSET t;
     (cdb_size, t) \<leftarrow> vd_readDeviceConfig32LETransitional vt CONFIG_CDB_SIZE_OFFSET t;
     (max_channel, t) \<leftarrow> vd_readDeviceConfig16LETransitional vt CONFIG_MAX_CHANNEL_OFFSET t;
     (v_max_target, t) \<leftarrow> vd_readDeviceConfig16LETransitional vt CONFIG_MAX_TARGET_OFFSET t;
     (v_max_lun, t) \<leftarrow> vd_readDeviceConfig32LETransitional vt CONFIG_MAX_LUN_OFFSET t;
     Some ((cmd_per_lun, event_info_size),
       c\<lparr>seg_max := v_seg_max, max_sectors := v_max_sectors, max_target := v_max_target, max_lun := v_max_lun\<rparr>, t)
   })"

text \<open>Once the queues are set up: limits, buffers for events and pools.\<close>

definition initialize_queues ::
    "scsi_env \<Rightarrow> 't VirtioDevice \<Rightarrow> u32 \<Rightarrow> u32 \<Rightarrow> u32 list \<Rightarrow> VirtioSCSIController \<times> 't \<Rightarrow> (VirtioSCSIController \<times> 't) option" where
  "initialize_queues env vt cmd_per_lun event_info_size queue_sizes = (\<lambda>(c, t). do {
     q0 \<leftarrow> array_read queue_sizes 0;
     q1 \<leftarrow> array_read queue_sizes 1;
     q2 \<leftarrow> array_read queue_sizes 2;
     let c = c\<lparr>max_task_count := min cmd_per_lun q2, virtio_dev := True\<rparr>;
     (c, t) \<leftarrow> submit_events env vt event_info_size 0 (unat q1) (c, t);
     c \<leftarrow> fill_MD_pools env 0 (unat (max_task_count c))
        (c\<lparr>multi_subrange_MD_pool := Some [], single_subrange_MD_pool := Some []\<rparr>);
     c \<leftarrow> fill_ctrl_pools env 0 (unat q0)
        (c\<lparr>max_ctrl_tmf := q0, ctrl_readable_pool := Some [], ctrl_writable_pool := Some []\<rparr>);
     Some (c, t)
   })"

definition InitializeController ::
    "scsi_env \<Rightarrow> 't VirtioDevice \<Rightarrow> bool \<Rightarrow> VirtioSCSIController \<times> 't \<Rightarrow> (bool \<times> VirtioSCSIController \<times> 't) option" where
  "InitializeController env vt provider_is_virtio = (\<lambda>(c, t).
     if \<not> provider_is_virtio then Some (False, c, t)
     else do {
       (_, t) \<leftarrow> vd_resetDevice vt t;
       let use_features = vd_supportedFeatures vt t AND SCSI_SUPPORTED_FEATURES;
       let c = c\<lparr>scsi_active_features := use_features\<rparr>;
       (ok, t) \<leftarrow> vd_requestFeatures vt use_features t;
       if \<not> ok then do {
         t \<leftarrow> vd_failDevice vt t;
         Some (False, c, t)
       } else do {
         ((cmd_per_lun, event_info_size), c, t) \<leftarrow> read_scsi_config vt (c, t);
         t \<leftarrow> vd_writeDeviceConfig32LETransitional vt CONFIG_CDB_SIZE_OFFSET kSCSICDBSize_Maximum t;
         let request_queue_segs = 2 + seg_max c + (if has_bits use_features VIRTIO_SCSI_F_INOUT then seg_max c else 0);
         (result, queue_sizes, t) \<leftarrow> vd_setupVirtqueues vt 3 (\<lambda>_. True)
            (\<lambda>i. if i = 0 then 2 else if i = 1 then 0 else request_queue_segs) t;
         if result \<noteq> kIOReturnSuccess then do {
           t \<leftarrow> vd_failDevice vt t;
           t \<leftarrow> vd_close vt t;
           Some (False, c, t)
         } else do {
           (c, t) \<leftarrow> initialize_queues env vt cmd_per_lun event_info_size queue_sizes (c, t);
           t \<leftarrow> vd_startDevice vt False True t;
           Some (True, c, t)
         }
       }
     })"

definition StartController :: "VirtioSCSIController \<Rightarrow> bool \<times> VirtioSCSIController" where
  "StartController c = (True,
     if has_bits (scsi_active_features c) VIRTIO_SCSI_F_HOTPLUG
     then foldl (\<lambda>c i. notify (CreateTargetForID (of_nat i)) c) c [0..<unat (max_target c)] else c)"

definition TerminateController ::
    "'t VirtioDevice \<Rightarrow> VirtioSCSIController \<times> 't \<Rightarrow> (VirtioSCSIController \<times> 't) option" where
  "TerminateController vt = (\<lambda>(c, t). do {
     (c, t) \<leftarrow> (if virtio_dev c then do { t \<leftarrow> vd_failDevice vt t; Some (c\<lparr>virtio_dev := False\<rparr>, t) } else Some (c, t));
     Some (c\<lparr>single_subrange_MD_pool := None, multi_subrange_MD_pool := None, ctrl_readable_pool := None,
             ctrl_writable_pool := None\<rparr>, t)
   })"

section \<open>Reports to the family\<close>

definition ReportInitiatorIdentifier :: "VirtioSCSIController \<Rightarrow> u64" where
  "ReportInitiatorIdentifier c = ucast (max_target c) + 1"
definition ReportHighestSupportedDeviceID :: "VirtioSCSIController \<Rightarrow> u64" where
  "ReportHighestSupportedDeviceID c = ucast (max_target c)"
definition ReportMaximumTaskCount :: "VirtioSCSIController \<Rightarrow> u32" where
  "ReportMaximumTaskCount c = max_task_count c"
definition ReportHBASpecificTaskDataSize :: u32 where
  "ReportHBASpecificTaskDataSize = ucast (from_device_offset + from_device_size)"
definition ReportHBASpecificDeviceDataSize :: u32 where
  "ReportHBASpecificDeviceDataSize = 0"
definition DoesHBAPerformDeviceManagement :: "VirtioSCSIController \<Rightarrow> bool" where
  "DoesHBAPerformDeviceManagement c = has_bits (scsi_active_features c) VIRTIO_SCSI_F_HOTPLUG"
definition ReportHBAHighestLogicalUnitNumber :: "VirtioSCSIController \<Rightarrow> u64" where
  "ReportHBAHighestLogicalUnitNumber c = ucast (max_lun c)"
definition DoesHBASupportSCSIParallelFeature :: "nat \<Rightarrow> bool" where
  "DoesHBASupportSCSIParallelFeature theFeature = False"
definition DoesHBAPerformAutoSense :: bool where
  "DoesHBAPerformAutoSense = True"
definition InitializeTargetForID :: "u64 \<Rightarrow> bool" where
  "InitializeTargetForID targetID = True"

definition ReportHBAConstraints :: "VirtioSCSIController \<Rightarrow> (string \<times> property_value) list" where
  "ReportHBAConstraints c =
     [(''kIOMaximumSegmentCountReadKey'', OSNumber (ucast (seg_max c))),
      (''kIOMaximumSegmentCountWriteKey'', OSNumber (ucast (seg_max c))),
      (''kIOMaximumSegmentByteCountReadKey'', OSNumber 0xFFFFFFFF),
      (''kIOMaximumSegmentByteCountWriteKey'', OSNumber 0xFFFFFFFF),
      (''kIOMinimumSegmentAlignmentByteCountKey'', OSNumber 1),
      (''kIOMaximumSegmentAddressableBitCountKey'', OSNumber 64),
      (''kIOMinimumHBADataAlignmentMaskKey'', OSNumber 0xFFFFFFFFFFFFFFFF),
      (''kIOHierarchicalLogicalUnitSupportKey'', OSOther),
      (''kIOMaximumBlockCountReadKey'', OSNumber (ucast (max_sectors c))),
      (''kIOMaximumBlockCountWriteKey'', OSNumber (ucast (max_sectors c)))]"

end
