(* ===== verification/SCSI_Controller_Props.thy ===== *)
theory SCSI_Controller_Props
  imports SCSI_Controller
begin

text \<open>
  Properties of the SCSI driver: the addresses of logical units survive their encoding; every
  sequence of tasks, task management functions, completions and events within the limits that
  the driver reports to the family is free of null dereferences and conserves descriptors and
  references; completions report the result of the device; and what happens outside these limits.
\<close>

section \<open>Addresses of logical units\<close>

lemma and_0xff: "w AND 0xff = take_bit 8 w" for w :: u64
proof -
  have "(0xff :: u64) = mask 8" by (simp add: mask_eq_exp_minus_1)
  then show ?thesis by (simp add: take_bit_eq_mask)
qed

lemma take_bit_word_self_iff: "take_bit n w = w \<longleftrightarrow> unat w < 2 ^ n" for w :: "'a::len word"
  by (simp only: word_eq_iff_unsigned [where ?'a = nat] unsigned_take_bit_eq take_bit_nat_eq_self_iff)

lemma lun_bytes_decoded:
  "virtio_scsi_target_from_lun_bytes (virtio_scsi_lun_bytes_from_target_lun target lun) = Some (take_bit 8 target)"
  "virtio_scsi_lun_from_lun_bytes (virtio_scsi_lun_bytes_from_target_lun target lun) = Some (take_bit 16 lun)"
proof -
  show "virtio_scsi_target_from_lun_bytes (virtio_scsi_lun_bytes_from_target_lun target lun) = Some (take_bit 8 target)"
    unfolding virtio_scsi_target_from_lun_bytes_def virtio_scsi_lun_bytes_from_target_lun_def
    by (simp add: array_read_def) (rule bit_word_eqI, auto simp: bit_simps)
  have "push_bit 8 (ucast (ucast (take_bit 8 (drop_bit 8 lun)) :: u8)) OR ucast (ucast (take_bit 8 lun) :: u8) = take_bit 16 lun"
    by (rule bit_word_eqI) (auto simp: bit_simps)
  then show "virtio_scsi_lun_from_lun_bytes (virtio_scsi_lun_bytes_from_target_lun target lun) = Some (take_bit 16 lun)"
    unfolding virtio_scsi_lun_from_lun_bytes_def virtio_scsi_lun_bytes_from_target_lun_def
    by (simp add: array_read_def and_0xff)
qed

text \<open>
  Round trip of addresses. Target and logical unit are recovered from the eight bytes sent to the device
  modulo 256 and 65536, so exactly the addresses below these bounds survive.
\<close>

theorem scsi_lun_roundtrip:
  "virtio_scsi_target_from_lun_bytes (virtio_scsi_lun_bytes_from_target_lun target lun) = Some target
     \<and> virtio_scsi_lun_from_lun_bytes (virtio_scsi_lun_bytes_from_target_lun target lun) = Some lun
   \<longleftrightarrow> unat target < 256 \<and> unat lun < 65536"
  by (simp add: lun_bytes_decoded take_bit_word_self_iff)

section \<open>Invariants\<close>

text \<open>What \<^verbatim>\<open>OSSet\<close> promises of \<^verbatim>\<open>getAnyObject\<close>: some element, unless the set is empty.\<close>

locale os_set =
  fixes any :: "nat list \<Rightarrow> nat option"
  assumes any_empty: "any [] = None"
    and any_member: "xs \<noteq> [] \<Longrightarrow> \<exists>x \<in> set xs. any xs = Some x"
begin

lemma item_from_pool_nonempty:
  assumes "xs \<noteq> []"
  shows "\<exists>x \<in> set xs. item_from_pool any (Some xs) = Some (Some x, Some (remove1 x xs))"
  using any_member [OF assms] by (auto simp: item_from_pool_def)

lemma item_from_pool_empty: "item_from_pool any (Some []) = Some (None, Some [])"
  by (simp add: item_from_pool_def any_empty)

end

definition first_object :: "nat list \<Rightarrow> nat option" where
  "first_object xs = (case xs of [] \<Rightarrow> None | x # _ \<Rightarrow> Some x)"

interpretation first_object: os_set first_object
  by unfold_locales (auto simp: first_object_def split: list.splits)

text \<open>A pool and the descriptors of the tasks under way are together exactly the objects made for the pool.\<close>

definition pool_split :: "nat \<Rightarrow> nat list option \<Rightarrow> nat option list \<Rightarrow> bool" where
  "pool_split N pool used \<longleftrightarrow> (\<exists>xs ys. pool = Some xs \<and> used = map Some ys \<and> distinct (xs @ ys) \<and> set (xs @ ys) = {..<N})"

definition task_uses :: "VirtioSCSIController \<Rightarrow> nat list \<Rightarrow> nat \<Rightarrow> int" where
  "task_uses c out m = (\<Sum>p \<leftarrow> out. md_uses (held_ranges (multi_mds c (the (task_multi_md (tasks c p))))) m)"

definition task_inv :: "nat \<Rightarrow> refcounts \<Rightarrow> VirtioSCSIController \<Rightarrow> nat list \<Rightarrow> bool" where
  "task_inv N base c out \<longleftrightarrow> virtio_dev c \<and> distinct out
     \<and> pool_split N (multi_subrange_MD_pool c) (map (\<lambda>p. task_multi_md (tasks c p)) out)
     \<and> pool_split N (single_subrange_MD_pool c) (map (\<lambda>p. task_sub_md (tasks c p)) out)
     \<and> (\<forall>i < N. ssdc_inv (multi_mds c i) \<and> initialised (multi_mds c i))
     \<and> (\<forall>i \<in> set (the (multi_subrange_MD_pool c)). held_ranges (multi_mds c i) = [])
     \<and> (\<forall>m. md_refs c m = base m + task_uses c out m)"

lemma pool_split_take:
  assumes "os_set any" "pool_split N pool used" "length used < N"
  shows "\<exists>x < N. \<exists>pool'. x \<in> set (the pool) \<and> item_from_pool any pool = Some (Some x, pool')
    \<and> pool_split N pool' (Some x # used) \<and> set (the pool') = set (the pool) - {x} \<and> Some x \<notin> set used"
proof -
  obtain xs ys where p: "pool = Some xs" "used = map Some ys" "distinct (xs @ ys)" "set (xs @ ys) = {..<N}"
    using assms(2) by (auto simp: pool_split_def)
  then have "length xs + length ys = N" using distinct_card [of "xs @ ys"] by simp
  then have "xs \<noteq> []" using assms(3) p(2) by auto
  then obtain x where x: "x \<in> set xs" "item_from_pool any pool = Some (Some x, Some (remove1 x xs))"
    using os_set.item_from_pool_nonempty [OF assms(1)] p(1) by blast
  have set1: "set (remove1 x xs) = set xs - {x}" using p(3) by (simp add: set_remove1_eq)
  have "pool_split N (Some (remove1 x xs)) (Some x # used)"
    unfolding pool_split_def
  proof (intro exI conjI)
    show "Some x # used = map Some (x # ys)" using p(2) by simp
    show "distinct (remove1 x xs @ x # ys)" using p(3) x(1) set1 by (auto simp: distinct_remove1)
    show "set (remove1 x xs @ x # ys) = {..<N}" using p(3,4) x(1) set1 by auto
  qed simp
  moreover have "Some x \<notin> set used" "x < N" using p(2,3,4) x(1) by auto
  ultimately show ?thesis
    using x p(1) set1 by (intro exI [of _ x] conjI exI [of _ "Some (remove1 x xs)"]) simp_all
qed

lemma pool_split_return:
  assumes "pool_split N pool (us @ Some x # vs)"
  shows "\<exists>pool'. return_item_to_pool (Some x) pool = Some pool' \<and> pool_split N pool' (us @ vs)
    \<and> set (the pool') = insert x (set (the pool)) \<and> x < N \<and> pool' \<noteq> None \<and> x \<notin> set (the pool) \<and> pool \<noteq> None
    \<and> Some x \<notin> set us \<and> Some x \<notin> set vs"
proof -
  obtain xs ys where p: "pool = Some xs" "us @ Some x # vs = map Some ys" "distinct (xs @ ys)" "set (xs @ ys) = {..<N}"
    using assms by (auto simp: pool_split_def)
  obtain as bs where q: "ys = as @ x # bs" "us = map Some as" "vs = map Some bs"
    using p(2) by (auto simp: append_eq_map_conv Cons_eq_map_conv)
  have "pool_split N (Some (xs @ [x])) (us @ vs)"
    unfolding pool_split_def
  proof (intro exI conjI)
    show "us @ vs = map Some (as @ bs)" using q by simp
    show "distinct ((xs @ [x]) @ as @ bs)" using p(3) q by auto
    show "set ((xs @ [x]) @ as @ bs) = {..<N}" using p(4) q by auto
  qed simp
  moreover have "x < N" "x \<notin> set xs" "Some x \<notin> set us" "Some x \<notin> set vs" using p(3,4) q by auto
  ultimately show ?thesis
    using p(1) by (intro exI [of _ "Some (xs @ [x])"] conjI) (simp_all add: return_item_to_pool_def)
qed

section \<open>One task\<close>

lemma init_multi_set:
  assumes "ssdc_inv (multi_mds c i)" "initialised (multi_mds c i)" "ranges_ok rs"
  shows "\<exists>d. init_multi env i (Some rs) (length rs) dir c = Some (c\<lparr>multi_mds := (multi_mds c)(i := d),
      md_refs := (\<lambda>m. md_refs c m - md_uses (held_ranges (multi_mds c i)) m + md_uses rs m)\<rparr>)
    \<and> ssdc_inv d \<and> held_ranges d = rs \<and> initialised d \<and> ssdc_length d = sum_list (map sr_length rs)"
  using init_result [of "multi_mds c i" "ssdc env" False rs dir "md_refs c"] assms by (auto simp: init_multi_def)

lemma init_multi_clear:
  assumes "ssdc_inv (multi_mds c i)" "initialised (multi_mds c i)"
  shows "\<exists>d. init_multi env i None 0 0 c = Some (c\<lparr>multi_mds := (multi_mds c)(i := d),
      md_refs := (\<lambda>m. md_refs c m - md_uses (held_ranges (multi_mds c i)) m)\<rparr>)
    \<and> ssdc_inv d \<and> held_ranges d = [] \<and> initialised d"
  using init_empty [of "multi_mds c i" "ssdc env" None 0 False "md_refs c"] assms by (auto simp: init_multi_def)

text \<open>Operations on the descriptors of tasks leave the rest of the controller alone.\<close>

definition same_rest :: "VirtioSCSIController \<Rightarrow> VirtioSCSIController \<Rightarrow> bool" where
  "same_rest c c' \<longleftrightarrow> (\<exists>md r mp sr sp ts. c' = c\<lparr>multi_mds := md, md_refs := r, multi_subrange_MD_pool := mp,
     sub_ranges := sr, single_subrange_MD_pool := sp, tasks := ts\<rparr>)"

lemma same_restI:
  "c\<lparr>multi_mds := multi_mds c', md_refs := md_refs c', multi_subrange_MD_pool := multi_subrange_MD_pool c',
     sub_ranges := sub_ranges c', single_subrange_MD_pool := single_subrange_MD_pool c', tasks := tasks c'\<rparr> = c' \<Longrightarrow> same_rest c c'"
  unfolding same_rest_def by metis

lemma same_rest_fields:
  assumes "same_rest c c'"
  shows "virtio_dev c' = virtio_dev c" "family_log c' = family_log c" "ctrl_readable_pool c' = ctrl_readable_pool c"
    "ctrl_writable_pool c' = ctrl_writable_pool c" "mgmt_tasks c' = mgmt_tasks c" "next_mgmt c' = next_mgmt c"
    "event_buffers c' = event_buffers c" "max_ctrl_tmf c' = max_ctrl_tmf c" "max_task_count c' = max_task_count c"
  using assms by (auto simp: same_rest_def)

lemma same_rest_trans: "same_rest a b \<Longrightarrow> same_rest b c \<Longrightarrow> same_rest a c"
  unfolding same_rest_def by (elim exE, simp) (intro exI, rule refl)

lemma pool_split_lookup: "pool_split N pool used \<Longrightarrow> u \<in> set used \<Longrightarrow> \<exists>x < N. u = Some x"
  by (auto simp: pool_split_def) (metis UnI2 lessThan_iff)

lemma task_uses_cong:
  assumes "\<forall>q \<in> set out. the (task_multi_md (tasks c' q)) = the (task_multi_md (tasks c q))
     \<and> multi_mds c' (the (task_multi_md (tasks c q))) = multi_mds c (the (task_multi_md (tasks c q)))"
  shows "task_uses c' out m = task_uses c out m"
  unfolding task_uses_def using assms by (intro arg_cong [of _ _ sum_list] map_cong) auto

lemma return_descriptors_inv:
  assumes inv: "task_inv N base c (us @ p # vs)"
  shows "\<exists>c'. return_descriptors env (task_multi_md (tasks c p)) (task_sub_md (tasks c p)) c = Some c'
    \<and> task_inv N base c' (us @ vs) \<and> same_rest c c' \<and> tasks c' = tasks c"
proof -
  let ?out = "us @ p # vs" and ?mu = "\<lambda>q. task_multi_md (tasks c q)" and ?su = "\<lambda>q. task_sub_md (tasks c q)"
  have ps: "pool_split N (multi_subrange_MD_pool c) (map ?mu us @ ?mu p # map ?mu vs)"
    "pool_split N (single_subrange_MD_pool c) (map ?su us @ ?su p # map ?su vs)"
    using inv by (auto simp: task_inv_def)
  obtain m s where ms: "?mu p = Some m" "?su p = Some s" "m < N"
    using pool_split_lookup [OF ps(1), of "?mu p"] pool_split_lookup [OF ps(2), of "?su p"] by auto
  obtain mp where mp: "return_item_to_pool (Some m) (multi_subrange_MD_pool c) = Some mp"
    "pool_split N mp (map ?mu us @ map ?mu vs)" "set (the mp) = insert m (set (the (multi_subrange_MD_pool c)))"
    "Some m \<notin> ?mu ` set us" "Some m \<notin> ?mu ` set vs"
    using pool_split_return [OF ps(1) [unfolded ms(1)]] by auto
  obtain sp where sp: "return_item_to_pool (Some s) (single_subrange_MD_pool c) = Some sp"
    "pool_split N sp (map ?su us @ map ?su vs)"
    using pool_split_return [OF ps(2) [unfolded ms(2)]] by auto
  have d: "ssdc_inv (multi_mds c m)" "initialised (multi_mds c m)" using inv ms(3) by (auto simp: task_inv_def)
  obtain d' where d': "init_multi env m None 0 0 c = Some (c\<lparr>multi_mds := (multi_mds c)(m := d'),
      md_refs := (\<lambda>x. md_refs c x - md_uses (held_ranges (multi_mds c m)) x)\<rparr>)" "ssdc_inv d'" "held_ranges d' = []" "initialised d'"
    using init_multi_clear [OF d] by blast
  let ?c = "c\<lparr>multi_mds := (multi_mds c)(m := d'), md_refs := (\<lambda>x. md_refs c x - md_uses (held_ranges (multi_mds c m)) x),
     multi_subrange_MD_pool := mp, sub_ranges := (sub_ranges c)(s := None), single_subrange_MD_pool := sp\<rparr>"
  have r: "return_descriptors env (?mu p) (?su p) c = Some ?c"
    using ms d'(1) mp(1) sp(1) by (simp add: return_descriptors_def init_sub_def Let_def)
  have ne: "the (?mu q) \<noteq> m" if "q \<in> set (us @ vs)" for q
  proof
    assume "the (?mu q) = m"
    moreover have "?mu q \<in> set (map ?mu us @ map ?mu vs)" using that by auto
    then obtain x where "?mu q = Some x" using pool_split_lookup [OF mp(2)] by blast
    ultimately show False using mp(4,5) that by force
  qed
  have "task_uses ?c (us @ vs) x = task_uses c (us @ vs) x" for x
    by (rule task_uses_cong) (use ne in auto)
  moreover have "task_uses c ?out x = task_uses c (us @ vs) x + md_uses (held_ranges (multi_mds c m)) x" for x
    using ms(1) by (simp add: task_uses_def)
  ultimately have "task_inv N base ?c (us @ vs)"
    using inv mp(2,3) sp(2) d' by (auto simp: task_inv_def)
  moreover have "same_rest c ?c" by (rule same_restI) simp
  ultimately show ?thesis using r by auto
qed

text \<open>A task with a transfer has a buffer for it.\<close>

definition request_ok :: "scsi_request \<Rightarrow> bool" where
  "request_ok rq \<longleftrightarrow> (GetDataTransferDirection rq \<noteq> kSCSIDataTransfer_NoDataTransfer \<longrightarrow> GetDataBuffer rq \<noteq> None)"

lemma task_ranges_ok: "request_ok rq \<Longrightarrow> ranges_ok (fst (task_ranges rq))"
  by (cases "GetDataTransferDirection rq") (auto simp: task_ranges_def request_ok_def Let_def)

lemma process_task_prepared:
  assumes any: "os_set (getAnyObject env)" and inv: "task_inv N base c out" and p: "p \<notin> set out" "length out < N"
    and ok: "request_ok (family env p)"
  shows "\<exists>c1 readable writable. task_inv N base c1 (p # out) \<and> same_rest c c1
    \<and> (\<forall>t. ProcessParallelTaskInGate env vt p (c, t) = do {
         (result, t) \<leftarrow> vd_submitBuffersToVirtqueue vt 2 (Some readable) (Some writable)
            \<lparr>comp_action = parallelTaskCompletedAction, comp_target = 0, comp_ref = p\<rparr> t;
         if result = kIOReturnSuccess then Some (kSCSIServiceResponse_Request_In_Process, c1, t)
         else do {
           c \<leftarrow> return_descriptors env (task_multi_md (tasks c1 p)) (task_sub_md (tasks c1 p)) c1;
           Some (kSCSIServiceResponse_SERVICE_DELIVERY_OR_TARGET_FAILURE, c, t)
         }
       })"
proof -
  let ?mu = "\<lambda>q. task_multi_md (tasks c q)" and ?su = "\<lambda>q. task_sub_md (tasks c q)"
  obtain ranges sub mr where tr: "task_ranges (family env p) = (ranges, sub, mr)" by (cases "task_ranges (family env p)") auto
  have rok: "ranges_ok ranges" using task_ranges_ok [OF ok] tr by simp
  have ps: "pool_split N (multi_subrange_MD_pool c) (map ?mu out)" "pool_split N (single_subrange_MD_pool c) (map ?su out)"
    using inv by (auto simp: task_inv_def)
  obtain m mp where m: "m < N" "m \<in> set (the (multi_subrange_MD_pool c))"
    "item_from_pool (getAnyObject env) (multi_subrange_MD_pool c) = Some (Some m, mp)"
    "pool_split N mp (Some m # map ?mu out)" "set (the mp) = set (the (multi_subrange_MD_pool c)) - {m}" "Some m \<notin> set (map ?mu out)"
    using pool_split_take [OF any ps(1)] p(2) by auto
  obtain s sp where s: "item_from_pool (getAnyObject env) (single_subrange_MD_pool c) = Some (Some s, sp)"
    "pool_split N sp (Some s # map ?su out)"
    using pool_split_take [OF any ps(2)] p(2) by auto
  let ?ts = "(tasks c)(p := (tasks c p)\<lparr>to_device := task_header (family env p)\<rparr>)"
  let ?c0 = "c\<lparr>tasks := ?ts, multi_subrange_MD_pool := mp, single_subrange_MD_pool := sp\<rparr>"
  have d: "ssdc_inv (multi_mds ?c0 m)" "initialised (multi_mds ?c0 m)" "held_ranges (multi_mds c m) = []"
    using inv m(1,2) by (auto simp: task_inv_def)
  obtain d' where d': "init_multi env m (Some ranges) (length ranges) (if mr then 2 else 1) ?c0
      = Some (?c0\<lparr>multi_mds := (multi_mds c)(m := d'), md_refs := (\<lambda>x. md_refs c x + md_uses ranges x)\<rparr>)"
    "ssdc_inv d'" "held_ranges d' = ranges" "initialised d'"
    using init_multi_set [OF d(1,2) rok, of env "if mr then 2 else 1"] d(3) by auto
  let ?c1 = "?c0\<lparr>multi_mds := (multi_mds c)(m := d'), md_refs := (\<lambda>x. md_refs c x + md_uses ranges x),
    sub_ranges := (sub_ranges c)(s := Some sub),
    tasks := ?ts(p := (?ts p)\<lparr>task_subrange := ranges @ drop (length ranges) (task_subrange (?ts p)),
       task_sub_md := Some s, task_multi_md := Some m\<rparr>)\<rparr>"
  let ?rw = "if mr then (multi_descriptor ?c1 m, sub_descriptor ?c1 s) else (sub_descriptor ?c1 s, multi_descriptor ?c1 m)"
  have dev: "virtio_dev c" using inv by (simp add: task_inv_def)
  have u: "task_uses ?c1 out x = task_uses c out x" for x
  proof (rule task_uses_cong, intro ballI)
    fix q assume q: "q \<in> set out"
    obtain y where "?mu q = Some y" using pool_split_lookup [OF ps(1), of "?mu q"] q by auto
    with m(6) q p(1) show "the (task_multi_md (tasks ?c1 q)) = the (?mu q)
      \<and> multi_mds ?c1 (the (?mu q)) = multi_mds c (the (?mu q))" by force
  qed
  have map_eq: "map (\<lambda>q. task_multi_md (tasks ?c1 q)) (p # out) = Some m # map ?mu out"
    "map (\<lambda>q. task_sub_md (tasks ?c1 q)) (p # out) = Some s # map ?su out"
    using p(1) by auto
  have "task_uses ?c1 (p # out) x = md_uses ranges x + task_uses c out x" for x
    using u [of x] d'(3) by (simp add: task_uses_def)
  moreover have "virtio_dev ?c1" "distinct (p # out)" "multi_subrange_MD_pool ?c1 = mp" "single_subrange_MD_pool ?c1 = sp"
    "\<forall>i < N. ssdc_inv (multi_mds ?c1 i) \<and> initialised (multi_mds ?c1 i)"
    "\<forall>i \<in> set (the mp). held_ranges (multi_mds ?c1 i) = []"
    using inv p(1) d' m(5) by (auto simp: task_inv_def)
  ultimately have i1: "task_inv N base ?c1 (p # out)"
    using m(4) s(2) inv unfolding task_inv_def map_eq by simp
  have "same_rest c ?c1" by (rule same_restI) simp
  moreover have "ProcessParallelTaskInGate env vt p (c, t) = do {
         (result, t) \<leftarrow> vd_submitBuffersToVirtqueue vt 2 (Some (fst ?rw)) (Some (snd ?rw))
            \<lparr>comp_action = parallelTaskCompletedAction, comp_target = 0, comp_ref = p\<rparr> t;
         if result = kIOReturnSuccess then Some (kSCSIServiceResponse_Request_In_Process, ?c1, t)
         else do {
           c \<leftarrow> return_descriptors env (task_multi_md (tasks ?c1 p)) (task_sub_md (tasks ?c1 p)) ?c1;
           Some (kSCSIServiceResponse_SERVICE_DELIVERY_OR_TARGET_FAILURE, c, t)
         }
       }" for t
    using m(3) s(1) d'(1) dev tr by (cases mr) (simp_all add: ProcessParallelTaskInGate_def Let_def init_sub_def cong: if_cong)
  ultimately show ?thesis using i1 by (intro exI [of _ ?c1] exI [of _ "fst ?rw"] exI [of _ "snd ?rw"]) blast
qed

definition submitted :: "'t VirtioDevice \<Rightarrow> 't \<Rightarrow> 't \<Rightarrow> bool" where
  "submitted vt t t' \<longleftrightarrow> (\<exists>q r w k res. vd_submitBuffersToVirtqueue vt q r w k t = Some (res, t'))"

lemma process_task_inv:
  assumes "os_set (getAnyObject env)" "task_inv N base c out" "p \<notin> set out" "length out < N" "request_ok (family env p)"
    and submit: "\<And>q r w k. vd_submitBuffersToVirtqueue vt q r w k t \<noteq> None"
  shows "\<exists>response c' t'. ProcessParallelTaskInGate env vt p (c, t) = Some (response, c', t')
    \<and> submitted vt t t'
    \<and> same_rest c c' \<and> response \<in> {kSCSIServiceResponse_Request_In_Process, kSCSIServiceResponse_SERVICE_DELIVERY_OR_TARGET_FAILURE}
    \<and> task_inv N base c' (if response = kSCSIServiceResponse_Request_In_Process then p # out else out)"
proof -
  obtain c1 r w where c1: "task_inv N base c1 (p # out)" "same_rest c c1"
    and eq: "\<And>t. ProcessParallelTaskInGate env vt p (c, t) = do {
         (result, t) \<leftarrow> vd_submitBuffersToVirtqueue vt 2 (Some r) (Some w)
            \<lparr>comp_action = parallelTaskCompletedAction, comp_target = 0, comp_ref = p\<rparr> t;
         if result = kIOReturnSuccess then Some (kSCSIServiceResponse_Request_In_Process, c1, t)
         else do {
           c \<leftarrow> return_descriptors env (task_multi_md (tasks c1 p)) (task_sub_md (tasks c1 p)) c1;
           Some (kSCSIServiceResponse_SERVICE_DELIVERY_OR_TARGET_FAILURE, c, t)
         }
       }"
    using process_task_prepared [OF assms(1-5), of vt] by blast
  obtain res t' where s: "vd_submitBuffersToVirtqueue vt 2 (Some r) (Some w)
      \<lparr>comp_action = parallelTaskCompletedAction, comp_target = 0, comp_ref = p\<rparr> t = Some (res, t')"
    using submit by fast
  then have sub: "submitted vt t t'" unfolding submitted_def by blast
  obtain c2 where c2: "return_descriptors env (task_multi_md (tasks c1 p)) (task_sub_md (tasks c1 p)) c1 = Some c2"
    "task_inv N base c2 out" "same_rest c1 c2"
    using return_descriptors_inv [of N base c1 "[]" p out env] c1(1) by auto
  show ?thesis
  proof (cases "res = kIOReturnSuccess")
    case True
    then show ?thesis using c1 s sub eq [of t] by auto
  next
    case False
    then show ?thesis using c2 s sub eq [of t] same_rest_trans [OF c1(2) c2(3)] by auto
  qed
qed

text \<open>The calls with which the completion of a task is reported.\<close>

definition completion_calls :: "scsi_request \<Rightarrow> nat \<Rightarrow> bool \<Rightarrow> virtio_scsi_req_cmd_from_device \<Rightarrow> family_call list" where
  "completion_calls rq p device_reset dev =
     (if device_reset
      then [CompleteParallelTask p kSCSITaskStatus_DeviceNotPresent kSCSIServiceResponse_SERVICE_DELIVERY_OR_TARGET_FAILURE]
      else if fd_response dev = 0
      then [SetAutoSenseData p (sense_bytes dev) (sense_len dev),
            SetRealizedDataTransferCount p
              (if fd_status dev = 0 then GetRequestedDataTransferCount rq - ucast (residual dev) else 0),
            CompleteParallelTask p (SCSIStatusByte (fd_status dev)) kSCSIServiceResponse_TASK_COMPLETE]
      else if fd_response dev = 3
      then [DestroyTargetForID (GetTargetIdentifier rq), SetRealizedDataTransferCount p 0,
            CompleteParallelTask p kSCSITaskStatus_DeviceNotPresent kSCSIServiceResponse_SERVICE_DELIVERY_OR_TARGET_FAILURE]
      else [SetRealizedDataTransferCount p 0,
            CompleteParallelTask p (SCSIStatusByte (fd_status dev)) kSCSIServiceResponse_SERVICE_DELIVERY_OR_TARGET_FAILURE])"

lemma task_inv_cong:
  assumes "task_inv N base c out" "virtio_dev c' = virtio_dev c" "multi_subrange_MD_pool c' = multi_subrange_MD_pool c"
    "single_subrange_MD_pool c' = single_subrange_MD_pool c" "multi_mds c' = multi_mds c" "md_refs c' = md_refs c"
    "\<And>p. task_multi_md (tasks c' p) = task_multi_md (tasks c p)" "\<And>p. task_sub_md (tasks c' p) = task_sub_md (tasks c p)"
  shows "task_inv N base c' out"
  using assms by (simp add: task_inv_def task_uses_def)

lemma task_completed_inv:
  assumes "task_inv N base c (us @ p # vs)"
  shows "\<exists>c'. parallelTaskCompleted env p device_reset c = Some c' \<and> task_inv N base c' (us @ vs)
    \<and> family_log c' = family_log c @ completion_calls (family env p) p device_reset (from_device (tasks c p))
    \<and> same_rest (c\<lparr>family_log := family_log c'\<rparr>) c'"
proof -
  obtain c1 where c1: "return_descriptors env (task_multi_md (tasks c p)) (task_sub_md (tasks c p)) c = Some c1"
    "task_inv N base c1 (us @ vs)" "same_rest c c1" "tasks c1 = tasks c"
    using return_descriptors_inv [OF assms] by blast
  let ?calls = "completion_calls (family env p) p device_reset (from_device (tasks c p))"
  have "parallelTaskCompleted env p device_reset c = Some (c1\<lparr>family_log := family_log c1 @ ?calls\<rparr>)"
    using c1(1) by (simp add: parallelTaskCompleted_def completion_calls_def Let_def notify_def
        VIRTIO_SCSI_S_OK_def VIRTIO_SCSI_S_BAD_TARGET_def)
  moreover have "same_rest (c\<lparr>family_log := family_log c1 @ ?calls\<rparr>) (c1\<lparr>family_log := family_log c1 @ ?calls\<rparr>)"
    using c1(3) unfolding same_rest_def [of c c1] by (elim exE) (rule same_restI, simp)
  moreover have "task_inv N base (c1\<lparr>family_log := family_log c1 @ ?calls\<rparr>) (us @ vs)"
    by (rule task_inv_cong [OF c1(2)]) simp_all
  ultimately show ?thesis using same_rest_fields(2) [OF c1(3)] by auto
qed

section \<open>One task management function\<close>

definition tmf_inv :: "nat \<Rightarrow> VirtioSCSIController \<Rightarrow> nat list \<Rightarrow> bool" where
  "tmf_inv M c mg \<longleftrightarrow> virtio_dev c \<and> distinct mg \<and> (\<forall>i \<in> set mg. i < next_mgmt c \<and> mgmt_tasks c i \<noteq> None)
     \<and> pool_split M (ctrl_readable_pool c) (map (\<lambda>i. mt_readable (the (mgmt_tasks c i))) mg)
     \<and> pool_split M (ctrl_writable_pool c) (map (\<lambda>i. mt_writable (the (mgmt_tasks c i))) mg)"

lemma tmf_inv_cong:
  assumes "tmf_inv M c mg" "virtio_dev c' = virtio_dev c" "ctrl_readable_pool c' = ctrl_readable_pool c"
    "ctrl_writable_pool c' = ctrl_writable_pool c" "mgmt_tasks c' = mgmt_tasks c" "next_mgmt c' = next_mgmt c"
  shows "tmf_inv M c' mg"
  using assms by (simp add: tmf_inv_def)

text \<open>Task management does not touch the descriptors of tasks.\<close>

definition same_tasks :: "VirtioSCSIController \<Rightarrow> VirtioSCSIController \<Rightarrow> bool" where
  "same_tasks c c' \<longleftrightarrow> virtio_dev c' = virtio_dev c \<and> multi_subrange_MD_pool c' = multi_subrange_MD_pool c
     \<and> single_subrange_MD_pool c' = single_subrange_MD_pool c \<and> multi_mds c' = multi_mds c \<and> md_refs c' = md_refs c
     \<and> tasks c' = tasks c \<and> event_buffers c' = event_buffers c"

lemma same_tasks_inv: "same_tasks c c' \<Longrightarrow> task_inv N base c out \<Longrightarrow> task_inv N base c' out"
  by (rule task_inv_cong) (auto simp: same_tasks_def)

lemma tmf_submitted:
  assumes any: "os_set (getAnyObject env)" and inv: "tmf_inv M c mg" and len: "length mg < M"
    and alloc: "mgmt_alloc_ok env (next_mgmt c)"
    and submit: "\<And>q r w k. vd_submitBuffersToVirtqueue vt q r w k t \<noteq> None"
  shows "\<exists>response c' t'. processTaskManagementFunctionInGate env vt theT theL theQ command (c, t) = Some (response, c', t')
    \<and> submitted vt t t'
    \<and> same_tasks c c' \<and> response \<in> {kSCSIServiceResponse_Request_In_Process, kSCSIServiceResponse_SERVICE_DELIVERY_OR_TARGET_FAILURE}
    \<and> tmf_inv M c' (if response = kSCSIServiceResponse_Request_In_Process then next_mgmt c # mg else mg)
    \<and> family_log c' = family_log c
    \<and> (response = kSCSIServiceResponse_Request_In_Process \<longrightarrow> (\<exists>r w. mgmt_tasks c' (next_mgmt c) = Some
         \<lparr>mt_readable = r, mt_writable = w, mt_theT = theT, mt_theL = theL, mt_theQ = theQ, mt_command = command\<rparr>))"
proof -
  let ?rd = "\<lambda>i. mt_readable (the (mgmt_tasks c i))" and ?wr = "\<lambda>i. mt_writable (the (mgmt_tasks c i))" and ?k = "next_mgmt c"
  have k: "?k \<notin> set mg" and dev: "virtio_dev c" using inv by (auto simp: tmf_inv_def)
  obtain r rp where r: "item_from_pool (getAnyObject env) (ctrl_readable_pool c) = Some (Some r, rp)"
    "pool_split M rp (Some r # map ?rd mg)"
    using pool_split_take [OF any, of M "ctrl_readable_pool c" "map ?rd mg"] inv len by (auto simp: tmf_inv_def)
  obtain w wp where w: "item_from_pool (getAnyObject env) (ctrl_writable_pool c) = Some (Some w, wp)"
    "pool_split M wp (Some w # map ?wr mg)"
    using pool_split_take [OF any, of M "ctrl_writable_pool c" "map ?wr mg"] inv len by (auto simp: tmf_inv_def)
  obtain rp' where rp': "return_item_to_pool (Some r) rp = Some rp'" "pool_split M rp' (map ?rd mg)"
    using pool_split_return [of M rp "[]" r "map ?rd mg"] r(2) by auto
  obtain wp' where wp': "return_item_to_pool (Some w) wp = Some wp'" "pool_split M wp' (map ?wr mg)"
    using pool_split_return [of M wp "[]" w "map ?wr mg"] w(2) by auto
  let ?task = "\<lparr>mt_readable = Some r, mt_writable = Some w, mt_theT = theT, mt_theL = theL, mt_theQ = theQ, mt_command = command\<rparr>"
  let ?c0 = "c\<lparr>ctrl_readable_pool := rp, ctrl_writable_pool := wp, ctrl_readables := (ctrl_readables c)(r :=
     \<lparr>tmf_type = VIRTIO_SCSI_T_TMF, tmf_subtype = command, tmf_lun = virtio_scsi_lun_bytes_from_target_lun theT theL, tmf_id = theQ\<rparr>),
     next_mgmt := ?k + 1, mgmt_tasks := (mgmt_tasks c)(?k \<mapsto> ?task)\<rparr>"
  let ?c1 = "?c0\<lparr>mgmt_tasks := (mgmt_tasks c)(?k := None), ctrl_readable_pool := rp', ctrl_writable_pool := wp'\<rparr>"
  obtain res t' where s: "vd_submitBuffersToVirtqueue vt 0 (Some \<lparr>md_id = r, md_length = 24\<rparr>) (Some \<lparr>md_id = w, md_length = 1\<rparr>)
      \<lparr>comp_action = processTaskManagementCompletedAction, comp_target = 0, comp_ref = ?k\<rparr> t = Some (res, t')"
    using submit by fast
  then have sub: "submitted vt t t'" unfolding submitted_def by blast
  have maps: "map (\<lambda>i. mt_readable (the (mgmt_tasks ?c0 i))) (?k # mg) = Some r # map ?rd mg"
    "map (\<lambda>i. mt_writable (the (mgmt_tasks ?c0 i))) (?k # mg) = Some w # map ?wr mg"
    "map (\<lambda>i. mt_readable (the (mgmt_tasks ?c1 i))) mg = map ?rd mg" "map (\<lambda>i. mt_writable (the (mgmt_tasks ?c1 i))) mg = map ?wr mg"
    using k by auto
  have i0: "tmf_inv M ?c0 (?k # mg)" using inv r(2) w(2) k unfolding tmf_inv_def maps(1,2) by auto
  have i1: "tmf_inv M ?c1 mg" using inv rp'(2) wp'(2) k unfolding tmf_inv_def maps(3,4) by auto
  have e: "processTaskManagementFunctionInGate env vt theT theL theQ command (c, t) = Some
     (if res = kIOReturnSuccess then (kSCSIServiceResponse_Request_In_Process, ?c0, t')
      else (kSCSIServiceResponse_SERVICE_DELIVERY_OR_TARGET_FAILURE, ?c1, t'))"
    using r(1) w(1) rp'(1) wp'(1) s dev alloc
    by (simp add: processTaskManagementFunctionInGate_def Let_def cong: if_cong)
  show ?thesis
  proof (cases "res = kIOReturnSuccess")
    case True
    show ?thesis
      by (rule exI [of _ kSCSIServiceResponse_Request_In_Process], rule exI [of _ ?c0], rule exI [of _ t'])
         (use True e i0 sub in \<open>auto simp: same_tasks_def\<close>)
  next
    case False
    show ?thesis
      by (rule exI [of _ kSCSIServiceResponse_SERVICE_DELIVERY_OR_TARGET_FAILURE], rule exI [of _ ?c1], rule exI [of _ t'])
         (use False e i1 sub in \<open>auto simp: same_tasks_def\<close>)
  qed
qed

lemma tmf_completed:
  assumes inv: "tmf_inv M c (us @ i # vs)"
  shows "\<exists>task c'. mgmt_tasks c i = Some task \<and> taskManagementFunctionCompleted i device_reset c = Some c'
    \<and> tmf_inv M c' (us @ vs) \<and> same_tasks c c' \<and> next_mgmt c' = next_mgmt c
    \<and> (\<exists>w. mt_writable task = Some w
         \<and> family_log c' = family_log c @ tmf_completion_calls task (tmf_response device_reset (ctrl_responses c w)))"
proof -
  let ?rd = "\<lambda>i. mt_readable (the (mgmt_tasks c i))" and ?wr = "\<lambda>i. mt_writable (the (mgmt_tasks c i))"
  obtain task where task: "mgmt_tasks c i = Some task" using inv by (auto simp: tmf_inv_def)
  have ps: "pool_split M (ctrl_readable_pool c) (map ?rd us @ mt_readable task # map ?rd vs)"
    "pool_split M (ctrl_writable_pool c) (map ?wr us @ mt_writable task # map ?wr vs)"
    using inv task by (auto simp: tmf_inv_def)
  obtain r w where rw: "mt_readable task = Some r" "mt_writable task = Some w"
    using pool_split_lookup [OF ps(1), of "mt_readable task"] pool_split_lookup [OF ps(2), of "mt_writable task"] by auto
  obtain rp wp where p: "return_item_to_pool (Some r) (ctrl_readable_pool c) = Some rp" "pool_split M rp (map ?rd us @ map ?rd vs)"
    "return_item_to_pool (Some w) (ctrl_writable_pool c) = Some wp" "pool_split M wp (map ?wr us @ map ?wr vs)"
    using pool_split_return [OF ps(1) [unfolded rw]] pool_split_return [OF ps(2) [unfolded rw]] by auto
  let ?c = "c\<lparr>ctrl_readable_pool := rp, ctrl_writable_pool := wp,
     family_log := family_log c @ tmf_completion_calls task (tmf_response device_reset (ctrl_responses c w)),
     mgmt_tasks := (mgmt_tasks c)(i := None)\<rparr>"
  have "taskManagementFunctionCompleted i device_reset c = Some ?c"
    using task rw p by (simp add: taskManagementFunctionCompleted_def Let_def)
  moreover have "i \<notin> set (us @ vs)" using inv by (auto simp: tmf_inv_def)
  then have maps: "map (\<lambda>j. mt_readable (the (mgmt_tasks ?c j))) (us @ vs) = map ?rd us @ map ?rd vs"
    "map (\<lambda>j. mt_writable (the (mgmt_tasks ?c j))) (us @ vs) = map ?wr us @ map ?wr vs" by auto
  then have "tmf_inv M ?c (us @ vs)" using inv p(2,4) \<open>i \<notin> set (us @ vs)\<close> unfolding tmf_inv_def maps by auto
  ultimately show ?thesis using task rw(2) by (intro exI [of _ task] exI [of _ ?c]) (simp add: same_tasks_def)
qed

section \<open>Initialisation\<close>

definition events_inv :: "VirtioSCSIController \<Rightarrow> bool" where
  "events_inv c \<longleftrightarrow> (\<forall>e len ev. event_buffers c e = Some (len, ev) \<longrightarrow> length (ev_lun ev) = 8)"

lemma submit_events_result:
  assumes "submit_events env vt info_size i n (c, t) = Some (c', t')" "events_inv c"
  shows "events_inv c' \<and> c' = c\<lparr>event_buffers := event_buffers c'\<rparr>"
  using assms
proof (induction n arbitrary: i c t)
  case (Suc n)
  let ?c = "if event_alloc_ok env i then c\<lparr>event_buffers := (event_buffers c)(i \<mapsto>
               (ucast info_size, \<lparr>ev_event = 0, ev_lun = replicate 8 0, ev_reason = 0\<rparr>))\<rparr> else c"
  have inv: "events_inv ?c" using Suc.prems(2) by (auto simp: events_inv_def)
  obtain res t1 where r: "vd_submitBuffersToVirtqueue vt 1 None
       (if event_alloc_ok env i then Some \<lparr>md_id = i, md_length = ucast info_size\<rparr> else None)
        \<lparr>comp_action = eventCompletedAction, comp_target = 0, comp_ref = i\<rparr> t = Some (res, t1)"
    using Suc.prems(1) by (auto simp: Let_def split: Option.bind_splits)
  show ?case
  proof (cases "res = kIOReturnSuccess")
    case True
    with Suc.prems(1) r have "submit_events env vt info_size (i + 1) n (?c, t1) = Some (c', t')" by (simp add: Let_def)
    from Suc.IH [OF this inv] have "events_inv c'" "c' = ?c\<lparr>event_buffers := event_buffers c'\<rparr>" by auto
    moreover have "?c\<lparr>event_buffers := event_buffers c'\<rparr> = c\<lparr>event_buffers := event_buffers c'\<rparr>" by simp
    ultimately show ?thesis by metis
  next
    case False
    with Suc.prems(1) r have "event_alloc_ok env i" "c' = ?c\<lparr>event_buffers := (event_buffers ?c)(i := None)\<rparr>"
      by (auto simp: Let_def split: if_splits)
    then show ?thesis using Suc.prems(2) by (auto simp: events_inv_def fun_upd_def)
  qed
qed simp

lemma new_multi_md:
  "withDescriptorRanges env None 0 0 False refs = Some (x, refs') \<Longrightarrow> x = Some d
     \<Longrightarrow> refs' = refs \<and> ssdc_inv d \<and> held_ranges d = [] \<and> initialised d"
  by (auto simp: withDescriptorRanges_def initWithDescriptorRanges_def new_ssdc_def ssdc_inv_def held_ranges_def
      split: if_splits)

lemma fill_MD_pools_result:
  assumes "fill_MD_pools env i n c = Some c'" "multi_subrange_MD_pool c = Some xs" "single_subrange_MD_pool c = Some ys"
    "\<forall>j \<in> set xs. ssdc_inv (multi_mds c j) \<and> held_ranges (multi_mds c j) = [] \<and> initialised (multi_mds c j)" "\<forall>j \<in> set xs. j < i"
  shows "multi_subrange_MD_pool c' = Some (xs @ [i..<i + n]) \<and> single_subrange_MD_pool c' = Some (ys @ [i..<i + n])
    \<and> (\<forall>j \<in> set (xs @ [i..<i + n]). ssdc_inv (multi_mds c' j) \<and> held_ranges (multi_mds c' j) = [] \<and> initialised (multi_mds c' j))
    \<and> md_refs c' = md_refs c \<and> virtio_dev c' = virtio_dev c \<and> event_buffers c' = event_buffers c \<and> max_task_count c' = max_task_count c"
  using assms
proof (induction n arbitrary: i c xs ys)
  case (Suc n)
  obtain d refs where d: "withDescriptorRanges (ssdc env) None 0 0 False (md_refs c) = Some (Some d, refs)" "sub_alloc_ok env i"
    using Suc.prems by (auto split: Option.bind_splits if_splits)
  note n = new_multi_md [OF d(1) refl]
  let ?c = "c\<lparr>multi_mds := (multi_mds c)(i := d), md_refs := refs, sub_ranges := (sub_ranges c)(i := None),
     multi_subrange_MD_pool := Some (xs @ [i]), single_subrange_MD_pool := Some (ys @ [i])\<rparr>"
  have f: "fill_MD_pools env (i + 1) n ?c = Some c'" using Suc.prems d by simp
  have "\<forall>j \<in> set (xs @ [i]). ssdc_inv (multi_mds ?c j) \<and> held_ranges (multi_mds ?c j) = [] \<and> initialised (multi_mds ?c j)"
    using Suc.prems(4) n by auto
  moreover have u: "[i..<i + Suc n] = i # [i + 1..<i + 1 + n]" by (simp add: upt_rec)
  moreover have "\<forall>j \<in> set (xs @ [i]). j < i + 1" using Suc.prems(5) by auto
  ultimately show ?case using Suc.IH [OF f, of "xs @ [i]" "ys @ [i]"] n unfolding u by simp
qed auto

lemma fill_ctrl_pools_result:
  assumes "fill_ctrl_pools env i n c = Some c'" "ctrl_readable_pool c = Some xs" "ctrl_writable_pool c = Some ys"
  shows "c' = c\<lparr>ctrl_readable_pool := Some (xs @ [i..<i + n]), ctrl_writable_pool := Some (ys @ [i..<i + n])\<rparr>"
  using assms
proof (induction n arbitrary: i c xs ys)
  case (Suc n)
  let ?c = "c\<lparr>ctrl_readable_pool := Some (xs @ [i]), ctrl_writable_pool := Some (ys @ [i])\<rparr>"
  have "fill_ctrl_pools env (i + 1) n ?c = Some c'" using Suc.prems by (auto split: if_splits)
  from Suc.IH [OF this] show ?case by (simp add: upt_conv_Cons)
qed simp

definition scsi_inv ::
    "nat \<Rightarrow> nat \<Rightarrow> refcounts \<Rightarrow> VirtioSCSIController \<times> 't \<times> nat list \<times> nat list \<Rightarrow> bool" where
  "scsi_inv N M base = (\<lambda>(c, t, out, mg). task_inv N base c out \<and> tmf_inv M c mg \<and> events_inv c)"

lemma pool_split_full: "pool_split N (Some [0..<N]) []"
  by (auto simp: pool_split_def)

lemma initialize_queues_inv:
  assumes "initialize_queues env vt cmd info sizes (c, t) = Some (c', t')" "event_buffers c = (\<lambda>_. None)"
  shows "scsi_inv (unat (max_task_count c')) (unat (max_ctrl_tmf c')) (md_refs c) (c', t'', [], [])"
proof -
  let ?c1 = "c\<lparr>max_task_count := min cmd (sizes ! 2), virtio_dev := True\<rparr>" and ?q0 = "sizes ! 0"
  obtain c2 c3 where s: "submit_events env vt info 0 (unat (sizes ! 1)) (?c1, t) = Some (c2, t')"
    "fill_MD_pools env 0 (unat (max_task_count c2)) (c2\<lparr>multi_subrange_MD_pool := Some [], single_subrange_MD_pool := Some []\<rparr>) = Some c3"
    "fill_ctrl_pools env 0 (unat ?q0) (c3\<lparr>max_ctrl_tmf := ?q0, ctrl_readable_pool := Some [], ctrl_writable_pool := Some []\<rparr>) = Some c'"
    using assms(1) by (auto simp: initialize_queues_def Let_def split: Option.bind_splits if_splits)
  have "events_inv ?c1" using assms(2) by (simp add: events_inv_def)
  from submit_events_result [OF s(1) this] obtain eb where eb: "events_inv c2" "c2 = ?c1\<lparr>event_buffers := eb\<rparr>" by blast
  then have c2: "events_inv c2" "virtio_dev c2" "md_refs c2 = md_refs c" by simp_all
  note c3 = fill_MD_pools_result [OF s(2), of "[]" "[]", simplified]
  note c4 = fill_ctrl_pools_result [OF s(3), of "[]" "[]", simplified]
  have "task_inv (unat (max_task_count c')) (md_refs c) c' []"
    using c2 c3 c4 pool_split_full by (auto simp: task_inv_def task_uses_def)
  moreover have "tmf_inv (unat (max_ctrl_tmf c')) c' []"
    using c2 c3 c4 pool_split_full by (auto simp: tmf_inv_def)
  moreover have "events_inv c'" using c2(1) c3 c4 by (simp add: events_inv_def)
  ultimately show ?thesis by (simp add: scsi_inv_def)
qed

lemma InitializeController_inv:
  assumes "InitializeController env vt True (c, t) = Some (True, c', t')" "event_buffers c = (\<lambda>_. None)"
  shows "scsi_inv (unat (max_task_count c')) (unat (max_ctrl_tmf c')) (md_refs c) (c', t', [], [])"
proof -
  have "\<exists>cmd info sizes c1 t1 t2. initialize_queues env vt cmd info sizes (c1, t1) = Some (c', t2)
      \<and> md_refs c1 = md_refs c \<and> event_buffers c1 = event_buffers c"
    using assms(1) by (auto simp: InitializeController_def read_scsi_config_def Let_def split: Option.bind_splits if_splits) fastforce+
  then show ?thesis using initialize_queues_inv assms(2) by metis
qed

section \<open>Sessions\<close>

text \<open>A session of the driver: the family starts tasks and task management functions as long as fewer than the reported
  numbers are under way, the device writes its answers and completes requests, in any order. The third and
  fourth component are the tasks and the task management functions under way.\<close>

inductive scsi_step ::
    "scsi_env \<Rightarrow> 't VirtioDevice \<Rightarrow> nat \<Rightarrow> nat \<Rightarrow> VirtioSCSIController \<times> 't \<times> nat list \<times> nat list
     \<Rightarrow> VirtioSCSIController \<times> 't \<times> nat list \<times> nat list \<Rightarrow> bool"
  for env :: scsi_env and vt :: "'t VirtioDevice" and N M :: nat where
  task: "p \<notin> set out \<Longrightarrow> length out < N \<Longrightarrow> request_ok (family env p)
    \<Longrightarrow> ProcessParallelTaskInGate env vt p (c, t) = Some (response, c', t')
    \<Longrightarrow> scsi_step env vt N M (c, t, out, mg)
          (c', t', if response = kSCSIServiceResponse_Request_In_Process then p # out else out, mg)"
| task_done: "parallelTaskCompleted env p device_reset c = Some c'
    \<Longrightarrow> scsi_step env vt N M (c, t, us @ p # vs, mg) (c', t, us @ vs, mg)"
| tmf: "length mg < M \<Longrightarrow> processTaskManagementFunctionInGate env vt theT theL theQ command (c, t) = Some (response, c', t')
    \<Longrightarrow> scsi_step env vt N M (c, t, out, mg)
          (c', t', out, if response = kSCSIServiceResponse_Request_In_Process then next_mgmt c # mg else mg)"
| tmf_done: "taskManagementFunctionCompleted i device_reset c = Some c'
    \<Longrightarrow> scsi_step env vt N M (c, t, out, us @ i # vs) (c', t, out, us @ vs)"
| event: "event_buffers c e \<noteq> None \<Longrightarrow> eventCompleted vt e device_reset (c, t) = Some (c', t')
    \<Longrightarrow> scsi_step env vt N M (c, t, out, mg) (c', t', out, mg)"
| device: "(\<And>e. length (ev_lun (ev e)) = 8)
    \<Longrightarrow> scsi_step env vt N M (c, t, out, mg)
      (c\<lparr>tasks := (\<lambda>p. (tasks c p)\<lparr>from_device := answer p\<rparr>), ctrl_responses := responses,
         event_buffers := (\<lambda>e. map_option (\<lambda>(len, _). (len, ev e)) (event_buffers c e))\<rparr>, t, out, mg)"

inductive scsi_reachable ::
    "scsi_env \<Rightarrow> 't VirtioDevice \<Rightarrow> nat \<Rightarrow> nat \<Rightarrow> VirtioSCSIController \<times> 't \<times> nat list \<times> nat list
     \<Rightarrow> VirtioSCSIController \<times> 't \<times> nat list \<times> nat list \<Rightarrow> bool"
  for env :: scsi_env and vt :: "'t VirtioDevice" and N M :: nat and s0 where
  start: "scsi_reachable env vt N M s0 s0"
| step: "scsi_reachable env vt N M s0 s \<Longrightarrow> scsi_step env vt N M s s' \<Longrightarrow> scsi_reachable env vt N M s0 s'"

inductive_cases scsi_step_cases: "scsi_step env vt N M (c, t, out, mg) s'"

text \<open>What the driver needs of its transport while it runs: submissions return, and keep some invariant of the transport.\<close>

definition accepts_submissions :: "'t VirtioDevice \<Rightarrow> ('t \<Rightarrow> bool) \<Rightarrow> bool" where
  "accepts_submissions vt tinv \<longleftrightarrow>
     (\<forall>t q r w k. tinv t \<longrightarrow> (\<exists>res t'. vd_submitBuffersToVirtqueue vt q r w k t = Some (res, t') \<and> tinv t'))"

lemma accepts_submissionsD:
  assumes "accepts_submissions vt tinv" "tinv t"
  shows "vd_submitBuffersToVirtqueue vt q r w k t \<noteq> None" "submitted vt t t' \<Longrightarrow> tinv t'"
proof -
  have a: "\<exists>res t'. vd_submitBuffersToVirtqueue vt q r w k t = Some (res, t') \<and> tinv t'" for q r w k
    using assms unfolding accepts_submissions_def by blast
  from a [of q r w k] show "vd_submitBuffersToVirtqueue vt q r w k t \<noteq> None" by auto
  show "tinv t'" if sub: "submitted vt t t'"
  proof -
    obtain q r w k res where "vd_submitBuffersToVirtqueue vt q r w k t = Some (res, t')" using sub unfolding submitted_def by blast
    with a [of q r w k] show ?thesis by auto
  qed
qed

lemma event_completed_inv:
  assumes "event_buffers c e \<noteq> None" "virtio_dev c" "events_inv c"
    and submit: "\<And>q r w k. vd_submitBuffersToVirtqueue vt q r w k t \<noteq> None"
  shows "\<exists>c' t'. eventCompleted vt e device_reset (c, t) = Some (c', t') \<and> (t' = t \<or> submitted vt t t')
    \<and> events_inv c' \<and> (\<exists>eb calls. c' = c\<lparr>event_buffers := eb, family_log := family_log c @ calls\<rparr>)"
proof -
  obtain len ev where ev: "event_buffers c e = Some (len, ev)" "length (ev_lun ev) = 8"
    using assms(1,3) by (auto simp: events_inv_def)
  let ?calls = "if ev_event ev = VIRTIO_SCSI_T_TRANSPORT_RESET
                then if ev_reason ev = VIRTIO_SCSI_EVT_RESET_RESCAN then [CreateTargetForID (ucast (ev_lun ev ! 1))]
                     else if ev_reason ev = VIRTIO_SCSI_EVT_RESET_REMOVED then [DestroyTargetForID (ucast (ev_lun ev ! 1))]
                     else [] else []"
  obtain res t' where r: "vd_submitBuffersToVirtqueue vt 1 None (Some \<lparr>md_id = e, md_length = len\<rparr>)
        \<lparr>comp_action = eventCompletedAction, comp_target = 0, comp_ref = e\<rparr> t = Some (res, t')" using submit by fast
  then have sub: "submitted vt t t'" unfolding submitted_def by blast
  let ?eb = "if res = kIOReturnSuccess then event_buffers c else (event_buffers c)(e := None)"
  have n: "(if ev_event ev = VIRTIO_SCSI_T_TRANSPORT_RESET
            then if ev_reason ev = VIRTIO_SCSI_EVT_RESET_RESCAN then notify (CreateTargetForID (ucast (ev_lun ev ! 1))) c
                 else if ev_reason ev = VIRTIO_SCSI_EVT_RESET_REMOVED then notify (DestroyTargetForID (ucast (ev_lun ev ! 1))) c
                 else c
            else c) = c\<lparr>family_log := family_log c @ ?calls\<rparr>"
    by (simp add: notify_def)
  show ?thesis
  proof (cases device_reset)
    case True
    then show ?thesis using assms(3)
      by (intro exI [of _ "c\<lparr>event_buffers := (event_buffers c)(e := None)\<rparr>"] exI [of _ t])
         (auto simp: eventCompleted_def events_inv_def intro!: exI [of _ "[]"])
  next
    case False
    have "eventCompleted vt e device_reset (c, t) = Some (c\<lparr>event_buffers := ?eb, family_log := family_log c @ ?calls\<rparr>, t')"
      using False ev r assms(2) n by (simp add: eventCompleted_def Let_def cong: if_cong)
    moreover have "events_inv (c\<lparr>event_buffers := ?eb, family_log := family_log c @ ?calls\<rparr>)"
      using assms(3) by (auto simp: events_inv_def)
    ultimately show ?thesis using sub by blast
  qed
qed

locale scsi_session =
  fixes env :: scsi_env and vt :: "'t VirtioDevice" and tinv :: "'t \<Rightarrow> bool" and N M :: nat and base :: refcounts
  assumes pick: "os_set (getAnyObject env)" and submissions: "accepts_submissions vt tinv"
    and mgmt_memory: "mgmt_alloc_ok env i"
begin

definition inv :: "VirtioSCSIController \<times> 't \<times> nat list \<times> nat list \<Rightarrow> bool" where
  "inv s \<longleftrightarrow> scsi_inv N M base s \<and> tinv (fst (snd s))"

lemma inv_iff: "inv (c, t, out, mg) \<longleftrightarrow> task_inv N base c out \<and> tmf_inv M c mg \<and> events_inv c \<and> tinv t"
  by (auto simp: inv_def scsi_inv_def)

lemma same_rest_inv: "same_rest c c' \<Longrightarrow> tmf_inv M c mg \<and> events_inv c \<Longrightarrow> tmf_inv M c' mg \<and> events_inv c'"
  using tmf_inv_cong [of M c mg c'] same_rest_fields [of c c'] by (simp add: events_inv_def)

lemma task_ok:
  assumes "inv (c, t, out, mg)" "p \<notin> set out" "length out < N" "request_ok (family env p)"
  shows "\<exists>response c' t'. ProcessParallelTaskInGate env vt p (c, t) = Some (response, c', t')
    \<and> inv (c', t', if response = kSCSIServiceResponse_Request_In_Process then p # out else out, mg)"
proof -
  have i: "task_inv N base c out" "tmf_inv M c mg" "events_inv c" "tinv t" using assms(1) by (auto simp: inv_iff)
  from process_task_inv [OF pick i(1) assms(2,3,4) accepts_submissionsD(1) [OF submissions i(4)]]
  obtain response c' t' where r: "ProcessParallelTaskInGate env vt p (c, t) = Some (response, c', t')" "submitted vt t t'"
    "same_rest c c'" "task_inv N base c' (if response = kSCSIServiceResponse_Request_In_Process then p # out else out)" by blast
  then show ?thesis
    using same_rest_inv [OF r(3)] i accepts_submissionsD(2) [OF submissions i(4) r(2)] by (auto simp: inv_iff)
qed

lemma task_done_ok:
  assumes "inv (c, t, us @ p # vs, mg)"
  shows "\<exists>c'. parallelTaskCompleted env p device_reset c = Some c' \<and> inv (c', t, us @ vs, mg)"
proof -
  have i: "task_inv N base c (us @ p # vs)" "tmf_inv M c mg" "events_inv c" "tinv t" using assms by (auto simp: inv_iff)
  from task_completed_inv [OF i(1), of env device_reset]
  obtain c' where c': "parallelTaskCompleted env p device_reset c = Some c'" "task_inv N base c' (us @ vs)"
    "same_rest (c\<lparr>family_log := family_log c'\<rparr>) c'" by blast
  moreover have "tmf_inv M (c\<lparr>family_log := family_log c'\<rparr>) mg \<and> events_inv (c\<lparr>family_log := family_log c'\<rparr>)"
    using i tmf_inv_cong [OF i(2)] by (simp add: events_inv_def)
  ultimately show ?thesis using same_rest_inv [OF c'(3)] i(4) by (auto simp: inv_iff)
qed

lemma tmf_ok:
  assumes "inv (c, t, out, mg)" "length mg < M"
  shows "\<exists>response c' t'. processTaskManagementFunctionInGate env vt theT theL theQ command (c, t) = Some (response, c', t')
    \<and> inv (c', t', out, if response = kSCSIServiceResponse_Request_In_Process then next_mgmt c # mg else mg)"
proof -
  have i: "task_inv N base c out" "tmf_inv M c mg" "events_inv c" "tinv t" using assms(1) by (auto simp: inv_iff)
  from tmf_submitted [OF pick i(2) assms(2) mgmt_memory accepts_submissionsD(1) [OF submissions i(4)], of theT theL theQ command]
  obtain response c' t' where r: "processTaskManagementFunctionInGate env vt theT theL theQ command (c, t) = Some (response, c', t')"
    "submitted vt t t'" "same_tasks c c'"
    "tmf_inv M c' (if response = kSCSIServiceResponse_Request_In_Process then next_mgmt c # mg else mg)" by blast
  moreover have "events_inv c'" using r(3) i(3) by (simp add: events_inv_def same_tasks_def)
  ultimately show ?thesis
    using same_tasks_inv [OF r(3) i(1)] accepts_submissionsD(2) [OF submissions i(4) r(2)] by (auto simp: inv_iff)
qed

lemma tmf_done_ok:
  assumes "inv (c, t, out, us @ i # vs)"
  shows "\<exists>c'. taskManagementFunctionCompleted i device_reset c = Some c' \<and> inv (c', t, out, us @ vs)"
proof -
  have i: "task_inv N base c out" "tmf_inv M c (us @ i # vs)" "events_inv c" "tinv t" using assms by (auto simp: inv_iff)
  from tmf_completed [OF i(2), of device_reset]
  obtain c' where c': "taskManagementFunctionCompleted i device_reset c = Some c'" "tmf_inv M c' (us @ vs)" "same_tasks c c'"
    by (elim exE conjE) (rule that, assumption+)
  moreover have "events_inv c'" using c'(3) i(3) by (simp add: events_inv_def same_tasks_def)
  ultimately show ?thesis using same_tasks_inv [OF c'(3) i(1)] i(4) by (intro exI [of _ c']) (simp only: inv_iff simp_thms)
qed

lemma event_ok:
  assumes "inv (c, t, out, mg)" "event_buffers c e \<noteq> None"
  shows "\<exists>c' t'. eventCompleted vt e device_reset (c, t) = Some (c', t') \<and> inv (c', t', out, mg)"
proof -
  have i: "task_inv N base c out" "tmf_inv M c mg" "events_inv c" "tinv t" "virtio_dev c"
    using assms(1) by (auto simp: inv_iff task_inv_def)
  from event_completed_inv [OF assms(2) i(5,3) accepts_submissionsD(1) [OF submissions i(4)], of device_reset]
  obtain c' t' eb calls where c': "eventCompleted vt e device_reset (c, t) = Some (c', t')" "t' = t \<or> submitted vt t t'"
    "events_inv c'" "c' = c\<lparr>event_buffers := eb, family_log := family_log c @ calls\<rparr>"
    by (elim exE conjE) (rule that, assumption+)
  have "task_inv N base c' out" by (rule task_inv_cong [OF i(1)]) (simp_all add: c'(4))
  moreover have "tmf_inv M c' mg" by (rule tmf_inv_cong [OF i(2)]) (simp_all add: c'(4))
  moreover have "tinv t'" using c'(2) i(4) accepts_submissionsD(2) [OF submissions i(4)] by blast
  ultimately show ?thesis using c'(1,3) by (auto simp: inv_iff)
qed

lemma step_inv: "scsi_step env vt N M s s' \<Longrightarrow> inv s \<Longrightarrow> inv s'"
proof (induction rule: scsi_step.induct)
  case (task p out c t response c' t' mg)
  then show ?case using task_ok [OF task.prems task.hyps(1,2,3)] by auto
next
  case (task_done p device_reset c c' t us vs mg)
  then show ?case using task_done_ok [of c t us p vs mg device_reset] by auto
next
  case (tmf mg theT theL theQ command c t response c' t' out)
  then show ?case using tmf_ok [OF tmf.prems tmf.hyps(1), of theT theL theQ command] by auto
next
  case (tmf_done i device_reset c c' t out us vs)
  then show ?case using tmf_done_ok [of c t out us i vs device_reset] by auto
next
  case (event c e device_reset t c' t' out mg)
  then show ?case using event_ok [OF event.prems event.hyps(1), of device_reset] by auto
next
  case (device ev c t out mg responses answer)
  let ?c = "c\<lparr>tasks := (\<lambda>p. (tasks c p)\<lparr>from_device := answer p\<rparr>), ctrl_responses := responses,
      event_buffers := (\<lambda>e. map_option (\<lambda>(len, _). (len, ev e)) (event_buffers c e))\<rparr>"
  have i: "task_inv N base c out" "tmf_inv M c mg" "tinv t" using device.prems by (auto simp: inv_iff)
  have "task_inv N base ?c out" by (rule task_inv_cong [OF i(1)]) simp_all
  moreover have "tmf_inv M ?c mg" by (rule tmf_inv_cong [OF i(2)]) simp_all
  moreover have "events_inv ?c" using device.hyps by (auto simp: events_inv_def)
  ultimately show ?case using i(3) by (simp only: inv_iff)
qed

lemma reachable_inv: "scsi_reachable env vt N M s0 s \<Longrightarrow> inv s0 \<Longrightarrow> inv s"
  by (induction rule: scsi_reachable.induct) (auto intro: step_inv)

end


text \<open>
  C31. Completion of a task. It gives the descriptors and references of the task back and reports to the family,
  on every branch: the status and transferred bytes on success, a missing target, which is also destroyed, a failure for every other
  answer, and a failure after a reset of the device. The last call is always the one that completes the task.
\<close>

theorem scsi_task_completion:
  assumes "task_inv N base c out" "p \<in> set out"
  shows "\<exists>c'. parallelTaskCompleted env p device_reset c = Some c' \<and> task_inv N base c' (remove1 p out)
    \<and> family_log c' = family_log c @ completion_calls (family env p) p device_reset (from_device (tasks c p))
    \<and> (\<exists>status response. last (family_log c') = CompleteParallelTask p status response)"
proof -
  obtain us vs where o: "out = us @ p # vs" "p \<notin> set us" using split_list_first [OF assms(2)] by blast
  then have "remove1 p out = us @ vs" by (simp add: remove1_append)
  with task_completed_inv [OF assms(1) [unfolded o(1)], of env device_reset] show ?thesis
    by (auto simp: completion_calls_def)
qed

text \<open>
  Round trip of task management. A function that the device has accepted is completed with the target,
  logical unit and tag it was requested with and the answer of the device, and its buffers return to the pools.
\<close>

theorem scsi_tmf_roundtrip:
  assumes "os_set (getAnyObject env)" "accepts_submissions vt tinv" "tinv t" "tmf_inv M c mg" "length mg < M"
    "mgmt_alloc_ok env (next_mgmt c)"
    "processTaskManagementFunctionInGate env vt theT theL theQ command (c, t) = Some (kSCSIServiceResponse_Request_In_Process, c1, t1)"
  shows "\<exists>w c2. tmf_inv M c1 (next_mgmt c # mg)
    \<and> taskManagementFunctionCompleted (next_mgmt c) device_reset (c1\<lparr>ctrl_responses := answers\<rparr>) = Some c2 \<and> tmf_inv M c2 mg
    \<and> family_log c2 = family_log c @ (let response = tmf_response device_reset (answers w) in
        if command = 0 then [CompleteAbortTask theT theL theQ response] else if command = 1 then [CompleteAbortTaskSet theT theL response]
        else if command = 2 then [CompleteClearACA theT theL response] else if command = 3 then [CompleteClearTaskSet theT theL response]
        else if command = 4 then [CompleteTargetReset theT response] else if command = 5 then [CompleteLogicalUnitReset theT theL response]
        else [])"
proof -
  obtain r w where c1: "tmf_inv M c1 (next_mgmt c # mg)" "family_log c1 = family_log c"
    "mgmt_tasks c1 (next_mgmt c) = Some \<lparr>mt_readable = r, mt_writable = w, mt_theT = theT, mt_theL = theL, mt_theQ = theQ, mt_command = command\<rparr>"
    using tmf_submitted [OF assms(1,4-6) accepts_submissionsD(1) [OF assms(2,3)], of theT theL theQ command] assms(7) by auto
  have "tmf_inv M (c1\<lparr>ctrl_responses := answers\<rparr>) ([] @ next_mgmt c # mg)" using tmf_inv_cong [OF c1(1)] by simp
  from tmf_completed [OF this, of device_reset] c1(3)
  obtain c2 w' where "taskManagementFunctionCompleted (next_mgmt c) device_reset (c1\<lparr>ctrl_responses := answers\<rparr>) = Some c2"
    "tmf_inv M c2 mg" "family_log c2 = family_log c1 @ tmf_completion_calls
       \<lparr>mt_readable = r, mt_writable = w, mt_theT = theT, mt_theL = theL, mt_theQ = theQ, mt_command = command\<rparr>
       (tmf_response device_reset (answers w'))"
    by auto
  then show ?thesis using c1(1,2)
    by (intro exI [of _ w'] exI [of _ c2]) (simp add: tmf_completion_calls_def Let_def VIRTIO_SCSI_T_TMF_ABORT_TASK_def
      VIRTIO_SCSI_T_TMF_ABORT_TASK_SET_def VIRTIO_SCSI_T_TMF_CLEAR_ACA_def VIRTIO_SCSI_T_TMF_CLEAR_TASK_SET_def
      VIRTIO_SCSI_T_TMF_I_T_NEXUS_RESET_def VIRTIO_SCSI_T_TMF_LOGICAL_UNIT_RESET_def)
qed

text \<open>
  Beyond the limit. With as many tasks under way as were reported to the family, the pools are empty, and starting
  another task dereferences the null pointer that the pool returns.
\<close>

theorem scsi_task_beyond_limit:
  assumes "os_set (getAnyObject env)" "task_inv N base c out" "length out = N"
  shows "ProcessParallelTaskInGate env vt p (c, t) = None"
proof -
  obtain xs ys where p: "multi_subrange_MD_pool c = Some xs" "map (\<lambda>p. task_multi_md (tasks c p)) out = map Some ys"
    "distinct (xs @ ys)" "set (xs @ ys) = {..<N}" using assms(2) by (auto simp: task_inv_def pool_split_def)
  have "length ys = N" using p(2) assms(3) by (metis length_map)
  moreover have "length xs + length ys = N" using p(3,4) distinct_card [of "xs @ ys"] by simp
  ultimately have "multi_subrange_MD_pool c = Some []" using p(1) by simp
  then show ?thesis
    using os_set.item_from_pool_empty [OF assms(1)]
    by (cases "item_from_pool (getAnyObject env) (single_subrange_MD_pool c)") (auto simp: ProcessParallelTaskInGate_def Let_def)
qed

text \<open>
  With hot plugging, starting the controller announces the targets below the highest one the device reports, and
  not this one, although the driver reports it as the highest supported target.
\<close>

theorem scsi_highest_target_skipped:
  assumes "has_bits (scsi_active_features c) VIRTIO_SCSI_F_HOTPLUG"
  shows "family_log (snd (StartController c)) = family_log c @ map (\<lambda>i. CreateTargetForID (of_nat i)) [0..<unat (max_target c)]
    \<and> CreateTargetForID (ReportHighestSupportedDeviceID c)
        \<notin> set (map (\<lambda>i. CreateTargetForID (of_nat i)) [0..<unat (max_target c)])"
proof -
  have "foldl (\<lambda>c i. notify (CreateTargetForID (of_nat i)) c) c xs
      = c\<lparr>family_log := family_log c @ map (\<lambda>i. CreateTargetForID (of_nat i)) xs\<rparr>" for xs c
    by (induction xs arbitrary: c) (simp_all add: notify_def)
  moreover have ne: "(of_nat i :: u64) \<noteq> ucast (max_target c)" if "i < unat (max_target c)" for i
  proof
    assume eq: "(of_nat i :: u64) = ucast (max_target c)"
    have "i < 65536" using that unat_u16_less [of "max_target c"] by simp
    then have "unat (of_nat i :: u64) = i" by (simp add: unat_of_nat)
    moreover have "unat (ucast (max_target c) :: u64) = unat (max_target c)"
      using unat_u16_less [of "max_target c"] by (simp add: unsigned_ucast_eq take_bit_nat_eq_self)
    ultimately show False using eq that by simp
  qed
  have "CreateTargetForID (ucast (max_target c)) \<notin> set (map (\<lambda>i. CreateTargetForID (of_nat i)) [0..<unat (max_target c)])"
  proof
    assume "CreateTargetForID (ucast (max_target c)) \<in> set (map (\<lambda>i. CreateTargetForID (of_nat i)) [0..<unat (max_target c)])"
    then obtain i where "i < unat (max_target c)" "ucast (max_target c) = (of_nat i :: u64)" by auto
    with ne [of i] show False by simp
  qed
  ultimately show ?thesis using assms by (simp add: StartController_def ReportHighestSupportedDeviceID_def del: set_map)
qed

section \<open>Examples\<close>

text \<open>A device with two tasks, one control request and one event buffer, which accepts every request and counts them.\<close>

definition scsi_host :: "nat VirtioDevice" where
  "scsi_host = \<lparr>vd_open = (\<lambda>t. Some (True, t)), vd_close = Some, vd_resetDevice = (\<lambda>t. Some (True, t)),
     vd_supportedFeatures = (\<lambda>t. 3), vd_requestFeatures = (\<lambda>f t. Some (True, t)), vd_failDevice = Some,
     vd_setupVirtqueues = (\<lambda>n ints inds t. Some (kIOReturnSuccess, [1, 1, 2], t)),
     vd_setVirtqueueInterruptsEnabled = (\<lambda>q b t. Some (kIOReturnSuccess, t)), vd_startDevice = (\<lambda>a w t. Some t),
     vd_submitBuffersToVirtqueue = (\<lambda>q r w k t. Some (kIOReturnSuccess, t + 1)),
     vd_readDeviceConfig8 = (\<lambda>a t. Some (0, t)), vd_readDeviceConfig16Native = (\<lambda>a t. Some (0, t)),
     vd_readDeviceConfig32Native = (\<lambda>a t. Some (0, t)), vd_readDeviceConfig64Native = (\<lambda>a t. Some (0, t)),
     vd_readDeviceConfig16LETransitional = (\<lambda>a t. Some (7, t)),
     vd_readDeviceConfig32LETransitional = (\<lambda>a t. Some (16, t)),
     vd_readDeviceConfig64LETransitional = (\<lambda>a t. Some (0, t)), vd_writeDeviceConfig8 = (\<lambda>a v t. Some t),
     vd_writeDeviceConfig16Native = (\<lambda>a v t. Some t), vd_writeDeviceConfig32Native = (\<lambda>a v t. Some t),
     vd_writeDeviceConfig16LETransitional = (\<lambda>a v t. Some t), vd_writeDeviceConfig32LETransitional = (\<lambda>a v t. Some t)\<rparr>"

definition example_scsi_request :: scsi_request where
  "example_scsi_request = \<lparr>GetHBADataDescriptor = \<lparr>md_id = 50, md_length = 208\<rparr>, GetTargetIdentifier = 3,
     GetLogicalUnitNumber = 1, GetTaggedTaskIdentifier = 9, GetTaskAttribute = 0, GetCommandDescriptorBlock = replicate 16 0,
     GetDataBuffer = Some \<lparr>md_id = 60, md_length = 4096\<rparr>, GetDataBufferOffset = 512, GetRequestedDataTransferCount = 1024,
     GetDataTransferDirection = kSCSIDataTransfer_FromTargetToInitiator\<rparr>"

definition example_scsi_env :: scsi_env where
  "example_scsi_env = \<lparr>family = (\<lambda>_. example_scsi_request), getAnyObject = first_object, ssdc = example_ssdc_env,
     event_alloc_ok = (\<lambda>_. True), sub_alloc_ok = (\<lambda>_. True), ctrl_alloc_ok = (\<lambda>_. True), mgmt_alloc_ok = (\<lambda>_. True)\<rparr>"

definition empty_task :: virtio_scsi_task where
  "empty_task = \<lparr>task_sub_md = None, task_multi_md = None, task_subrange = [],
     to_device = \<lparr>td_lun = replicate 8 0, td_id = 0, td_task_attr = 0, td_prio = 0, td_crn = 0, td_cdb = replicate 16 0\<rparr>,
     from_device = \<lparr>sense_len = 0, residual = 24, status_qualifier = 0, fd_status = 0, fd_response = 0, sense_bytes = replicate 96 0\<rparr>\<rparr>"

definition blank_controller :: VirtioSCSIController where
  "blank_controller = \<lparr>scsi_active_features = 0, max_target = 0, max_task_count = 0, max_lun = 0, seg_max = 0, max_sectors = 0,
     virtio_dev = False, multi_subrange_MD_pool = None, single_subrange_MD_pool = None, ctrl_readable_pool = None,
     ctrl_writable_pool = None, max_ctrl_tmf = 0, multi_mds = (\<lambda>_. new_ssdc), sub_ranges = (\<lambda>_. None), md_refs = (\<lambda>_. 1),
     tasks = (\<lambda>_. empty_task),
     ctrl_readables = (\<lambda>_. \<lparr>tmf_type = 0, tmf_subtype = 0, tmf_lun = replicate 8 0, tmf_id = 0\<rparr>), ctrl_responses = (\<lambda>_. 0),
     mgmt_tasks = (\<lambda>_. None), next_mgmt = 0, event_buffers = (\<lambda>_. None), family_log = []\<rparr>"

lemma scsi_host_accepts: "accepts_submissions scsi_host (\<lambda>_. True)"
  by (simp add: accepts_submissions_def scsi_host_def)

interpretation example_session: scsi_session example_scsi_env scsi_host "\<lambda>_. True" 2 1 "\<lambda>_. 1"
proof (rule scsi_session.intro)
  show "os_set (getAnyObject example_scsi_env)" using first_object.os_set_axioms by (simp add: example_scsi_env_def)
  show "accepts_submissions scsi_host (\<lambda>_. True)" by (rule scsi_host_accepts)
qed (simp add: example_scsi_env_def)

lemma example_scsi_request_ok: "request_ok example_scsi_request"
  by (simp add: request_ok_def example_scsi_request_def)

lemma scsi_host_start:
  "vd_resetDevice scsi_host t = Some (True, t)" "vd_supportedFeatures scsi_host t = 3"
  "vd_requestFeatures scsi_host f t = Some (True, t)" "vd_writeDeviceConfig32LETransitional scsi_host a v t = Some t"
  "vd_setupVirtqueues scsi_host n ints inds t = Some (kIOReturnSuccess, [1, 1, 2], t)" "vd_startDevice scsi_host b w t = Some t"
  by (simp_all add: scsi_host_def)

lemma example_new_md:
  "withDescriptorRanges (ssdc example_scsi_env) None 0 0 False refs = Some (Some (new_ssdc\<lparr>initialised := True\<rparr>), refs)"
  by (simp add: withDescriptorRanges_def initWithDescriptorRanges_def example_scsi_env_def example_ssdc_env_def new_ssdc_def)

lemma example_pools:
  "multi_subrange_MD_pool c = Some [] \<Longrightarrow> single_subrange_MD_pool c = Some []
     \<Longrightarrow> \<exists>c'. fill_MD_pools example_scsi_env 0 2 c = Some c' \<and> event_buffers c' = event_buffers c
       \<and> max_task_count c' = max_task_count c \<and> family_log c' = family_log c \<and> next_mgmt c' = next_mgmt c"
  "ctrl_readable_pool c = Some [] \<Longrightarrow> ctrl_writable_pool c = Some []
     \<Longrightarrow> \<exists>c'. fill_ctrl_pools example_scsi_env 0 1 c = Some c' \<and> event_buffers c' = event_buffers c
       \<and> max_task_count c' = max_task_count c \<and> max_ctrl_tmf c' = max_ctrl_tmf c
       \<and> family_log c' = family_log c \<and> next_mgmt c' = next_mgmt c"
  by (simp_all add: numeral_2_eq_2 example_new_md) (simp_all add: example_scsi_env_def)

lemma example_event:
  "\<exists>eb. submit_events example_scsi_env scsi_host 16 0 1 (c, 0) = Some (c\<lparr>event_buffers := eb\<rparr>, 1) \<and> eb 0 \<noteq> None"
  by (intro exI [of _ "(event_buffers c)(0 \<mapsto> (16, \<lparr>ev_event = 0, ev_lun = replicate 8 0, ev_reason = 0\<rparr>))"])
     (simp add: example_scsi_env_def scsi_host_def)

lemma example_initialize_queues:
  assumes "family_log c = []" "next_mgmt c = 0"
  shows "\<exists>c1. initialize_queues example_scsi_env scsi_host 16 16 [1, 1, 2] (c, 0) = Some (c1, 1)
     \<and> max_task_count c1 = 2 \<and> max_ctrl_tmf c1 = 1 \<and> event_buffers c1 0 \<noteq> None \<and> family_log c1 = [] \<and> next_mgmt c1 = 0"
proof -
  let ?c = "c\<lparr>max_task_count := 2, virtio_dev := True\<rparr>"
  obtain eb where eb: "submit_events example_scsi_env scsi_host 16 0 1 (?c, 0) = Some (?c\<lparr>event_buffers := eb\<rparr>, 1)" "eb 0 \<noteq> None"
    using example_event by blast
  let ?c2 = "?c\<lparr>event_buffers := eb, multi_subrange_MD_pool := Some [], single_subrange_MD_pool := Some []\<rparr>"
  obtain c3 where c3: "fill_MD_pools example_scsi_env 0 2 ?c2 = Some c3" "event_buffers c3 = eb" "max_task_count c3 = 2"
    "family_log c3 = []" "next_mgmt c3 = 0"
    using example_pools(1) [of ?c2] assms by auto
  let ?c4 = "c3\<lparr>max_ctrl_tmf := 1, ctrl_readable_pool := Some [], ctrl_writable_pool := Some []\<rparr>"
  obtain c5 where c5: "fill_ctrl_pools example_scsi_env 0 1 ?c4 = Some c5" "event_buffers c5 = eb" "max_task_count c5 = 2"
    "max_ctrl_tmf c5 = 1" "family_log c5 = []" "next_mgmt c5 = 0"
    using example_pools(2) [of ?c4] c3 by auto
  have "initialize_queues example_scsi_env scsi_host 16 16 [1, 1, 2] (c, 0) = Some (c5, 1)"
    using eb(1) c3(1) c5(1) by (simp add: initialize_queues_def array_read_def min_def Let_def del: One_nat_def)
  with c5 eb(2) show ?thesis by simp
qed

lemma example_initialize:
  "\<exists>c1. InitializeController example_scsi_env scsi_host True (blank_controller, 0) = Some (True, c1, 1)
     \<and> max_task_count c1 = 2 \<and> max_ctrl_tmf c1 = 1 \<and> event_buffers c1 0 \<noteq> None \<and> family_log c1 = [] \<and> next_mgmt c1 = 0"
proof -
  let ?c = "blank_controller\<lparr>scsi_active_features := 3 AND SCSI_SUPPORTED_FEATURES, seg_max := 16, max_sectors := 16,
     max_target := 7, max_lun := 16\<rparr>"
  obtain c1 where c1: "initialize_queues example_scsi_env scsi_host 16 16 [1, 1, 2] (?c, 0) = Some (c1, 1)"
    "max_task_count c1 = 2" "max_ctrl_tmf c1 = 1" "event_buffers c1 0 \<noteq> None" "family_log c1 = []" "next_mgmt c1 = 0"
    using example_initialize_queues [of ?c] by (auto simp: blank_controller_def)
  have config: "read_scsi_config scsi_host (c, 0) = Some ((16, 16), c\<lparr>seg_max := 16, max_sectors := 16, max_target := 7, max_lun := 16\<rparr>, 0)" for c
    by (simp add: read_scsi_config_def scsi_host_def)
  have "InitializeController example_scsi_env scsi_host True (blank_controller, 0) = Some (True, c1, 1)"
    using c1(1) by (simp add: InitializeController_def config Let_def scsi_host_start)
  with c1(2-) show ?thesis by blast
qed

lemma example_started:
  "\<exists>c1. InitializeController example_scsi_env scsi_host True (blank_controller, 0) = Some (True, c1, 1)
     \<and> max_task_count c1 = 2 \<and> max_ctrl_tmf c1 = 1 \<and> event_buffers c1 0 \<noteq> None \<and> family_log c1 = [] \<and> next_mgmt c1 = 0
     \<and> task_inv 2 (\<lambda>_. 1) c1 [] \<and> tmf_inv 1 c1 []"
proof -
  obtain c1 where c1: "InitializeController example_scsi_env scsi_host True (blank_controller, 0) = Some (True, c1, 1)"
    "max_task_count c1 = 2" "max_ctrl_tmf c1 = 1" "event_buffers c1 0 \<noteq> None" "family_log c1 = []" "next_mgmt c1 = 0"
    using example_initialize by blast
  from InitializeController_inv [OF c1(1)] have "task_inv 2 (\<lambda>_. 1) c1 [] \<and> tmf_inv 1 c1 []"
    using c1(2,3) by (simp add: scsi_inv_def blank_controller_def)
  with c1 show ?thesis by blast
qed


lemma example_task_under_way:
  "\<exists>c. task_inv 2 (\<lambda>_. 1) c [5]"
proof -
  obtain c1 where "task_inv 2 (\<lambda>_. 1) c1 []" using example_started by blast
  with process_task_prepared [OF example_session.pick, of 2 "\<lambda>_. 1" c1 "[]" 5 scsi_host] example_scsi_request_ok
  show ?thesis by (auto simp: example_scsi_env_def)
qed

theorem scsi_task_completion_witness:
  "\<exists>c c'. task_inv 2 (\<lambda>_. 1) c [5] \<and> parallelTaskCompleted example_scsi_env 5 True c = Some c' \<and> task_inv 2 (\<lambda>_. 1) c' []
    \<and> last (family_log c') = CompleteParallelTask 5 kSCSITaskStatus_DeviceNotPresent kSCSIServiceResponse_SERVICE_DELIVERY_OR_TARGET_FAILURE"
proof -
  obtain c where c: "task_inv 2 (\<lambda>_. 1) c [5]" using example_task_under_way by blast
  from scsi_task_completion [OF c, of 5 example_scsi_env True] c show ?thesis
    by (auto simp: completion_calls_def)
qed

theorem scsi_tmf_roundtrip_witness:
  "\<exists>c c1 c2. AbortTaskRequest example_scsi_env scsi_host 3 1 9 (c, 1) = Some (kSCSIServiceResponse_Request_In_Process, c1, 2)
    \<and> taskManagementFunctionCompleted 0 False (c1\<lparr>ctrl_responses := (\<lambda>_. 11)\<rparr>) = Some c2
    \<and> family_log c2 = [CompleteAbortTask 3 1 9 kSCSIServiceResponse_FUNCTION_REJECTED]"
proof -
  obtain c where c: "tmf_inv 1 c []" "next_mgmt c = 0" "family_log c = []" using example_started by blast
  have a: "mgmt_alloc_ok example_scsi_env (next_mgmt c)" by (simp add: example_scsi_env_def)
  obtain response c1 t1 where r: "processTaskManagementFunctionInGate example_scsi_env scsi_host 3 1 9 0 (c, 1) = Some (response, c1, t1)"
    using tmf_submitted [OF example_session.pick c(1) _ a accepts_submissionsD(1) [OF scsi_host_accepts TrueI], of 3 1 9 0 1] by auto
  moreover from r have "response = kSCSIServiceResponse_Request_In_Process" "t1 = 2"
    by (auto simp: processTaskManagementFunctionInGate_def scsi_host_def Let_def split: Option.bind_splits if_splits)
  ultimately have r: "processTaskManagementFunctionInGate example_scsi_env scsi_host 3 1 9 0 (c, 1)
      = Some (kSCSIServiceResponse_Request_In_Process, c1, 2)" by simp
  from scsi_tmf_roundtrip [OF example_session.pick scsi_host_accepts TrueI c(1) _ a r, of False "\<lambda>_. 11"] c r
  show ?thesis
    by (auto simp: AbortTaskRequest_def VIRTIO_SCSI_T_TMF_ABORT_TASK_def tmf_response_def VIRTIO_SCSI_S_FUNCTION_COMPLETE_def
        VIRTIO_SCSI_S_FUNCTION_SUCCEEDED_def VIRTIO_SCSI_S_FUNCTION_REJECTED_def)
qed

lemma example_tasks_full: "\<exists>c. task_inv 2 (\<lambda>_. 1) c [6, 5]"
proof -
  obtain c1 where "task_inv 2 (\<lambda>_. 1) c1 [5]" using example_task_under_way by blast
  with process_task_prepared [OF example_session.pick, of 2 "\<lambda>_. 1" c1 "[5]" 6 scsi_host] example_scsi_request_ok
  show ?thesis by (auto simp: example_scsi_env_def)
qed

theorem scsi_task_beyond_limit_witness:
  "\<exists>c. task_inv 2 (\<lambda>_. 1) c [6, 5] \<and> ProcessParallelTaskInGate example_scsi_env scsi_host 7 (c, 0) = None"
proof -
  obtain c where "task_inv 2 (\<lambda>_. 1) c [6, 5]" using example_tasks_full by blast
  with scsi_task_beyond_limit [OF example_session.pick this, of scsi_host 7 0] show ?thesis by auto
qed

theorem scsi_highest_target_skipped_witness:
  "family_log (snd (StartController (blank_controller\<lparr>scsi_active_features := 2, max_target := 2\<rparr>)))
     = [CreateTargetForID 0, CreateTargetForID 1]"
  using scsi_highest_target_skipped [of "blank_controller\<lparr>scsi_active_features := 2, max_target := 2\<rparr>"]
  by (simp add: has_bits_def VIRTIO_SCSI_F_HOTPLUG_def blank_controller_def upt_rec)

end
