(* ===== verification/Modern_PCI.thy ===== *)
theory Modern_PCI
  imports Vring_Layout
begin

text \<open>
  The beginnings of the transport for virtio 1.0 (VirtioPCIDevice.cpp): the walk over the PCI capabilities with its
  detection of cycles, the checks of the virtio capabilities when probing, and setting up and shutting down the interrupt
  handlers. The helpers of the kextgizmos submodule and the PCI family are parameters; the configuration space
  is taken to be constant during a walk.
\<close>

section \<open>State and environment\<close>

record djt_pci_interrupt_index_ranges =
  irq_pin_start :: int
  irq_pin_end :: int
  msi_start :: int
  msi_end :: int

record modern_env =
  configRead8 :: "u8 \<Rightarrow> u8"
  configRead32 :: "u8 \<Rightarrow> u32"
  first_capability_offset :: u8
  next_capability_offset :: "u8 \<Rightarrow> u8"
  register_for_range_index :: "u8 \<Rightarrow> u8"
  memory_range_type :: "u8 \<Rightarrow> int"
  device_memory_length :: "u8 \<Rightarrow> u64 option"
  interrupt_ranges :: djt_pci_interrupt_index_ranges
  setMemoryEnable :: "bool \<Rightarrow> bool \<Rightarrow> bool \<times> bool"
  service_starts :: bool
  ionew_ok :: bool
  source_ok :: "int \<Rightarrow> bool"
  workloop_ok :: "int \<Rightarrow> bool"

text \<open>Sources and work loops are represented by whether their pointer is set; \<open>enabled_interrupts\<close> are the interrupts whose
  source is enabled on a work loop, \<open>live_sources\<close> the number of event sources that are not released.\<close>

record VirtioPCIDevice =
  msi_num_sources :: u32
  msi_base_index :: int
  msi_sources :: "bool list option"
  msi_workloops :: "bool list option"
  irq_source :: bool
  irq_workloop :: bool
  enabled_interrupts :: "int list"
  live_sources :: int

section \<open>Capabilities\<close>

text \<open>A 32-bit value in a property of bytes, little-endian as on the supported machines.\<close>

definition djt_ioregentry_read_uint32_from_data_property :: "u8 list option \<Rightarrow> u32 option" where
  "djt_ioregentry_read_uint32_from_data_property prop_data = (case prop_data of
     Some [b0, b1, b2, b3] \<Rightarrow> Some (ucast b0 OR push_bit 8 (ucast b1) OR push_bit 16 (ucast b2) OR push_bit 24 (ucast b3))
   | _ \<Rightarrow> None)"

definition valid_offset :: "u8 \<Rightarrow> bool" where
  "valid_offset offset \<longleftrightarrow> \<not> offset < 0x40 \<and> offset mod 4 = 0"

text \<open>The loop: \<open>trail\<close> follows at half the speed of \<open>offset\<close>. The function \<open>fn\<close> is called for each capability.\<close>

partial_function (option) capability_loop ::
    "(u8 \<Rightarrow> u8) \<Rightarrow> (u8 \<Rightarrow> 's \<Rightarrow> 's) \<Rightarrow> u8 \<Rightarrow> u8 \<Rightarrow> bool \<Rightarrow> 's \<Rightarrow> (bool \<times> 's) option" where
  "capability_loop nxt fn offset trail trail_skip s =
     (let offset = nxt offset in
      if offset < 0x40 \<or> offset mod 4 \<noteq> 0 \<or> trail = offset then Some (offset = 0, s)
      else capability_loop nxt fn offset (if trail_skip then trail else nxt trail) (\<not> trail_skip) (fn offset s))"

definition djt_iopcidevice_iterate_capabilities ::
    "modern_env \<Rightarrow> (u8 \<Rightarrow> u8 \<Rightarrow> 's \<Rightarrow> 's) \<Rightarrow> 's \<Rightarrow> (bool \<times> 's) option" where
  "djt_iopcidevice_iterate_capabilities dev fn s =
     (let offset = first_capability_offset dev in
      if offset = 0 then Some (False, s)
      else capability_loop (next_capability_offset dev) (\<lambda>offset. fn offset (configRead8 dev offset)) offset offset True
             (fn offset (configRead8 dev offset) s))"

record virtio_pci_cap =
  cap_vndr :: u8
  cap_next :: u8
  cap_len :: u8
  cfg_type :: u8
  bar :: u8
  bar_offset :: u32
  bar_length :: u32

definition kIOPCIIOSpace :: int where "kIOPCIIOSpace = 1"
definition kIOPCI32BitMemorySpace :: int where "kIOPCI32BitMemorySpace = 2"
definition kIOPCI64BitMemorySpace :: int where "kIOPCI64BitMemorySpace = 3"
definition kIOPCIVendorSpecificCapability :: u8 where "kIOPCIVendorSpecificCapability = 9"
definition VIRTIO_PCI_CAP_COMMON_CFG :: u8 where "VIRTIO_PCI_CAP_COMMON_CFG = 1"
definition VIRTIO_PCI_CAP_NOTIFY_CFG :: u8 where "VIRTIO_PCI_CAP_NOTIFY_CFG = 2"
definition VIRTIO_PCI_CAP_ISR_CFG :: u8 where "VIRTIO_PCI_CAP_ISR_CFG = 3"
definition VIRTIO_PCI_CAP_DEVICE_CFG :: u8 where "VIRTIO_PCI_CAP_DEVICE_CFG = 4"
definition VIRTIO_PCI_CAP_PCI_CFG :: u8 where "VIRTIO_PCI_CAP_PCI_CFG = 5"
definition sizeof_virtio_pci_cap :: u8 where "sizeof_virtio_pci_cap = 16"
definition sizeof_virtio_pci_common_cfg :: u32 where "sizeof_virtio_pci_common_cfg = 56"

definition check_bar_type_and_length :: "modern_env \<Rightarrow> u8 \<Rightarrow> u32 \<Rightarrow> bool" where
  "check_bar_type_and_length dev bar_index min_length =
     (if bar_index > 5 then False
      else let bar_reg = register_for_range_index dev bar_index; bar_type = memory_range_type dev bar_reg in
        if bar_type = kIOPCI32BitMemorySpace \<or> bar_type = kIOPCI64BitMemorySpace
        then (case device_memory_length dev bar_reg of None \<Rightarrow> False | Some len \<Rightarrow> \<not> len < ucast min_length)
        else False)"

definition setupCommonCFG :: "modern_env \<Rightarrow> virtio_pci_cap \<Rightarrow> u8 \<Rightarrow> bool" where
  "setupCommonCFG dev cap config_offset =
     (bar_offset cap mod 4 = 0 \<and> \<not> bar_length cap < sizeof_virtio_pci_common_cfg
      \<and> check_bar_type_and_length dev (bar cap) (bar_length cap))"

definition setupNotificationStructure :: "modern_env \<Rightarrow> virtio_pci_cap \<Rightarrow> u8 \<Rightarrow> bool" where
  "setupNotificationStructure dev cap config_offset =
     (let notify_off_multiplier = configRead32 dev (config_offset + sizeof_virtio_pci_cap) in
      (notify_off_multiplier = 0 \<or> is_pow2 (ucast notify_off_multiplier)) \<and> bar_offset cap mod 2 = 0
      \<and> \<not> bar_length cap < 2 \<and> check_bar_type_and_length dev (bar cap) (bar_length cap))"

definition setupISRStatusStructure :: "modern_env \<Rightarrow> virtio_pci_cap \<Rightarrow> u8 \<Rightarrow> bool" where
  "setupISRStatusStructure dev cap config_offset =
     (\<not> bar_length cap < 1 \<and> check_bar_type_and_length dev (bar cap) (bar_length cap))"

definition setupDeviceSpecificStructure :: "modern_env \<Rightarrow> virtio_pci_cap \<Rightarrow> u8 \<Rightarrow> bool" where
  "setupDeviceSpecificStructure dev cap config_offset =
     (bar_offset cap mod 4 = 0 \<and> check_bar_type_and_length dev (bar cap) (bar_length cap))"

definition read_virtio_pci_cap :: "modern_env \<Rightarrow> u8 \<Rightarrow> virtio_pci_cap" where
  "read_virtio_pci_cap dev offset = \<lparr>cap_vndr = configRead8 dev offset, cap_next = configRead8 dev (offset + 1),
     cap_len = configRead8 dev (offset + 2), cfg_type = configRead8 dev (offset + 3), bar = configRead8 dev (offset + 4),
     bar_offset = configRead32 dev (offset + 8), bar_length = configRead32 dev (offset + 12)\<rparr>"

text \<open>The function that \<^verbatim>\<open>probe\<close> applies to each capability; its state is the array \<^verbatim>\<open>cap_checked\<close> of five flags.\<close>

definition check_capability :: "modern_env \<Rightarrow> u8 \<Rightarrow> u8 \<Rightarrow> bool list \<Rightarrow> bool list" where
  "check_capability dev offset cap_type cap_checked =
     (if cap_type = kIOPCIVendorSpecificCapability
      then let cap = read_virtio_pci_cap dev offset; i = unat (cfg_type cap) - 1 in
        if cap_len cap < sizeof_virtio_pci_cap then cap_checked
        else if cfg_type cap = VIRTIO_PCI_CAP_COMMON_CFG
        then (if \<not> cap_checked ! i then cap_checked[i := setupCommonCFG dev cap offset] else cap_checked)
        else if cfg_type cap = VIRTIO_PCI_CAP_NOTIFY_CFG
        then (if \<not> cap_checked ! i then cap_checked[i := setupNotificationStructure dev cap offset] else cap_checked)
        else if cfg_type cap = VIRTIO_PCI_CAP_ISR_CFG
        then (if \<not> cap_checked ! i then cap_checked[i := setupISRStatusStructure dev cap offset] else cap_checked)
        else if cfg_type cap = VIRTIO_PCI_CAP_DEVICE_CFG
        then (if \<not> cap_checked ! i then cap_checked[i := setupDeviceSpecificStructure dev cap offset] else cap_checked)
        else cap_checked
      else cap_checked)"

definition has_interrupts :: "djt_pci_interrupt_index_ranges \<Rightarrow> bool" where
  "has_interrupts r \<longleftrightarrow> \<not> (irq_pin_start r = irq_pin_end r \<and> msi_start r = msi_end r)"

text \<open>Whether the driver takes the device, with the flags computed on the way. The memory ranges of the PCI device are
  enabled for the walk and then set back to what \<^verbatim>\<open>setMemoryEnable\<close> returned.\<close>

definition modern_probe :: "modern_env \<Rightarrow> bool \<Rightarrow> bool \<Rightarrow> (bool \<times> bool list \<times> bool) option" where
  "modern_probe dev provider_is_pci memory_enabled =
     (if \<not> provider_is_pci then Some (False, [], memory_enabled)
      else do {
        let (mem_enable_reset, memory_enabled) = setMemoryEnable dev True memory_enabled;
        (ok, cap_checked) \<leftarrow> djt_iopcidevice_iterate_capabilities dev (check_capability dev) (replicate 5 False);
        let (_, memory_enabled) = setMemoryEnable dev mem_enable_reset memory_enabled;
        Some (ok \<and> has_interrupts (interrupt_ranges dev), cap_checked, memory_enabled)
      })"

section \<open>Interrupt handlers\<close>

definition modern_interruptFilter :: bool where
  "modern_interruptFilter = True"

text \<open>The loop over the MSI vectors from \<open>intr_index\<close> on, of which \<open>n\<close> are left.\<close>

fun setup_msi_sources ::
    "modern_env \<Rightarrow> nat \<Rightarrow> int \<Rightarrow> nat \<Rightarrow> VirtioPCIDevice \<Rightarrow> (bool \<times> VirtioPCIDevice) option" where
  "setup_msi_sources env 0 intr_index i d = Some (True, d)"
| "setup_msi_sources env (Suc n) intr_index i d =
     (if \<not> source_ok env intr_index then Some (False, d)
      else do {
        sources \<leftarrow> msi_sources d;
        sources \<leftarrow> array_modify sources i (\<lambda>_. True);
        let d = d\<lparr>msi_sources := Some sources, live_sources := live_sources d + 1\<rparr>;
        workloops \<leftarrow> msi_workloops d;
        workloops \<leftarrow> array_modify workloops i (\<lambda>_. workloop_ok env intr_index);
        let d = d\<lparr>msi_workloops := Some workloops\<rparr>;
        if \<not> workloop_ok env intr_index then Some (False, d)
        else setup_msi_sources env n (intr_index + 1) (i + 1)
               (d\<lparr>enabled_interrupts := enabled_interrupts d @ [intr_index]\<rparr>)
      })"

definition setupInterruptHandlers :: "modern_env \<Rightarrow> VirtioPCIDevice \<Rightarrow> (bool \<times> VirtioPCIDevice) option" where
  "setupInterruptHandlers env d =
     (let r = interrupt_ranges env in
      if \<not> has_interrupts r then Some (False, d)
      else if msi_start r \<noteq> msi_end r
      then let num :: u32 = of_int (msi_end r - msi_start r) in
        if \<not> ionew_ok env then None
        else setup_msi_sources env (nat (msi_end r - msi_start r)) (msi_start r) 0
               (d\<lparr>msi_num_sources := num, msi_base_index := msi_start r, msi_sources := Some (replicate (unat num) False),
                  msi_workloops := Some (replicate (unat num) False)\<rparr>)
      else if \<not> source_ok env (irq_pin_start r) then Some (False, d\<lparr>irq_source := False\<rparr>)
      else let d = d\<lparr>irq_source := True, live_sources := live_sources d + 1\<rparr> in
        if \<not> workloop_ok env (irq_pin_start r) then Some (False, d\<lparr>irq_workloop := False\<rparr>)
        else Some (True, d\<lparr>irq_workloop := True, enabled_interrupts := enabled_interrupts d @ [irq_pin_start r]\<rparr>))"

text \<open>Shutting down vector \<open>i\<close>: a source with a work loop is disabled and removed, then both are released.\<close>

definition shutdown_source :: "nat \<Rightarrow> VirtioPCIDevice \<Rightarrow> VirtioPCIDevice option" where
  "shutdown_source i d = do {
     sources \<leftarrow> msi_sources d;
     workloops \<leftarrow> msi_workloops d;
     s \<leftarrow> array_read sources i;
     w \<leftarrow> array_read workloops i;
     if w \<and> \<not> s then None
     else Some (d\<lparr>enabled_interrupts := (if w then removeAll (msi_base_index d + int i) (enabled_interrupts d) else enabled_interrupts d),
             msi_workloops := Some (workloops[i := False]), msi_sources := Some (sources[i := False]),
             live_sources := live_sources d - (if s then 1 else 0)\<rparr>)
   }"

definition shutdownInterruptHandlers :: "int \<Rightarrow> VirtioPCIDevice \<Rightarrow> VirtioPCIDevice option" where
  "shutdownInterruptHandlers pin d = do {
     d \<leftarrow> foldM shutdown_source [0..<unat (msi_num_sources d)] d;
     if msi_num_sources d > 0
     then Some (d\<lparr>msi_num_sources := 0, msi_workloops := None, msi_sources := None\<rparr>)
     else if irq_workloop d
     then if \<not> irq_source d then None
          else Some (d\<lparr>irq_workloop := False, irq_source := False, live_sources := live_sources d - 1,
                 enabled_interrupts := removeAll pin (enabled_interrupts d)\<rparr>)
     else Some d
   }"

definition modern_stop :: "modern_env \<Rightarrow> VirtioPCIDevice \<Rightarrow> VirtioPCIDevice option" where
  "modern_stop env d = shutdownInterruptHandlers (irq_pin_start (interrupt_ranges env)) d"

definition modern_start :: "modern_env \<Rightarrow> bool \<Rightarrow> VirtioPCIDevice \<Rightarrow> (bool \<times> VirtioPCIDevice) option" where
  "modern_start env provider_is_pci d =
     (if \<not> provider_is_pci then Some (False, d)
      else if \<not> service_starts env then Some (False, d)
      else do {
        (ok, d) \<leftarrow> setupInterruptHandlers env d;
        if \<not> ok then do { d \<leftarrow> modern_stop env d; Some (False, d) } else Some (True, d)
      })"

end
