(* ===== verification/Modern_PCI_Props.thy ===== *)
theory Modern_PCI_Props
  imports Modern_PCI
begin

text \<open>
  Properties of the transport for virtio 1.0: the walk over the capabilities ends for every configuration space and
  accepts exactly the well-formed lists; what probing depends on; starting and stopping the interrupt handlers.
\<close>

section \<open>The walk over the capabilities\<close>

definition cap_offset :: "modern_env \<Rightarrow> nat \<Rightarrow> u8" where
  "cap_offset dev n = (next_capability_offset dev ^^ n) (first_capability_offset dev)"

text \<open>Reference: a list of \<open>n\<close> capabilities is well formed if it starts somewhere, ends with offset 0 and all but
  the first offset in between are aligned and beyond the header.\<close>

definition well_formed_list :: "modern_env \<Rightarrow> nat \<Rightarrow> bool" where
  "well_formed_list dev n \<longleftrightarrow> 0 < n \<and> cap_offset dev 0 \<noteq> 0 \<and> cap_offset dev n = 0
     \<and> (\<forall>i. 0 < i \<and> i < n \<longrightarrow> valid_offset (cap_offset dev i))"

definition walk_stops :: "(nat \<Rightarrow> u8) \<Rightarrow> nat \<Rightarrow> bool" where
  "walk_stops o' n \<longleftrightarrow> \<not> valid_offset (o' n) \<or> o' n = o' ((n - 1) div 2)"

lemma periodic:
  assumes step: "\<And>n. o' (Suc n) = f (o' n)" and eq: "o' i = o' k" "i < k"
  shows "o' (i + m) = o' (i + m mod (k - i))"
proof (induction m rule: less_induct)
  case (less m)
  show ?case
  proof (cases "m < k - i")
    case False
    have shift: "o' (i + j) = o' (k + j)" for j by (induction j) (simp_all add: step eq(1))
    have "o' (i + m) = o' (k + (m - (k - i)))" using False eq(2) by (simp add: add.commute)
    also have "\<dots> = o' (i + (m - (k - i)))" by (simp add: shift)
    also have "\<dots> = o' (i + (m - (k - i)) mod (k - i))" using less.IH [of "m - (k - i)"] False eq(2) by simp
    also have "(m - (k - i)) mod (k - i) = m mod (k - i)" using False by (simp add: le_mod_geq)
    finally show ?thesis .
  qed simp
qed

lemma periodic_range:
  assumes "\<And>n. o' (Suc n) = f (o' n)" "o' i = o' k" "i < k" "i \<le> n"
  shows "\<exists>j. i \<le> j \<and> j < k \<and> o' n = o' j"
proof -
  have "(n - i) mod (k - i) < k - i" using assms(3) by simp
  then show ?thesis using periodic [OF assms(1-3), of "n - i"] assms(4)
    by (intro exI [of _ "i + (n - i) mod (k - i)"]) auto
qed

lemma walk_stops_exists:
  fixes o' :: "nat \<Rightarrow> u8"
  assumes step: "\<And>n. o' (Suc n) = f (o' n)"
  shows "\<exists>n. 0 < n \<and> n \<le> 511 \<and> walk_stops o' n"
proof -
  have "\<not> inj_on o' {..256}"
  proof
    assume "inj_on o' {..256}"
    then have "card (o' ` {..256}) = 257" by (simp add: card_image)
    moreover have "card (o' ` {..256}) \<le> card (UNIV :: u8 set)" by (intro card_mono) simp_all
    ultimately show False by (simp add: card_word)
  qed
  then obtain i k where ik: "i < k" "k \<le> 256" "o' i = o' k"
    by (metis (no_types, lifting) atMost_iff inj_onI linorder_neqE_nat)
  define p where "p = k - i"
  define q where "q = p * (i div p + 1) - 1"
  have p: "0 < p" using ik by (simp add: p_def)
  define x where "x = p * (i div p)"
  have x: "p * (i div p + 1) = x + p" "i = x + i mod p" "i mod p < p" using p by (simp_all add: x_def)
  have bounds: "i \<le> q" "q < i + p" "Suc q = p * (i div p + 1)"
    using p x(2,3) unfolding q_def x(1) by linarith+
  have "o' (2 * q + 1) = o' q"
  proof -
    have "o' (i + (q - i + Suc q)) = o' (i + (q - i + Suc q) mod p)" using periodic [OF step ik(3,1), of "q - i + Suc q"] by (simp add: p_def)
    also have "(q - i + Suc q) mod p = (q - i) mod p" unfolding bounds(3) by (rule mod_mult_self2)
    also have "o' (i + (q - i) mod p) = o' (i + (q - i))" using periodic [OF step ik(3,1), of "q - i"] by (simp add: p_def)
    finally show ?thesis using bounds(1) by (simp add: mult_2)
  qed
  then have "walk_stops o' (2 * q + 1)" by (simp add: walk_stops_def)
  moreover have "2 * q + 1 \<le> 511" using bounds(2) ik by (simp add: p_def)
  ultimately show ?thesis by (intro exI [of _ "2 * q + 1"]) simp
qed

text \<open>The loop from its \<open>n\<close>-th iteration on.\<close>

lemma capability_loop_step:
  assumes "\<And>n. o' (Suc n) = nxt (o' n)"
  shows "capability_loop nxt fn (o' n) (o' (n div 2)) (even n) s =
    (if walk_stops o' (Suc n) then Some (o' (Suc n) = 0, s)
     else capability_loop nxt fn (o' (Suc n)) (o' (Suc n div 2)) (even (Suc n)) (fn (o' (Suc n)) s))"
proof -
  have "(if even n then o' (n div 2) else nxt (o' (n div 2))) = o' (Suc n div 2)"
    by (cases "even n") (auto simp: assms elim!: evenE oddE)
  then show ?thesis
    by (subst capability_loop.simps) (auto simp: Let_def assms walk_stops_def valid_offset_def)
qed

lemma capability_loop_result:
  assumes step: "\<And>n. o' (Suc n) = nxt (o' n)" and N: "walk_stops o' N" "n < N" "\<forall>i. 0 < i \<and> i < N \<longrightarrow> \<not> walk_stops o' i"
  shows "capability_loop nxt fn (o' n) (o' (n div 2)) (even n) s = Some (o' N = 0, fold fn (map o' [Suc n..<N]) s)"
  using N(2)
proof (induction "N - n" arbitrary: n s)
  case (Suc k)
  show ?case
  proof (cases "Suc n = N")
    case True
    then show ?thesis using N(1) by (subst capability_loop_step [of o', OF step]) simp
  next
    case False
    with Suc.prems have lt: "Suc n < N" by simp
    then have "\<not> walk_stops o' (Suc n)" using N(3) by simp
    moreover have "map o' [Suc n..<N] = o' (Suc n) # map o' [Suc (Suc n)..<N]" using lt by (simp add: upt_conv_Cons)
    ultimately show ?thesis
      using Suc.hyps(1) [of "Suc n"] Suc.hyps(2) lt by (subst capability_loop_step [of o', OF step]) simp
  qed
qed simp

lemma first_stop_well_formed:
  assumes N: "walk_stops (cap_offset dev) N" "0 < N" "\<forall>i. 0 < i \<and> i < N \<longrightarrow> \<not> walk_stops (cap_offset dev) i"
    and first: "cap_offset dev 0 \<noteq> 0"
  shows "cap_offset dev N = 0 \<longleftrightarrow> (\<exists>n. well_formed_list dev n)"
    "cap_offset dev N = 0 \<Longrightarrow> well_formed_list dev N \<and> distinct (map (cap_offset dev) [0..<N])"
proof -
  let ?o = "cap_offset dev"
  have step: "?o (Suc n) = next_capability_offset dev (?o n)" for n by (simp add: cap_offset_def)
  have v: "valid_offset (?o i)" if "0 < i" "i < N" for i using N(3) that by (auto simp: walk_stops_def)
  have nz: "?o j \<noteq> 0" if "j < N" for j
    using v [of j] first that by (cases "j = 0") (auto simp: valid_offset_def)
  have wf: "well_formed_list dev N" if "?o N = 0" using that N(2) first v by (simp add: well_formed_list_def)
  show "?o N = 0 \<longleftrightarrow> (\<exists>n. well_formed_list dev n)"
  proof
    assume "\<exists>n. well_formed_list dev n"
    then obtain n where n: "0 < n" "?o n = 0" "\<forall>i. 0 < i \<and> i < n \<longrightarrow> valid_offset (?o i)" by (auto simp: well_formed_list_def)
    have "N \<le> n" using nz n(2) by (meson not_le)
    moreover have False if lt: "N < n"
    proof -
      have eq: "?o ((N - 1) div 2) = ?o N" using N(1,2) n(3) lt by (auto simp: walk_stops_def)
      have "(N - 1) div 2 < N" "(N - 1) div 2 \<le> n" using N(2) lt by auto
      then obtain j where "j < N" "?o n = ?o j" using periodic_range [of ?o, OF step eq, of n] by blast
      then show False using nz n(2) by simp
    qed
    ultimately show "?o N = 0" using n(2) by (cases "N = n") auto
  qed (use wf in blast)
  assume z: "?o N = 0"
  have "?o i \<noteq> ?o k" if "i < k" "k < N" for i k
  proof
    assume "?o i = ?o k"
    from periodic_range [of ?o, OF step this that(1), of N] that obtain j where "j < k" "?o N = ?o j" by auto
    then have "j < N" "?o N = ?o j" using that by simp_all
    then show False using nz z by simp
  qed
  then have "distinct (map ?o [0..<N])" by (auto simp: distinct_conv_nth) (metis linorder_neqE_nat)
  with wf z show "well_formed_list dev N \<and> distinct (map ?o [0..<N])" by blast
qed

lemma capability_walk_ok:
  "\<exists>ok s'. djt_iopcidevice_iterate_capabilities dev fn s = Some (ok, s') \<and> (ok \<longleftrightarrow> (\<exists>n. well_formed_list dev n))
     \<and> (ok \<longrightarrow> (\<exists>n. well_formed_list dev n \<and> distinct (map (cap_offset dev) [0..<n])
          \<and> s' = fold (\<lambda>offset. fn offset (configRead8 dev offset)) (map (cap_offset dev) [0..<n]) s))"
proof (cases "first_capability_offset dev = 0")
  case True
  then show ?thesis by (auto simp: djt_iopcidevice_iterate_capabilities_def well_formed_list_def cap_offset_def)
next
  case False
  let ?o = "cap_offset dev"
  let ?fn = "\<lambda>offset. fn offset (configRead8 dev offset)"
  have step: "?o (Suc n) = next_capability_offset dev (?o n)" for n by (simp add: cap_offset_def)
  have first: "?o 0 = first_capability_offset dev" by (simp add: cap_offset_def)
  define N where "N = (LEAST n. 0 < n \<and> walk_stops ?o n)"
  have ex: "\<exists>n. 0 < n \<and> walk_stops ?o n" using walk_stops_exists [of ?o, OF step] by blast
  have N: "0 < N" "walk_stops ?o N" using LeastI_ex [OF ex] by (auto simp: N_def)
  have least: "\<forall>i. 0 < i \<and> i < N \<longrightarrow> \<not> walk_stops ?o i" using not_less_Least N_def by blast
  have "capability_loop (next_capability_offset dev) ?fn (?o 0) (?o 0) True (?fn (?o 0) s)
     = Some (?o N = 0, fold ?fn (map ?o [Suc 0..<N]) (?fn (?o 0) s))"
    using capability_loop_result [of ?o, OF step N(2,1) least, of ?fn "?fn (?o 0) s"] by simp
  moreover have "map ?o [0..<N] = ?o 0 # map ?o [Suc 0..<N]" using N(1) by (simp add: upt_conv_Cons)
  ultimately have "djt_iopcidevice_iterate_capabilities dev fn s = Some (?o N = 0, fold ?fn (map ?o [0..<N]) s)"
    using False by (simp add: djt_iopcidevice_iterate_capabilities_def Let_def first)
  with first_stop_well_formed [OF N(2,1) least] False first show ?thesis by auto
qed

text \<open>
  C32. The walk over the capabilities ends for every configuration space, cyclic ones included. It reports success exactly for
  well-formed lists, and then each capability of the list has been visited once, in order.
\<close>

theorem capability_walk:
  "\<exists>ok s'. djt_iopcidevice_iterate_capabilities dev fn s = Some (ok, s') \<and> (ok \<longleftrightarrow> (\<exists>n. well_formed_list dev n))
     \<and> (ok \<longrightarrow> (\<exists>n. well_formed_list dev n \<and> distinct (map (cap_offset dev) [0..<n])
          \<and> s' = fold (\<lambda>offset. fn offset (configRead8 dev offset)) (map (cap_offset dev) [0..<n]) s))"
  by (rule capability_walk_ok)

text \<open>
  What probing depends on. The driver takes a PCI device exactly when its list of capabilities is well formed and it has an
  interrupt: the virtio structures are checked for alignment and size, but the outcome of the checks is not used. The memory
  ranges are enabled afterwards if and only if they were before, given that enabling them returns the old setting.
\<close>

theorem modern_probe_iff:
  assumes "\<And>enable old. setMemoryEnable dev enable old = (old, enable)"
  shows "\<exists>taken flags. modern_probe dev True memory_enabled = Some (taken, flags, memory_enabled)
     \<and> (taken \<longleftrightarrow> (\<exists>n. well_formed_list dev n) \<and> has_interrupts (interrupt_ranges dev))"
  using capability_walk_ok [of dev "check_capability dev" "replicate 5 False"] by (auto simp: modern_probe_def assms)

section \<open>Interrupt handlers\<close>

text \<open>The state after \<open>j\<close> of \<open>n\<close> vectors have been set up; \<open>e\<close> tells whether one more has a source but no work loop.\<close>

definition msi_state :: "modern_env \<Rightarrow> nat \<Rightarrow> nat \<Rightarrow> bool \<Rightarrow> VirtioPCIDevice \<Rightarrow> bool" where
  "msi_state env n j e d \<longleftrightarrow> j \<le> n \<and> (e \<longrightarrow> j < n) \<and> unat (msi_num_sources d) = n \<and> msi_base_index d = msi_start (interrupt_ranges env)
     \<and> msi_sources d = Some (map (\<lambda>i. i < j \<or> (e \<and> i = j)) [0..<n]) \<and> msi_workloops d = Some (map (\<lambda>i. i < j) [0..<n])
     \<and> enabled_interrupts d = map (\<lambda>i. msi_start (interrupt_ranges env) + int i) [0..<j]
     \<and> live_sources d = int j + (if e then 1 else 0) \<and> \<not> irq_source d \<and> \<not> irq_workloop d"

lemma map_upt_update: "i < n \<Longrightarrow> (\<forall>k < n. g k = (if k = i then x else f k)) \<Longrightarrow> (map f [0..<n])[i := x] = map g [0..<n]"
  by (rule nth_equalityI) (auto simp: nth_list_update)

lemma setup_msi_sources_result:
  assumes "msi_state env n i False d" "m + i = n"
  shows "\<exists>ok j e d'. setup_msi_sources env m (msi_start (interrupt_ranges env) + int i) i d = Some (ok, d')
    \<and> msi_state env n j e d' \<and> (ok \<longrightarrow> j = n)"
  using assms
proof (induction m arbitrary: i d)
  case 0
  then show ?case by auto
next
  case (Suc m)
  let ?k = "msi_start (interrupt_ranges env) + int i"
  have s: "msi_sources d = Some (map (\<lambda>j. j < i) [0..<n])" "msi_workloops d = Some (map (\<lambda>j. j < i) [0..<n])" "i < n"
    using Suc.prems by (auto simp: msi_state_def)
  have u: "(map (\<lambda>j. j < i) [0..<n])[i := True] = map (\<lambda>j. j < Suc i) [0..<n]"
    "(map (\<lambda>j. j < i) [0..<n])[i := True] = map (\<lambda>j. j < i \<or> j = i) [0..<n]"
    "(map (\<lambda>j. j < i) [0..<n])[i := False] = map (\<lambda>j. j < i) [0..<n]"
    using s(3) by (auto intro!: map_upt_update split: if_splits)
  show ?case
  proof (cases "source_ok env ?k")
    case False
    with Suc.prems show ?thesis by auto
  next
    case True
    show ?thesis
    proof (cases "workloop_ok env ?k")
      case False
      let ?d = "d\<lparr>msi_sources := Some (map (\<lambda>j. j < i \<or> j = i) [0..<n]), live_sources := live_sources d + 1,
         msi_workloops := Some (map (\<lambda>j. j < i) [0..<n])\<rparr>"
      have "setup_msi_sources env (Suc m) ?k i d = Some (False, ?d)" using True False s u(2,3) by simp
      moreover have "msi_state env n i True ?d" using Suc.prems(1) s(3) by (simp add: msi_state_def)
      ultimately show ?thesis by blast
    next
      case wl: True
      let ?d = "d\<lparr>msi_sources := Some (map (\<lambda>j. j < Suc i) [0..<n]), live_sources := live_sources d + 1,
         msi_workloops := Some (map (\<lambda>j. j < Suc i) [0..<n]), enabled_interrupts := enabled_interrupts d @ [?k]\<rparr>"
      have "setup_msi_sources env (Suc m) ?k i d
         = setup_msi_sources env m (msi_start (interrupt_ranges env) + int (Suc i)) (Suc i) ?d"
        using True wl s u(1) by (simp add: add.commute add.left_commute)
      moreover have "msi_state env n (Suc i) False ?d" using Suc.prems(1) s(3) by (simp add: msi_state_def)
      ultimately show ?thesis using Suc.IH [of "Suc i" ?d] Suc.prems(2) by auto
    qed
  qed
qed

text \<open>Shutting down leaves nothing behind: no enabled interrupt, no event source, no arrays.\<close>

definition interrupts_idle :: "VirtioPCIDevice \<Rightarrow> bool" where
  "interrupts_idle d \<longleftrightarrow> msi_num_sources d = 0 \<and> msi_sources d = None \<and> msi_workloops d = None \<and> \<not> irq_source d \<and> \<not> irq_workloop d
     \<and> enabled_interrupts d = [] \<and> live_sources d = 0"

lemma shutdown_msi:
  assumes "msi_state env n j e d" "0 < n"
  shows "\<exists>d'. shutdownInterruptHandlers pin d = Some d' \<and> interrupts_idle d'"
proof -
  let ?b = "msi_start (interrupt_ranges env)"
  let ?P = "\<lambda>i d'. unat (msi_num_sources d') = n \<and> msi_base_index d' = ?b
     \<and> msi_sources d' = Some (map (\<lambda>k. i \<le> k \<and> (k < j \<or> (e \<and> k = j))) [0..<n])
     \<and> msi_workloops d' = Some (map (\<lambda>k. i \<le> k \<and> k < j) [0..<n]) \<and> \<not> irq_source d' \<and> \<not> irq_workloop d'
     \<and> enabled_interrupts d' = map (\<lambda>k. ?b + int k) [i..<j]
     \<and> live_sources d' = int (j - i) + (if e \<and> i \<le> j then 1 else 0)"
  have "\<exists>d'. foldM shutdown_source [0..<i] d = Some d' \<and> ?P i d'" if "i \<le> n" for i
    using that
  proof (induction i)
    case 0
    then show ?case using assms(1) by (simp add: msi_state_def)
  next
    case (Suc i)
    then obtain d1 where d1: "foldM shutdown_source [0..<i] d = Some d1" "?P i d1" by auto
    have i: "i < n" using Suc.prems by simp
    have u: "(map (\<lambda>k. i \<le> k \<and> (k < j \<or> (e \<and> k = j))) [0..<n])[i := False] = map (\<lambda>k. Suc i \<le> k \<and> (k < j \<or> (e \<and> k = j))) [0..<n]"
      "(map (\<lambda>k. i \<le> k \<and> k < j) [0..<n])[i := False] = map (\<lambda>k. Suc i \<le> k \<and> k < j) [0..<n]"
      using i by (auto intro!: map_upt_update split: if_splits)
    have en: "(if i < j then removeAll (?b + int i) (map (\<lambda>k. ?b + int k) [i..<j]) else map (\<lambda>k. ?b + int k) [i..<j])
        = map (\<lambda>k. ?b + int k) [Suc i..<j]"
    proof (cases "i < j")
      case True
      then have "[i..<j] = i # [Suc i..<j]" by (simp add: upt_conv_Cons)
      moreover have "removeAll (?b + int i) (map (\<lambda>k. ?b + int k) [Suc i..<j]) = map (\<lambda>k. ?b + int k) [Suc i..<j]"
        by (rule removeAll_id) auto
      ultimately show ?thesis using True by simp
    qed simp
    obtain d2 where d2: "shutdown_source i d1 = Some d2" "?P (Suc i) d2"
      using d1(2) i u en by (cases "i < j"; cases "i = j") (auto simp: shutdown_source_def split: if_splits)
    with d1(1) show ?case by (simp add: foldM_append)
  qed
  from this [of n] obtain d1 where d1: "foldM shutdown_source [0..<n] d = Some d1" "?P n d1" by auto
  have n: "unat (msi_num_sources d) = n" "j \<le> n" "e \<longrightarrow> j < n" using assms(1) by (auto simp: msi_state_def)
  have "msi_num_sources d1 > 0" using d1(2) assms(2) by (auto simp: word_less_nat_alt)
  then show ?thesis using d1 n by (auto simp: shutdownInterruptHandlers_def interrupts_idle_def)
qed


section \<open>Examples\<close>

lemma funpow_numeral_2: "(f ^^ 2) x = f (f x)"
  by (simp add: numeral_2_eq_2)

definition example_modern_env :: modern_env where
  "example_modern_env = \<lparr>configRead8 = (\<lambda>_. 9), configRead32 = (\<lambda>_. 0), first_capability_offset = 0x40,
     next_capability_offset = (\<lambda>o'. if o' = 0x40 then 0x50 else 0), register_for_range_index = (\<lambda>i. 0x10 + 4 * i),
     memory_range_type = (\<lambda>_. 2), device_memory_length = (\<lambda>_. Some 4096),
     interrupt_ranges = \<lparr>irq_pin_start = 0, irq_pin_end = 1, msi_start = 1, msi_end = 4\<rparr>,
     setMemoryEnable = (\<lambda>enable old. (old, enable)), service_starts = True, ionew_ok = True, source_ok = (\<lambda>_. True), workloop_ok = (\<lambda>_. True)\<rparr>"

definition idle_modern_device :: VirtioPCIDevice where
  "idle_modern_device = \<lparr>msi_num_sources = 0, msi_base_index = 0, msi_sources = None, msi_workloops = None, irq_source = False,
     irq_workloop = False, enabled_interrupts = [], live_sources = 0\<rparr>"

lemma example_offsets:
  "cap_offset example_modern_env 0 = 0x40" "cap_offset example_modern_env 1 = 0x50" "cap_offset example_modern_env 2 = 0"
  by (simp_all add: cap_offset_def example_modern_env_def funpow_numeral_2)

lemma example_list: "well_formed_list example_modern_env n \<longleftrightarrow> n = 2"
proof
  assume w: "well_formed_list example_modern_env n"
  have "n \<noteq> 1" using w example_offsets(2) by (auto simp: well_formed_list_def)
  moreover have "valid_offset (cap_offset example_modern_env 2)" if "2 < n" using w that by (simp add: well_formed_list_def)
  then have "\<not> 2 < n" using example_offsets(3) by (auto simp: valid_offset_def)
  ultimately show "n = 2" using w by (auto simp: well_formed_list_def)
next
  assume n: "n = 2"
  have "0 < i \<and> i < 2 \<longleftrightarrow> i = 1" for i :: nat by auto
  with example_offsets n show "well_formed_list example_modern_env n" by (simp add: well_formed_list_def valid_offset_def)
qed

theorem capability_walk_witness:
  "djt_iopcidevice_iterate_capabilities example_modern_env (\<lambda>offset _ offsets. offsets @ [offset]) [] = Some (True, [0x40, 0x50])"
proof -
  have "[0..<2] = [0, 1 :: nat]" by (simp add: upt_rec)
  then show ?thesis
    using capability_walk [of example_modern_env "\<lambda>offset _ offsets. offsets @ [offset]" "[]"] example_offsets
    by (auto simp: example_list)
qed

theorem modern_probe_iff_witness:
  "\<exists>flags. modern_probe example_modern_env True False = Some (True, flags, False)"
proof -
  have "has_interrupts (interrupt_ranges example_modern_env)"
    "\<And>enable old. setMemoryEnable example_modern_env enable old = (old, enable)"
    by (simp_all add: example_modern_env_def has_interrupts_def)
  then show ?thesis using modern_probe_iff [of example_modern_env False] by (auto simp: example_list)
qed


end
