(* ===== verification/Mbuf_Descriptor.thy ===== *)
theory Mbuf_Descriptor
  imports Virtio_Prelude
begin

text \<open>
  The memory descriptor for network packets (PJMbufMemoryDescriptor.cpp). A packet is a chain of mbufs, each a piece of
  virtually contiguous memory. The descriptor remembers in which mbuf of the chain the last lookup ended, so that
  successive lookups need not walk the chain from its start; within an mbuf it checks at every page
  boundary whether the memory is also physically contiguous.

  A pointer to an mbuf is the list of mbufs from there on, the null pointer the empty list; the chain does not change while a
  descriptor refers to it. The translation of addresses by the kernel is a parameter.
\<close>

section \<open>State\<close>

record mbuf =
  mbuf_data :: u64
  mbuf_len :: u64

record PJMbufMemoryDescriptor =
  first_init_done :: bool
  md_mbuf :: "mbuf list"
  cur_mbuf :: "mbuf list"
  cur_mbuf_begin :: u64
  prepare_count :: int
  mb_flags :: u32
  mb_length :: u64

definition new_mbuf_md :: PJMbufMemoryDescriptor where
  "new_mbuf_md = \<lparr>first_init_done = False, md_mbuf = [], cur_mbuf = [], cur_mbuf_begin = 0, prepare_count = 0,
     mb_flags = 0, mb_length = 0\<rparr>"

section \<open>Operations\<close>

fun mbufChainLen :: "mbuf list \<Rightarrow> u64" where
  "mbufChainLen [] = 0"
| "mbufChainLen (m # ms) = mbuf_len m + mbufChainLen ms"

definition initWithMbuf ::
    "bool \<Rightarrow> mbuf list \<Rightarrow> u32 \<Rightarrow> PJMbufMemoryDescriptor \<Rightarrow> bool \<times> PJMbufMemoryDescriptor" where
  "initWithMbuf super_init mb direction d =
     (if \<not> first_init_done d \<and> \<not> super_init then (False, d)
      else if first_init_done d \<and> prepare_count d \<noteq> 0 then (False, d)
      else (True, d\<lparr>first_init_done := True, prepare_count := 0, mb_flags := direction, md_mbuf := mb,
               mb_length := mbufChainLen mb, cur_mbuf := mb, cur_mbuf_begin := 0\<rparr>))"

definition withMbuf :: "bool \<Rightarrow> bool \<Rightarrow> mbuf list \<Rightarrow> u32 \<Rightarrow> PJMbufMemoryDescriptor option" where
  "withMbuf new_ok super_init mb direction =
     (if \<not> new_ok then None
      else let (ok, d) = initWithMbuf super_init mb direction new_mbuf_md in if ok then Some d else None)"

text \<open>The walk to the mbuf that contains the offset; the result is empty if the chain ends before it.\<close>

fun walk_chain :: "u64 \<Rightarrow> u64 \<Rightarrow> mbuf list \<Rightarrow> u64 \<times> mbuf list" where
  "walk_chain offset beg [] = (beg, [])"
| "walk_chain offset beg (m # ms) =
     (if offset \<ge> beg + mbuf_len m then walk_chain offset (beg + mbuf_len m) ms else (beg, m # ms))"

definition trunc_page :: "u64 \<Rightarrow> u64" where
  "trunc_page a = a AND NOT 4095"

definition next_page_delta :: "u64 \<Rightarrow> u64" where
  "next_page_delta offset_addr = trunc_page (offset_addr + 4096) - offset_addr"

lemma trunc_page_eq: "trunc_page a = a - take_bit 12 a"
proof -
  have mask: "(4095 :: u64) = mask 12" by (simp add: mask_eq_exp_minus_1)
  have "trunc_page a + take_bit 12 a = trunc_page a OR take_bit 12 a"
    by (rule disjunctive_add) (auto simp: trunc_page_def mask bit_and_iff bit_not_iff bit_mask_iff bit_take_bit_iff)
  also have "\<dots> = a"
    by (rule bit_eqI) (auto simp: trunc_page_def mask bit_and_iff bit_or_iff bit_not_iff bit_mask_iff bit_take_bit_iff)
  finally show ?thesis by (simp add: eq_diff_eq)
qed

lemma unat_next_page_delta: "unat (next_page_delta a) = 4096 - unat a mod 4096"
proof -
  have unat_take: "unat (take_bit 12 x) = unat x mod 4096" for x :: u64 by (simp add: take_bit_eq_mod unat_mod)
  have "unat (a + 4096) mod 4096 = (unat a + 4096) mod 2 ^ 64 mod 4096" by (simp add: unat_word_ariths)
  also have "\<dots> = (unat a + 4096) mod 4096" by (rule mod_mod_cancel) simp
  finally have "take_bit 12 (a + 4096) = take_bit 12 a" by (intro word_unat_eq_iff [THEN iffD2]) (simp add: unat_take)
  then have "next_page_delta a = 4096 - take_bit 12 a" by (simp add: next_page_delta_def trunc_page_eq)
  moreover have "take_bit 12 a \<le> 4096" by (simp add: word_le_nat_alt unat_take)
  ultimately show ?thesis by (simp add: unat_sub unat_take)
qed

lemma next_page_delta_pos: "0 < unat (next_page_delta a)"
  by (simp add: unat_next_page_delta)

text \<open>The loop that extends the segment page by page while the next page is physically adjacent.\<close>

function contiguous_run :: "(u64 \<Rightarrow> u64) \<Rightarrow> u64 \<Rightarrow> u64 \<Rightarrow> u64 \<Rightarrow> u64 \<Rightarrow> u64" where
  "contiguous_run mbuf_data_to_physical phys offset_addr len remain =
     (let delta = next_page_delta offset_addr in
      if remain \<le> delta then len + remain
      else if mbuf_data_to_physical (offset_addr + delta) = phys + (len + delta)
      then contiguous_run mbuf_data_to_physical phys (offset_addr + delta) (len + delta) (remain - delta)
      else len + delta)"
  by pat_completeness auto

termination
proof (relation "measure (\<lambda>(_, _, _, _, remain). unat remain)", goal_cases)
  case (2 _ _ offset_addr _ remain delta)
  then have "delta \<le> remain" "0 < unat delta" by (simp_all add: next_page_delta_pos)
  then show ?case by (simp add: unat_sub word_le_nat_alt)
qed simp

declare contiguous_run.simps [simp del]

definition mbuf_getPhysicalSegment ::
    "(u64 \<Rightarrow> u64) \<Rightarrow> u64 \<Rightarrow> bool \<Rightarrow> PJMbufMemoryDescriptor \<Rightarrow> (u64 \<times> u64 option \<times> PJMbufMemoryDescriptor) option" where
  "mbuf_getPhysicalSegment mbuf_data_to_physical offset want_length d =
     (if md_mbuf d = [] \<or> offset \<ge> mb_length d then Some (0, if want_length then Some 0 else None, d)
      else
        let d = (if offset < cur_mbuf_begin d then d\<lparr>cur_mbuf := md_mbuf d, cur_mbuf_begin := 0\<rparr> else d) in
        if cur_mbuf d = [] then None
        else case walk_chain offset (cur_mbuf_begin d) (cur_mbuf d) of
          (_, []) \<Rightarrow> Some (0, if want_length then Some 0 else None, d\<lparr>cur_mbuf := md_mbuf d, cur_mbuf_begin := 0\<rparr>)
        | (beg, cur # rest) \<Rightarrow>
            let d = d\<lparr>cur_mbuf := cur # rest, cur_mbuf_begin := beg\<rparr>;
                mbuf_offset = offset - beg;
                offset_addr = mbuf_data cur + mbuf_offset;
                phys = mbuf_data_to_physical offset_addr
            in Some (phys, if want_length
                 then Some (contiguous_run mbuf_data_to_physical phys offset_addr 0 (mbuf_len cur - mbuf_offset)) else None, d))"

definition mbuf_prepare :: "PJMbufMemoryDescriptor \<Rightarrow> IOReturn \<times> PJMbufMemoryDescriptor" where
  "mbuf_prepare d =
     (if md_mbuf d = [] then (kIOReturnInternalError, d) else (kIOReturnSuccess, d\<lparr>prepare_count := prepare_count d + 1\<rparr>))"

definition mbuf_complete :: "PJMbufMemoryDescriptor \<Rightarrow> IOReturn \<times> PJMbufMemoryDescriptor" where
  "mbuf_complete d =
     (if md_mbuf d = [] then (kIOReturnInternalError, d) else (kIOReturnSuccess, d\<lparr>prepare_count := prepare_count d - 1\<rparr>))"

end
