(* ===== verification/Mbuf_Descriptor_Props.thy ===== *)
theory Mbuf_Descriptor_Props
  imports Mbuf_Descriptor
begin

text \<open>
  Properties of the packet memory descriptor. The reference is the list of the addresses of all bytes of the packet. A lookup
  returns the physical address of the byte at its offset and the number of bytes that follow it contiguously,
  whatever was looked up before; successive lookups enumerate exactly the bytes of the packet.
\<close>

section \<open>Reference\<close>

definition mbuf_bytes :: "mbuf \<Rightarrow> u64 list" where
  "mbuf_bytes m = map (\<lambda>i. mbuf_data m + of_nat i) [0..<unat (mbuf_len m)]"

definition chain_bytes :: "mbuf list \<Rightarrow> u64 list" where
  "chain_bytes ms = concat (map mbuf_bytes ms)"

lemma chain_bytes_simps [simp]:
  "chain_bytes [] = []" "chain_bytes (m # ms) = mbuf_bytes m @ chain_bytes ms"
  "chain_bytes (ms @ ns) = chain_bytes ms @ chain_bytes ns"
  by (simp_all add: chain_bytes_def)

lemma length_mbuf_bytes [simp]: "length (mbuf_bytes m) = unat (mbuf_len m)"
  by (simp add: mbuf_bytes_def)

lemma nth_mbuf_bytes [simp]: "i < unat (mbuf_len m) \<Longrightarrow> mbuf_bytes m ! i = mbuf_data m + of_nat i"
  by (simp add: mbuf_bytes_def)

lemma mbufChainLen_bytes: "length (chain_bytes ms) < 2 ^ 64 \<Longrightarrow> unat (mbufChainLen ms) = length (chain_bytes ms)"
  by (induction ms) (auto simp: unat_word_ariths)

definition cursor_inv :: "PJMbufMemoryDescriptor \<Rightarrow> bool" where
  "cursor_inv d \<longleftrightarrow> mb_length d = mbufChainLen (md_mbuf d) \<and> length (chain_bytes (md_mbuf d)) < 2 ^ 64
     \<and> (md_mbuf d \<noteq> [] \<longrightarrow> cur_mbuf d \<noteq> [])
     \<and> (\<exists>pre. md_mbuf d = pre @ cur_mbuf d \<and> unat (cur_mbuf_begin d) = length (chain_bytes pre))"

text \<open>Physical memory is contiguous within a page.\<close>

definition page_linear :: "(u64 \<Rightarrow> u64) \<Rightarrow> bool" where
  "page_linear phys \<longleftrightarrow> (\<forall>a i. unat a mod 4096 + i < 4096 \<longrightarrow> phys (a + of_nat i) = phys a + of_nat i)"

section \<open>One lookup\<close>

text \<open>The mbuf that contains an offset, with those before and after it.\<close>

definition located :: "u64 \<Rightarrow> mbuf list \<Rightarrow> mbuf list \<Rightarrow> mbuf \<Rightarrow> mbuf list \<Rightarrow> bool" where
  "located offset ms pre m post \<longleftrightarrow> ms = pre @ m # post \<and> length (chain_bytes pre) \<le> unat offset
     \<and> unat offset < length (chain_bytes pre) + unat (mbuf_len m)"

lemma located_unique:
  assumes "located offset ms pre m post" "located offset ms pre' m' post'"
  shows "pre = pre' \<and> m = m' \<and> post = post'"
proof -
  have "length pre = length pre'"
  proof (rule ccontr)
    assume ne: "length pre \<noteq> length pre'"
    have False if "located offset ms p n q" "located offset ms p' n' q'" "length p < length p'" for p n q p' n' q'
    proof -
      note lt = that(3)
      have "p @ n # q = p' @ n' # q'" using that(1,2) by (simp add: located_def)
      then obtain r where "p' = p @ n # r" using lt by (auto simp: append_eq_append_conv2 Cons_eq_append_conv)
      then show False using that(1,2) by (auto simp: located_def)
    qed
    with assms ne show False by (meson linorder_neqE_nat)
  qed
  with assms show ?thesis by (auto simp: located_def)
qed

lemma walk_chain_located:
  assumes "length (chain_bytes (pre @ ms)) < 2 ^ 64" "unat beg = length (chain_bytes pre)" "beg \<le> offset"
    "unat offset < length (chain_bytes (pre @ ms))"
  shows "\<exists>beg' pre' m post. walk_chain offset beg ms = (beg', m # post) \<and> located offset (pre @ ms) pre' m post
    \<and> unat beg' = length (chain_bytes pre')"
  using assms
proof (induction ms arbitrary: pre beg)
  case Nil
  then show ?case by (simp add: word_le_nat_alt)
next
  case (Cons m ms)
  have sum: "unat (beg + mbuf_len m) = unat beg + unat (mbuf_len m)"
    using Cons.prems(1,2) by (intro unat_add_lem [THEN iffD1]) simp
  show ?case
  proof (cases "beg + mbuf_len m \<le> offset")
    case True
    then show ?thesis using Cons.IH [of "pre @ [m]" "beg + mbuf_len m"] Cons.prems sum by simp
  next
    case False
    then have "located offset (pre @ m # ms) pre m ms"
      using Cons.prems(2,3) sum by (simp add: located_def word_le_nat_alt)
    with False Cons.prems(2) show ?thesis by auto
  qed
qed

lemma contiguous_run_ok:
  assumes lin: "page_linear phys" and "phys a = p + len" "0 < unat remain" "unat len + unat remain < 2 ^ 64"
  shows "\<exists>r. contiguous_run phys p a len remain = len + r \<and> 0 < unat r \<and> unat r \<le> unat remain
    \<and> (\<forall>i < unat r. phys (a + of_nat i) = p + len + of_nat i)"
  using assms(2-)
proof (induction "unat remain" arbitrary: a len remain rule: less_induct)
  case less
  define \<delta> where "\<delta> = next_page_delta a"
  have \<delta>: "0 < unat \<delta>" "unat a mod 4096 + i < 4096 \<longleftrightarrow> i < unat \<delta>" for i by (auto simp: \<delta>_def unat_next_page_delta)
  have page: "phys (a + of_nat i) = p + len + of_nat i" if "i < unat \<delta>" for i
    using lin that less.prems(1) by (simp add: page_linear_def \<delta>(2))
  consider "remain \<le> \<delta>" | "\<not> remain \<le> \<delta>" "phys (a + \<delta>) \<noteq> p + (len + \<delta>)" | "\<not> remain \<le> \<delta>" "phys (a + \<delta>) = p + (len + \<delta>)" by blast
  then show ?case
  proof cases
    case 1
    then have "contiguous_run phys p a len remain = len + remain" by (subst contiguous_run.simps) (simp add: \<delta>_def Let_def)
    with 1 less.prems page show ?thesis by (intro exI [of _ remain]) (simp add: word_le_nat_alt)
  next
    case 2
    then have "contiguous_run phys p a len remain = len + \<delta>" by (subst contiguous_run.simps) (simp add: \<delta>_def Let_def)
    with 2 \<delta>(1) page show ?thesis by (intro exI [of _ \<delta>]) (simp add: word_le_nat_alt)
  next
    case 3
    then have lt: "unat \<delta> < unat remain" by (simp add: word_le_nat_alt)
    have rem: "unat (remain - \<delta>) = unat remain - unat \<delta>" using lt by (simp add: unat_sub word_le_nat_alt)
    have sum: "unat (len + \<delta>) = unat len + unat \<delta>" using lt less.prems(3) by (intro unat_add_lem [THEN iffD1]) simp
    have smaller: "unat (remain - \<delta>) < unat remain" "0 < unat (remain - \<delta>)" "unat (len + \<delta>) + unat (remain - \<delta>) < 2 ^ 64"
      using lt \<delta>(1) less.prems(3) by (simp_all add: rem sum)
    obtain r where r: "contiguous_run phys p (a + \<delta>) (len + \<delta>) (remain - \<delta>) = len + \<delta> + r" "unat r \<le> unat (remain - \<delta>)"
      "\<And>i. i < unat r \<Longrightarrow> phys (a + \<delta> + of_nat i) = p + (len + \<delta>) + of_nat i"
      using less.hyps [OF smaller(1) 3(2) smaller(2,3)] by auto
    have dr: "unat (\<delta> + r) = unat \<delta> + unat r" using r(2) rem less.prems(3) lt by (intro unat_add_lem [THEN iffD1]) simp
    have "phys (a + of_nat i) = p + len + of_nat i" if "i < unat (\<delta> + r)" for i
    proof (cases "i < unat \<delta>")
      case False
      then have "i - unat \<delta> < unat r" using that dr by simp
      from r(3) [OF this] False show ?thesis by (simp add: of_nat_diff algebra_simps)
    qed (simp add: page)
    moreover have "contiguous_run phys p a len remain = len + (\<delta> + r)"
      using 3 r(1) by (subst contiguous_run.simps) (simp add: \<delta>_def Let_def add.assoc)
    ultimately show ?thesis using r(2) rem lt \<delta>(1) dr by (intro exI [of _ "\<delta> + r"]) simp
  qed
qed

text \<open>A lookup inside the packet in terms of the mbuf that contains the offset.\<close>

lemma lookup_located:
  assumes inv: "cursor_inv d" and off: "unat offset < length (chain_bytes (md_mbuf d))"
    and loc: "located offset (md_mbuf d) pre m post"
  shows "\<exists>d'. mbuf_getPhysicalSegment phys offset True d
      = (let a = mbuf_data m + of_nat (unat offset - length (chain_bytes pre)) in
         Some (phys a, Some (contiguous_run phys (phys a) a 0 (of_nat (length (chain_bytes pre) + unat (mbuf_len m) - unat offset))), d'))
    \<and> cursor_inv d' \<and> md_mbuf d' = md_mbuf d"
proof -
  obtain pre0 where pre0: "md_mbuf d = pre0 @ cur_mbuf d" "unat (cur_mbuf_begin d) = length (chain_bytes pre0)"
    and d: "length (chain_bytes (md_mbuf d)) < 2 ^ 64" "md_mbuf d \<noteq> []" "\<not> mb_length d \<le> offset" "cur_mbuf d \<noteq> []"
    using inv off by (auto simp: cursor_inv_def word_le_nat_alt mbufChainLen_bytes)
  define e where "e = (if offset < cur_mbuf_begin d then d\<lparr>cur_mbuf := md_mbuf d, cur_mbuf_begin := 0\<rparr> else d)"
  have "\<exists>pre1. md_mbuf d = pre1 @ cur_mbuf e \<and> unat (cur_mbuf_begin e) = length (chain_bytes pre1) \<and> cur_mbuf_begin e \<le> offset"
    using pre0 by (auto simp: e_def)
  then obtain pre1 where e: "md_mbuf d = pre1 @ cur_mbuf e" "unat (cur_mbuf_begin e) = length (chain_bytes pre1)" "cur_mbuf_begin e \<le> offset"
    by blast
  obtain beg' pre' m' post' where w: "walk_chain offset (cur_mbuf_begin e) (cur_mbuf e) = (beg', m' # post')"
    "located offset (md_mbuf d) pre' m' post'" "unat beg' = length (chain_bytes pre')"
    using walk_chain_located [of pre1 "cur_mbuf e" "cur_mbuf_begin e" offset] e d(1) off by metis
  have same: "pre' = pre" "m' = m" "post' = post" using located_unique [OF w(2) loc] by simp_all
  have beg: "beg' = of_nat (length (chain_bytes pre))" using w(3) same eq_of_nat_unat by blast
  have ne: "cur_mbuf e \<noteq> []" using d(2,4) by (simp add: e_def)
  let ?d = "e\<lparr>cur_mbuf := m # post, cur_mbuf_begin := beg'\<rparr>"
  have o: "of_nat (unat offset) = offset" by simp
  have le: "length (chain_bytes pre) \<le> unat offset" "unat offset < length (chain_bytes pre) + unat (mbuf_len m)"
    using loc by (simp_all add: located_def)
  have sub: "offset - beg' = of_nat (unat offset - length (chain_bytes pre))" using le by (simp add: beg of_nat_diff)
  have rest: "mbuf_len m - (offset - beg') = of_nat (length (chain_bytes pre) + unat (mbuf_len m) - unat offset)"
    using le by (simp add: beg of_nat_diff)
  have "mbuf_getPhysicalSegment phys offset True d
     = Some (phys (mbuf_data m + (offset - beg')), Some (contiguous_run phys (phys (mbuf_data m + (offset - beg')))
         (mbuf_data m + (offset - beg')) 0 (mbuf_len m - (offset - beg'))), ?d)"
    using d(2,3) ne w(1) by (simp add: mbuf_getPhysicalSegment_def Let_def same flip: e_def)
  moreover have "cursor_inv ?d"
    using inv w(2,3) by (auto simp: cursor_inv_def e_def located_def same)
  moreover have "md_mbuf ?d = md_mbuf d" by (simp add: e_def)
  ultimately show ?thesis unfolding rest unfolding sub Let_def by blast
qed

lemma located_exists:
  assumes "length (chain_bytes ms) < 2 ^ 64" "unat offset < length (chain_bytes ms)"
  shows "\<exists>pre m post. located offset ms pre m post"
  using walk_chain_located [of "[]" ms 0 offset] assms by (simp, blast)

lemma lookup_ok:
  assumes inv: "cursor_inv d" and lin: "page_linear phys" and off: "unat offset < length (chain_bytes (md_mbuf d))"
  shows "\<exists>addr len d'. mbuf_getPhysicalSegment phys offset True d = Some (addr, Some len, d') \<and> cursor_inv d' \<and> md_mbuf d' = md_mbuf d
    \<and> 0 < unat len \<and> unat offset + unat len \<le> length (chain_bytes (md_mbuf d))
    \<and> (\<forall>i < unat len. phys (chain_bytes (md_mbuf d) ! (unat offset + i)) = addr + of_nat i)
    \<and> (\<forall>e. cursor_inv e \<and> md_mbuf e = md_mbuf d \<longrightarrow> (\<exists>e'. mbuf_getPhysicalSegment phys offset True e = Some (addr, Some len, e')))"
proof -
  have small: "length (chain_bytes (md_mbuf d)) < 2 ^ 64" using inv by (simp add: cursor_inv_def)
  obtain pre m post where loc: "located offset (md_mbuf d) pre m post" using located_exists [OF small off] by blast
  define a where "a = mbuf_data m + of_nat (unat offset - length (chain_bytes pre))"
  define remain where "remain = length (chain_bytes pre) + unat (mbuf_len m) - unat offset"
  have b: "length (chain_bytes pre) \<le> unat offset" "unat offset < length (chain_bytes pre) + unat (mbuf_len m)"
    "length (chain_bytes (md_mbuf d)) = length (chain_bytes pre) + unat (mbuf_len m) + length (chain_bytes post)"
    using loc by (auto simp: located_def)
  have rem: "0 < remain" "remain < 2 ^ 64" using b small by (auto simp: remain_def)
  then have rem_unat: "unat (of_nat remain :: u64) = remain" by (simp add: unat_of_nat take_bit_nat_eq_self)
  obtain r where r: "contiguous_run phys (phys a) a 0 (of_nat remain) = r" "0 < unat r" "unat r \<le> remain"
    "\<And>i. i < unat r \<Longrightarrow> phys (a + of_nat i) = phys a + of_nat i"
    using contiguous_run_ok [OF lin, of a "phys a" 0 "of_nat remain"] rem rem_unat by auto
  have lookup: "\<exists>e'. mbuf_getPhysicalSegment phys offset True e = Some (phys a, Some r, e') \<and> cursor_inv e' \<and> md_mbuf e' = md_mbuf e"
    if "cursor_inv e" "md_mbuf e = md_mbuf d" for e
    using lookup_located [OF that(1), of offset pre m post phys] off loc that(2) r(1) unfolding Let_def a_def remain_def by auto
  have byte: "chain_bytes (md_mbuf d) ! (unat offset + i) = a + of_nat i" if "i < unat r" for i
  proof -
    have i: "unat offset + i - length (chain_bytes pre) < unat (mbuf_len m)" using that r(3) b by (simp add: remain_def)
    have "chain_bytes (md_mbuf d) ! (unat offset + i) = mbuf_bytes m ! (unat offset + i - length (chain_bytes pre))"
      using loc b(1) i by (simp add: located_def nth_append)
    also have "\<dots> = a + of_nat i" using i b(1) by (simp add: a_def of_nat_diff)
    finally show ?thesis .
  qed
  obtain d' where "mbuf_getPhysicalSegment phys offset True d = Some (phys a, Some r, d')" "cursor_inv d'" "md_mbuf d' = md_mbuf d"
    using lookup [OF inv] by blast
  moreover have "unat offset + unat r \<le> length (chain_bytes (md_mbuf d))" using r(3) b by (simp add: remain_def)
  moreover have "\<forall>i < unat r. phys (chain_bytes (md_mbuf d) ! (unat offset + i)) = phys a + of_nat i" using r(4) byte by simp
  moreover have "\<forall>e. cursor_inv e \<and> md_mbuf e = md_mbuf d \<longrightarrow> (\<exists>e'. mbuf_getPhysicalSegment phys offset True e = Some (phys a, Some r, e'))"
    using lookup by blast
  ultimately show ?thesis using r(2) by blast
qed

text \<open>
  C34. Looking up a segment of a packet, after any sequence of lookups. An offset inside the packet yields the physical address of the
  byte there and a positive number of bytes, within the packet, that are physically contiguous; the result is the same for every position of
  the remembered mbuf, so remembering it is not observable. An offset beyond the packet yields an empty segment.
\<close>

theorem mbuf_segment_correct:
  assumes "cursor_inv d" "page_linear phys"
  shows "\<exists>addr len d'. mbuf_getPhysicalSegment phys offset True d = Some (addr, Some len, d') \<and> cursor_inv d' \<and> md_mbuf d' = md_mbuf d
    \<and> (if unat offset < length (chain_bytes (md_mbuf d))
       then 0 < unat len \<and> unat offset + unat len \<le> length (chain_bytes (md_mbuf d))
          \<and> (\<forall>i < unat len. phys (chain_bytes (md_mbuf d) ! (unat offset + i)) = addr + of_nat i)
       else addr = 0 \<and> len = 0)
    \<and> (\<forall>e. cursor_inv e \<and> md_mbuf e = md_mbuf d \<longrightarrow> (\<exists>e'. mbuf_getPhysicalSegment phys offset True e = Some (addr, Some len, e')))"
proof (cases "unat offset < length (chain_bytes (md_mbuf d))")
  case True
  from lookup_ok [OF assms True] show ?thesis unfolding if_P [OF True] by (elim exE conjE) blast
next
  case False
  have "mbuf_getPhysicalSegment phys offset True e = Some (0, Some 0, e)" if "cursor_inv e" "md_mbuf e = md_mbuf d" for e
    using that False by (auto simp: mbuf_getPhysicalSegment_def cursor_inv_def word_le_nat_alt mbufChainLen_bytes)
  with False assms(1) show ?thesis by auto
qed

section \<open>All segments of a packet\<close>

text \<open>What a DMA command does with a memory descriptor: it looks up segments, each where the last one ended, until the end of the
  memory or until \<open>n\<close> segments are found. The result is the list of physical addresses of all bytes.\<close>

fun enumerate_segments :: "(u64 \<Rightarrow> u64) \<Rightarrow> nat \<Rightarrow> u64 \<Rightarrow> PJMbufMemoryDescriptor \<Rightarrow> u64 list option" where
  "enumerate_segments phys 0 offset d = Some []"
| "enumerate_segments phys (Suc n) offset d = do {
     (addr, len, d) \<leftarrow> mbuf_getPhysicalSegment phys offset True d;
     len \<leftarrow> len;
     if len = 0 then Some []
     else do {
       rest \<leftarrow> enumerate_segments phys n (offset + len) d;
       Some (map (\<lambda>i. addr + of_nat i) [0..<unat len] @ rest)
     }
   }"

lemma enumerate_segments_ok:
  assumes "cursor_inv d" "page_linear phys" "unat offset \<le> length (chain_bytes (md_mbuf d))"
    "length (chain_bytes (md_mbuf d)) - unat offset \<le> n"
  shows "enumerate_segments phys n offset d = Some (map phys (drop (unat offset) (chain_bytes (md_mbuf d))))"
  using assms(1,3,4)
proof (induction n arbitrary: offset d)
  case (Suc n)
  let ?b = "chain_bytes (md_mbuf d)"
  show ?case
  proof (cases "unat offset < length ?b")
    case True
    obtain addr len d' where l: "mbuf_getPhysicalSegment phys offset True d = Some (addr, Some len, d')" "cursor_inv d'"
      "md_mbuf d' = md_mbuf d" "0 < unat len" "unat offset + unat len \<le> length ?b"
      "\<forall>i < unat len. phys (?b ! (unat offset + i)) = addr + of_nat i"
      using lookup_ok [OF Suc.prems(1) assms(2) True] by blast
    have "length ?b < 2 ^ 64" using Suc.prems(1) by (simp add: cursor_inv_def)
    with l(5) have sum: "unat (offset + len) = unat offset + unat len" by (intro unat_add_lem [THEN iffD1]) simp
    have first: "map (\<lambda>i. addr + of_nat i) [0..<unat len] = map phys (take (unat len) (drop (unat offset) ?b))"
      using l(5,6) by (intro nth_equalityI) simp_all
    have rest: "drop (unat offset + unat len) ?b = drop (unat len) (drop (unat offset) ?b)" by (simp add: add.commute)
    have "map (\<lambda>i. addr + of_nat i) [0..<unat len] @ map phys (drop (unat offset + unat len) ?b) = map phys (drop (unat offset) ?b)"
      unfolding first rest map_append [symmetric] append_take_drop_id ..
    moreover have "enumerate_segments phys n (offset + len) d' = Some (map phys (drop (unat offset + unat len) ?b))"
      using Suc.IH [of d' "offset + len"] l Suc.prems(3) sum by simp
    moreover have "len \<noteq> 0" using l(4) by auto
    ultimately show ?thesis using l(1) by simp
  next
    case False
    then have "mbuf_getPhysicalSegment phys offset True d = Some (0, Some 0, d)"
      using Suc.prems(1) by (auto simp: mbuf_getPhysicalSegment_def cursor_inv_def word_le_nat_alt mbufChainLen_bytes)
    with False show ?thesis by simp
  qed
qed simp

text \<open>
  C35. A descriptor initialised with a packet describes exactly the packet: the segments found by successive lookups are, byte for byte and in
  order, the physical addresses of the packet, and initialising a new descriptor, or one that is not prepared, succeeds.
\<close>

theorem mbuf_segments_cover:
  assumes "page_linear phys" "length (chain_bytes mb) < 2 ^ 64" "first_init_done d \<longrightarrow> prepare_count d = 0" "super"
  shows "\<exists>d'. initWithMbuf super mb direction d = (True, d') \<and> mb_length d' = of_nat (length (chain_bytes mb))
    \<and> enumerate_segments phys (length (chain_bytes mb)) 0 d' = Some (map phys (chain_bytes mb))"
proof -
  define d' where "d' = d\<lparr>first_init_done := True, prepare_count := 0, mb_flags := direction, md_mbuf := mb,
     mb_length := mbufChainLen mb, cur_mbuf := mb, cur_mbuf_begin := 0\<rparr>"
  have "initWithMbuf super mb direction d = (True, d')" using assms(3,4) by (auto simp: initWithMbuf_def d'_def)
  moreover have "cursor_inv d'" "md_mbuf d' = mb" using assms(2) by (auto simp: cursor_inv_def d'_def)
  moreover have "mb_length d' = of_nat (length (chain_bytes mb))"
    using eq_of_nat_unat [OF mbufChainLen_bytes [OF assms(2)]] by (simp add: d'_def)
  ultimately show ?thesis using enumerate_segments_ok [of d' phys 0 "length (chain_bytes mb)"] assms(1) by simp
qed

section \<open>Examples\<close>

text \<open>A packet in two mbufs, the second of which crosses a page boundary; physical memory is the virtual memory shifted by a page.\<close>

definition example_mbufs :: "mbuf list" where
  "example_mbufs = [\<lparr>mbuf_data = 0x1000, mbuf_len = 2\<rparr>, \<lparr>mbuf_data = 0x2fff, mbuf_len = 2\<rparr>]"

lemma example_bytes: "chain_bytes example_mbufs = [0x1000, 0x1001, 0x2fff, 0x3000]"
proof -
  have "[0..<2] = [0, 1 :: nat]" by (simp add: upt_rec)
  then show ?thesis by (simp add: example_mbufs_def mbuf_bytes_def)
qed

lemma shifted_linear: "page_linear (\<lambda>a. a + 0x1000)"
  by (simp add: page_linear_def)

definition example_mbuf_md :: PJMbufMemoryDescriptor where
  "example_mbuf_md = new_mbuf_md\<lparr>first_init_done := True, md_mbuf := example_mbufs, mb_length := 4,
     cur_mbuf := tl example_mbufs, cur_mbuf_begin := 2\<rparr>"

lemma example_mbuf_md_inv: "cursor_inv example_mbuf_md" "md_mbuf example_mbuf_md = example_mbufs"
proof -
  have "mbufChainLen example_mbufs = 4" by (simp add: example_mbufs_def)
  moreover have "\<exists>pre. example_mbufs = pre @ tl example_mbufs \<and> length (chain_bytes pre) = 2"
    by (rule exI [of _ "[hd example_mbufs]"]) (simp add: example_mbufs_def)
  ultimately show "cursor_inv example_mbuf_md"
    by (simp add: cursor_inv_def example_mbuf_md_def example_bytes) (simp add: example_mbufs_def)
qed (simp add: example_mbuf_md_def)

theorem mbuf_segment_correct_witness:
  "\<exists>len d'. mbuf_getPhysicalSegment (\<lambda>a. a + 0x1000) 1 True example_mbuf_md = Some (0x2001, Some len, d') \<and> cursor_inv d' \<and> 0 < unat len"
proof -
  obtain addr len d' where l: "mbuf_getPhysicalSegment (\<lambda>a. a + 0x1000) 1 True example_mbuf_md = Some (addr, Some len, d')"
    "cursor_inv d'" "0 < unat len" "\<forall>i < unat len. chain_bytes example_mbufs ! (1 + i) + 0x1000 = addr + of_nat i"
    using mbuf_segment_correct [OF example_mbuf_md_inv(1) shifted_linear, of 1] by (auto simp: example_mbuf_md_inv example_bytes)
  have "addr = 0x2001" using l(3) spec [OF l(4), of 0] by (simp add: example_bytes)
  with l show ?thesis by blast
qed

theorem mbuf_segments_cover_witness:
  "\<exists>d'. initWithMbuf True example_mbufs 2 new_mbuf_md = (True, d')
    \<and> enumerate_segments (\<lambda>a. a + 0x1000) 4 0 d' = Some [0x2000, 0x2001, 0x3fff, 0x4000]"
proof -
  have "length (chain_bytes example_mbufs) = 4" by (simp add: example_bytes)
  moreover have "map (\<lambda>a. a + 0x1000) (chain_bytes example_mbufs) = [0x2000, 0x2001, 0x3fff, 0x4000]" by (simp add: example_bytes)
  ultimately show ?thesis
    using mbuf_segments_cover [OF shifted_linear, of example_mbufs new_mbuf_md True 2]
    by (simp add: new_mbuf_md_def del: enumerate_segments.simps) blast
qed

end
