(* ===== verification/Net_Checksum.thy ===== *)
theory Net_Checksum
  imports Virtio_Prelude
begin

text \<open>
  The packet header of the network driver and the preparation of TCP checksum offloading (\<^verbatim>\<open>virtio_net_enable_tcp_csum\<close> in
  virtio_net.cpp). The driver has to leave the checksum of the TCP pseudo header, not complemented, in the packet; the device
  extends it over the segment. The code adds up 16-bit words in the byte order of the machine, which the specification of the
  Internet checksum allows. Multi-byte fields of the IP and TCP headers are held as the machine loads them, on the little-endian
  machines the driver supports.
\<close>

section \<open>Headers\<close>

record virtio_net_hdr =
  hdr_flags :: u8
  gso_type :: u8
  hdr_len :: u16
  gso_size :: u16
  csum_start :: u16
  csum_offset :: u16

definition VIRTIO_NET_HDR_F_NEEDS_CSUM :: u8 where "VIRTIO_NET_HDR_F_NEEDS_CSUM = 1"
definition VIRTIO_NET_HDR_GSO_NONE :: u8 where "VIRTIO_NET_HDR_GSO_NONE = 0"
definition ETHER_HDR_LEN :: u16 where "ETHER_HDR_LEN = 14"

record ip_header =
  ip_len :: u16
  ip_p :: u8
  ip_src :: u32
  ip_dst :: u32

definition byte_swap16 :: "u16 \<Rightarrow> u16" where
  "byte_swap16 w = push_bit 8 w OR drop_bit 8 w"

definition ntohs :: "u16 \<Rightarrow> u16" where "ntohs = byte_swap16"
definition htons :: "u16 \<Rightarrow> u16" where "htons = byte_swap16"

section \<open>Checksum of the pseudo header\<close>

text \<open>The two halves of a 32-bit word, as the union \<^verbatim>\<open>tmp\<close> yields them.\<close>

definition half :: "nat \<Rightarrow> u32 \<Rightarrow> u16" where
  "half i l = ucast (drop_bit (16 * i) l)"

definition pseudo_header_csum :: "ip_header \<Rightarrow> u16 \<Rightarrow> u16" where
  "pseudo_header_csum ip_hdr ip_hdr_len =
     (let len :: u32 = ucast (ntohs (ip_len ip_hdr));
          tcp_len :: u32 = len - ucast ip_hdr_len;
          csum_l :: u32 = 0;
          csum_l = csum_l + ucast (half 0 (ip_src ip_hdr));
          csum_l = csum_l + ucast (half 1 (ip_src ip_hdr));
          csum_l = csum_l + ucast (half 0 (ip_dst ip_hdr));
          csum_l = csum_l + ucast (half 1 (ip_dst ip_hdr));
          csum_l = csum_l + ucast (htons (ucast (ip_p ip_hdr)));
          csum_l = csum_l + ucast (htons (ucast (tcp_len AND 0xffff)));
          csum_l = (csum_l AND 0xffff) + drop_bit 16 csum_l
      in ucast ((csum_l AND 0xffff) + drop_bit 16 csum_l))"

text \<open>The new TCP checksum field and packet header.\<close>

definition virtio_net_enable_tcp_csum ::
    "bool \<Rightarrow> u16 \<Rightarrow> ip_header \<Rightarrow> virtio_net_hdr \<Rightarrow> u16 \<times> virtio_net_hdr" where
  "virtio_net_enable_tcp_csum need_partial ip_hdr_len ip_hdr header =
     (let th_sum = (if need_partial then pseudo_header_csum ip_hdr ip_hdr_len else 0)
      in (th_sum, header\<lparr>hdr_flags := VIRTIO_NET_HDR_F_NEEDS_CSUM, csum_start := ETHER_HDR_LEN + ip_hdr_len, csum_offset := 16\<rparr>))"

section \<open>Reference: the Internet checksum\<close>

text \<open>The one's complement sum of 16-bit numbers: the sum modulo 65535, where a positive sum that is a multiple of 65535 has the
  representation 65535.\<close>

definition ones_complement_sum :: "nat list \<Rightarrow> nat" where
  "ones_complement_sum ws = (let s = sum_list ws in if s = 0 then 0 else (s - 1) mod 65535 + 1)"

text \<open>The pseudo header in network byte order: addresses, a zero byte and the protocol, the length of the TCP segment.\<close>

definition network_words :: "u32 \<Rightarrow> nat list" where
  "network_words a = [unat (byte_swap16 (half 0 a)), unat (byte_swap16 (half 1 a))]"

definition pseudo_header :: "ip_header \<Rightarrow> u16 \<Rightarrow> nat list" where
  "pseudo_header ip_hdr ip_hdr_len = network_words (ip_src ip_hdr) @ network_words (ip_dst ip_hdr)
     @ [unat (ip_p ip_hdr), unat (byte_swap16 (ip_len ip_hdr)) - unat ip_hdr_len]"

section \<open>Correctness\<close>

lemma ones_complement_sum_unique:
  assumes "r \<le> 65535" "r mod 65535 = sum_list ws mod 65535" "r = 0 \<longleftrightarrow> sum_list ws = 0"
  shows "r = ones_complement_sum ws"
proof (cases "sum_list ws = 0")
  case True
  then show ?thesis using assms(3) by (simp add: ones_complement_sum_def)
next
  case False
  then have pos: "0 < r" "0 < sum_list ws" using assms(3) by auto
  have pred: "(x - 1) mod 65535 = (x mod 65535 + 65534) mod 65535" if "0 < x" for x :: nat
  proof -
    have "(x mod 65535 + 65534) mod 65535 = (x + 65534) mod 65535" by (rule mod_add_left_eq)
    also have "x + 65534 = (x - 1) + 65535" using that by simp
    finally show ?thesis by (simp only: mod_add_self2)
  qed
  have "(r - 1) mod 65535 = (sum_list ws - 1) mod 65535" unfolding pred [OF pos(1)] pred [OF pos(2)] assms(2) ..
  moreover have "(r - 1) mod 65535 = r - 1" using assms(1) pos(1) by simp
  ultimately show ?thesis using pos False by (simp add: ones_complement_sum_def Let_def)
qed

text \<open>One step of folding the carries into a sum of 16-bit words.\<close>

lemma fold16:
  fixes s :: nat
  shows "(s mod 65536 + s div 65536) mod 65535 = s mod 65535" "s mod 65536 + s div 65536 = 0 \<longleftrightarrow> s = 0"
proof -
  have carry: "(a + 65536 * b) mod 65535 = (a + b) mod 65535" for a b :: nat
  proof -
    have "a + 65536 * b = a + b + 65535 * b" by simp
    then show ?thesis by (simp only: mod_mult_self2)
  qed
  from carry [of "s mod 65536" "s div 65536"] show "(s mod 65536 + s div 65536) mod 65535 = s mod 65535" by simp
  show "s mod 65536 + s div 65536 = 0 \<longleftrightarrow> s = 0" by (auto simp: div_eq_0_iff)
qed

lemma unat_and_ffff: "unat (x AND 0xffff) = unat x mod 65536" for x :: u32
proof -
  have "x AND 0xffff = take_bit 16 x" by (simp add: take_bit_eq_mask mask_eq_exp_minus_1)
  then show ?thesis by (simp add: take_bit_eq_mod unat_mod)
qed

lemma unat_fold16:
  fixes x :: u32
  shows "unat ((x AND 0xffff) + drop_bit 16 x) = unat x mod 65536 + unat x div 65536"
proof -
  note unat_and_ffff [of x]
  moreover have "unat (drop_bit 16 x) = unat x div 65536" by (simp only: unat_drop_bit_eq) (simp add: drop_bit_eq_div)
  moreover have "unat x div 65536 < 65536" using unsigned_less [of x, where ?'a = nat] by simp
  moreover have "unat x mod 65536 < 65536" by simp
  ultimately show ?thesis by (simp add: unat_word_ariths)
qed

lemma unat_byte_swap16: "unat (byte_swap16 w) = 256 * (unat w mod 256) + unat w div 256"
proof -
  have "byte_swap16 w = push_bit 8 w + drop_bit 8 w"
    unfolding byte_swap16_def
    by (rule disjunctive_add [symmetric]) (auto simp: bit_push_bit_iff bit_drop_bit_eq dest: bit_imp_le_length)
  moreover have "unat (push_bit 8 w) = push_bit 8 (take_bit 8 (unat w))" by (simp add: unsigned_push_bit_eq take_bit_push_bit)
  then have "unat (push_bit 8 w) = 256 * (unat w mod 256)" by (simp add: take_bit_eq_mod push_bit_eq_mult)
  moreover have "unat (drop_bit 8 w) = unat w div 256" by (simp only: unat_drop_bit_eq) (simp add: drop_bit_eq_div)
  moreover have "unat w div 256 < 256" using unat_u16_less [of w] by simp
  ultimately show ?thesis by (simp add: unat_word_ariths)
qed

lemma byte_swap16_mod:
  "unat (byte_swap16 w) mod 65535 = 256 * unat w mod 65535" "unat (byte_swap16 w) = 0 \<longleftrightarrow> unat w = 0"
proof -
  have w: "unat w = 256 * (unat w div 256) + unat w mod 256" by simp
  have "256 * (256 * a + b) = 256 * b + a + 65535 * a" for a b :: nat by simp
  from this [of "unat w div 256" "unat w mod 256"]
  have "256 * unat w = unat (byte_swap16 w) + 65535 * (unat w div 256)" by (simp only: unat_byte_swap16 flip: w)
  then show "unat (byte_swap16 w) mod 65535 = 256 * unat w mod 65535" by (simp only: mod_mult_self2)
  show "unat (byte_swap16 w) = 0 \<longleftrightarrow> unat w = 0"
    unfolding unat_byte_swap16 by (metis w add_is_0 mult_is_0 zero_neq_numeral)
qed

lemma byte_swap16_swap [simp]: "byte_swap16 (byte_swap16 w) = w"
proof -
  have "unat w div 256 < 256" using unat_u16_less [of w] by simp
  then have "unat (byte_swap16 (byte_swap16 w)) = unat w" by (simp add: unat_byte_swap16)
  then show ?thesis by (rule word_unat_eq_iff [THEN iffD2])
qed

text \<open>The sum may be formed in either byte order.\<close>

lemma ones_complement_sum_swap:
  assumes "unat r = ones_complement_sum (map unat ws)"
  shows "unat (byte_swap16 r) = ones_complement_sum (map (\<lambda>w. unat (byte_swap16 w)) ws)"
proof (rule ones_complement_sum_unique)
  have sums: "sum_list (map (\<lambda>w. unat (byte_swap16 w)) ws) mod 65535 = 256 * sum_list (map unat ws) mod 65535"
  proof (induction ws)
    case (Cons w ws)
    have "(unat (byte_swap16 w) + sum_list (map (\<lambda>w. unat (byte_swap16 w)) ws)) mod 65535
        = (256 * unat w + 256 * sum_list (map unat ws)) mod 65535"
      by (rule mod_add_cong) (rule byte_swap16_mod(1), rule Cons.IH)
    then show ?case by (simp only: list.map sum_list.Cons distrib_left)
  qed simp
  have norm: "((x - 1) mod 65535 + 1) mod 65535 = x mod 65535" if "x \<noteq> 0" for x :: nat
    using that by (simp only: mod_add_left_eq) simp
  have r: "unat r mod 65535 = sum_list (map unat ws) mod 65535" "unat r = 0 \<longleftrightarrow> sum_list (map unat ws) = 0"
    unfolding assms ones_complement_sum_def Let_def using norm [of "sum_list (map unat ws)"]
    by (cases "sum_list (map unat ws) = 0"; simp only: if_True if_False; simp)+
  show "unat (byte_swap16 r) \<le> 65535" using unat_u16_less [of "byte_swap16 r"] by simp
  show "unat (byte_swap16 r) mod 65535 = sum_list (map (\<lambda>w. unat (byte_swap16 w)) ws) mod 65535"
    unfolding sums byte_swap16_mod(1) by (metis r(1) mod_mult_right_eq)
  show "unat (byte_swap16 r) = 0 \<longleftrightarrow> sum_list (map (\<lambda>w. unat (byte_swap16 w)) ws) = 0"
    unfolding byte_swap16_mod(2) r(2) by (induction ws) (auto simp: byte_swap16_mod(2))
qed

text \<open>The words that the code adds up.\<close>

definition machine_words :: "ip_header \<Rightarrow> u16 \<Rightarrow> u16 list" where
  "machine_words ip_hdr ip_hdr_len = [half 0 (ip_src ip_hdr), half 1 (ip_src ip_hdr), half 0 (ip_dst ip_hdr), half 1 (ip_dst ip_hdr),
     htons (ucast (ip_p ip_hdr)), htons (ntohs (ip_len ip_hdr) - ip_hdr_len)]"

lemma unat_ucast_down: "unat (ucast x :: u16) = unat x mod 65536" for x :: u32
  by (simp add: unsigned_ucast_eq take_bit_eq_mod)

lemma ucast_low_half:
  fixes a b :: u16
  assumes "b \<le> a"
  shows "ucast ((ucast a - ucast b :: u32) AND 0xffff) = a - b"
proof (rule word_unat_eq_iff [THEN iffD2])
  have "unat (ucast a - ucast b :: u32) = unat a - unat b" using assms by (subst unat_sub) (simp_all add: word_le_nat_alt)
  moreover have "unat a - unat b < 65536" using unat_u16_less [of a] by simp
  ultimately show "unat (ucast ((ucast a - ucast b :: u32) AND 0xffff) :: u16) = unat (a - b)"
    using assms by (simp add: unat_ucast_down unat_and_ffff unat_sub)
qed

lemma pseudo_header_csum_sum:
  assumes "ip_hdr_len \<le> ntohs (ip_len ip_hdr)"
  shows "unat (pseudo_header_csum ip_hdr ip_hdr_len) = ones_complement_sum (map unat (machine_words ip_hdr ip_hdr_len))"
proof -
  let ?ws = "machine_words ip_hdr ip_hdr_len"
  let ?s = "sum_list (map unat ?ws)"
  define x :: u32 where "x = 0 + ucast (half 0 (ip_src ip_hdr)) + ucast (half 1 (ip_src ip_hdr)) + ucast (half 0 (ip_dst ip_hdr))
     + ucast (half 1 (ip_dst ip_hdr)) + ucast (htons (ucast (ip_p ip_hdr))) + ucast (htons (ntohs (ip_len ip_hdr) - ip_hdr_len))"
  define y :: u32 where "y = (x AND 0xffff) + drop_bit 16 x"
  have bounds: "unat w < 65536" for w :: u16 by (rule unat_u16_less)
  have x: "unat x = ?s" "unat x \<le> 393210"
    using bounds [of "half 0 (ip_src ip_hdr)"] bounds [of "half 1 (ip_src ip_hdr)"] bounds [of "half 0 (ip_dst ip_hdr)"]
      bounds [of "half 1 (ip_dst ip_hdr)"] bounds [of "htons (ucast (ip_p ip_hdr))"] bounds [of "htons (ntohs (ip_len ip_hdr) - ip_hdr_len)"]
    by (simp_all add: x_def machine_words_def unat_word_ariths)
  have y: "unat y = unat x mod 65536 + unat x div 65536" unfolding y_def by (rule unat_fold16)
  have y_le: "unat y \<le> 65535 + 5" using x(2) unfolding y by (intro add_mono) (simp_all add: div_le_mono [of _ 393210 65536, simplified])
  define z where "z = unat y mod 65536 + unat y div 65536"
  have z_le: "z \<le> 65535"
  proof (cases "unat y < 65536")
    case False
    then have "unat y div 65536 = 1" "unat y mod 65536 \<le> 4" using y_le by (auto simp: div_nat_eqI le_mod_geq)
    then show ?thesis by (simp add: z_def)
  qed (simp add: z_def)
  have "pseudo_header_csum ip_hdr ip_hdr_len = ucast ((y AND 0xffff) + drop_bit 16 y)"
    unfolding pseudo_header_csum_def Let_def ucast_low_half [OF assms] x_def y_def ..
  then have "unat (pseudo_header_csum ip_hdr ip_hdr_len) = z" using z_le by (simp add: unat_ucast_down unat_fold16 z_def)
  moreover have "z = ones_complement_sum (map unat ?ws)"
  proof (rule ones_complement_sum_unique [OF z_le])
    show "z mod 65535 = ?s mod 65535" unfolding z_def fold16(1) y x(1) [symmetric] by (rule refl)
    show "z = 0 \<longleftrightarrow> ?s = 0" unfolding z_def fold16(2) y x(1) [symmetric] by (rule refl)
  qed
  ultimately show ?thesis by simp
qed

text \<open>
  C39. Preparing checksum offloading for a TCP packet. The checksum field, read in network byte order, then holds the one's complement sum of the pseudo
  header (addresses, protocol and length of the segment), which the device extends over the segment, or 0 if no partial sum is
  wanted; the packet header tells the device to checksum from the end of the IP header and where to put the result.
\<close>

theorem tcp_csum_correct:
  assumes "ip_hdr_len \<le> ntohs (ip_len ip_hdr)" "unat ip_hdr_len \<le> 60"
  shows "case virtio_net_enable_tcp_csum need_partial ip_hdr_len ip_hdr header of (th_sum, header') \<Rightarrow>
    unat (ntohs th_sum) = (if need_partial then ones_complement_sum (pseudo_header ip_hdr ip_hdr_len) else 0)
    \<and> hdr_flags header' = VIRTIO_NET_HDR_F_NEEDS_CSUM \<and> unat (csum_start header') = 14 + unat ip_hdr_len \<and> csum_offset header' = 16
    \<and> gso_type header' = gso_type header"
proof -
  have "pseudo_header ip_hdr ip_hdr_len = map (\<lambda>w. unat (byte_swap16 w)) (machine_words ip_hdr ip_hdr_len)"
    using assms(1) by (simp add: pseudo_header_def network_words_def machine_words_def htons_def ntohs_def unat_sub unsigned_ucast_eq
        take_bit_nat_eq_self order.strict_trans [OF unsigned_less])
  then have "unat (ntohs (pseudo_header_csum ip_hdr ip_hdr_len)) = ones_complement_sum (pseudo_header ip_hdr ip_hdr_len)"
    using ones_complement_sum_swap [OF pseudo_header_csum_sum [OF assms(1)]] by (simp add: ntohs_def)
  moreover have "unat (ntohs 0) = 0" by (simp add: ntohs_def byte_swap16_def)
  moreover have "unat (ETHER_HDR_LEN + ip_hdr_len) = 14 + unat ip_hdr_len"
    using assms(2) by (simp add: ETHER_HDR_LEN_def unat_word_ariths)
  ultimately show ?thesis by (simp add: virtio_net_enable_tcp_csum_def Let_def)
qed

text \<open>A segment without data from 127.0.0.1 to itself.\<close>

definition example_ip :: ip_header where
  "example_ip = \<lparr>ip_len = 0x2800, ip_p = 6, ip_src = 0x0100007f, ip_dst = 0x0100007f\<rparr>"

lemma example_pseudo_header: "pseudo_header example_ip 20 = [0x7f00, 1, 0x7f00, 1, 6, 20]"
  by (simp add: pseudo_header_def network_words_def example_ip_def byte_swap16_def half_def)

theorem tcp_csum_correct_witness:
  "unat (ntohs (fst (virtio_net_enable_tcp_csum True 20 example_ip
     \<lparr>hdr_flags = 0, gso_type = 0, hdr_len = 0, gso_size = 0, csum_start = 0, csum_offset = 0\<rparr>))) = 0xfe1c"
proof -
  have "20 \<le> ntohs (ip_len example_ip)" "unat (20 :: u16) \<le> 60" by (simp_all add: example_ip_def ntohs_def byte_swap16_def)
  from tcp_csum_correct [OF this, of True] show ?thesis
    by (simp add: example_pseudo_header ones_complement_sum_def split_beta)
qed

end
