(* ===== verification/Virtio_Net.thy ===== *)
theory Virtio_Net
  imports Virtio_Device Multi_Subrange Mbuf_Descriptor Net_Checksum
begin

text \<open>
  The network driver PJVirtioNet (virtio_net.cpp), which is being moved from its own PCI code to the virtio transport. Modelled is what the
  move has reached: the life cycle (start, enabling and disabling for the network interface and for the kernel debugger), feature
  negotiation, MAC address and link status, the pool of packet buffers, sending and receiving for the debugger, and the
  requests for offloading. Five functions still refer to the queues of the old code or are only declared
  (\<^verbatim>\<open>populateReceiveBuffers\<close>, \<^verbatim>\<open>handleReceivedPacket\<close>, \<^verbatim>\<open>handleReceivedPackets\<close>, \<^verbatim>\<open>releaseSentPackets\<close>,
  \<^verbatim>\<open>addPacketToQueue\<close>); they are parameters on the state \<open>'p\<close> of the packets and on the transport here, and modelled on the
  data structures of the old code in \<^verbatim>\<open>Packet_Queue\<close>.
  The services of the network family are parameters too, and the calls to it are recorded in a list.
\<close>

section \<open>State\<close>

datatype DriverState =
    kDriverStateStartFailed | kDriverStateStartFailedUnsupportedDevice | kDriverStateStartFailedOutOfMemory
  | kDriverStateEnableFailed | kDriverStateEnableFailedOutOfMemory
  | kDriverStateInitial | kDriverStateStarted | kDriverStateEnabled | kDriverStateEnabledDebugging
  | kDriverStateEnabledBoth | kDriverStateStopped

definition VIRTIO_NET_F_CSUM :: u32 where "VIRTIO_NET_F_CSUM = 0x00000001"
definition VIRTIO_NET_F_MAC :: u32 where "VIRTIO_NET_F_MAC = 0x00000020"
definition VIRTIO_NET_F_HOST_TSO4 :: u32 where "VIRTIO_NET_F_HOST_TSO4 = 0x00000800"
definition VIRTIO_NET_F_STATUS :: u32 where "VIRTIO_NET_F_STATUS = 0x00010000"
definition VIRTIO_F_NOTIFY_ON_EMPTY :: u32 where "VIRTIO_F_NOTIFY_ON_EMPTY = 0x01000000"
definition VIRTIO_NET_S_LINK_UP :: u16 where "VIRTIO_NET_S_LINK_UP = 1"
definition RECEIVE_QUEUE_INDEX :: u16 where "RECEIVE_QUEUE_INDEX = 0"
definition TRANSMIT_QUEUE_INDEX :: u16 where "TRANSMIT_QUEUE_INDEX = 1"
definition sizeof_virtio_net_hdr :: u64 where "sizeof_virtio_net_hdr = 10"

text \<open>Offsets in \<^verbatim>\<open>virtio_net_config\<close>.\<close>

definition net_config_mac :: "nat \<Rightarrow> u16" where "net_config_mac i = of_nat i"
definition net_config_status :: u16 where "net_config_status = 6"

record virtio_net_packet =
  pk_header :: virtio_net_hdr
  pk_mbuf :: "mbuf list"
  pk_mem :: IOMemoryDescriptor
  pk_mbuf_md :: PJMbufMemoryDescriptor
  pk_mbuf_md_id :: nat
  pk_dma_md :: SSDCMultiSubrangeMemoryDescriptor
  pk_dma_md_id :: nat

text \<open>Calls to the network family.\<close>

datatype net_call =
    SetLinkStatus bool | RegisterInterface | PublishMedia | SetCurrentMedium | OutputSetCapacity u32 | OutputStart
  | OutputStop | OutputFlush | FreePacket

record 'p PJVirtioNet =
  driver_state :: DriverState
  pref_allow_offloading :: bool
  virtio_dev :: bool
  dev_feature_bitmap :: u32
  interface :: bool
  transmit_virtqueue_length :: u32
  receive_virtqueue_length :: u32
  mac_address :: "u8 list"
  mac_address_is_valid :: bool
  feature_status_field :: bool
  feature_notify_on_empty :: bool
  feature_checksum_offload :: bool
  feature_tso_v4 :: bool
  debugger_receive_mem :: bool
  debugger_receive_size :: u32
  net_work_loop :: bool
  packet_bufdesc_pool :: "virtio_net_packet list"
  net_debugger :: bool
  debugger_transmit_packet :: "virtio_net_packet option"
  debugger_transmit_packet_in_use :: bool
  was_stalled :: bool
  net_packets :: 'p
  net_calls :: "net_call list"

definition record_call :: "net_call \<Rightarrow> 'p PJVirtioNet \<Rightarrow> 'p PJVirtioNet" where
  "record_call c n = n\<lparr>net_calls := net_calls n @ [c]\<rparr>"

text \<open>The answers of the kernel: whether each service succeeds, the random numbers, the memory of a new packet.\<close>

record net_env =
  net_super_init :: bool
  net_super_start :: bool
  provider_is_virtio :: bool
  has_work_loop :: bool
  random_numbers :: "u32 \<times> u32"
  pool_created :: bool
  has_output_queue :: bool
  attachInterface_ok :: bool
  allocatePacket_result :: "mbuf list"
  packet_mem :: "IOMemoryDescriptor option"
  new_dma_md :: "nat option"
  new_mbuf_md_object :: "nat option"
  attachDebuggerClient_ok :: bool
  medium_dict_ok :: bool
  medium_added :: "bool \<times> bool"
  publish_ok :: bool
  auto_medium_found :: bool

record ('p, 't) net_queue_ops =
  populateReceiveBuffers :: "'p \<times> 't \<Rightarrow> (bool \<times> 'p \<times> 't) option"
  handleReceivedPacket :: "nat \<Rightarrow> 'p \<times> 't \<Rightarrow> ('p \<times> 't) option"
  handleReceivedPackets :: "'p \<times> 't \<Rightarrow> ('p \<times> 't) option"
  releaseSentPackets :: "'p \<times> 't \<Rightarrow> ('p \<times> 't) option"
  addPacketToQueue :: "u16 \<Rightarrow> 'p \<times> 't \<Rightarrow> (IOReturn \<times> 'p \<times> 't) option"

text \<open>Lifting an operation on packets and transport to the driver.\<close>

definition on_packets ::
    "('p \<times> 't \<Rightarrow> ('p \<times> 't) option) \<Rightarrow> 'p PJVirtioNet \<times> 't \<Rightarrow> ('p PJVirtioNet \<times> 't) option" where
  "on_packets f = (\<lambda>(n, t). do { (p, t) \<leftarrow> f (net_packets n, t); Some (n\<lparr>net_packets := p\<rparr>, t) })"

section \<open>Initialisation and probing\<close>

text \<open>\<open>allow_offloading\<close> is the boolean of the property list, if there is one.\<close>

definition net_init :: "net_env \<Rightarrow> bool option \<Rightarrow> 'p PJVirtioNet \<Rightarrow> bool \<times> 'p PJVirtioNet" where
  "net_init env allow_offloading n =
     (if \<not> net_super_init env then (False, n)
      else (pool_created env, n\<lparr>pref_allow_offloading := (case allow_offloading of Some b \<Rightarrow> b | None \<Rightarrow> True),
              driver_state := kDriverStateInitial, packet_bufdesc_pool := []\<rparr>))"

definition net_probe :: "net_env \<Rightarrow> u32 \<Rightarrow> bool" where
  "net_probe env device_type \<longleftrightarrow> provider_is_virtio env \<and> device_type = 1"

section \<open>Link status\<close>

text \<open>The status is -1 if the device has no status field.\<close>

definition readStatus :: "'t VirtioDevice \<Rightarrow> 'p PJVirtioNet \<times> 't \<Rightarrow> (u32 \<times> 't) option" where
  "readStatus vt = (\<lambda>(n, t).
     if \<not> feature_status_field n then Some (- 1, t)
     else if \<not> virtio_dev n then None
     else do { (status, t) \<leftarrow> vd_readDeviceConfig16Native vt net_config_status t; Some (ucast status, t) })"

definition updateLinkStatus :: "'t VirtioDevice \<Rightarrow> 'p PJVirtioNet \<times> 't \<Rightarrow> (bool \<times> 'p PJVirtioNet \<times> 't) option" where
  "updateLinkStatus vt = (\<lambda>(n, t). do {
     (status, t) \<leftarrow> readStatus vt (n, t);
     let link_is_up = has_bits status (ucast VIRTIO_NET_S_LINK_UP);
     Some (link_is_up, record_call (SetLinkStatus link_is_up) n, t)
   })"

definition configChangeHandler :: "'t VirtioDevice \<Rightarrow> 'p PJVirtioNet \<times> 't \<Rightarrow> ('p PJVirtioNet \<times> 't) option" where
  "configChangeHandler vt = (\<lambda>(n, t).
     if feature_status_field n then do { (_, n, t) \<leftarrow> updateLinkStatus vt (n, t); Some (n, t) } else Some (n, t))"

definition detectLinkStatusFeature :: "'t VirtioDevice \<Rightarrow> 'p PJVirtioNet \<times> 't \<Rightarrow> ('p PJVirtioNet \<times> 't) option" where
  "detectLinkStatusFeature vt = (\<lambda>(n, t).
     if has_bits (dev_feature_bitmap n) VIRTIO_NET_F_STATUS
     then let n = n\<lparr>feature_status_field := True\<rparr> in do {
       (status, t) \<leftarrow> readStatus vt (n, t);
       Some (record_call (SetLinkStatus (has_bits (ucast status) VIRTIO_NET_S_LINK_UP)) n, t)
     }
     else Some (record_call (SetLinkStatus True) (n\<lparr>feature_status_field := False\<rparr>), t))"

section \<open>MAC address\<close>

text \<open>The loop that reads the bytes of the address from the configuration area.\<close>

fun read_mac :: "'t VirtioDevice \<Rightarrow> nat list \<Rightarrow> 't \<Rightarrow> (u8 list \<times> 't) option" where
  "read_mac vt [] t = Some ([], t)"
| "read_mac vt (i # is) t = do {
     (b, t) \<leftarrow> vd_readDeviceConfig8 vt (net_config_mac i) t;
     (bs, t) \<leftarrow> read_mac vt is t;
     Some (b # bs, t)
   }"

definition generate_mac :: "u32 \<Rightarrow> u32 \<Rightarrow> u8 list" where
  "generate_mac rnd1 rnd2 =
     [ucast ((rnd1 AND 0xfe) OR 0x02),
      ucast (drop_bit 8 rnd1 AND 0xff),
      ucast ((drop_bit 16 rnd1 XOR rnd2) AND 0xff),
      ucast ((drop_bit 24 rnd1 XOR drop_bit 8 rnd2) AND 0xff),
      ucast (drop_bit 16 rnd2 AND 0xff),
      ucast (drop_bit 24 rnd2 AND 0xff)]"

definition determineMACAddress ::
    "'t VirtioDevice \<Rightarrow> net_env \<Rightarrow> 'p PJVirtioNet \<times> 't \<Rightarrow> ('p PJVirtioNet \<times> 't) option" where
  "determineMACAddress vt env = (\<lambda>(n, t).
     if has_bits (dev_feature_bitmap n) VIRTIO_NET_F_MAC
     then do {
       (mac, t) \<leftarrow> read_mac vt [0..<6] t;
       Some (n\<lparr>mac_address := mac, mac_address_is_valid := True\<rparr>, t)
     }
     else let (rnd1, rnd2) = random_numbers env in
       Some (n\<lparr>mac_address := generate_mac rnd1 rnd2, mac_address_is_valid := True\<rparr>, t))"

definition getHardwareAddress :: "'p PJVirtioNet \<Rightarrow> IOReturn \<times> u8 list option" where
  "getHardwareAddress n =
     (if \<not> mac_address_is_valid n then (kIOReturnNotReady, None) else (kIOReturnSuccess, Some (mac_address n)))"

section \<open>Packet buffers\<close>

text \<open>A packet from the pool or a new one. A set hands out any of its objects; here that is the first of the list.\<close>

definition allocPacket :: "net_env \<Rightarrow> 'p PJVirtioNet \<Rightarrow> virtio_net_packet option \<times> 'p PJVirtioNet" where
  "allocPacket env n = (case packet_bufdesc_pool n of
     p # ps \<Rightarrow> (Some p, n\<lparr>packet_bufdesc_pool := ps\<rparr>)
   | [] \<Rightarrow> (case packet_mem env of
       None \<Rightarrow> (None, n)
     | Some mem \<Rightarrow> (case (new_dma_md env, new_mbuf_md_object env) of
         (Some dma_id, Some mbuf_id) \<Rightarrow> (Some \<lparr>pk_header = \<lparr>hdr_flags = 0, gso_type = 0, hdr_len = 0, gso_size = 0, csum_start = 0, csum_offset = 0\<rparr>,
                 pk_mbuf = [], pk_mem = mem,
                 pk_mbuf_md = new_mbuf_md\<lparr>first_init_done := True\<rparr>, pk_mbuf_md_id = mbuf_id,
                 pk_dma_md = new_ssdc\<lparr>initialised := True\<rparr>, pk_dma_md_id = dma_id\<rparr>, n)
       | _ \<Rightarrow> (None, n))))"

text \<open>The pool is emptied and the descriptors of its packets are released. (The code also releases a DMA command, a member that
  packets no longer have.)\<close>

definition flushPacketPool :: "'p PJVirtioNet \<Rightarrow> 'p PJVirtioNet" where
  "flushPacketPool n = n\<lparr>packet_bufdesc_pool := []\<rparr>"

section \<open>Starting\<close>

text \<open>The second part of starting, after the device has been opened and closed again: attaching the interface and,
  if a packet can be reserved for it, the debugger.\<close>

definition attach_clients :: "net_env \<Rightarrow> 'p PJVirtioNet \<Rightarrow> bool \<times> 'p PJVirtioNet" where
  "attach_clients env n =
     (if \<not> has_output_queue env then (False, n)
      else if \<not> attachInterface_ok env then (False, n\<lparr>interface := False\<rparr>)
      else let n = record_call RegisterInterface (n\<lparr>interface := True, driver_state := kDriverStateStarted\<rparr>);
               (packet_mem, n) = (if allocatePacket_result env = [] then (None, n) else allocPacket env n);
               n = (case packet_mem of
                      Some p \<Rightarrow> n\<lparr>debugger_transmit_packet := Some (p\<lparr>pk_mbuf := allocatePacket_result env\<rparr>)\<rparr>
                    | None \<Rightarrow> if allocatePacket_result env = [] then n else record_call FreePacket n)
        in (True, if debugger_transmit_packet n \<noteq> None \<and> attachDebuggerClient_ok env then n\<lparr>net_debugger := True\<rparr> else n))"

definition startWithIOEnabled ::
    "'t VirtioDevice \<Rightarrow> net_env \<Rightarrow> 'p PJVirtioNet \<times> 't \<Rightarrow> (bool \<times> 'p PJVirtioNet \<times> 't) option" where
  "startWithIOEnabled vt env = (\<lambda>(n, t). do {
     (_, t) \<leftarrow> vd_resetDevice vt t;
     let dev_features = vd_supportedFeatures vt t;
     let csum = pref_allow_offloading n \<and> has_bits dev_features VIRTIO_NET_F_CSUM;
     let n = n\<lparr>dev_feature_bitmap := dev_features,
               feature_notify_on_empty := has_bits dev_features VIRTIO_F_NOTIFY_ON_EMPTY,
               feature_checksum_offload := csum,
               feature_tso_v4 := csum \<and> has_bits dev_features VIRTIO_NET_F_HOST_TSO4\<rparr>;
     (n, t) \<leftarrow> determineMACAddress vt env (n, t);
     (n, t) \<leftarrow> detectLinkStatusFeature vt (n, t);
     t \<leftarrow> vd_failDevice vt t;
     t \<leftarrow> vd_close vt t;
     let (ok, n) = attach_clients env n;
     Some (ok, n, t)
   })"

definition net_start ::
    "'t VirtioDevice \<Rightarrow> net_env \<Rightarrow> 'p PJVirtioNet \<times> 't \<Rightarrow> (bool \<times> 'p PJVirtioNet \<times> 't) option" where
  "net_start vt env = (\<lambda>(n, t).
     if driver_state n \<noteq> kDriverStateInitial \<and> driver_state n \<noteq> kDriverStateStopped then Some (False, n, t)
     else
       let n = n\<lparr>driver_state := kDriverStateStartFailed\<rparr> in
       if \<not> net_super_start env then Some (False, n, t)
       else if \<not> provider_is_virtio env then Some (False, n\<lparr>driver_state := kDriverStateStartFailedUnsupportedDevice\<rparr>, t)
       else do {
         (opened, t) \<leftarrow> vd_open vt t;
         if \<not> opened then Some (False, n, t)
         else
           let n = n\<lparr>virtio_dev := True, net_work_loop := has_work_loop env\<rparr> in
           if \<not> has_work_loop env then Some (False, n, t)
           else startWithIOEnabled vt env (n, t)
       })"

section \<open>Enabling\<close>

definition requested_net_features :: "bool \<Rightarrow> u32" where
  "requested_net_features checksum_offload =
     VIRTIO_F_NOTIFY_ON_EMPTY OR VIRTIO_NET_F_MAC OR VIRTIO_NET_F_STATUS
     OR (if checksum_offload then VIRTIO_NET_F_CSUM OR VIRTIO_NET_F_HOST_TSO4 else 0)"

definition enablePartial ::
    "'t VirtioDevice \<Rightarrow> ('p, 't) net_queue_ops \<Rightarrow> 'p PJVirtioNet \<times> 't \<Rightarrow> (bool \<times> 'p PJVirtioNet \<times> 't) option" where
  "enablePartial vt ops = (\<lambda>(n, t).
     if \<not> virtio_dev n then None
     else do {
       (opened, t) \<leftarrow> vd_open vt t;
       if \<not> opened then Some (False, n, t)
       else do {
         (ok, t) \<leftarrow> vd_resetDevice vt t;
         if \<not> ok then do { t \<leftarrow> vd_close vt t; Some (False, n, t) }
         else do {
           let supported_features = vd_supportedFeatures vt t AND requested_net_features (feature_checksum_offload n);
           (ok, t) \<leftarrow> vd_requestFeatures vt supported_features t;
           if \<not> ok then do { t \<leftarrow> vd_failDevice vt t; t \<leftarrow> vd_close vt t; Some (False, n, t) }
           else do {
             let n = n\<lparr>dev_feature_bitmap := supported_features\<rparr>;
             (result, virtqueue_lengths, t) \<leftarrow> vd_setupVirtqueues vt 2 (\<lambda>_. False) (\<lambda>_. 0) t;
             if result \<noteq> kIOReturnSuccess
             then do { t \<leftarrow> vd_failDevice vt t; t \<leftarrow> vd_close vt t; Some (False, n, t) }
             else do {
               rx \<leftarrow> array_read virtqueue_lengths (unat RECEIVE_QUEUE_INDEX);
               tx \<leftarrow> array_read virtqueue_lengths (unat TRANSMIT_QUEUE_INDEX);
               let n = n\<lparr>receive_virtqueue_length := rx, transmit_virtqueue_length := tx\<rparr>;
               t \<leftarrow> vd_startDevice vt True False t;
               (ok, p, t) \<leftarrow> populateReceiveBuffers ops (net_packets n, t);
               let n = n\<lparr>net_packets := p\<rparr>;
               if \<not> ok then do { t \<leftarrow> vd_failDevice vt t; t \<leftarrow> vd_close vt t; Some (False, n, t) }
               else Some (True, n, t)
             }
           }
         }
       }
     })"

definition gatedEnableDebugger ::
    "'t VirtioDevice \<Rightarrow> ('p, 't) net_queue_ops \<Rightarrow> 'p PJVirtioNet \<times> 't \<Rightarrow> (IOReturn \<times> 'p PJVirtioNet \<times> 't) option" where
  "gatedEnableDebugger vt ops = (\<lambda>(n, t).
     if \<not> net_debugger n \<or> debugger_transmit_packet n = None then Some (kIOReturnError, n, t)
     else if driver_state n = kDriverStateEnabled
     then Some (kIOReturnSuccess, n\<lparr>driver_state := kDriverStateEnabledBoth\<rparr>, t)
     else if driver_state n = kDriverStateEnabledBoth \<or> driver_state n = kDriverStateEnabledDebugging
     then Some (kIOReturnSuccess, n, t)
     else if driver_state n \<noteq> kDriverStateStarted then Some (kIOReturnInvalid, n, t)
     else do {
       (ok, n, t) \<leftarrow> enablePartial vt ops (n, t);
       Some (if ok then kIOReturnSuccess else kIOReturnError,
             n\<lparr>driver_state := (if ok then kDriverStateEnabledDebugging else kDriverStateEnableFailed)\<rparr>, t)
     })"

text \<open>Two media are added to the table; \<open>medium_added\<close> tells which of them could be.\<close>

definition createMediumTable :: "net_env \<Rightarrow> 'p PJVirtioNet \<Rightarrow> bool \<times> 'p PJVirtioNet" where
  "createMediumTable env n =
     (if \<not> medium_dict_ok env then (False, n)
      else if \<not> (fst (medium_added env) \<and> snd (medium_added env)) then (False, n)
      else if \<not> publish_ok env then (False, n)
      else (True, (if auto_medium_found env then record_call SetCurrentMedium else (\<lambda>n. n)) (record_call PublishMedia n)))"

text \<open>The part of enabling the interface after the device has been enabled.\<close>

definition start_interface ::
    "'t VirtioDevice \<Rightarrow> net_env \<Rightarrow> bool \<Rightarrow> 'p PJVirtioNet \<times> 't \<Rightarrow> (IOReturn \<times> 'p PJVirtioNet \<times> 't) option" where
  "start_interface vt env has_debugger = (\<lambda>(n, t).
     let (ok, n) = createMediumTable env (n\<lparr>driver_state := kDriverStateEnableFailed\<rparr>) in
     if \<not> ok then Some (kIOReturnNoMemory, n, t)
     else do {
       (_, t) \<leftarrow> vd_setVirtqueueInterruptsEnabled vt RECEIVE_QUEUE_INDEX True t;
       (_, t) \<leftarrow> (if \<not> feature_notify_on_empty n
                  then vd_setVirtqueueInterruptsEnabled vt TRANSMIT_QUEUE_INDEX True t else Some (kIOReturnSuccess, t));
       if \<not> has_output_queue env then do { t \<leftarrow> vd_failDevice vt t; Some (kIOReturnError, n, t) }
       else do {
         let n = record_call OutputStart (record_call (OutputSetCapacity (max 16 (transmit_virtqueue_length n))) n);
         (_, n, t) \<leftarrow> updateLinkStatus vt (n, t);
         Some (kIOReturnSuccess,
               n\<lparr>driver_state := (if has_debugger then kDriverStateEnabledBoth else kDriverStateEnabled)\<rparr>, t)
       }
     })"

text \<open>\<open>own\<close>: the interface to be enabled is the one of the driver.\<close>

definition gatedEnableInterface ::
    "'t VirtioDevice \<Rightarrow> ('p, 't) net_queue_ops \<Rightarrow> net_env \<Rightarrow> bool \<Rightarrow> 'p PJVirtioNet \<times> 't
     \<Rightarrow> (IOReturn \<times> 'p PJVirtioNet \<times> 't) option" where
  "gatedEnableInterface vt ops env own = (\<lambda>(n, t).
     if driver_state n = kDriverStateEnabledBoth \<or> driver_state n = kDriverStateEnabled then Some (kIOReturnSuccess, n, t)
     else if driver_state n \<noteq> kDriverStateStarted \<and> driver_state n \<noteq> kDriverStateEnabledDebugging
     then Some (kIOReturnInvalid, n, t)
     else
       let has_debugger = (driver_state n = kDriverStateEnabledDebugging);
           n = (if driver_state n \<noteq> kDriverStateEnabledDebugging then n\<lparr>driver_state := kDriverStateEnableFailed\<rparr> else n) in
       if \<not> own then Some (kIOReturnBadArgument, n, t)
       else do {
         (ok, n, t) \<leftarrow> (if has_debugger then Some (True, n, t) else enablePartial vt ops (n, t));
         if \<not> ok then Some (kIOReturnError, n\<lparr>driver_state := kDriverStateEnableFailed\<rparr>, t)
         else start_interface vt env has_debugger (n, t)
       })"

section \<open>Disabling\<close>

definition disablePartial ::
    "'t VirtioDevice \<Rightarrow> ('p, 't) net_queue_ops \<Rightarrow> 'p PJVirtioNet \<times> 't \<Rightarrow> ('p PJVirtioNet \<times> 't) option" where
  "disablePartial vt ops st = do {
     st \<leftarrow> on_packets (handleReceivedPackets ops) st;
     (n, t) \<leftarrow> on_packets (releaseSentPackets ops) st;
     t \<leftarrow> vd_failDevice vt t;
     t \<leftarrow> vd_close vt t;
     Some ((flushPacketPool n)\<lparr>driver_state := kDriverStateStarted\<rparr>, t)
   }"

definition disable_debugger ::
    "'t VirtioDevice \<Rightarrow> ('p, 't) net_queue_ops \<Rightarrow> 'p PJVirtioNet \<times> 't \<Rightarrow> (IOReturn \<times> 'p PJVirtioNet \<times> 't) option" where
  "disable_debugger vt ops = (\<lambda>(n, t).
     if driver_state n \<noteq> kDriverStateEnabledDebugging \<and> driver_state n \<noteq> kDriverStateEnabledBoth then Some (kIOReturnInvalid, n, t)
     else if driver_state n = kDriverStateEnabledDebugging
     then do { (n, t) \<leftarrow> disablePartial vt ops (n, t); Some (kIOReturnSuccess, n\<lparr>driver_state := kDriverStateStarted\<rparr>, t) }
     else Some (kIOReturnSuccess, n\<lparr>driver_state := kDriverStateEnabled\<rparr>, t))"

definition disable_interface ::
    "'t VirtioDevice \<Rightarrow> ('p, 't) net_queue_ops \<Rightarrow> net_env \<Rightarrow> 'p PJVirtioNet \<times> 't \<Rightarrow> (IOReturn \<times> 'p PJVirtioNet \<times> 't) option" where
  "disable_interface vt ops env = (\<lambda>(n, t).
     if driver_state n \<noteq> kDriverStateEnabled \<and> driver_state n \<noteq> kDriverStateEnabledBoth then Some (kIOReturnInvalid, n, t)
     else do {
       let n = (if has_output_queue env
                then record_call OutputFlush (record_call (OutputSetCapacity 0) (record_call OutputStop n)) else n);
       (_, t) \<leftarrow> vd_setVirtqueueInterruptsEnabled vt RECEIVE_QUEUE_INDEX False t;
       (_, t) \<leftarrow> vd_setVirtqueueInterruptsEnabled vt TRANSMIT_QUEUE_INDEX False t;
       if driver_state n = kDriverStateEnabledBoth
       then Some (kIOReturnSuccess, n\<lparr>driver_state := kDriverStateEnabledDebugging\<rparr>, t)
       else do { (n, t) \<leftarrow> disablePartial vt ops (n, t); Some (kIOReturnSuccess, n\<lparr>driver_state := kDriverStateStarted\<rparr>, t) }
     })"

section \<open>Sending packets\<close>

text \<open>What the network stack wants to be offloaded for a packet: the mask of checksums, and the segmentation request if asking for it
  succeeds. The result tells whether a TCP checksum and IPv4 segmentation are requested.\<close>

definition offload_requests ::
    "u32 \<Rightarrow> u32 \<Rightarrow> u32 \<Rightarrow> 'p PJVirtioNet \<Rightarrow> u32 \<Rightarrow> u32 option \<Rightarrow> bool \<times> bool" where
  "offload_requests kChecksumTCP MBUF_TSO_IPV4 MBUF_TSO_IPV6 n demand_mask tso_requested =
     (if feature_checksum_offload n
      then (has_bits demand_mask kChecksumTCP,
            feature_tso_v4 n \<and> (case tso_requested of
              None \<Rightarrow> False
            | Some tso_req \<Rightarrow> tso_req \<noteq> 0 \<and> tso_req AND (MBUF_TSO_IPV4 OR MBUF_TSO_IPV6) = MBUF_TSO_IPV4))
      else (False, False))"

text \<open>The requests are computed but not handed on: the function that adds the packet to the queue has no parameter for them.\<close>

definition addPacketToTransmitQueue ::
    "('p, 't) net_queue_ops \<Rightarrow> bool \<times> bool \<Rightarrow> 'p PJVirtioNet \<times> 't \<Rightarrow> (IOReturn \<times> 'p PJVirtioNet \<times> 't) option" where
  "addPacketToTransmitQueue ops requests = (\<lambda>(n, t). do {
     (ret, p, t) \<leftarrow> addPacketToQueue ops TRANSMIT_QUEUE_INDEX (net_packets n, t);
     Some (ret, n\<lparr>net_packets := p\<rparr>, t)
   })"

definition outputPacket ::
    "'t VirtioDevice \<Rightarrow> ('p, 't) net_queue_ops \<Rightarrow> bool \<times> bool \<Rightarrow> 'p PJVirtioNet \<times> 't
     \<Rightarrow> (IOReturn \<times> 'p PJVirtioNet \<times> 't) option" where
  "outputPacket vt ops requests st = do {
     st \<leftarrow> on_packets (releaseSentPackets ops) st;
     (add_ret, n, t) \<leftarrow> addPacketToTransmitQueue ops requests st;
     if add_ret \<noteq> kIOReturnSuccess
     then if add_ret = kIOReturnOutputStall
       then do {
         (_, t) \<leftarrow> (if feature_notify_on_empty n
                    then vd_setVirtqueueInterruptsEnabled vt TRANSMIT_QUEUE_INDEX True t else Some (kIOReturnSuccess, t));
         Some (kIOReturnOutputStall, n\<lparr>was_stalled := True\<rparr>, t)
       }
       else Some (kIOReturnOutputDropped, record_call FreePacket n, t)
     else Some (kIOReturnSuccess, n, t)
   }"

definition net_getFeatures :: "u32 \<Rightarrow> 'p PJVirtioNet \<Rightarrow> u32" where
  "net_getFeatures kIONetworkFeatureTSOIPv4 n = (if feature_tso_v4 n then kIONetworkFeatureTSOIPv4 else 0)"

definition getChecksumSupport :: "u32 \<Rightarrow> bool \<Rightarrow> 'p PJVirtioNet \<Rightarrow> IOReturn \<times> u32" where
  "getChecksumSupport kChecksumTCP family_is_TCPIP n =
     (if \<not> family_is_TCPIP then (kIOReturnUnsupported, 0)
      else (kIOReturnSuccess, if feature_checksum_offload n then kChecksumTCP else 0))"

section \<open>Packets of the debugger\<close>

definition DIRECTION_NONE :: u32 where "DIRECTION_NONE = 0"
definition DIRECTION_OUT :: u32 where "DIRECTION_OUT = 2"

text \<open>The descriptors of a packet are emptied.\<close>

definition clear_packet ::
    "ssdc_env \<Rightarrow> 'a virtio_net_packet_scheme \<Rightarrow> refcounts \<Rightarrow> ('a virtio_net_packet_scheme \<times> refcounts) option" where
  "clear_packet senv packet refs = do {
     (_, dma_md, refs) \<leftarrow> initWithDescriptorRanges senv None 0 DIRECTION_NONE False (pk_dma_md packet, refs);
     Some (packet\<lparr>pk_dma_md := dma_md, pk_mbuf_md := snd (initWithMbuf True [] DIRECTION_NONE (pk_mbuf_md packet))\<rparr>, refs)
   }"

definition debugger_completion :: VirtioCompletion where
  "debugger_completion = \<lparr>comp_action = debuggerTransmitCompletionAction, comp_target = 0, comp_ref = 0\<rparr>"

text \<open>The packet with its header cleared and its memory descriptor set, and the two ranges to be sent.\<close>

definition init_debugger_packet :: "virtio_net_packet \<Rightarrow> virtio_net_packet" where
  "init_debugger_packet packet = packet\<lparr>
     pk_header := \<lparr>hdr_flags = 0, gso_type = VIRTIO_NET_HDR_GSO_NONE, hdr_len = 0, gso_size = 0, csum_start = 0, csum_offset = 0\<rparr>,
     pk_mbuf_md := snd (initWithMbuf True (pk_mbuf packet) DIRECTION_OUT (pk_mbuf_md packet))\<rparr>"

definition debugger_packet_ranges :: "virtio_net_packet \<Rightarrow> u32 \<Rightarrow> SSDCMemoryDescriptorSubrange list" where
  "debugger_packet_ranges packet pktSize =
     (let mbuf_md = \<lparr>md_id = pk_mbuf_md_id packet, md_length = mb_length (pk_mbuf_md packet)\<rparr>
      in [\<lparr>sr_md = Some (pk_mem packet), sr_offset = 0, sr_length = sizeof_virtio_net_hdr\<rparr>,
          \<lparr>sr_md = Some mbuf_md, sr_offset = 0, sr_length = ucast pktSize\<rparr>])"

text \<open>\<open>poll\<close> is \<^verbatim>\<open>pollCompletedRequestsInVirtqueue\<close> of the transport, which calls the completion actions of the driver.\<close>

definition sendPacket ::
    "'t VirtioDevice \<Rightarrow> ssdc_env \<Rightarrow> (u16 \<Rightarrow> u32 \<Rightarrow> 'p PJVirtioNet \<times> refcounts \<times> 't \<Rightarrow> (u32 \<times> 'p PJVirtioNet \<times> refcounts \<times> 't) option)
     \<Rightarrow> u32 \<Rightarrow> u32 \<Rightarrow> 'p PJVirtioNet \<times> refcounts \<times> 't \<Rightarrow> ('p PJVirtioNet \<times> refcounts \<times> 't) option" where
  "sendPacket vt senv poll kIOEthernetMaxPacketSize pktSize st =
     (if pktSize > kIOEthernetMaxPacketSize then Some st
      else if debugger_transmit_packet (fst st) = None then Some st
      else do {
        (n, refs, t) \<leftarrow> (if debugger_transmit_packet_in_use (fst st)
           then do { (_, st) \<leftarrow> poll TRANSMIT_QUEUE_INDEX 0 st; Some st } else Some st);
        if debugger_transmit_packet_in_use n then Some (n, refs, t)
        else do {
          packet \<leftarrow> debugger_transmit_packet n;
          let packet = init_debugger_packet packet;
          (_, dma_md, refs) \<leftarrow> initWithDescriptorRanges senv (Some (debugger_packet_ranges packet pktSize)) 2 DIRECTION_OUT False (pk_dma_md packet, refs);
          let packet = packet\<lparr>pk_dma_md := dma_md\<rparr>;
          let n = n\<lparr>debugger_transmit_packet := Some packet, debugger_transmit_packet_in_use := True\<rparr>;
          (res, t) \<leftarrow> vd_submitBuffersToVirtqueue vt TRANSMIT_QUEUE_INDEX
             (Some \<lparr>md_id = pk_dma_md_id packet, md_length = ssdc_length dma_md\<rparr>) None debugger_completion t;
          if res \<noteq> kIOReturnSuccess
          then do {
            (packet, refs) \<leftarrow> clear_packet senv packet refs;
            Some (n\<lparr>debugger_transmit_packet := Some packet, debugger_transmit_packet_in_use := False\<rparr>, refs, t)
          }
          else Some (n, refs, t)
        }
      })"

definition debugger_transmit_completed ::
    "ssdc_env \<Rightarrow> 'p PJVirtioNet \<times> refcounts \<Rightarrow> ('p PJVirtioNet \<times> refcounts) option" where
  "debugger_transmit_completed senv = (\<lambda>(n, refs). do {
     packet \<leftarrow> debugger_transmit_packet n;
     (packet, refs) \<leftarrow> clear_packet senv packet refs;
     Some (n\<lparr>debugger_transmit_packet := Some packet, debugger_transmit_packet_in_use := False\<rparr>, refs)
   })"

text \<open>The completion of a received packet. While the debugger is waiting, the data are copied to its buffer and the packet is queued again; \<open>copydata\<close> tells
  whether the packet holds that many bytes.\<close>

definition receiveQueueCompletion ::
    "'t VirtioDevice \<Rightarrow> ('p, 't) net_queue_ops \<Rightarrow> (nat \<Rightarrow> u32 \<Rightarrow> bool) \<Rightarrow> (nat \<Rightarrow> IOMemoryDescriptor) \<Rightarrow> nat \<Rightarrow> u32
     \<Rightarrow> 'p PJVirtioNet \<times> 't \<Rightarrow> ('p PJVirtioNet \<times> 't) option" where
  "receiveQueueCompletion vt ops copydata dma_md packet num_bytes_written = (\<lambda>(n, t).
     if debugger_receive_mem n
     then do {
       let copy_len = min (ucast ((ucast num_bytes_written :: u64) - sizeof_virtio_net_hdr)) (debugger_receive_size n);
       let n = n\<lparr>debugger_receive_size := (if copydata packet copy_len then copy_len else 0)\<rparr>;
       (_, t) \<leftarrow> vd_submitBuffersToVirtqueue vt RECEIVE_QUEUE_INDEX None (Some (dma_md packet))
          \<lparr>comp_action = receiveQueueCompletionAction, comp_target = 0, comp_ref = packet\<rparr> t;
       Some (n, t)
     }
     else do {
       (n, t) \<leftarrow> on_packets (handleReceivedPacket ops packet) (n, t);
       (_, p, t) \<leftarrow> populateReceiveBuffers ops (net_packets n, t);
       Some (n\<lparr>net_packets := p\<rparr>, t)
     })"

text \<open>The loop that waits for a packet.\<close>

partial_function (option) receive_loop ::
    "(u16 \<Rightarrow> u32 \<Rightarrow> 's \<Rightarrow> (u32 \<times> 's) option) \<Rightarrow> u64 \<Rightarrow> u64 \<Rightarrow> 's \<Rightarrow> (bool \<times> 's) option" where
  "receive_loop poll timeout_us waited s = do {
     (handled_requests, s) \<leftarrow> poll RECEIVE_QUEUE_INDEX 1 s;
     if handled_requests > 0 then Some (True, s)
     else if waited \<ge> timeout_us then Some (False, s)
     else receive_loop poll timeout_us (waited + 20) s
   }"

text \<open>The result is the size of the packet received, 0 if there is none.\<close>

definition receivePacket ::
    "(u16 \<Rightarrow> u32 \<Rightarrow> 'p PJVirtioNet \<times> 's \<Rightarrow> (u32 \<times> 'p PJVirtioNet \<times> 's) option) \<Rightarrow> u32 \<Rightarrow> u32 \<Rightarrow> 'p PJVirtioNet \<times> 's
     \<Rightarrow> (u32 \<times> 'p PJVirtioNet \<times> 's) option" where
  "receivePacket poll pktSize timeout = (\<lambda>(n, s). do {
     (received, n, s) \<leftarrow> receive_loop poll (ucast timeout * 1000) 0
        (n\<lparr>debugger_receive_mem := True, debugger_receive_size := pktSize\<rparr>, s);
     Some (if received then debugger_receive_size n else 0, n\<lparr>debugger_receive_mem := False, debugger_receive_size := 0\<rparr>, s)
   })"

end
