(* ===== verification/Virtio_Net_Props.thy ===== *)
theory Virtio_Net_Props
  imports Virtio_Net
begin

text \<open>
  Properties of the network driver: the life cycle as a state machine over any transport that fulfils its contract, in particular the
  legacy transport; what remains after a failed attempt to enable it; MAC addresses; the debugger's packets.
\<close>

section \<open>What the driver needs of its transport\<close>

text \<open>\<open>queues\<close> is the number of virtqueues that are set up.\<close>

locale net_transport = virtio_transport +
  fixes queues :: "'a \<Rightarrow> nat"
  assumes read16n_ok: "live t \<Longrightarrow> \<exists>v t'. vd_readDeviceConfig16Native vt off16 t = Some (v, t') \<and> live t' \<and> queues t' = queues t"
    and setup_queues: "live t \<Longrightarrow> vd_setupVirtqueues vt n ints inds t = Some (kIOReturnSuccess, sizes, t') \<Longrightarrow> queues t' = unat n"
    and start_queues: "live t \<Longrightarrow> vd_startDevice vt action wl t = Some t' \<Longrightarrow> queues t' = queues t"
    and interrupts_ok: "live t \<Longrightarrow> unat i < queues t
      \<Longrightarrow> \<exists>r t'. vd_setVirtqueueInterruptsEnabled vt i on t = Some (r, t') \<and> live t' \<and> queues t' = queues t"

definition legacy_queues :: "legacy_dev \<Rightarrow> nat" where
  "legacy_queues d = (case virtqueues d of None \<Rightarrow> 0 | Some qs \<Rightarrow> length qs)"

lemma startDevice_virtqueues:
  assumes "startDevice env dev fuel act wl d = Some d'"
  shows "virtqueues d' = virtqueues d"
proof -
  from assms obtain ok d1 n where b: "beginHandlingInterrupts env dev fuel wl (d\<lparr>configChangeAction := act\<rparr>) = Some (ok, d1)"
    and e: "dump_config dev n 0 (io_write W8 DEVICE_STATUS 7 d1) = Some d'"
    by (auto simp: startDevice_def Let_def Option.bind_eq_Some_conv split: if_splits)
  from b have "virtqueues d1 = virtqueues d" by (cases rule: beginHandlingInterrupts_cases) (auto simp: msix_checked_frame)
  with dump_config_frame [OF e] show ?thesis by (auto simp: io_write_def)
qed

lemma legacy_interrupts:
  assumes "legacy_live d" "unat i < legacy_queues d"
  shows "\<exists>r d'. setVirtqueueInterruptsEnabled i on d = Some (r, d') \<and> legacy_live d' \<and> legacy_queues d' = legacy_queues d"
proof -
  obtain qs where qs: "virtqueues d = Some qs" "unat i < length qs" using assms(2) by (cases "virtqueues d") (auto simp: legacy_queues_def)
  obtain d' q' where s: "setVirtqueueInterruptsEnabled i on d = Some (kIOReturnSuccess, d')" "d' = d\<lparr>virtqueues := Some (qs[unat i := q'])\<rparr>"
    using setVirtqueueInterruptsEnabled_eqs(1) [OF legacy_live_facts(1) [OF assms(1)] qs unat_u16_less, of on] by auto
  from opened_step_live [OF assms(1) setVirtqueueInterruptsEnabled_keeps [OF s(1) legacy_live_facts(1) [OF assms(1)]]] s qs(1)
  show ?thesis by (simp add: legacy_queues_def)
qed

lemma legacy_read16:
  assumes "legacy_live d"
  shows "\<exists>v d'. readDeviceConfig16Native dev a d = Some (v, d') \<and> legacy_live d' \<and> legacy_queues d' = legacy_queues d"
  using legacy_live_facts(2) [OF assms] assms
  by (simp add: readDeviceConfig16Native_def io_read_def legacy_live_def session_inv_def dev_inv_def legacy_queues_def)

lemma legacy_setup_queues:
  assumes "legacy_live d" "setupVirtqueues env dev n ints inds d = Some (kIOReturnSuccess, sizes, d')"
  shows "legacy_queues d' = unat n"
proof -
  have "pci_device d \<and> (intr_event_source d \<longrightarrow> work_loop d)" using legacy_live_facts [OF assms(1)] dev_inv_work_loop by blast
  from setupVirtqueues_result [OF this, of env dev n ints inds] assms(2) show ?thesis by (auto simp: legacy_queues_def)
qed

sublocale legacy_kernel \<subseteq> net: net_transport "legacy_ops env dev fuel dma table_id" legacy_closed legacy_live
  pci_virtio_header_iomap legacy_queues
proof (unfold_locales, goal_cases)
  case (1 t off16)
  then show ?case using legacy_read16 by (simp add: legacy_ops_def)
next
  case (2 t n ints inds sizes t')
  then show ?case using legacy_setup_queues by (simp add: legacy_ops_def)
next
  case (3 t action wl t')
  then show ?case using startDevice_virtqueues by (simp add: legacy_ops_def legacy_queues_def)
next
  case (4 t i on)
  then show ?case using legacy_interrupts by (simp add: legacy_ops_def)
qed

context legacy_kernel
begin

lemma legacy_net_transport:
  "net_transport (legacy_ops env dev fuel dma table_id) legacy_closed legacy_live pci_virtio_header_iomap legacy_queues"
  by (rule net.net_transport_axioms)

end

section \<open>The life cycle\<close>

text \<open>What the packet functions have to keep while the device is open: they return, and leave the device open with its queues.\<close>

definition packet_ops_ok :: "('t \<Rightarrow> bool) \<Rightarrow> ('t \<Rightarrow> nat) \<Rightarrow> ('p, 't) net_queue_ops \<Rightarrow> bool" where
  "packet_ops_ok live queues ops \<longleftrightarrow> (\<forall>p t. live t \<and> queues t = 2 \<longrightarrow>
     (\<exists>ok p' t'. populateReceiveBuffers ops (p, t) = Some (ok, p', t') \<and> live t' \<and> queues t' = 2)
     \<and> (\<exists>p' t'. handleReceivedPackets ops (p, t) = Some (p', t') \<and> live t' \<and> queues t' = 2)
     \<and> (\<exists>p' t'. releaseSentPackets ops (p, t) = Some (p', t') \<and> live t' \<and> queues t' = 2)
     \<and> (\<exists>ret p' t'. addPacketToQueue ops 1 (p, t) = Some (ret, p', t') \<and> live t' \<and> queues t' = 2))"

definition enabled_states :: "DriverState set" where
  "enabled_states = {kDriverStateEnabled, kDriverStateEnabledDebugging, kDriverStateEnabledBoth}"

text \<open>The calls that the kernel makes to the driver; the handler of configuration changes and the output function are called only
  while the driver is enabled.\<close>

datatype net_event = Start net_env | EnableDebugger | EnableInterface net_env bool | DisableDebugger | DisableInterface net_env
  | ConfigChange | OutputPacket "bool \<times> bool"

fun net_run :: "'t VirtioDevice \<Rightarrow> ('p, 't) net_queue_ops \<Rightarrow> net_event \<Rightarrow> 'p PJVirtioNet \<times> 't \<Rightarrow> ('p PJVirtioNet \<times> 't) option" where
  "net_run vt ops (Start env) st = map_option snd (net_start vt env st)"
| "net_run vt ops EnableDebugger st = map_option snd (gatedEnableDebugger vt ops st)"
| "net_run vt ops (EnableInterface env own) st = map_option snd (gatedEnableInterface vt ops env own st)"
| "net_run vt ops DisableDebugger st = map_option snd (disable_debugger vt ops st)"
| "net_run vt ops (DisableInterface env) st = map_option snd (disable_interface vt ops env st)"
| "net_run vt ops ConfigChange st = configChangeHandler vt st"
| "net_run vt ops (OutputPacket requests) st = map_option snd (outputPacket vt ops requests st)"

definition net_allowed :: "net_event \<Rightarrow> 'p PJVirtioNet \<Rightarrow> bool" where
  "net_allowed e n \<longleftrightarrow> (case e of ConfigChange \<Rightarrow> driver_state n \<in> enabled_states
     | OutputPacket _ \<Rightarrow> driver_state n \<in> enabled_states | _ \<Rightarrow> True)"

inductive net_reachable ::
    "'t VirtioDevice \<Rightarrow> ('p, 't) net_queue_ops \<Rightarrow> 'p PJVirtioNet \<times> 't \<Rightarrow> 'p PJVirtioNet \<times> 't \<Rightarrow> bool"
  for vt :: "'t VirtioDevice" and ops :: "('p, 't) net_queue_ops" and st0 :: "'p PJVirtioNet \<times> 't" where
  net_init: "net_reachable vt ops st0 st0"
| net_step: "net_reachable vt ops st0 st \<Longrightarrow> net_allowed e (fst st) \<Longrightarrow> net_run vt ops e st = Some st'
    \<Longrightarrow> net_reachable vt ops st0 st'"

text \<open>The invariant: an enabled driver has its device open with both queues set up, a driver that is not enabled and has not failed has it
  closed.\<close>

definition net_inv :: "('t \<Rightarrow> bool) \<Rightarrow> ('t \<Rightarrow> bool) \<Rightarrow> ('t \<Rightarrow> nat) \<Rightarrow> 'p PJVirtioNet \<times> 't \<Rightarrow> bool" where
  "net_inv closed live queues = (\<lambda>(n, t).
     (if driver_state n \<in> enabled_states then live t \<and> queues t = 2 \<and> virtio_dev n
      else if driver_state n = kDriverStateStarted then closed t \<and> virtio_dev n
      else if driver_state n = kDriverStateInitial \<or> driver_state n = kDriverStateStopped then closed t
      else closed t \<or> live t))"

lemma net_inv_states:
  "driver_state n \<in> enabled_states \<Longrightarrow> net_inv closed live queues (n, t) \<longleftrightarrow> live t \<and> queues t = 2 \<and> virtio_dev n"
  "driver_state n = kDriverStateStarted \<Longrightarrow> net_inv closed live queues (n, t) \<longleftrightarrow> closed t \<and> virtio_dev n"
  "driver_state n = kDriverStateInitial \<or> driver_state n = kDriverStateStopped \<Longrightarrow> net_inv closed live queues (n, t) \<longleftrightarrow> closed t"
  "driver_state n = kDriverStateEnableFailed \<or> driver_state n = kDriverStateStartFailed
     \<or> driver_state n = kDriverStateStartFailedUnsupportedDevice \<Longrightarrow> net_inv closed live queues (n, t) \<longleftrightarrow> closed t \<or> live t"
  by (auto simp: net_inv_def enabled_states_def)

lemma in_enabled_states [simp]:
  "kDriverStateEnabled \<in> enabled_states" "kDriverStateEnabledDebugging \<in> enabled_states" "kDriverStateEnabledBoth \<in> enabled_states"
  "kDriverStateStarted \<notin> enabled_states" "kDriverStateEnableFailed \<notin> enabled_states" "kDriverStateInitial \<notin> enabled_states"
  "kDriverStateStartFailed \<notin> enabled_states"
  by (simp_all add: enabled_states_def)

text \<open>The fields that enabling the device leaves alone.\<close>

definition same_control :: "'p PJVirtioNet \<Rightarrow> 'p PJVirtioNet \<Rightarrow> bool" where
  "same_control n n' \<longleftrightarrow> driver_state n' = driver_state n \<and> virtio_dev n' = virtio_dev n \<and> interface n' = interface n
     \<and> net_debugger n' = net_debugger n \<and> debugger_transmit_packet n' = debugger_transmit_packet n
     \<and> mac_address n' = mac_address n \<and> net_calls n' = net_calls n \<and> feature_notify_on_empty n' = feature_notify_on_empty n"

text \<open>Completing the enabling of the interface: it succeeds exactly if the media table and the output queue are there; otherwise the device stays
  open.\<close>

definition interface_ready :: "net_env \<Rightarrow> bool" where
  "interface_ready env \<longleftrightarrow> medium_dict_ok env \<and> fst (medium_added env) \<and> snd (medium_added env) \<and> publish_ok env \<and> has_output_queue env"

lemma some3I: "e = Some (a, b, c) \<Longrightarrow> Q a b c \<Longrightarrow> \<exists>x y z. e = Some (x, y, z) \<and> Q x y z"
  by blast

context net_transport
begin

lemma give_up:
  assumes "live t"
  shows "\<exists>t'. do { t \<leftarrow> vd_failDevice vt t; t \<leftarrow> vd_close vt t; Some (False, n, t) } = Some (False, n, t') \<and> closed t'"
  using fail_ok [OF assms] close_ok by fastforce

lemma enablePartial_result:
  assumes "closed t" "virtio_dev n" "packet_ops_ok live queues ops"
  shows "\<exists>ok n' t'. enablePartial vt ops (n, t) = Some (ok, n', t') \<and> same_control n n' \<and> (if ok then live t' \<and> queues t' = 2 else closed t')"
proof -
  have refl: "same_control n n" by (simp add: same_control_def)
  obtain ok t1 where t1: "vd_open vt t = Some (ok, t1)" "if ok then live t1 \<and> mapped t1 else closed t1" using open_ok [OF assms(1)] by blast
  show ?thesis
  proof (cases ok)
    case False
    then show ?thesis using t1 assms(2) refl by (intro some3I [of _ False n t1]) (simp_all add: enablePartial_def)
  next
    case opened: True
    then have l1: "live t1" "mapped t1" using t1(2) by simp_all
    obtain rok t2 where t2: "vd_resetDevice vt t1 = Some (rok, t2)" "live t2" "mapped t2" using reset_ok [OF l1(1)] l1(2) by blast
    show ?thesis
    proof (cases rok)
      case False
      obtain t3 where "vd_close vt t2 = Some t3" "closed t3" using close_ok [OF t2(2)] by blast
      then show ?thesis using t1(1) t2(1) opened False assms(2) refl by (intro some3I [of _ False n t3]) (simp_all add: enablePartial_def)
    next
      case reset: True
      let ?f = "vd_supportedFeatures vt t2 AND requested_net_features (feature_checksum_offload n)"
      obtain fok t3 where t3: "vd_requestFeatures vt ?f t2 = Some (fok, t3)" "live t3" "mapped t3" using request_ok [OF t2(2)] t2(3) by blast
      let ?n = "n\<lparr>dev_feature_bitmap := ?f\<rparr>"
      obtain res sizes t4 where t4: "vd_setupVirtqueues vt 2 (\<lambda>_. False) (\<lambda>_. 0) t3 = Some (res, sizes, t4)" "live t4"
        "res = kIOReturnSuccess \<longrightarrow> mapped t4 \<and> length sizes = 2" using setup_ok [OF t3(2)] t3(3) by fastforce
      show ?thesis
      proof (cases "fok \<and> res = kIOReturnSuccess")
        case False
        let ?t = "if fok then t4 else t3" and ?m = "if fok then ?n else n"
        have "enablePartial vt ops (n, t) = do { t \<leftarrow> vd_failDevice vt ?t; t \<leftarrow> vd_close vt t; Some (False, ?m, t) }"
          using False t1(1) t2(1) t3(1) t4(1) opened reset assms(2) by (simp add: enablePartial_def)
        moreover have "same_control n ?m" by (simp add: same_control_def)
        moreover obtain t' where "do { t \<leftarrow> vd_failDevice vt ?t; t \<leftarrow> vd_close vt t; Some (False, ?m, t) } = Some (False, ?m, t')" "closed t'"
          using give_up [of ?t ?m] t3(2) t4(2) unfolding if_split [of live] by blast
        ultimately show ?thesis by (intro some3I [of _ False ?m t']) simp_all
      next
        case ready: True
        have q4: "queues t4 = 2" using setup_queues [OF t3(2), of 2] t4(1) ready by simp
        obtain t5 where t5: "vd_startDevice vt True False t4 = Some t5" "live t5" using start_ok [OF t4(2)] t4(3) ready by blast
        then have "queues t5 = 2" using start_queues [OF t4(2)] q4 by simp
        then obtain pok p t6 where t6: "populateReceiveBuffers ops (net_packets n, t5) = Some (pok, p, t6)" "live t6" "queues t6 = 2"
          using assms(3) t5(2) unfolding packet_ops_ok_def by blast
        let ?m = "?n\<lparr>receive_virtqueue_length := sizes ! 0, transmit_virtqueue_length := sizes ! 1, net_packets := p\<rparr>"
        have eq: "enablePartial vt ops (n, t) = (if pok then Some (True, ?m, t6)
           else do { t \<leftarrow> vd_failDevice vt t6; t \<leftarrow> vd_close vt t; Some (False, ?m, t) })"
          using ready t1(1) t2(1) t3(1) t4(1,3) t5(1) t6(1) opened reset assms(2)
          by (simp add: enablePartial_def RECEIVE_QUEUE_INDEX_def TRANSMIT_QUEUE_INDEX_def)
        have "same_control n ?m" by (simp add: same_control_def)
        moreover obtain t' where "do { t \<leftarrow> vd_failDevice vt t6; t \<leftarrow> vd_close vt t; Some (False, ?m, t) } = Some (False, ?m, t')" "closed t'"
          using give_up [OF t6(2), of ?m] by auto
        ultimately show ?thesis using eq t6(2,3) by (intro some3I [of _ pok ?m "if pok then t6 else t'"]) (cases pok; simp)+
      qed
    qed
  qed
qed

lemma disablePartial_result:
  assumes "live t" "queues t = 2" "packet_ops_ok live queues ops"
  shows "\<exists>n' t'. disablePartial vt ops (n, t) = Some (n', t') \<and> driver_state n' = kDriverStateStarted \<and> closed t' \<and> virtio_dev n' = virtio_dev n"
proof -
  obtain p1 t1 where 1: "handleReceivedPackets ops (net_packets n, t) = Some (p1, t1)" "live t1" "queues t1 = 2"
    using assms unfolding packet_ops_ok_def by blast
  obtain p2 t2 where 2: "releaseSentPackets ops (p1, t1) = Some (p2, t2)" "live t2" using assms(3) 1(2,3) unfolding packet_ops_ok_def by blast
  obtain t3 where 3: "vd_failDevice vt t2 = Some t3" "live t3" using fail_ok [OF 2(2)] by blast
  obtain t4 where "vd_close vt t3 = Some t4" "closed t4" using close_ok [OF 3(2)] by blast
  with 1(1) 2(1) 3(1) show ?thesis by (simp add: disablePartial_def on_packets_def flushPacketPool_def)
qed

lemma updateLinkStatus_result:
  assumes "live t" "virtio_dev n"
  shows "\<exists>up t'. updateLinkStatus vt (n, t) = Some (up, record_call (SetLinkStatus up) n, t') \<and> live t' \<and> queues t' = queues t"
  using read16n_ok [OF assms(1), of net_config_status] assms by (auto simp: updateLinkStatus_def readStatus_def Let_def)

lemma read_mac_result:
  assumes "live t"
  shows "\<exists>mac t'. read_mac vt is t = Some (mac, t') \<and> live t' \<and> length mac = length is"
  using assms
proof (induction "is" arbitrary: t)
  case (Cons i "is")
  obtain b t1 where 1: "vd_readDeviceConfig8 vt (net_config_mac i) t = Some (b, t1)" "live t1" using read8_ok [OF Cons.prems] by blast
  with Cons.IH [OF 1(2)] show ?case by auto
qed simp

lemma determineMACAddress_result:
  assumes "live t"
  shows "\<exists>mac t'. determineMACAddress vt env (n, t) = Some (n\<lparr>mac_address := mac, mac_address_is_valid := True\<rparr>, t') \<and> live t' \<and> length mac = 6"
proof (cases "has_bits (dev_feature_bitmap n) VIRTIO_NET_F_MAC")
  case True
  then show ?thesis using read_mac_result [OF assms, of "[0..<6]"] by (auto simp: determineMACAddress_def)
next
  case False
  then show ?thesis using assms by (cases "random_numbers env") (auto simp: determineMACAddress_def generate_mac_def)
qed

lemma detectLinkStatus_result:
  assumes "live t" "virtio_dev n"
  shows "\<exists>b up t'. detectLinkStatusFeature vt (n, t) = Some (record_call (SetLinkStatus up) (n\<lparr>feature_status_field := b\<rparr>), t') \<and> live t'"
proof (cases "has_bits (dev_feature_bitmap n) VIRTIO_NET_F_STATUS")
  case True
  obtain v t' where "vd_readDeviceConfig16Native vt net_config_status t = Some (v, t')" "live t'"
    using read16n_ok [OF assms(1)] by blast
  with True assms(2) have "detectLinkStatusFeature vt (n, t)
     = Some (record_call (SetLinkStatus (has_bits (ucast (ucast v :: u32)) VIRTIO_NET_S_LINK_UP)) (n\<lparr>feature_status_field := True\<rparr>), t')" "live t'"
    by (simp_all add: detectLinkStatusFeature_def readStatus_def Let_def)
  then show ?thesis by blast
qed (use assms in \<open>auto simp: detectLinkStatusFeature_def\<close>)

lemma attach_clients_state:
  "driver_state (snd (attach_clients env n)) = (if fst (attach_clients env n) then kDriverStateStarted else driver_state n)
   \<and> virtio_dev (snd (attach_clients env n)) = virtio_dev n"
  by (auto simp: attach_clients_def allocPacket_def record_call_def Let_def split: if_splits list.splits option.splits prod.splits)

lemma startWithIOEnabled_result:
  assumes "live t" "virtio_dev n"
  shows "\<exists>ok n' t'. startWithIOEnabled vt env (n, t) = Some (ok, n', t')
    \<and> closed t' \<and> virtio_dev n' \<and> driver_state n' = (if ok then kDriverStateStarted else driver_state n)"
proof -
  obtain r t2 where t2: "vd_resetDevice vt t = Some (r, t2)" "live t2" using reset_ok [OF assms(1)] by blast
  let ?f = "vd_supportedFeatures vt t2"
  let ?csum = "pref_allow_offloading n \<and> has_bits ?f VIRTIO_NET_F_CSUM"
  let ?n1 = "n\<lparr>dev_feature_bitmap := ?f, feature_notify_on_empty := has_bits ?f VIRTIO_F_NOTIFY_ON_EMPTY,
     feature_checksum_offload := ?csum, feature_tso_v4 := ?csum \<and> has_bits ?f VIRTIO_NET_F_HOST_TSO4\<rparr>"
  obtain mac t3 where t3: "determineMACAddress vt env (?n1, t2) = Some (?n1\<lparr>mac_address := mac, mac_address_is_valid := True\<rparr>, t3)" "live t3"
    using determineMACAddress_result [OF t2(2)] by blast
  let ?n2 = "?n1\<lparr>mac_address := mac, mac_address_is_valid := True\<rparr>"
  have "virtio_dev ?n2" using assms(2) by simp
  then obtain b up t4 where t4: "detectLinkStatusFeature vt (?n2, t3) = Some (record_call (SetLinkStatus up) (?n2\<lparr>feature_status_field := b\<rparr>), t4)" "live t4"
    using detectLinkStatus_result [OF t3(2)] by blast
  define n3 where "n3 = record_call (SetLinkStatus up) (?n2\<lparr>feature_status_field := b\<rparr>)"
  have n3: "virtio_dev n3" "driver_state n3 = driver_state n" using assms(2) by (simp_all add: n3_def record_call_def)
  obtain t5 where t5: "vd_failDevice vt t4 = Some t5" "live t5" using fail_ok [OF t4(2)] by blast
  obtain t6 where t6: "vd_close vt t5 = Some t6" "closed t6" using close_ok [OF t5(2)] by blast
  have "startWithIOEnabled vt env (n, t) = Some (fst (attach_clients env n3), snd (attach_clients env n3), t6)"
    unfolding startWithIOEnabled_def Let_def split_beta using t2(1) t3(1) t4(1) t5(1) t6(1) by (simp add: n3_def)
  then show ?thesis by (rule some3I) (use attach_clients_state [of env n3] n3 t6(2) in simp)
qed

text \<open>Starting: on success the driver has started and the device is closed again.\<close>

lemma net_start_result:
  assumes "closed t" "driver_state n = kDriverStateInitial \<or> driver_state n = kDriverStateStopped"
  shows "\<exists>ok n' t'. net_start vt env (n, t) = Some (ok, n', t')
    \<and> (if ok then driver_state n' = kDriverStateStarted \<and> virtio_dev n' \<and> closed t'
       else driver_state n' \<in> {kDriverStateStartFailed, kDriverStateStartFailedUnsupportedDevice} \<and> (closed t' \<or> live t'))"
proof (cases "net_super_start env \<and> provider_is_virtio env")
  case True
  obtain ok t1 where t1: "vd_open vt t = Some (ok, t1)" "if ok then live t1 \<and> mapped t1 else closed t1" using open_ok [OF assms(1)] by blast
  let ?n = "n\<lparr>driver_state := kDriverStateStartFailed\<rparr>"
  let ?n1 = "?n\<lparr>virtio_dev := True, net_work_loop := has_work_loop env\<rparr>"
  show ?thesis
  proof (cases "ok \<and> has_work_loop env")
    case False
    have "net_start vt env (n, t) = Some (False, if ok then ?n1 else ?n, t1)" using False True t1(1) assms(2) by (simp add: net_start_def) auto
    then show ?thesis by (rule some3I) (cases ok; use False t1(2) in simp)
  next
    case opened: True
    then have "live t1" "virtio_dev ?n1" using t1(2) by simp_all
    from startWithIOEnabled_result [OF this, of env] obtain sok n' t' where st: "startWithIOEnabled vt env (?n1, t1) = Some (sok, n', t')"
      "closed t'" "virtio_dev n'" "driver_state n' = (if sok then kDriverStateStarted else kDriverStateStartFailed)" by auto
    have "net_start vt env (n, t) = startWithIOEnabled vt env (?n1, t1)" using True opened t1(1) assms(2) by (simp add: net_start_def) auto
    with st(1) have "net_start vt env (n, t) = Some (sok, n', t')" by simp
    then show ?thesis by (rule some3I) (use st in simp)
  qed
next
  case False
  let ?n = "n\<lparr>driver_state := (if net_super_start env then kDriverStateStartFailedUnsupportedDevice else kDriverStateStartFailed)\<rparr>"
  have "net_start vt env (n, t) = Some (False, ?n, t)" using False assms by (auto simp: net_start_def)
  then show ?thesis by (rule some3I) (use assms in simp)
qed

lemma createMediumTable_frame:
  assumes "createMediumTable env n = (ok, n')"
  shows "virtio_dev n' = virtio_dev n" "driver_state n' = driver_state n"
    "ok \<longleftrightarrow> medium_dict_ok env \<and> fst (medium_added env) \<and> snd (medium_added env) \<and> publish_ok env"
  using assms by (auto simp: createMediumTable_def record_call_def split: if_splits)

lemma start_interface_result:
  assumes "live t" "queues t = 2" "virtio_dev n"
  shows "\<exists>r n' t'. start_interface vt env dbg (n, t) = Some (r, n', t') \<and> live t' \<and> virtio_dev n'
    \<and> (if interface_ready env then r = kIOReturnSuccess \<and> driver_state n' = (if dbg then kDriverStateEnabledBoth else kDriverStateEnabled) \<and> queues t' = 2
       else r \<noteq> kIOReturnSuccess \<and> driver_state n' = kDriverStateEnableFailed)"
proof -
  obtain ok m where m: "createMediumTable env (n\<lparr>driver_state := kDriverStateEnableFailed\<rparr>) = (ok, m)" by (cases "createMediumTable env (n\<lparr>driver_state := kDriverStateEnableFailed\<rparr>)")
  note f = createMediumTable_frame [OF m, simplified]
  show ?thesis
  proof (cases ok)
    case False
    have "start_interface vt env dbg (n, t) = Some (kIOReturnNoMemory, m, t)" using False m by (simp add: start_interface_def)
    then show ?thesis by (rule some3I) (use False f assms in \<open>auto simp: interface_ready_def\<close>)
  next
    case True
    obtain r1 t1 where t1: "vd_setVirtqueueInterruptsEnabled vt 0 True t = Some (r1, t1)" "live t1" "queues t1 = 2"
      using interrupts_ok [OF assms(1), of 0 True] assms(2) by auto
    have "\<exists>r2 t2. (if \<not> feature_notify_on_empty m then vd_setVirtqueueInterruptsEnabled vt 1 True t1 else Some (kIOReturnSuccess, t1)) = Some (r2, t2)
        \<and> live t2 \<and> queues t2 = 2"
      using interrupts_ok [OF t1(2), of 1 True] t1(2,3) by simp
    then obtain r2 t2 where t2: "(if \<not> feature_notify_on_empty m then vd_setVirtqueueInterruptsEnabled vt 1 True t1 else Some (kIOReturnSuccess, t1))
        = Some (r2, t2)" "live t2" "queues t2 = 2" by blast
    note defs = start_interface_def RECEIVE_QUEUE_INDEX_def TRANSMIT_QUEUE_INDEX_def
    show ?thesis
    proof (cases "has_output_queue env")
      case False
      obtain t3 where t3: "vd_failDevice vt t2 = Some t3" "live t3" using fail_ok [OF t2(2)] by blast
      have "start_interface vt env dbg (n, t) = Some (kIOReturnError, m, t3)"
        unfolding defs using True False m t1(1) t2(1) t3(1) by simp
      then show ?thesis by (rule some3I) (use False f assms t3(2) in \<open>simp add: interface_ready_def\<close>)
    next
      case queue: True
      let ?m = "record_call OutputStart (record_call (OutputSetCapacity (max 16 (transmit_virtqueue_length m))) m)"
      have "virtio_dev ?m" using f assms(3) by (simp add: record_call_def)
      then obtain up t3 where t3: "updateLinkStatus vt (?m, t2) = Some (up, record_call (SetLinkStatus up) ?m, t3)" "live t3" "queues t3 = queues t2"
        using updateLinkStatus_result [OF t2(2)] by blast
      have "start_interface vt env dbg (n, t) = Some (kIOReturnSuccess,
          (record_call (SetLinkStatus up) ?m)\<lparr>driver_state := (if dbg then kDriverStateEnabledBoth else kDriverStateEnabled)\<rparr>, t3)"
        unfolding defs using True queue m t1(1) t2(1) t3(1) by simp
      then show ?thesis by (rule some3I) (use True queue f assms t3(2,3) t2(3) in \<open>simp add: interface_ready_def record_call_def\<close>)
    qed
  qed
qed

lemma enable_interface_result:
  assumes "net_inv closed live queues (n, t)" "packet_ops_ok live queues ops"
  shows "\<exists>r n' t'. gatedEnableInterface vt ops env own (n, t) = Some (r, n', t') \<and> net_inv closed live queues (n', t')
    \<and> (r = kIOReturnSuccess \<longrightarrow> driver_state n' = kDriverStateEnabled \<or> driver_state n' = kDriverStateEnabledBoth)"
proof -
  consider (enabled) "driver_state n = kDriverStateEnabledBoth \<or> driver_state n = kDriverStateEnabled"
    | (invalid) "driver_state n \<notin> enabled_states \<and> driver_state n \<noteq> kDriverStateStarted"
    | (foreign) "driver_state n = kDriverStateStarted \<or> driver_state n = kDriverStateEnabledDebugging" "\<not> own"
    | (debugging) "driver_state n = kDriverStateEnabledDebugging" own
    | (started) "driver_state n = kDriverStateStarted" own
    by (auto simp: enabled_states_def)
  then show ?thesis
  proof cases
    case enabled
    then have "gatedEnableInterface vt ops env own (n, t) = Some (kIOReturnSuccess, n, t)" by (simp add: gatedEnableInterface_def)
    then show ?thesis by (rule some3I) (use assms enabled in auto)
  next
    case invalid
    then have "gatedEnableInterface vt ops env own (n, t) = Some (kIOReturnInvalid, n, t)"
      by (auto simp: gatedEnableInterface_def enabled_states_def)
    then show ?thesis by (rule some3I) (use assms in simp)
  next
    case foreign
    let ?n = "if driver_state n \<noteq> kDriverStateEnabledDebugging then n\<lparr>driver_state := kDriverStateEnableFailed\<rparr> else n"
    have "gatedEnableInterface vt ops env own (n, t) = Some (kIOReturnBadArgument, ?n, t)" using foreign by (auto simp: gatedEnableInterface_def)
    then show ?thesis by (rule some3I) (use foreign assms(1) in \<open>auto simp: net_inv_states\<close>)
  next
    case debugging
    then have l: "live t" "queues t = 2" "virtio_dev n" using assms(1) by (simp_all add: net_inv_states)
    have "gatedEnableInterface vt ops env own (n, t) = start_interface vt env True (n, t)" using debugging by (simp add: gatedEnableInterface_def)
    with start_interface_result [OF l, of env True] obtain r n' t' where
      e: "gatedEnableInterface vt ops env own (n, t) = Some (r, n', t')" "live t'" "virtio_dev n'"
        "if interface_ready env then r = kIOReturnSuccess \<and> driver_state n' = kDriverStateEnabledBoth \<and> queues t' = 2
         else r \<noteq> kIOReturnSuccess \<and> driver_state n' = kDriverStateEnableFailed" by auto
    from e(1) show ?thesis by (rule some3I) (use e(2-) in \<open>auto simp: net_inv_states split: if_splits\<close>)
  next
    case started
    let ?n = "n\<lparr>driver_state := kDriverStateEnableFailed\<rparr>"
    have "closed t" "virtio_dev ?n" using assms(1) started by (simp_all add: net_inv_states)
    from enablePartial_result [OF this assms(2)] obtain ok n1 t1 where
      p: "enablePartial vt ops (?n, t) = Some (ok, n1, t1)" "same_control ?n n1" "if ok then live t1 \<and> queues t1 = 2 else closed t1" by blast
    have eq: "gatedEnableInterface vt ops env own (n, t)
       = (if ok then start_interface vt env False (n1, t1) else Some (kIOReturnError, n1\<lparr>driver_state := kDriverStateEnableFailed\<rparr>, t1))"
      using started p(1) by (simp add: gatedEnableInterface_def)
    show ?thesis
    proof (cases ok)
      case False
      then have "gatedEnableInterface vt ops env own (n, t) = Some (kIOReturnError, n1\<lparr>driver_state := kDriverStateEnableFailed\<rparr>, t1)" using eq by simp
      then show ?thesis by (rule some3I) (use False p(3) in \<open>simp add: net_inv_states\<close>)
    next
      case True
      then have "live t1" "queues t1 = 2" "virtio_dev n1" using p(2,3) \<open>virtio_dev ?n\<close> by (simp_all add: same_control_def)
      from start_interface_result [OF this, of env False] eq True obtain r n' t' where
        e: "gatedEnableInterface vt ops env own (n, t) = Some (r, n', t')" "live t'" "virtio_dev n'"
          "if interface_ready env then r = kIOReturnSuccess \<and> driver_state n' = kDriverStateEnabled \<and> queues t' = 2
           else r \<noteq> kIOReturnSuccess \<and> driver_state n' = kDriverStateEnableFailed" by auto
      from e(1) show ?thesis by (rule some3I) (use e(2-) in \<open>auto simp: net_inv_states split: if_splits\<close>)
    qed
  qed
qed

lemma enable_debugger_result:
  assumes "net_inv closed live queues (n, t)" "packet_ops_ok live queues ops"
  shows "\<exists>r n' t'. gatedEnableDebugger vt ops (n, t) = Some (r, n', t') \<and> net_inv closed live queues (n', t')"
proof (cases "net_debugger n \<and> debugger_transmit_packet n \<noteq> None \<and> driver_state n = kDriverStateStarted")
  case True
  then have "closed t" "virtio_dev n" using assms(1) by (simp_all add: net_inv_states)
  from enablePartial_result [OF this assms(2)] obtain ok n1 t1 where
    p: "enablePartial vt ops (n, t) = Some (ok, n1, t1)" "same_control n n1" "if ok then live t1 \<and> queues t1 = 2 else closed t1" by blast
  let ?n = "n1\<lparr>driver_state := (if ok then kDriverStateEnabledDebugging else kDriverStateEnableFailed)\<rparr>"
  have "gatedEnableDebugger vt ops (n, t) = Some (if ok then kIOReturnSuccess else kIOReturnError, ?n, t1)"
    using True p(1) by (auto simp: gatedEnableDebugger_def)
  moreover have "net_inv closed live queues (?n, t1)"
    using p(2,3) \<open>virtio_dev n\<close> by (cases ok) (simp_all add: net_inv_states same_control_def)
  ultimately show ?thesis by blast
next
  case False
  define n' where "n' = (if driver_state n = kDriverStateEnabled \<and> net_debugger n \<and> debugger_transmit_packet n \<noteq> None
    then n\<lparr>driver_state := kDriverStateEnabledBoth\<rparr> else n)"
  have "\<exists>r. gatedEnableDebugger vt ops (n, t) = Some (r, n', t)" using False by (auto simp: gatedEnableDebugger_def n'_def)
  moreover have "net_inv closed live queues (n', t)" using assms(1) by (auto simp: n'_def net_inv_states)
  ultimately show ?thesis by blast
qed

lemma disable_debugger_result:
  assumes "net_inv closed live queues (n, t)" "packet_ops_ok live queues ops"
  shows "\<exists>r n' t'. disable_debugger vt ops (n, t) = Some (r, n', t') \<and> net_inv closed live queues (n', t')"
proof (cases "driver_state n = kDriverStateEnabledDebugging")
  case True
  then have l: "live t" "queues t = 2" "virtio_dev n" using assms(1) by (simp_all add: net_inv_states)
  from disablePartial_result [OF l(1,2) assms(2), of n] l(3) True show ?thesis by (auto simp: disable_debugger_def net_inv_states)
next
  case False
  define n' where "n' = (if driver_state n = kDriverStateEnabledBoth then n\<lparr>driver_state := kDriverStateEnabled\<rparr> else n)"
  have "\<exists>r. disable_debugger vt ops (n, t) = Some (r, n', t)" using False by (auto simp: disable_debugger_def n'_def)
  moreover have "net_inv closed live queues (n', t)" using assms(1) by (auto simp: n'_def net_inv_states)
  ultimately show ?thesis by blast
qed

lemma disable_interface_result:
  assumes "net_inv closed live queues (n, t)" "packet_ops_ok live queues ops"
  shows "\<exists>r n' t'. disable_interface vt ops env (n, t) = Some (r, n', t') \<and> net_inv closed live queues (n', t')
    \<and> (driver_state n = kDriverStateEnabled \<longrightarrow> r = kIOReturnSuccess \<and> driver_state n' = kDriverStateStarted)"
proof (cases "driver_state n = kDriverStateEnabled \<or> driver_state n = kDriverStateEnabledBoth")
  case True
  then have l: "live t" "queues t = 2" "virtio_dev n" using assms(1) by (auto simp: net_inv_states)
  obtain r1 t1 where t1: "vd_setVirtqueueInterruptsEnabled vt 0 False t = Some (r1, t1)" "live t1" "queues t1 = 2"
    using interrupts_ok [OF l(1), of 0 False] l(2) by auto
  obtain r2 t2 where t2: "vd_setVirtqueueInterruptsEnabled vt 1 False t1 = Some (r2, t2)" "live t2" "queues t2 = 2"
    using interrupts_ok [OF t1(2), of 1 False] t1(3) by auto
  define m where "m = (if has_output_queue env then record_call OutputFlush (record_call (OutputSetCapacity 0) (record_call OutputStop n)) else n)"
  have m: "driver_state m = driver_state n" "virtio_dev m" using l(3) by (simp_all add: m_def record_call_def)
  obtain m' t3 where t3: "disablePartial vt ops (m, t2) = Some (m', t3)" "closed t3" "virtio_dev m'"
    using disablePartial_result [OF t2(2,3) assms(2), of m] m(2) by auto
  let ?both = "driver_state n = kDriverStateEnabledBoth"
  let ?n = "if ?both then m\<lparr>driver_state := kDriverStateEnabledDebugging\<rparr> else m'\<lparr>driver_state := kDriverStateStarted\<rparr>"
  have "disable_interface vt ops env (n, t) = Some (kIOReturnSuccess, ?n, if ?both then t2 else t3)"
    unfolding disable_interface_def RECEIVE_QUEUE_INDEX_def TRANSMIT_QUEUE_INDEX_def m_def [symmetric] Let_def prod.case
    using True m(1) t1(1) t2(1) t3(1) by (cases ?both) simp_all
  then show ?thesis
    by (rule some3I) (cases ?both; use True m t2(2,3) t3(2,3) in \<open>simp add: net_inv_states\<close>)
next
  case False
  then have "disable_interface vt ops env (n, t) = Some (kIOReturnInvalid, n, t)" by (simp add: disable_interface_def)
  then show ?thesis by (rule some3I) (use assms False in simp)
qed

lemma configChange_result:
  assumes "net_inv closed live queues (n, t)" "driver_state n \<in> enabled_states"
  shows "\<exists>n' t'. configChangeHandler vt (n, t) = Some (n', t') \<and> net_inv closed live queues (n', t')"
proof -
  have l: "live t" "queues t = 2" "virtio_dev n" using assms by (simp_all add: net_inv_states)
  from updateLinkStatus_result [OF l(1,3)] l assms show ?thesis
    by (auto simp: configChangeHandler_def net_inv_states record_call_def)
qed

lemma outputPacket_result:
  assumes "net_inv closed live queues (n, t)" "driver_state n \<in> enabled_states" "packet_ops_ok live queues ops"
  shows "\<exists>r n' t'. outputPacket vt ops requests (n, t) = Some (r, n', t') \<and> net_inv closed live queues (n', t')"
proof -
  have l: "live t" "queues t = 2" "virtio_dev n" using assms by (simp_all add: net_inv_states)
  obtain p1 t1 where 1: "releaseSentPackets ops (net_packets n, t) = Some (p1, t1)" "live t1" "queues t1 = 2"
    using assms(3) l unfolding packet_ops_ok_def by blast
  obtain ret p2 t2 where 2: "addPacketToQueue ops 1 (p1, t1) = Some (ret, p2, t2)" "live t2" "queues t2 = 2"
    using assms(3) 1(2,3) unfolding packet_ops_ok_def by blast
  obtain r3 t3 where 3: "vd_setVirtqueueInterruptsEnabled vt 1 True t2 = Some (r3, t3)" "live t3" "queues t3 = 2"
    using interrupts_ok [OF 2(2), of 1 True] 2(3) by auto
  let ?n = "n\<lparr>net_packets := p2\<rparr>"
  let ?stall = "ret = kIOReturnOutputStall" and ?ok = "ret = kIOReturnSuccess"
  have "\<exists>r. outputPacket vt ops requests (n, t) = Some (r, if ?ok then ?n else if ?stall then ?n\<lparr>was_stalled := True\<rparr> else record_call FreePacket ?n,
      if ?stall \<and> feature_notify_on_empty n then t3 else t2)"
    using 1(1) 2(1) 3(1) by (auto simp: outputPacket_def on_packets_def addPacketToTransmitQueue_def TRANSMIT_QUEUE_INDEX_def)
  then obtain r where r: "outputPacket vt ops requests (n, t) = Some (r, if ?ok then ?n else if ?stall then ?n\<lparr>was_stalled := True\<rparr> else record_call FreePacket ?n,
      if ?stall \<and> feature_notify_on_empty n then t3 else t2)" ..
  then show ?thesis by (rule some3I) (use assms(2) l(3) 2 3 in \<open>auto simp: net_inv_states record_call_def\<close>)
qed

text \<open>Every allowed call returns and keeps the invariant.\<close>

lemma net_run_result:
  assumes "net_inv closed live queues (n, t)" "packet_ops_ok live queues ops" "net_allowed e n"
  shows "\<exists>n' t'. net_run vt ops e (n, t) = Some (n', t') \<and> net_inv closed live queues (n', t')"
proof (cases e)
  case (Start env)
  show ?thesis
  proof (cases "driver_state n = kDriverStateInitial \<or> driver_state n = kDriverStateStopped")
    case True
    then have "closed t" using assms(1) by (auto simp: net_inv_states)
    from net_start_result [OF this True, of env] obtain ok n' t' where
      s: "net_start vt env (n, t) = Some (ok, n', t')"
        "if ok then driver_state n' = kDriverStateStarted \<and> virtio_dev n' \<and> closed t'
         else driver_state n' \<in> {kDriverStateStartFailed, kDriverStateStartFailedUnsupportedDevice} \<and> (closed t' \<or> live t')" by blast
    then have "net_inv closed live queues (n', t')" by (auto simp: net_inv_states split: if_splits)
    with s Start show ?thesis by simp
  next
    case False
    then show ?thesis using assms(1) Start by (simp add: net_start_def)
  qed
next
  case EnableDebugger
  then show ?thesis using enable_debugger_result [OF assms(1,2)] by auto
next
  case (EnableInterface env own)
  then show ?thesis using enable_interface_result [OF assms(1,2), of env own] by auto
next
  case DisableDebugger
  then show ?thesis using disable_debugger_result [OF assms(1,2)] by auto
next
  case (DisableInterface env)
  then show ?thesis using disable_interface_result [OF assms(1,2), of env] by auto
next
  case ConfigChange
  then show ?thesis using configChange_result [OF assms(1)] assms(3) by (simp add: net_allowed_def)
next
  case (OutputPacket requests)
  then show ?thesis using outputPacket_result [OF assms(1) _ assms(2), of requests] assms(3) by (auto simp: net_allowed_def)
qed

lemma net_reachable_inv:
  assumes "net_reachable vt ops st0 st" "net_inv closed live queues st0" "packet_ops_ok live queues ops"
  shows "net_inv closed live queues st"
  using assms(1)
proof induction
  case (net_step st e st')
  then show ?case using net_run_result [of "fst st" "snd st", OF _ assms(3)] by fastforce
qed (rule assms(2))

end

text \<open>A driver that failed to be enabled refuses every further call.\<close>

lemma enable_failed_final:
  assumes "driver_state n = kDriverStateEnableFailed" "net_allowed e n"
  shows "net_run vt ops e (n, t) = Some (n, t)"
  using assms by (cases e) (auto simp: net_start_def gatedEnableDebugger_def gatedEnableInterface_def disable_debugger_def
      disable_interface_def net_allowed_def enabled_states_def)



text \<open>
  C38. The MAC address. Determining it always gives the driver an address of six bytes, which is then reported; if the device has none of its own,
  the generated address is unicast (its multicast bit is off) and marked as locally administered.
\<close>

theorem net_mac_address:
  assumes "legacy_kernel env fuel len" "legacy_live d"
  shows "\<exists>n' d' mac. determineMACAddress (legacy_ops env dev fuel dma table_id) nenv (n, d) = Some (n', d') \<and> legacy_live d'
    \<and> getHardwareAddress n' = (kIOReturnSuccess, Some mac) \<and> length mac = 6
    \<and> (\<not> has_bits (dev_feature_bitmap n) VIRTIO_NET_F_MAC \<longrightarrow> \<not> bit (mac ! 0) 0 \<and> bit (mac ! 0) 1)"
proof -
  obtain mac d' where m: "determineMACAddress (legacy_ops env dev fuel dma table_id) nenv (n, d)
      = Some (n\<lparr>mac_address := mac, mac_address_is_valid := True\<rparr>, d')" "legacy_live d'" "length mac = 6"
    using net_transport.determineMACAddress_result [OF legacy_kernel.legacy_net_transport [OF assms(1)] assms(2)] by blast
  obtain r1 r2 where r: "random_numbers nenv = (r1, r2)" by (cases "random_numbers nenv")
  have "\<not> bit (mac ! 0) 0 \<and> bit (mac ! 0) 1" if "\<not> has_bits (dev_feature_bitmap n) VIRTIO_NET_F_MAC"
  proof -
    have "mac = generate_mac r1 r2" using m(1) that r by (auto simp: determineMACAddress_def dest: arg_cong [where f = mac_address])
    then show ?thesis by (simp add: generate_mac_def bit_ucast_iff bit_or_iff bit_and_iff bit_numeral_rec)
  qed
  with m show ?thesis
    by (intro exI [of _ "n\<lparr>mac_address := mac, mac_address_is_valid := True\<rparr>"] exI [of _ d'] exI [of _ mac]) (simp add: getHardwareAddress_def)
qed

section \<open>Examples\<close>

definition example_packet_ops :: "(unit, legacy_dev) net_queue_ops" where
  "example_packet_ops = \<lparr>populateReceiveBuffers = (\<lambda>(p, t). Some (True, p, t)), handleReceivedPacket = (\<lambda>_. Some),
     handleReceivedPackets = Some, releaseSentPackets = Some, addPacketToQueue = (\<lambda>_ (p, t). Some (kIOReturnSuccess, p, t))\<rparr>"

lemma example_packet_ops_ok: "packet_ops_ok legacy_live legacy_queues example_packet_ops"
  by (auto simp: packet_ops_ok_def example_packet_ops_def)

definition idle_net :: "unit PJVirtioNet" where
  "idle_net = \<lparr>driver_state = kDriverStateInitial, pref_allow_offloading = True, virtio_dev = False, dev_feature_bitmap = 0, interface = False,
     transmit_virtqueue_length = 0, receive_virtqueue_length = 0, mac_address = [], mac_address_is_valid = False,
     feature_status_field = False, feature_notify_on_empty = False, feature_checksum_offload = False, feature_tso_v4 = False,
     debugger_receive_mem = False, debugger_receive_size = 0, net_work_loop = False, packet_bufdesc_pool = [], net_debugger = False,
     debugger_transmit_packet = None, debugger_transmit_packet_in_use = False, was_stalled = False, net_packets = (), net_calls = []\<rparr>"

definition example_net_env :: net_env where
  "example_net_env = \<lparr>net_super_init = True, net_super_start = True, provider_is_virtio = True, has_work_loop = True,
     random_numbers = (0x01020304, 0x05060708), pool_created = True, has_output_queue = True, attachInterface_ok = True,
     allocatePacket_result = [], packet_mem = None, new_dma_md = None, new_mbuf_md_object = None, attachDebuggerClient_ok = False,
     medium_dict_ok = True, medium_added = (True, True), publish_ok = True, auto_medium_found = True\<rparr>"

definition closed_net_dev :: legacy_dev where
  "closed_net_dev = new_legacy_dev\<lparr>opened_by_client := False, pci_virtio_header_iomap := False\<rparr>"

lemma example_net_devs: "legacy_closed closed_net_dev" "legacy_live new_legacy_dev"
  by (simp_all add: legacy_closed_def legacy_live_def closed_net_dev_def new_legacy_dev_def session_inv_def dev_inv_def)

definition example_net_ops :: "legacy_dev VirtioDevice" where
  "example_net_ops = legacy_ops example_env example_port 4 linear_dma (\<lambda>_. 0)"



theorem net_mac_address_witness:
  "\<exists>n' d' mac. determineMACAddress example_net_ops example_net_env (idle_net, new_legacy_dev) = Some (n', d')
    \<and> getHardwareAddress n' = (kIOReturnSuccess, Some mac) \<and> length mac = 6 \<and> \<not> bit (mac ! 0) 0 \<and> bit (mac ! 0) 1"
proof -
  have "\<not> has_bits (dev_feature_bitmap idle_net) VIRTIO_NET_F_MAC" by (simp add: idle_net_def has_bits_def)
  then show ?thesis
    using net_mac_address [OF example_kernel.legacy_kernel_axioms example_net_devs(2), where n = idle_net and nenv = example_net_env]
    unfolding example_net_ops_def by blast
qed

end
