(* ===== verification/Virtio_Net_Packets.thy ===== *)
theory Virtio_Net_Packets
  imports Virtio_Net_Props
begin

text \<open>
  The packets of the kernel debugger: sending one and its completion, and waiting for one. Sending uses the packet reserved when the driver
  started, its two memory descriptors and the reference counts of the ranges they join.
\<close>

section \<open>Sending\<close>

text \<open>The reserved packet while it is not in use: its descriptors are initialised, but empty.\<close>

definition debugger_packet_idle :: "'p PJVirtioNet \<Rightarrow> bool" where
  "debugger_packet_idle n \<longleftrightarrow> \<not> debugger_transmit_packet_in_use n \<and> (\<exists>p. debugger_transmit_packet n = Some p
     \<and> ssdc_inv (pk_dma_md p) \<and> held_ranges (pk_dma_md p) = [] \<and> initialised (pk_dma_md p)
     \<and> first_init_done (pk_mbuf_md p) \<and> prepare_count (pk_mbuf_md p) = 0)"

lemma allocPacket_idle:
  assumes "allocPacket env n = (Some p, n')" "packet_bufdesc_pool n = []" "\<not> debugger_transmit_packet_in_use n'"
  shows "debugger_packet_idle (n'\<lparr>debugger_transmit_packet := Some (p\<lparr>pk_mbuf := mb\<rparr>)\<rparr>)"
  using assms by (auto simp: allocPacket_def debugger_packet_idle_def ssdc_inv_def held_ranges_def new_ssdc_def new_mbuf_md_def
      split: option.splits)

lemma clear_packet_ok:
  assumes "ssdc_inv (pk_dma_md p)" "initialised (pk_dma_md p)"
  shows "\<exists>p'. clear_packet senv p refs = Some (p', \<lambda>m. refs m - md_uses (held_ranges (pk_dma_md p)) m)
    \<and> ssdc_inv (pk_dma_md p') \<and> held_ranges (pk_dma_md p') = [] \<and> initialised (pk_dma_md p')
    \<and> pk_mbuf_md p' = snd (initWithMbuf True [] DIRECTION_NONE (pk_mbuf_md p))"
proof -
  obtain d' where "initWithDescriptorRanges senv None 0 DIRECTION_NONE False (pk_dma_md p, refs)
      = Some (True, d', \<lambda>m. refs m - md_uses (held_ranges (pk_dma_md p)) m)" "ssdc_inv d'" "held_ranges d' = []" "initialised d'"
    using init_empty [OF assms(1), of senv None DIRECTION_NONE False refs] assms(2) by blast
  then show ?thesis by (simp add: clear_packet_def)
qed

lemma initWithMbuf_idle:
  assumes "first_init_done d" "prepare_count d = 0"
  shows "first_init_done (snd (initWithMbuf b mb dir d))" "prepare_count (snd (initWithMbuf b mb dir d)) = 0"
    "md_mbuf (snd (initWithMbuf b mb dir d)) = mb"
  using assms by (simp_all add: initWithMbuf_def)

text \<open>
  C40. Sending a packet for the debugger. If the transport accepts it, a buffer of the packet header and the given number of bytes has been submitted for
  transmission, and its completion releases all references taken and makes the packet available again; if the transport
  refuses it, that happens at once.
\<close>

theorem debugger_send_roundtrip:
  assumes "debugger_packet_idle n" "debugger_transmit_packet n = Some p" "pktSize \<le> max_size"
    "vd_submitBuffersToVirtqueue vt 1 (Some \<lparr>md_id = pk_dma_md_id p, md_length = 10 + ucast pktSize\<rparr>) None debugger_completion t = Some (res, t')"
  shows "\<exists>n1 refs1. sendPacket vt senv poll max_size pktSize (n, refs, t) = Some (n1, refs1, t')
    \<and> (if res = kIOReturnSuccess
       then debugger_transmit_packet_in_use n1 \<and> refs1 (md_id (pk_mem p)) > refs (md_id (pk_mem p))
          \<and> (\<exists>n2. debugger_transmit_completed senv (n1, refs1) = Some (n2, refs) \<and> debugger_packet_idle n2)
       else refs1 = refs \<and> debugger_packet_idle n1)"
proof -
  have p: "ssdc_inv (pk_dma_md p)" "held_ranges (pk_dma_md p) = []" "initialised (pk_dma_md p)" "first_init_done (pk_mbuf_md p)"
    "prepare_count (pk_mbuf_md p) = 0" "\<not> debugger_transmit_packet_in_use n"
    using assms(1,2) by (auto simp: debugger_packet_idle_def)
  define q where "q = init_debugger_packet p"
  define rs where "rs = debugger_packet_ranges q pktSize"
  have rs: "ranges_ok rs" "length rs = 2" "sum_list (map sr_length rs) = 10 + ucast pktSize" "0 < md_uses rs (md_id (pk_mem p))"
    by (simp_all add: rs_def q_def debugger_packet_ranges_def init_debugger_packet_def sizeof_virtio_net_hdr_def md_uses_def)
  obtain dma where dma: "initWithDescriptorRanges senv (Some rs) 2 DIRECTION_OUT False (pk_dma_md q, refs)
      = Some (True, dma, \<lambda>m. refs m + md_uses rs m)" "ssdc_inv dma" "held_ranges dma = rs" "initialised dma" "ssdc_length dma = 10 + ucast pktSize"
    using init_result [OF p(1), of senv False rs DIRECTION_OUT refs] p(2,3) rs by (auto simp: q_def init_debugger_packet_def)
  define q1 where "q1 = q\<lparr>pk_dma_md := dma\<rparr>"
  define n1 where "n1 = n\<lparr>debugger_transmit_packet := Some q1, debugger_transmit_packet_in_use := True\<rparr>"
  have mb: "first_init_done (pk_mbuf_md q1)" "prepare_count (pk_mbuf_md q1) = 0"
    using initWithMbuf_idle(1,2) [OF p(4,5)] by (simp_all add: q1_def q_def init_debugger_packet_def)
  obtain q2 where q2: "clear_packet senv q1 (\<lambda>m. refs m + md_uses rs m) = Some (q2, refs)" "ssdc_inv (pk_dma_md q2)" "held_ranges (pk_dma_md q2) = []"
    "initialised (pk_dma_md q2)" "pk_mbuf_md q2 = snd (initWithMbuf True [] DIRECTION_NONE (pk_mbuf_md q1))"
    using clear_packet_ok [of q1 senv "\<lambda>m. refs m + md_uses rs m"] dma(2-4) by (auto simp: q1_def)
  have idle: "debugger_packet_idle (n1\<lparr>debugger_transmit_packet := Some q2, debugger_transmit_packet_in_use := False\<rparr>)"
    using q2(2-) initWithMbuf_idle(1,2) [OF mb] by (simp add: debugger_packet_idle_def)
  have q: "pk_dma_md_id q = pk_dma_md_id p" "\<not> max_size < pktSize" using assms(3) by (simp_all add: q_def init_debugger_packet_def not_less)
  have send: "sendPacket vt senv poll max_size pktSize (n, refs, t)
     = (if res = kIOReturnSuccess then Some (n1, \<lambda>m. refs m + md_uses rs m, t')
        else Some (n1\<lparr>debugger_transmit_packet := Some q2, debugger_transmit_packet_in_use := False\<rparr>, refs, t'))"
    using assms(2,4) p(6) dma(1,5) q q2(1)
    by (cases "res = kIOReturnSuccess") (simp_all add: sendPacket_def TRANSMIT_QUEUE_INDEX_def Let_def n1_def q1_def rs_def flip: q_def)
  show ?thesis
  proof (cases "res = kIOReturnSuccess")
    case True
    moreover have "debugger_transmit_completed senv (n1, \<lambda>m. refs m + md_uses rs m)
       = Some (n1\<lparr>debugger_transmit_packet := Some q2, debugger_transmit_packet_in_use := False\<rparr>, refs)"
      using q2(1) by (simp add: debugger_transmit_completed_def n1_def)
    moreover have "debugger_transmit_packet_in_use n1" by (simp add: n1_def)
    ultimately show ?thesis using send idle rs(4) by (intro exI [of _ n1] exI [of _ "\<lambda>m. refs m + md_uses rs m"]) auto
  next
    case False
    then show ?thesis
      using send idle by (intro exI [of _ "n1\<lparr>debugger_transmit_packet := Some q2, debugger_transmit_packet_in_use := False\<rparr>"] exI [of _ refs]) simp
  qed
qed

section \<open>Receiving\<close>

text \<open>Polling on the legacy transport. The state holds the number of polls so far, which selects what the driver then finds in the used ring.\<close>

definition legacy_poll ::
    "'n client_action \<Rightarrow> (nat \<Rightarrow> nat \<Rightarrow> VirtioVringUsed) \<Rightarrow> u16 \<Rightarrow> u32 \<Rightarrow> 'n \<times> nat \<times> legacy_dev \<Rightarrow> (u32 \<times> 'n \<times> nat \<times> legacy_dev) option" where
  "legacy_poll act snaps i limit = (\<lambda>(n, k, d). do {
     (handled, n, d) \<leftarrow> pollCompletedRequestsInVirtqueue act (snaps k) i limit (n, d);
     Some (handled, n, k + 1, d)
   })"

lemma legacy_poll_handles_none: "legacy_poll act snaps i limit st = Some (handled, st') \<Longrightarrow> handled = 0"
  by (cases st) (auto simp: legacy_poll_def pollCompletedRequestsInVirtqueue_def process_queue_def processCompletedRequestsInVirtqueue_def
      Option.bind_eq_Some_conv dest: process_loop_total_handled)

text \<open>A loop in which no poll handles anything gives up after the time is over.\<close>

lemma receive_loop_times_out:
  assumes "\<And>st. P st \<Longrightarrow> \<exists>st'. poll 0 1 st = Some (0, st') \<and> P st'" "P st" "unat timeout_us < 2 ^ 63" "unat waited \<le> unat timeout_us + 20"
  shows "\<exists>st'. receive_loop poll timeout_us waited st = Some (False, st') \<and> P st'"
  using assms(2,4)
proof (induction "unat timeout_us + 20 - unat waited" arbitrary: st waited rule: less_induct)
  case less
  obtain st1 where st1: "poll 0 1 st = Some (0, st1)" "P st1" using assms(1) less.prems(1) by blast
  show ?case
  proof (cases "timeout_us \<le> waited")
    case True
    then show ?thesis using st1 by (subst receive_loop.simps) (simp add: RECEIVE_QUEUE_INDEX_def)
  next
    case False
    then have lt: "unat waited < unat timeout_us" by (simp add: word_le_nat_alt)
    then have "unat (waited + 20) = unat waited + 20" using assms(3) by (simp add: unat_word_ariths)
    with lt less.hyps [of "waited + 20" st1] st1(2) have "\<exists>st'. receive_loop poll timeout_us (waited + 20) st1 = Some (False, st') \<and> P st'"
      by (simp add: diff_less_mono)
    then obtain st' where "receive_loop poll timeout_us (waited + 20) st1 = Some (False, st')" "P st'"
      by auto
    with st1(1) False show ?thesis by (subst receive_loop.simps) (simp add: RECEIVE_QUEUE_INDEX_def)
  qed
qed

text \<open>
  Waiting for a packet on behalf of the debugger. On the legacy transport the wait always uses up its time and then reports that there is no
  packet, even if the device has delivered one: the driver takes the number of completions that polling reports for an
  indication, and that number is always 0. It needs only that polling returns.
\<close>

theorem receivePacket_reports_nothing:
  assumes "\<And>st. P st \<Longrightarrow> \<exists>handled st'. legacy_poll act snaps 0 1 st = Some (handled, st') \<and> P st'"
    "P (n\<lparr>debugger_receive_mem := True, debugger_receive_size := pktSize\<rparr>, k, d)"
  shows "\<exists>n' k' d'. receivePacket (legacy_poll act snaps) pktSize timeout (n, k, d) = Some (0, n', k', d') \<and> \<not> debugger_receive_mem n'"
proof -
  have poll: "\<exists>st'. legacy_poll act snaps 0 1 st = Some (0, st') \<and> P st'" if "P st" for st
    using assms(1) [OF that] legacy_poll_handles_none by blast
  have "unat (ucast timeout * 1000 :: u64) < 2 ^ 63"
  proof -
    have "unat timeout < 2 ^ 32" using unsigned_less [of timeout, where ?'a = nat] by simp
    moreover have "unat (ucast timeout :: u64) = unat timeout" by (simp only: unsigned_ucast_eq) (rule take_bit_nat_eq_self, use calculation in simp)
    ultimately show ?thesis by (simp add: unat_word_ariths)
  qed
  from receive_loop_times_out [of P "legacy_poll act snaps", OF poll assms(2) this, of 0]
  obtain st' where "receive_loop (legacy_poll act snaps) (ucast timeout * 1000) 0 (n\<lparr>debugger_receive_mem := True, debugger_receive_size := pktSize\<rparr>, k, d)
    = Some (False, st')" by auto
  then show ?thesis by (cases st') (simp add: receivePacket_def)
qed

section \<open>Examples\<close>

definition example_packet :: virtio_net_packet where
  "example_packet = \<lparr>pk_header = \<lparr>hdr_flags = 0, gso_type = 0, hdr_len = 0, gso_size = 0, csum_start = 0, csum_offset = 0\<rparr>,
     pk_mbuf = [\<lparr>mbuf_data = 0x1000, mbuf_len = 1518\<rparr>], pk_mem = \<lparr>md_id = 1, md_length = 64\<rparr>,
     pk_mbuf_md = new_mbuf_md\<lparr>first_init_done := True\<rparr>, pk_mbuf_md_id = 2,
     pk_dma_md = new_ssdc\<lparr>initialised := True\<rparr>, pk_dma_md_id = 3\<rparr>"

definition debugged_net :: "unit PJVirtioNet" where
  "debugged_net = idle_net\<lparr>debugger_transmit_packet := Some example_packet\<rparr>"

text \<open>A transport that accepts every buffer.\<close>

definition accepting_ops :: "legacy_dev VirtioDevice" where
  "accepting_ops = example_net_ops\<lparr>vd_submitBuffersToVirtqueue := (\<lambda>_ _ _ _ t. Some (kIOReturnSuccess, t))\<rparr>"

theorem debugger_send_roundtrip_witness:
  "\<exists>n1 refs1 n2. sendPacket accepting_ops example_ssdc_env (\<lambda>_ _ st. Some (0, st)) 1518 100 (debugged_net, \<lambda>_. 1, new_legacy_dev)
      = Some (n1, refs1, new_legacy_dev) \<and> debugger_transmit_packet_in_use n1
    \<and> debugger_transmit_completed example_ssdc_env (n1, refs1) = Some (n2, \<lambda>_. 1) \<and> debugger_packet_idle n2"
proof -
  have "debugger_packet_idle debugged_net" "debugger_transmit_packet debugged_net = Some example_packet"
    by (simp_all add: debugger_packet_idle_def debugged_net_def idle_net_def example_packet_def ssdc_inv_def held_ranges_def new_ssdc_def
        new_mbuf_md_def)
  moreover have "vd_submitBuffersToVirtqueue accepting_ops 1 (Some \<lparr>md_id = pk_dma_md_id example_packet, md_length = 10 + ucast (100 :: u32)\<rparr>) None
     debugger_completion new_legacy_dev = Some (kIOReturnSuccess, new_legacy_dev)" by (simp add: accepting_ops_def)
  ultimately show ?thesis
    using debugger_send_roundtrip [where n = debugged_net and p = example_packet and pktSize = 100 and max_size = 1518 and vt = accepting_ops
        and t = new_legacy_dev and t' = new_legacy_dev and res = kIOReturnSuccess and senv = example_ssdc_env and refs = "\<lambda>_. 1"
        and poll = "\<lambda>_ _ st. Some (0, st)"] by auto
qed

text \<open>A device that has delivered one packet before the debugger waits for it.\<close>

definition delivered :: "nat \<Rightarrow> nat \<Rightarrow> VirtioVringUsed" where
  "delivered k j = used4 0"

definition ignore :: "unit PJVirtioNet client_action" where
  "ignore c written st = Some st"

interpretation ignorer: completion_client ignore "\<lambda>_. True"
  by unfold_locales (auto simp: ignore_def keeps_in_flight_def)

definition delivered_dev :: legacy_dev where
  "delivered_dev = new_legacy_dev\<lparr>virtqueues := Some [busy_queue4], num_virtqueues := 1\<rparr>"

lemma process_keeps_delivered:
  "\<exists>n' q'. processCompletedRequestsInVirtqueue ignore (delivered k) 1 (n, busy_queue4) = Some (0, n', q') \<and> used_ring_last_head_index q' = 1"
proof -
  have "in_flight busy_queue4 [[0]]" using busy_queue4 by (auto simp: in_flight_def)
  from ignorer.process_keeps [OF TrueI this, of "delivered k" "used4 0" "[[0]]" 1 n] show ?thesis
    by (auto simp: delivered_def busy_queue4 used4_pending used4_simps)
qed

lemma delivered_poll:
  assumes "virtqueues d = Some [q]" "q = busy_queue4 \<or> used_ring_last_head_index q = 1"
  shows "\<exists>n' d' q'. legacy_poll ignore delivered 0 1 (n, k, d) = Some (0, n', k + 1, d') \<and> virtqueues d' = Some [q'] \<and> used_ring_last_head_index q' = 1"
proof -
  have "\<exists>n' q'. processCompletedRequestsInVirtqueue ignore (delivered k) 1 (n, q) = Some (0, n', q') \<and> used_ring_last_head_index q' = 1"
  proof (cases "q = busy_queue4")
    case True
    then show ?thesis
      using process_keeps_delivered by blast
  next
    case False
    then have "used_ring_last_head_index q = 1" using assms(2) by simp
    then show ?thesis
      unfolding processCompletedRequestsInVirtqueue_def
      by (subst process_loop.simps, cases "interrupts_requested q")
        (simp_all add: process_round_def nothing_to_do_def enable_interrupts_def delivered_def used4_simps Let_def)
  qed
  then obtain n' q' where "processCompletedRequestsInVirtqueue ignore (delivered k) 1 (n, q) = Some (0, n', q')" "used_ring_last_head_index q' = 1"
    by blast
  with assms(1) show ?thesis by (simp add: legacy_poll_def pollCompletedRequestsInVirtqueue_def process_queue_def)
qed

theorem receivePacket_reports_nothing_witness:
  "\<exists>n' k' d'. receivePacket (legacy_poll ignore delivered) 1518 3 (debugged_net, 0, delivered_dev) = Some (0, n', k', d')"
proof -
  let ?P = "\<lambda>(n :: unit PJVirtioNet, k :: nat, d). \<exists>q. virtqueues d = Some [q] \<and> (q = busy_queue4 \<or> used_ring_last_head_index q = 1)"
  have "\<exists>handled st'. legacy_poll ignore delivered 0 1 st = Some (handled, st') \<and> ?P st'" if st: "?P st" for st
  proof -
    obtain n k d q where s: "st = (n, k, d)" "virtqueues d = Some [q]" "q = busy_queue4 \<or> used_ring_last_head_index q = 1"
      using st by (cases st) auto
    from delivered_poll [OF s(2,3), of n k] show ?thesis unfolding s(1) by auto
  qed
  moreover have "?P (debugged_net\<lparr>debugger_receive_mem := True, debugger_receive_size := 1518\<rparr>, 0, delivered_dev)" by (simp add: delivered_dev_def)
  ultimately show ?thesis
    using receivePacket_reports_nothing [where P = ?P and act = ignore and snaps = delivered and n = debugged_net and pktSize = 1518 and k = 0
        and d = delivered_dev and timeout = 3] by blast
qed

end
