(* ===== verification/Command_Gate.thy ===== *)
theory Command_Gate
  imports Virtio_Prelude
begin

text \<open>
  The command gate with scoped locks (PJCommandGate.cpp). Acquiring a lock closes the gate; a lock object that still holds the gate opens it when it
  is released or destroyed. The gate itself is a recursive lock of the kernel, represented by how often it has been closed. Lock objects
  are the elements of an array, true while they hold the gate. The class has two variants: with move constructors, ownership passes from
  one object to the other; without them, objects are copied and the gate counts its holders.
\<close>

section \<open>Operations\<close>

record PJCommandGate =
  closed_count :: int
  lock_count :: int
  locks :: "bool list"

definition closeGate :: "PJCommandGate \<Rightarrow> PJCommandGate" where
  "closeGate g = g\<lparr>closed_count := closed_count g + 1\<rparr>"

definition openGate :: "PJCommandGate \<Rightarrow> PJCommandGate" where
  "openGate g = g\<lparr>closed_count := closed_count g - 1\<rparr>"

text \<open>The constructor counts the new lock only if there are no move constructors.\<close>

definition acquireLock :: "bool \<Rightarrow> PJCommandGate \<Rightarrow> PJCommandGate" where
  "acquireLock rvalue_references g =
     (let g = closeGate g; g = g\<lparr>locks := locks g @ [True]\<rparr>
      in if rvalue_references then g else g\<lparr>lock_count := lock_count g + 1\<rparr>)"

definition lock_release :: "bool \<Rightarrow> nat \<Rightarrow> PJCommandGate \<Rightarrow> PJCommandGate option" where
  "lock_release rvalue_references i g = do {
     held \<leftarrow> array_read (locks g) i;
     if \<not> held then Some g
     else
       let g = (if rvalue_references then g else g\<lparr>lock_count := lock_count g - 1\<rparr>);
           g = g\<lparr>locks := (locks g)[i := False]\<rparr>
       in Some (if rvalue_references \<or> lock_count g = 0 then openGate g else g)
   }"

text \<open>Constructing a lock from another one: the move constructor takes the gate over, the copy constructor shares it.\<close>

definition lock_from :: "bool \<Rightarrow> nat \<Rightarrow> PJCommandGate \<Rightarrow> PJCommandGate option" where
  "lock_from rvalue_references i g = do {
     held \<leftarrow> array_read (locks g) i;
     Some (if rvalue_references then g\<lparr>locks := (locks g)[i := False] @ [held]\<rparr>
           else g\<lparr>locks := locks g @ [held], lock_count := lock_count g + (if held then 1 else 0)\<rparr>)
   }"

section \<open>Properties\<close>

datatype lock_op = Acquire | Construct nat | Release nat

fun gate_run :: "bool \<Rightarrow> lock_op \<Rightarrow> PJCommandGate \<Rightarrow> PJCommandGate option" where
  "gate_run rv Acquire g = Some (acquireLock rv g)"
| "gate_run rv (Construct i) g = lock_from rv i g"
| "gate_run rv (Release i) g = lock_release rv i g"

definition holders :: "PJCommandGate \<Rightarrow> int" where
  "holders g = int (length (filter (\<lambda>held. held) (locks g)))"

lemma holders_update:
  assumes "i < length xs"
  shows "int (length (filter (\<lambda>held. held) (xs[i := False]))) = int (length (filter (\<lambda>held. held) xs)) - (if xs ! i then 1 else 0)"
  using assms
proof (induction xs arbitrary: i)
  case (Cons x xs)
  show ?case
  proof (cases i)
    case (Suc j)
    then have "j < length xs" using Cons.prems by simp
    from Cons.IH [OF this] Suc show ?thesis by (cases x; cases "xs ! j") simp_all
  qed simp
qed simp

text \<open>With move constructors, the gate is closed exactly as often as lock objects hold it, after every sequence of operations.\<close>

lemma moved_locks_balance:
  assumes "foldM (gate_run True) ops g = Some g'" "closed_count g = holders g"
  shows "closed_count g' = holders g'"
  using assms
proof (induction ops arbitrary: g)
  case (Cons op ops)
  from Cons.prems(1) obtain g1 where g1: "gate_run True op g = Some g1" "foldM (gate_run True) ops g1 = Some g'"
    by (auto simp: Option.bind_eq_Some_conv)
  have "closed_count g1 = holders g1"
  proof (cases op)
    case Acquire
    then show ?thesis using g1(1) Cons.prems(2) by (auto simp: acquireLock_def closeGate_def holders_def)
  next
    case (Construct i)
    then show ?thesis using g1(1) Cons.prems(2)
      by (auto simp: lock_from_def holders_def holders_update Option.bind_eq_Some_conv)
  next
    case (Release i)
    then show ?thesis using g1(1) Cons.prems(2)
      by (auto simp: lock_release_def holders_def holders_update openGate_def Let_def Option.bind_eq_Some_conv split: if_splits)
  qed
  with Cons.IH [OF g1(2)] show ?case .
qed simp

text \<open>Without move constructors, a gate acquired twice and released twice stays closed: only the last release opens it.\<close>

lemma counted_locks_stay_closed:
  "map_option closed_count (foldM (gate_run False) [Acquire, Acquire, Release 0, Release 1] \<lparr>closed_count = 0, lock_count = 0, locks = []\<rparr>) = Some 1"
  by (simp add: acquireLock_def closeGate_def lock_release_def openGate_def Let_def)

end
