(* ===== verification/Packet_Queue.thy ===== *)
theory Packet_Queue
  imports Virtio_Net_Packets
begin

text \<open>
  The packet queues of the network driver. The functions that fill and empty them (\<^verbatim>\<open>populateReceiveBuffers\<close>,
  \<^verbatim>\<open>releaseSentPackets\<close>, \<^verbatim>\<open>handleReceivedPackets\<close>, \<^verbatim>\<open>freeDescriptorChain\<close>) stand in virtio_net.cpp and work on a
  \<^verbatim>\<open>virtio_net_virtqueue\<close>, which the header of that file only declares. What they call is preserved in VirtioNetworkDevice.cpp, in the text of
  the driver's version before it was moved to the virtio transport, kept there as a comment: \<^verbatim>\<open>virtqueue_init\<close>, the list of free descriptors,
  \<^verbatim>\<open>addPacketToQueue\<close> with the signature that \<^verbatim>\<open>populateReceiveBuffers\<close> uses, \<^verbatim>\<open>outputPacket\<close> and \<^verbatim>\<open>interruptAction\<close>.
  The two texts of the four functions agree. The members of \<^verbatim>\<open>virtio_net_virtqueue\<close> are those that \<^verbatim>\<open>virtqueue_init\<close> sets; it extends the
  \<^verbatim>\<open>vring\<close> of virtio_ring.h.

  Packet structures live in a store and are referred to by their address. The DMA layer and the allocators are parameters. The device
  writes the used ring concurrently: \<open>snap k\<close> is its content in iteration \<open>k\<close> of a loop that reads it.
\<close>

section \<open>Data structures\<close>

record vring_desc =
  addr :: u64
  len :: u32
  flags :: u16
  "next" :: u16

record vring_avail =
  av_flags :: u16
  av_idx :: u16
  av_ring :: "u16 list"

record vring_used_elem =
  ue_id :: u32
  ue_len :: u32

record vring_used =
  us_flags :: u16
  us_idx :: u16
  us_ring :: "vring_used_elem list"

record vring =
  num :: u32
  desc :: "vring_desc list"
  avail :: vring_avail
  used :: vring_used

text \<open>\<open>packets_for_descs\<close> is a null pointer if its allocation failed.\<close>

record virtio_net_virtqueue = vring +
  queue_index :: u16
  packets_for_descs :: "nat option list option"
  num_free_desc :: u32
  free_desc_head :: u16
  last_used_idx :: u16

definition VRING_DESC_F_NEXT :: u16 where "VRING_DESC_F_NEXT = 1"
definition VRING_DESC_F_WRITE :: u16 where "VRING_DESC_F_WRITE = 2"
definition VRING_USED_F_NO_NOTIFY :: u16 where "VRING_USED_F_NO_NOTIFY = 1"
definition VRING_AVAIL_F_NO_INTERRUPT :: u16 where "VRING_AVAIL_F_NO_INTERRUPT = 1"

text \<open>A packet structure: the members of the new version, a DMA command (the descriptor set on it, if any), and the link of the list of
  packets that the debugger leaves to be freed. The link shares its memory with the header, which is not needed any more by then.\<close>

record queued_packet = virtio_net_packet +
  pk_dma_cmd :: "IOMemoryDescriptor option"
  pk_next_free :: "nat option"

text \<open>Calls to the device and to the network family.\<close>

datatype queue_call =
    Notify u16 | FreeMbuf "mbuf list" | InputPacket "mbuf list" u32 | FlushInputQueue | StartOutputQueue | StoreTcpSum u16 | LinkStatus bool

record packet_state =
  ps_packets :: "nat \<rightharpoonup> queued_packet"
  ps_pool :: "nat list"
  ps_refs :: refcounts
  transmit_packets_to_free :: "nat option"
  ps_debugger_packet :: "nat option"
  ps_checksum_offload :: bool
  ps_tso_v4 :: bool
  ps_notify_on_empty :: bool
  ps_stalled :: bool
  ps_interface :: bool
  ps_calls :: "queue_call list"

definition call :: "queue_call \<Rightarrow> packet_state \<Rightarrow> packet_state" where
  "call c s = s\<lparr>ps_calls := ps_calls s @ [c]\<rparr>"

definition store_packet :: "nat \<Rightarrow> queued_packet \<Rightarrow> packet_state \<Rightarrow> packet_state" where
  "store_packet p pk s = s\<lparr>ps_packets := (ps_packets s)(p \<mapsto> pk)\<rparr>"

text \<open>The kernel: memory descriptors, DMA, what \<^verbatim>\<open>genIOVMSegments\<close> returns when the driver refuses a segment, and constants of its
  headers. For each packet: the memory that is allocated if the pool is empty (address, memory descriptor and the identities of the two other
  descriptors), the offloading that is demanded, and the IP header with its length in units of four bytes.\<close>

record net_kernel =
  nk_ssdc :: ssdc_env
  nk_dma :: dma_env
  nk_refused :: IOReturn
  kIOEthernetMaxPacketSize :: u32
  kChecksumTCP :: u32
  MBUF_TSO_IPV4 :: u32
  MBUF_TSO_IPV6 :: u32

record packet_args =
  pa_new :: "(nat \<times> IOMemoryDescriptor \<times> nat \<times> nat) option"
  pa_demand_mask :: u32
  pa_tso_requested :: "(u32 \<times> u32) option"
  pa_ip_header :: ip_header
  pa_ip_hl :: u16

section \<open>The list of free descriptors\<close>

definition vring_pop_free_desc :: "virtio_net_virtqueue \<Rightarrow> (32 word \<times> virtio_net_virtqueue) option" where
  "vring_pop_free_desc queue =
     (if num_free_desc queue < 1 then Some (- 1, queue)
      else do {
        let free_idx = free_desc_head queue;
        d \<leftarrow> array_read (desc queue) (unat free_idx);
        Some (ucast free_idx, queue\<lparr>free_desc_head := next d, num_free_desc := num_free_desc queue - 1\<rparr>)
      })"

definition vring_push_free_desc :: "virtio_net_virtqueue \<Rightarrow> u16 \<Rightarrow> virtio_net_virtqueue option" where
  "vring_push_free_desc queue free_idx = do {
     descs \<leftarrow> array_modify (desc queue) (unat free_idx)
       (\<lambda>d. d\<lparr>next := free_desc_head queue, flags := (if num_free_desc queue > 0 then VRING_DESC_F_NEXT else 0)\<rparr>);
     packets \<leftarrow> packets_for_descs queue;
     packets \<leftarrow> array_modify packets (unat free_idx) (\<lambda>_. None);
     Some (queue\<lparr>desc := descs, packets_for_descs := Some packets, free_desc_head := free_idx,
                 num_free_desc := num_free_desc queue + 1\<rparr>)
   }"

partial_function (option) freeDescriptorChain ::
    "virtio_net_virtqueue \<Rightarrow> u16 \<Rightarrow> virtio_net_virtqueue option" where
  "freeDescriptorChain queue d = do {
     old \<leftarrow> array_read (desc queue) (unat d);
     let next' = next old;
     let has_next = has_bits (flags old) VRING_DESC_F_NEXT;
     descs \<leftarrow> array_modify (desc queue) (unat d) (\<lambda>d. d\<lparr>addr := 0, len := 0, flags := 0, next := 0\<rparr>);
     queue \<leftarrow> vring_push_free_desc (queue\<lparr>desc := descs\<rparr>) d;
     if \<not> has_next then Some queue else freeDescriptorChain queue next'
   }"

declare freeDescriptorChain.simps [code]

section \<open>Setting up a queue\<close>

text \<open>The positions of the structures in the queue memory (\<^verbatim>\<open>vring_init\<close> of virtio_ring.h): descriptor table, available ring, used ring.\<close>

definition vring_init :: "u32 \<Rightarrow> u64 \<Rightarrow> u64 \<Rightarrow> u64 \<times> u64 \<times> u64" where
  "vring_init n p align =
     (let avail = p + ucast n * 16 in (p, avail, (avail + 4 + 2 * ucast n + align - 1) AND NOT (align - 1)))"

text \<open>Queue memory after it has been cleared; the size of a queue is at most 65535.\<close>

definition zero_desc :: vring_desc where
  "zero_desc = \<lparr>addr = 0, len = 0, flags = 0, next = 0\<rparr>"

definition cleared_vring :: "u16 \<Rightarrow> vring" where
  "cleared_vring n = \<lparr>num = ucast n, desc = replicate (unat n) zero_desc,
     avail = \<lparr>av_flags = 0, av_idx = 0, av_ring = replicate (unat n) 0\<rparr>,
     used = \<lparr>us_flags = 0, us_idx = 0, us_ring = replicate (unat n) \<lparr>ue_id = 0, ue_len = 0\<rparr>\<rparr>\<rparr>"

text \<open>The loop that links the descriptors.\<close>

definition link_free_descs :: "nat \<Rightarrow> vring_desc list \<Rightarrow> vring_desc list option" where
  "link_free_descs n ds =
     foldM (\<lambda>i ds. array_modify ds (i - 1) (\<lambda>d. d\<lparr>flags := VRING_DESC_F_NEXT, next := of_nat i\<rparr>)) [1..<n] ds"

text \<open>\<open>array_ok\<close>: whether the array of packets can be allocated.\<close>

definition virtqueue_init :: "bool \<Rightarrow> u16 \<Rightarrow> u16 \<Rightarrow> virtio_net_virtqueue option" where
  "virtqueue_init array_ok entries queue_id = do {
     let v = cleared_vring entries;
     descs \<leftarrow> link_free_descs (unat entries) (desc v);
     Some \<lparr>num = num v, desc = descs, avail = (avail v)\<lparr>av_flags := av_flags (avail v) OR VRING_AVAIL_F_NO_INTERRUPT\<rparr>, used = used v,
           queue_index = queue_id,
           packets_for_descs = (if array_ok then Some (replicate (unat entries) None) else None),
           num_free_desc = ucast entries, free_desc_head = 0, last_used_idx = 0\<rparr>
   }"

section \<open>Adding packets\<close>

text \<open>\<^verbatim>\<open>allocPacket\<close>: a packet from the pool, of which the set hands out any object, here the first; or a new one.\<close>

definition new_queued_packet :: "IOMemoryDescriptor \<Rightarrow> nat \<Rightarrow> nat \<Rightarrow> queued_packet" where
  "new_queued_packet mem dma_id mbuf_id =
     \<lparr>pk_header = \<lparr>hdr_flags = 0, gso_type = 0, hdr_len = 0, gso_size = 0, csum_start = 0, csum_offset = 0\<rparr>,
      pk_mbuf = [], pk_mem = mem,
      pk_mbuf_md = new_mbuf_md\<lparr>first_init_done := True\<rparr>, pk_mbuf_md_id = mbuf_id,
      pk_dma_md = new_ssdc\<lparr>initialised := True\<rparr>, pk_dma_md_id = dma_id,
      pk_dma_cmd = None, pk_next_free = None\<rparr>"

definition alloc_queued_packet :: "packet_args \<Rightarrow> packet_state \<Rightarrow> nat option \<times> packet_state" where
  "alloc_queued_packet a s = (case ps_pool s of
     p # ps \<Rightarrow> (Some p, s\<lparr>ps_pool := ps\<rparr>)
   | [] \<Rightarrow> (case pa_new a of
       None \<Rightarrow> (None, s)
     | Some (p, mem, dma_id, mbuf_id) \<Rightarrow> (Some p, store_packet p (new_queued_packet mem dma_id mbuf_id) s)))"

text \<open>The offloading requested for a packet to be sent: TCP checksum, and the segment size if IPv4 segmentation is requested.\<close>

definition requested_offloads :: "net_kernel \<Rightarrow> packet_args \<Rightarrow> bool \<Rightarrow> packet_state \<Rightarrow> bool \<times> u32 option" where
  "requested_offloads nk a for_writing s =
     (if \<not> for_writing \<and> ps_checksum_offload s
      then (has_bits (pa_demand_mask a) (kChecksumTCP nk),
            if ps_tso_v4 s then (case pa_tso_requested a of
                None \<Rightarrow> None
              | Some (tso_req, tso_val) \<Rightarrow>
                  if tso_req \<noteq> 0 \<and> tso_req AND (MBUF_TSO_IPV4 nk OR MBUF_TSO_IPV6 nk) = MBUF_TSO_IPV4 nk then Some tso_val else None)
            else None)
      else (False, None))"

text \<open>The packet goes back to the pool.\<close>

definition recycle :: "nat \<Rightarrow> packet_state \<Rightarrow> packet_state" where
  "recycle p s = s\<lparr>ps_pool := p # ps_pool s\<rparr>"

text \<open>Its two descriptors are emptied.\<close>

definition empty_descriptors :: "net_kernel \<Rightarrow> nat \<Rightarrow> packet_state \<Rightarrow> packet_state option" where
  "empty_descriptors nk p s = do {
     pk \<leftarrow> ps_packets s p;
     (pk, refs) \<leftarrow> clear_packet (nk_ssdc nk) pk (ps_refs s);
     Some ((store_packet p pk s)\<lparr>ps_refs := refs\<rparr>)
   }"

definition packet_ranges :: "queued_packet \<Rightarrow> SSDCMemoryDescriptorSubrange list" where
  "packet_ranges pk =
     [\<lparr>sr_md = Some (pk_mem pk), sr_offset = 0, sr_length = sizeof_virtio_net_hdr\<rparr>,
      \<lparr>sr_md = Some \<lparr>md_id = pk_mbuf_md_id pk, md_length = mb_length (pk_mbuf_md pk)\<rparr>, sr_offset = 0, sr_length = mb_length (pk_mbuf_md pk)\<rparr>]"

definition plain_header :: virtio_net_hdr where
  "plain_header = \<lparr>hdr_flags = 0, gso_type = VIRTIO_NET_HDR_GSO_NONE, hdr_len = 0, gso_size = 0, csum_start = 0, csum_offset = 0\<rparr>"

text \<open>The header of the packet, with the request for a checksum, and the checksum stored in the packet.\<close>

definition init_packet_header :: "packet_args \<Rightarrow> bool \<times> u32 option \<Rightarrow> nat \<Rightarrow> queued_packet \<Rightarrow> packet_state \<Rightarrow> packet_state" where
  "init_packet_header a requests p pk s =
     (let (tcp_csum, tso) = requests in
      if tcp_csum \<or> tso \<noteq> None
      then let (th_sum, header) = virtio_net_enable_tcp_csum (tso = None) (pa_ip_hl a * 4) (pa_ip_header a) plain_header
        in call (StoreTcpSum th_sum) (store_packet p (pk\<lparr>pk_header := header\<rparr>) s)
      else store_packet p (pk\<lparr>pk_header := plain_header\<rparr>) s)"

text \<open>The memory descriptor that covers header and data.\<close>

definition packet_md :: "queued_packet \<Rightarrow> IOMemoryDescriptor" where
  "packet_md pk = \<lparr>md_id = pk_dma_md_id pk, md_length = ssdc_length (pk_dma_md pk)\<rparr>"

text \<open>The first part of \<^verbatim>\<open>addPacketToQueue\<close>, up to the DMA command: an error, or the address of the packet.\<close>

definition prepare_packet ::
    "net_kernel \<Rightarrow> packet_args \<Rightarrow> bool \<times> u32 option \<Rightarrow> mbuf list \<Rightarrow> packet_state \<Rightarrow> ((IOReturn + nat) \<times> packet_state) option" where
  "prepare_packet nk a requests packet_mbuf s = (case alloc_queued_packet a s of
     (None, s) \<Rightarrow> Some (Inl kIOReturnOutputDropped, s)
   | (Some p, s) \<Rightarrow> do {
       pk \<leftarrow> ps_packets s p;
       let (ok, mbuf_md) = initWithMbuf True packet_mbuf DIRECTION_OUT (pk_mbuf_md pk);
       let pk = pk\<lparr>pk_mbuf := packet_mbuf, pk_mbuf_md := mbuf_md\<rparr>;
       if \<not> ok then Some (Inl kIOReturnOutputDropped, recycle p (store_packet p pk s))
       else do {
         (ok, dma_md, refs) \<leftarrow> initWithDescriptorRanges (nk_ssdc nk) (Some (packet_ranges pk)) 2 DIRECTION_OUT False (pk_dma_md pk, ps_refs s);
         let s = s\<lparr>ps_refs := refs\<rparr>;
         let pk = pk\<lparr>pk_dma_md := dma_md\<rparr>;
         if \<not> ok
         then Some (Inl kIOReturnOutputDropped,
                    recycle p (store_packet p (pk\<lparr>pk_mbuf_md := snd (initWithMbuf True [] DIRECTION_NONE (pk_mbuf_md pk))\<rparr>) s))
         else do {
           let s = init_packet_header a requests p pk s;
           let ret = set_md (nk_dma nk) (packet_md pk);
           if ret \<noteq> kIOReturnSuccess
           then do { s \<leftarrow> empty_descriptors nk p s; Some (Inl kIOReturnOutputDropped, recycle p s) }
           else do {
             pk \<leftarrow> ps_packets s p;
             Some (Inr p, store_packet p (pk\<lparr>pk_dma_cmd := Some (packet_md pk)\<rparr>) s)
           }
         }
       }
     })"

text \<open>The state of the callback that turns segments into descriptors.\<close>

record virtio_net_cursor_segment_context =
  cs_descs :: "32 word list"
  cs_max_num_descs :: u32
  cs_max_segment_created :: int
  cs_buffer_direction_flag :: u8
  cs_total_len :: u32
  cs_error :: bool
  cs_out_of_descriptors :: bool
  cs_descs_allocd :: u32

definition i32_neg :: "32 word \<Rightarrow> bool" where
  "i32_neg d \<longleftrightarrow> sint d < 0"

definition outputPacketSegment ::
    "Segment64 \<Rightarrow> nat \<Rightarrow> virtio_net_virtqueue \<times> virtio_net_cursor_segment_context
     \<Rightarrow> (bool \<times> virtio_net_virtqueue \<times> virtio_net_cursor_segment_context) option" where
  "outputPacketSegment segment segmentIndex = (\<lambda>(queue, ctx).
     if cs_error ctx then Some (False, queue, ctx)
     else if segmentIndex \<ge> unat (cs_max_num_descs ctx) then Some (False, queue, ctx\<lparr>cs_error := True\<rparr>)
     else do {
       d \<leftarrow> array_read (cs_descs ctx) segmentIndex;
       (d, queue, ctx) \<leftarrow> (if i32_neg d
          then do {
            (d, queue) \<leftarrow> vring_pop_free_desc queue;
            Some (d, queue, ctx\<lparr>cs_descs_allocd := cs_descs_allocd ctx + 1\<rparr>)
          }
          else do {
            old \<leftarrow> array_read (desc queue) (unat d);
            Some (d, queue, ctx\<lparr>cs_total_len := cs_total_len ctx - len old\<rparr>)
          });
       if i32_neg d
       then Some (False, queue, ctx\<lparr>cs_descs_allocd := cs_descs_allocd ctx - 1, cs_error := True, cs_out_of_descriptors := True\<rparr>)
       else do {
         descs \<leftarrow> array_modify (cs_descs ctx) segmentIndex (\<lambda>_. d);
         table \<leftarrow> array_modify (desc queue) (unat d)
           (\<lambda>_. \<lparr>addr = fIOVMAddr segment, len = ucast (fLength segment), flags = ucast (cs_buffer_direction_flag ctx), next = UINT16_MAX\<rparr>);
         Some (True, queue\<lparr>desc := table\<rparr>,
               ctx\<lparr>cs_descs := descs, cs_total_len := cs_total_len ctx + ucast (fLength segment),
                   cs_max_segment_created := max (cs_max_segment_created ctx) (int segmentIndex)\<rparr>)
       }
     })"

text \<open>\<^verbatim>\<open>genIOVMSegments\<close> calls it for one segment after the other, until it refuses one.\<close>

fun output_segments ::
    "nat \<Rightarrow> Segment64 list \<Rightarrow> virtio_net_virtqueue \<times> virtio_net_cursor_segment_context
     \<Rightarrow> (nat \<times> virtio_net_virtqueue \<times> virtio_net_cursor_segment_context) option" where
  "output_segments i [] st = Some (i, st)"
| "output_segments i (segment # segments) st = do {
     (ok, st) \<leftarrow> outputPacketSegment segment i st;
     if ok then output_segments (i + 1) segments st else Some (i, st)
   }"

text \<open>The loop that gives the descriptors back after a failure.\<close>

definition push_back :: "32 word list \<Rightarrow> virtio_net_virtqueue \<Rightarrow> virtio_net_virtqueue option" where
  "push_back = foldM (\<lambda>d queue. if i32_neg d then Some queue else vring_push_free_desc queue (ucast d))"

text \<open>The loop that links the descriptors of the packet.\<close>

fun link_descs :: "u16 \<Rightarrow> 32 word list \<Rightarrow> vring_desc list \<Rightarrow> vring_desc list option" where
  "link_descs prev [] table = Some table"
| "link_descs prev (d # ds) table =
     (if i32_neg d then link_descs prev ds table
      else do {
        table \<leftarrow> array_modify table (unat prev) (\<lambda>e. e\<lparr>next := ucast d, flags := flags e OR VRING_DESC_F_NEXT\<rparr>);
        link_descs (ucast d) ds table
      })"

definition VIRTIO_NET_HDR_GSO_TCPV4 :: u8 where "VIRTIO_NET_HDR_GSO_TCPV4 = 1"

definition tso_header :: "u32 \<Rightarrow> mbuf list \<Rightarrow> virtio_net_hdr \<Rightarrow> virtio_net_hdr option" where
  "tso_header tso_val packet_mbuf header = (case packet_mbuf of
     [] \<Rightarrow> None
   | m # _ \<Rightarrow> Some (header\<lparr>gso_type := VIRTIO_NET_HDR_GSO_TCPV4, hdr_len := ucast (mbuf_len m), gso_size := ucast tso_val\<rparr>))"

text \<open>The last part: the chain is linked, segmentation requested, the packet noted and the chain entered in the available ring, at the
  index given, which is incremented.\<close>

definition publish_packet ::
    "nat \<Rightarrow> u32 option \<Rightarrow> mbuf list \<Rightarrow> 32 word list \<Rightarrow> nat \<Rightarrow> u16 \<Rightarrow> virtio_net_virtqueue \<times> packet_state
     \<Rightarrow> (u16 \<times> virtio_net_virtqueue \<times> packet_state) option" where
  "publish_packet p tso packet_mbuf descs segments at_avail_idx = (\<lambda>(queue, s). do {
     d0 \<leftarrow> array_read descs 0;
     let head_desc = (ucast d0 :: u16);
     table \<leftarrow> link_descs head_desc (drop 1 (take segments descs)) (desc queue);
     s \<leftarrow> (case tso of
        None \<Rightarrow> Some s
      | Some tso_val \<Rightarrow> do {
          pk \<leftarrow> ps_packets s p;
          header \<leftarrow> tso_header tso_val packet_mbuf (pk_header pk);
          Some (store_packet p (pk\<lparr>pk_header := header\<rparr>) s)
        });
     packets \<leftarrow> packets_for_descs queue;
     packets \<leftarrow> array_modify packets (unat head_desc) (\<lambda>_. Some p);
     if num queue = 0 then None else do {
       ring \<leftarrow> array_modify (av_ring (avail queue)) (unat (ucast at_avail_idx mod num queue)) (\<lambda>_. head_desc);
       Some (at_avail_idx + 1,
             queue\<lparr>desc := table, packets_for_descs := Some packets, avail := (avail queue)\<lparr>av_ring := ring\<rparr>\<rparr>, s)
     }
   })"

text \<open>The packet's segments are put into descriptors; they are given back if that fails.\<close>

definition queue_packet ::
    "net_kernel \<Rightarrow> nat \<Rightarrow> u32 option \<Rightarrow> mbuf list \<Rightarrow> bool \<Rightarrow> u32 \<Rightarrow> u16 \<Rightarrow> virtio_net_virtqueue \<times> packet_state
     \<Rightarrow> (IOReturn \<times> u16 \<times> virtio_net_virtqueue \<times> packet_state) option" where
  "queue_packet nk p tso packet_mbuf for_writing max_segs at_avail_idx = (\<lambda>(queue, s). do {
     pk \<leftarrow> ps_packets s p;
     let ctx = \<lparr>cs_descs = replicate (unat max_segs) (- 1), cs_max_num_descs = max_segs, cs_max_segment_created = - 1,
                cs_buffer_direction_flag = (if for_writing then ucast VRING_DESC_F_WRITE else 0), cs_total_len = 0,
                cs_error = False, cs_out_of_descriptors = False, cs_descs_allocd = 0\<rparr>;
     let (ret, offset, segs) = gen_segs (nk_dma nk) (packet_md pk) max_segs;
     (segments, queue, ctx) \<leftarrow> output_segments 0 segs (queue, ctx);
     let ret = (if segments < length segs then nk_refused nk else ret);
     if ret \<noteq> kIOReturnSuccess \<or> offset < md_length (packet_md pk)
     then do {
       queue \<leftarrow> push_back (cs_descs ctx) queue;
       s \<leftarrow> empty_descriptors nk p s;
       Some (kIOReturnOutputStall, at_avail_idx, queue, recycle p s)
     }
     else do {
       (at_avail_idx, queue, s) \<leftarrow> publish_packet p tso packet_mbuf (cs_descs ctx) segments at_avail_idx (queue, s);
       Some (kIOReturnSuccess, at_avail_idx, queue, s)
     }
   })"

definition addPacketToQueue ::
    "net_kernel \<Rightarrow> packet_args \<Rightarrow> mbuf list \<Rightarrow> bool \<Rightarrow> u16 \<Rightarrow> virtio_net_virtqueue \<times> packet_state
     \<Rightarrow> (IOReturn \<times> u16 \<times> virtio_net_virtqueue \<times> packet_state) option" where
  "addPacketToQueue nk a packet_mbuf for_writing at_avail_idx = (\<lambda>(queue, s).
     if num_free_desc queue < 2 then Some (kIOReturnOutputStall, at_avail_idx, queue, s)
     else do {
       let requests = requested_offloads nk a for_writing s;
       let max_segs = num_free_desc queue;
       (r, s) \<leftarrow> prepare_packet nk a requests packet_mbuf s;
       case r of
         Inl ret \<Rightarrow> Some (ret, at_avail_idx, queue, s)
       | Inr p \<Rightarrow> queue_packet nk p (snd requests) packet_mbuf for_writing max_segs at_avail_idx (queue, s)
     })"

text \<open>The new index is made visible to the device, which is notified unless it has asked not to be. \<open>used\<close> is the used ring at that
  moment.\<close>

definition notifyQueueAvailIdx ::
    "virtio_net_virtqueue \<Rightarrow> u16 \<Rightarrow> packet_state \<Rightarrow> bool \<times> virtio_net_virtqueue \<times> packet_state" where
  "notifyQueueAvailIdx queue new_avail_idx s =
     (let queue = queue\<lparr>avail := (avail queue)\<lparr>av_idx := new_avail_idx\<rparr>\<rparr> in
      if us_flags (used queue) AND VRING_USED_F_NO_NOTIFY = 0 then (True, queue, call (Notify (queue_index queue)) s) else (False, queue, s))"

section \<open>Filling the receive queue\<close>

definition notify_if :: "bool \<Rightarrow> u16 \<Rightarrow> virtio_net_virtqueue \<times> packet_state \<Rightarrow> virtio_net_virtqueue \<times> packet_state" where
  "notify_if added avail_idx = (\<lambda>(rx_queue, s).
     if added then snd (notifyQueueAvailIdx rx_queue avail_idx s) else (rx_queue, s))"

text \<open>In iteration \<open>k\<close>, \<open>mbufs k\<close> is the result of \<^verbatim>\<open>allocatePacket\<close>, empty if there is no memory.\<close>

partial_function (option) populate_loop ::
    "net_kernel \<Rightarrow> (nat \<Rightarrow> mbuf list \<times> packet_args) \<Rightarrow> nat \<Rightarrow> bool \<Rightarrow> u16 \<Rightarrow> virtio_net_virtqueue \<times> packet_state
     \<Rightarrow> (bool \<times> virtio_net_virtqueue \<times> packet_state) option" where
  "populate_loop nk mbufs k added avail_idx st =
     (if num_free_desc (fst st) < 2 then Some (True, notify_if added avail_idx st)
      else if fst (mbufs k) = [] then Some (False, notify_if added avail_idx st)
      else do {
        (add_ret, avail_idx, queue, s) \<leftarrow> addPacketToQueue nk (snd (mbufs k)) (fst (mbufs k)) True avail_idx st;
        if add_ret \<noteq> kIOReturnSuccess
        then Some (False, notify_if added avail_idx (queue, call (FreeMbuf (fst (mbufs k))) s))
        else populate_loop nk mbufs (k + 1) True avail_idx (queue, s)
      })"

declare populate_loop.simps [code]

definition populateReceiveBuffers ::
    "net_kernel \<Rightarrow> (nat \<Rightarrow> mbuf list \<times> packet_args) \<Rightarrow> virtio_net_virtqueue \<times> packet_state
     \<Rightarrow> (bool \<times> virtio_net_virtqueue \<times> packet_state) option" where
  "populateReceiveBuffers nk mbufs st = populate_loop nk mbufs 0 False (av_idx (avail (fst st))) st"

section \<open>Completed packets\<close>

text \<open>What both functions do first with a packet: the DMA command is cleared and the descriptors are emptied.\<close>

definition finish_dma :: "net_kernel \<Rightarrow> nat \<Rightarrow> packet_state \<Rightarrow> packet_state option" where
  "finish_dma nk p s = do {
     pk \<leftarrow> ps_packets s p;
     empty_descriptors nk p (store_packet p (pk\<lparr>pk_dma_cmd := None\<rparr>) s)
   }"

definition drop_mbuf :: "nat \<Rightarrow> packet_state \<Rightarrow> packet_state option" where
  "drop_mbuf p s = do { pk \<leftarrow> ps_packets s p; Some (store_packet p (pk\<lparr>pk_mbuf := []\<rparr>) s) }"

text \<open>The loops that log a chain for which there is no packet; they only read the descriptor table. The one for sent packets follows the chain at
  two speeds to notice a cycle.\<close>

partial_function (option) log_sent_chain :: "u32 \<Rightarrow> vring_desc list \<Rightarrow> u16 \<Rightarrow> u16 \<Rightarrow> unit option" where
  "log_sent_chain n ds d d2 = do {
     e2 \<leftarrow> array_read ds (unat d2);
     if unat d2 \<ge> unat n \<or> flags e2 AND VRING_DESC_F_NEXT = 0 then Some ()
     else let d2 = next e2 in
       if d = d2 then Some ()
       else do {
         e2 \<leftarrow> array_read ds (unat d2);
         if unat d2 \<ge> unat n \<or> flags e2 AND VRING_DESC_F_NEXT = 0 then Some ()
         else do {
           let d2 = next e2;
           e \<leftarrow> array_read ds (unat d);
           let d = next e;
           if d = d2 then Some () else log_sent_chain n ds d d2
         }
       }
   }"

partial_function (option) log_received_chain :: "vring_desc list \<Rightarrow> u16 \<Rightarrow> unit option" where
  "log_received_chain ds d = do {
     e \<leftarrow> array_read ds (unat d);
     if flags e AND VRING_DESC_F_NEXT = 0 then Some () else log_received_chain ds (next e)
   }"

declare log_sent_chain.simps [code] log_received_chain.simps [code]

text \<open>The packets that the debugger has taken from the queue are freed.\<close>

partial_function (option) free_dequeued :: "nat option \<Rightarrow> packet_state \<Rightarrow> packet_state option" where
  "free_dequeued cur s = (case cur of
     None \<Rightarrow> Some s
   | Some p \<Rightarrow> do {
       pk \<leftarrow> ps_packets s p;
       free_dequeued (pk_next_free pk) (recycle p (call (FreeMbuf (pk_mbuf pk)) s))
     })"

declare free_dequeued.simps [code]

text \<open>What is done with the packet of a used element: a packet of the debugger keeps its memory; while the debugger is running, other packets are put on a
  list; otherwise the mbuf is freed and the packet goes to the pool.\<close>

definition release_packet :: "net_kernel \<Rightarrow> bool \<Rightarrow> nat \<Rightarrow> packet_state \<Rightarrow> packet_state option" where
  "release_packet nk from_debugger p s = do {
     s \<leftarrow> finish_dma nk p s;
     if ps_debugger_packet s = Some p then Some s
     else do {
       pk \<leftarrow> ps_packets s p;
       if pk_mbuf pk \<noteq> [] \<and> from_debugger
       then Some ((store_packet p (pk\<lparr>pk_next_free := transmit_packets_to_free s\<rparr>) s)\<lparr>transmit_packets_to_free := Some p\<rparr>)
       else do {
         s \<leftarrow> drop_mbuf p (if pk_mbuf pk \<noteq> [] then call (FreeMbuf (pk_mbuf pk)) s else s);
         Some (recycle p s)
       }
     }
   }"

definition release_element ::
    "net_kernel \<Rightarrow> bool \<Rightarrow> vring_used_elem \<Rightarrow> virtio_net_virtqueue \<times> packet_state \<Rightarrow> (virtio_net_virtqueue \<times> packet_state) option" where
  "release_element nk from_debugger e = (\<lambda>(tx_queue, s). do {
     let used_desc = (ucast (ue_id e) :: u16);
     if used_desc = UINT16_MAX \<and> ue_len e = 0 \<or> unat used_desc \<ge> unat (num tx_queue) then Some (tx_queue, s)
     else do {
       packets \<leftarrow> packets_for_descs tx_queue;
       packet \<leftarrow> array_read packets (unat used_desc);
       s \<leftarrow> (case packet of
          Some p \<Rightarrow> release_packet nk from_debugger p s
        | None \<Rightarrow> do { log_sent_chain (num tx_queue) (desc tx_queue) used_desc used_desc; Some s });
       tx_queue \<leftarrow> freeDescriptorChain tx_queue used_desc;
       Some (tx_queue, s)
     }
   })"

text \<open>The loop over the used ring, the same for both queues. In iteration \<open>k\<close> the used ring is \<open>snap k\<close>.\<close>

partial_function (option) for_used ::
    "(vring_used_elem \<Rightarrow> virtio_net_virtqueue \<times> 's \<Rightarrow> (virtio_net_virtqueue \<times> 's) option) \<Rightarrow> (nat \<Rightarrow> vring_used) \<Rightarrow> nat
     \<Rightarrow> virtio_net_virtqueue \<times> 's \<Rightarrow> (virtio_net_virtqueue \<times> 's) option" where
  "for_used body snap k st = (case st of (queue, s) \<Rightarrow>
     let queue = queue\<lparr>used := snap k\<rparr> in
     if last_used_idx queue = us_idx (used queue) then Some (queue, s)
     else if num queue = 0 then None
     else do {
       e \<leftarrow> array_read (us_ring (used queue)) (unat (ucast (last_used_idx queue) mod num queue));
       (queue, s) \<leftarrow> body e (queue, s);
       for_used body snap (k + 1) (queue\<lparr>last_used_idx := last_used_idx queue + 1\<rparr>, s)
     })"

declare for_used.simps [code]

definition releaseSentPackets ::
    "net_kernel \<Rightarrow> bool \<Rightarrow> (nat \<Rightarrow> vring_used) \<Rightarrow> virtio_net_virtqueue \<times> packet_state \<Rightarrow> (virtio_net_virtqueue \<times> packet_state) option" where
  "releaseSentPackets nk from_debugger snap = (\<lambda>(tx_queue, s). do {
     s \<leftarrow> (if from_debugger then Some s else free_dequeued (transmit_packets_to_free s) (s\<lparr>transmit_packets_to_free := None\<rparr>));
     (tx_queue, s) \<leftarrow> for_used (release_element nk from_debugger) snap 0 (tx_queue, s);
     Some (tx_queue, if \<not> from_debugger \<and> ps_stalled s then call StartOutputQueue (s\<lparr>ps_stalled := False\<rparr>) else s)
   })"

text \<open>A received packet is handed to the interface, if there is one and the length is plausible, or freed. The state is extended by the number of
  packets handed over.\<close>

definition receive_packet :: "net_kernel \<Rightarrow> u32 \<Rightarrow> nat \<Rightarrow> nat \<times> packet_state \<Rightarrow> (nat \<times> packet_state) option" where
  "receive_packet nk l p = (\<lambda>(packets_submitted, s). do {
     s \<leftarrow> finish_dma nk p s;
     pk \<leftarrow> ps_packets s p;
     let (packets_submitted, s) =
       (if ps_interface s \<and> l \<le> kIOEthernetMaxPacketSize nk \<and> pk_mbuf pk \<noteq> []
        then (packets_submitted + 1, call (InputPacket (pk_mbuf pk) l) s)
        else (packets_submitted, if pk_mbuf pk \<noteq> [] then call (FreeMbuf (pk_mbuf pk)) s else s));
     s \<leftarrow> drop_mbuf p s;
     Some (packets_submitted, recycle p s)
   })"

definition received_len :: "u32 \<Rightarrow> u32" where
  "received_len l = (if l \<ge> ucast sizeof_virtio_net_hdr then l - ucast sizeof_virtio_net_hdr else 0)"

definition receive_element ::
    "net_kernel \<Rightarrow> vring_used_elem \<Rightarrow> virtio_net_virtqueue \<times> nat \<times> packet_state \<Rightarrow> (virtio_net_virtqueue \<times> nat \<times> packet_state) option" where
  "receive_element nk e = (\<lambda>(rx_queue, st). do {
     let used_desc = (ucast (ue_id e) :: u16);
     if unat used_desc \<ge> unat (num rx_queue) then Some (rx_queue, st)
     else do {
       packets \<leftarrow> packets_for_descs rx_queue;
       packet \<leftarrow> array_read packets (unat used_desc);
       (rx_queue, st) \<leftarrow> (case packet of
          Some p \<Rightarrow> do {
            packets \<leftarrow> array_modify packets (unat used_desc) (\<lambda>_. None);
            st \<leftarrow> receive_packet nk (received_len (ue_len e)) p st;
            Some (rx_queue\<lparr>packets_for_descs := Some packets\<rparr>, st)
          }
        | None \<Rightarrow> do { log_received_chain (desc rx_queue) used_desc; Some (rx_queue, st) });
       rx_queue \<leftarrow> freeDescriptorChain rx_queue used_desc;
       Some (rx_queue, st)
     }
   })"

definition handleReceivedPackets ::
    "net_kernel \<Rightarrow> (nat \<Rightarrow> vring_used) \<Rightarrow> virtio_net_virtqueue \<times> packet_state \<Rightarrow> (virtio_net_virtqueue \<times> packet_state) option" where
  "handleReceivedPackets nk snap = (\<lambda>(rx_queue, s). do {
     (rx_queue, packets_submitted, s) \<leftarrow> for_used (receive_element nk) snap 0 (rx_queue, 0, s);
     Some (rx_queue, if packets_submitted > 0 then call FlushInputQueue s else s)
   })"

end
