(* ===== verification/Packet_Queue_Inv.thy ===== *)
theory Packet_Queue_Inv
  imports Packet_Queue
begin

text \<open>
  The invariant of a packet queue: free descriptors and the chains of packets partition the descriptor table, and the packet of a chain is found under
  its first descriptor. The list of free descriptors implements the same interface \<open>descriptor_pool\<close> as that of the legacy
  transport, although it is linked through the descriptor table shared with the device and delimited by a counter.
\<close>

section \<open>The pool of free descriptors\<close>

abbreviation entries :: "virtio_net_virtqueue \<Rightarrow> nat" where
  "entries q \<equiv> unat (num q)"

definition net_wf :: "virtio_net_virtqueue \<Rightarrow> bool" where
  "net_wf q \<longleftrightarrow> (\<exists>k \<le> 15. entries q = 2 ^ k) \<and> length (desc q) = entries q \<and> length (av_ring (avail q)) = entries q
     \<and> (\<exists>ps. packets_for_descs q = Some ps \<and> length ps = entries q)"

fun free_chain :: "vring_desc list \<Rightarrow> u16 \<Rightarrow> nat list \<Rightarrow> bool" where
  "free_chain ds h [] \<longleftrightarrow> True"
| "free_chain ds h (i # is) \<longleftrightarrow> unat h = i \<and> i < length ds \<and> free_chain ds (next (ds ! i)) is"

definition net_pool :: "virtio_net_virtqueue \<Rightarrow> nat list \<Rightarrow> bool" where
  "net_pool q fs \<longleftrightarrow> net_wf q \<and> free_chain (desc q) (free_desc_head q) fs \<and> distinct fs \<and> unat (num_free_desc q) = length fs"

lemma net_wf_bounds:
  assumes "net_wf q"
  shows "0 < entries q" "entries q \<le> 32768" "num q \<noteq> 0"
proof -
  from assms obtain k where "k \<le> 15" "entries q = 2 ^ k" by (auto simp: net_wf_def)
  moreover have "(2::nat) ^ k \<le> 2 ^ 15" using \<open>k \<le> 15\<close> by (intro power_increasing) auto
  ultimately show "0 < entries q" "entries q \<le> 32768" by auto
  then show "num q \<noteq> 0" by auto
qed

lemma net_pool_wf: "net_pool q fs \<Longrightarrow> net_wf q"
  by (simp add: net_pool_def)

lemma free_chain_less: "free_chain ds h is \<Longrightarrow> i \<in> set is \<Longrightarrow> i < length ds"
  by (induction ds h "is" rule: free_chain.induct) auto

lemma free_chain_cong:
  "length ds' = length ds \<Longrightarrow> (\<And>i. i \<in> set is \<Longrightarrow> next (ds' ! i) = next (ds ! i)) \<Longrightarrow> free_chain ds' h is = free_chain ds h is"
  by (induction ds h "is" rule: free_chain.induct) auto

lemma net_pool_less: "net_pool q fs \<Longrightarrow> i \<in> set fs \<Longrightarrow> i < entries q"
  by (auto simp: net_pool_def net_wf_def dest: free_chain_less)

lemma pop_Nil: "net_pool q [] \<Longrightarrow> vring_pop_free_desc q = Some (- 1, q)"
  by (auto simp: net_pool_def vring_pop_free_desc_def word_less_nat_alt)

lemma pop_Cons:
  assumes "net_pool q (i # fs)"
  shows "vring_pop_free_desc q = Some (of_nat i, q\<lparr>free_desc_head := next (desc q ! i), num_free_desc := num_free_desc q - 1\<rparr>)"
    "net_pool (q\<lparr>free_desc_head := next (desc q ! i), num_free_desc := num_free_desc q - 1\<rparr>) fs"
proof -
  have n: "unat (num_free_desc q) = Suc (length fs)" and h: "unat (free_desc_head q) = i" "i < length (desc q)"
    using assms by (auto simp: net_pool_def)
  then have "\<not> num_free_desc q < 1" and n': "num_free_desc q \<noteq> 0" by (auto simp: word_less_nat_alt)
  moreover have "ucast (free_desc_head q) = (of_nat i :: 32 word)"
    using h(1) by (intro eq_of_nat_unat) simp
  ultimately show "vring_pop_free_desc q = Some (of_nat i, q\<lparr>free_desc_head := next (desc q ! i), num_free_desc := num_free_desc q - 1\<rparr>)"
    using h by (simp add: vring_pop_free_desc_def)
  show "net_pool (q\<lparr>free_desc_head := next (desc q ! i), num_free_desc := num_free_desc q - 1\<rparr>) fs"
    using assms n' by (auto simp: net_pool_def net_wf_def unat_minus_one)
qed

lemma push_eq:
  assumes "i < length (desc q)" "packets_for_descs q = Some ps" "i < length ps" "i < 65536"
  shows "vring_push_free_desc q (of_nat i) = Some (q\<lparr>desc := (desc q)[i := (desc q ! i)\<lparr>next := free_desc_head q,
      flags := (if num_free_desc q > 0 then VRING_DESC_F_NEXT else 0)\<rparr>],
    packets_for_descs := Some (ps[i := None]), free_desc_head := of_nat i, num_free_desc := num_free_desc q + 1\<rparr>)"
  using assms by (simp add: vring_push_free_desc_def)

lemma push_pool:
  assumes pool: "net_pool q fs" and i: "i < entries q" "i \<notin> set fs"
  shows "\<exists>q'. vring_push_free_desc q (of_nat i) = Some q' \<and> net_pool q' (i # fs) \<and> entries q' = entries q"
proof -
  note b = net_wf_bounds [OF net_pool_wf [OF pool]]
  obtain ps where ps: "packets_for_descs q = Some ps" "length ps = entries q" and l: "length (desc q) = entries q"
    using pool by (auto simp: net_pool_def net_wf_def)
  have "distinct (i # fs)" "set (i # fs) \<subseteq> {..<entries q}" using pool i by (auto simp: net_pool_less net_pool_def)
  then have "length (i # fs) \<le> entries q" by (metis card_lessThan card_mono distinct_card finite_lessThan)
  then have "unat (num_free_desc q + 1) = Suc (length fs)" using pool b by (simp add: net_pool_def unat_word_ariths)
  moreover have "free_chain (desc q) (free_desc_head q) fs" using pool by (simp add: net_pool_def)
  then have "free_chain ((desc q)[i := d]) (free_desc_head q) fs" for d
    using i(2) by (subst free_chain_cong) (auto simp: nth_list_update_mem)
  ultimately show ?thesis
    using pool i b ps l by (auto simp: push_eq net_pool_def net_wf_def)
qed

interpretation nq: descriptor_pool net_pool entries vring_pop_free_desc vring_push_free_desc
proof (unfold_locales, goal_cases)
  case (1 q)
  then show ?case by (rule pop_Nil)
next
  case (2 q i fs)
  then show ?case using pop_Cons by auto
next
  case (3 q fs i)
  then show ?case by (rule push_pool)
qed (auto simp: net_pool_less, simp add: net_pool_def)

text \<open>What giving back a list of descriptors leaves unchanged, for every way of giving back a single one.\<close>

definition gives_back :: "(virtio_net_virtqueue \<Rightarrow> u16 \<Rightarrow> virtio_net_virtqueue option) \<Rightarrow> bool" where
  "gives_back f \<longleftrightarrow> (\<forall>q i ps q'. f q (of_nat i) = Some q' \<longrightarrow> packets_for_descs q = Some ps \<longrightarrow> i < 65536 \<longrightarrow>
     (\<exists>d h n. q' = q\<lparr>desc := (desc q)[i := d], packets_for_descs := Some (ps[i := None]), free_desc_head := h, num_free_desc := n\<rparr>))"

lemma gives_backD:
  assumes "gives_back f" "f q (of_nat i) = Some q'" "packets_for_descs q = Some ps" "i < 65536"
  obtains d h n where "q' = q\<lparr>desc := (desc q)[i := d], packets_for_descs := Some (ps[i := None]), free_desc_head := h, num_free_desc := n\<rparr>"
  using assms unfolding gives_back_def by blast

lemma gives_back_all:
  assumes f: "gives_back f" and "foldM (\<lambda>i q. f q (of_nat i)) is q = Some q'" "packets_for_descs q = Some ps" "\<forall>i \<in> set is. i < 65536"
  shows "\<exists>ds h n. q' = q\<lparr>desc := ds, packets_for_descs := Some (map (\<lambda>i. if i \<in> set is then None else ps ! i) [0..<length ps]),
      free_desc_head := h, num_free_desc := n\<rparr> \<and> length ds = length (desc q) \<and> (\<forall>j. j \<notin> set is \<longrightarrow> ds ! j = desc q ! j)"
  using assms(2-)
proof (induction "is" arbitrary: q ps)
  case Nil
  have "map (\<lambda>i. if i \<in> set [] then None else ps ! i) [0..<length ps] = ps" by (simp add: map_nth)
  with Nil show ?case
    by (intro exI [of _ "desc q"] exI [of _ "free_desc_head q"] exI [of _ "num_free_desc q"]) simp
next
  case (Cons i "is")
  then obtain q1 where q1: "f q (of_nat i) = Some q1" "foldM (\<lambda>i q. f q (of_nat i)) is q1 = Some q'"
    by (auto simp: Option.bind_eq_Some_conv)
  have i: "i < 65536" using Cons.prems(3) by simp
  obtain d h1 n1 where q1_eq: "q1 = q\<lparr>desc := (desc q)[i := d], packets_for_descs := Some (ps[i := None]), free_desc_head := h1, num_free_desc := n1\<rparr>"
    by (rule gives_backD [OF f q1(1) Cons.prems(2) i])
  obtain ds h n where IH: "q' = q1\<lparr>desc := ds,
       packets_for_descs := Some (map (\<lambda>j. if j \<in> set is then None else ps[i := None] ! j) [0..<length (ps[i := None])]),
      free_desc_head := h, num_free_desc := n\<rparr>" "length ds = length (desc q1)" "\<forall>j. j \<notin> set is \<longrightarrow> ds ! j = desc q1 ! j"
    using Cons.IH [OF q1(2), of "ps[i := None]"] Cons.prems(3) by (auto simp: q1_eq)
  have "map (\<lambda>j. if j \<in> set is then None else ps[i := None] ! j) [0..<length (ps[i := None])]
      = map (\<lambda>j. if j \<in> set (i # is) then None else ps ! j) [0..<length ps]"
    by (auto simp: nth_list_update)
  with IH show ?case by (intro exI [of _ ds] exI [of _ h] exI [of _ n]) (auto simp: q1_eq)
qed

lemma gives_back_push: "gives_back vring_push_free_desc"
  by (auto simp: gives_back_def vring_push_free_desc_def Option.bind_eq_Some_conv) (intro exI, rule refl)+

section \<open>Chains of packets\<close>

fun packet_chain :: "vring_desc list \<Rightarrow> nat list \<Rightarrow> bool" where
  "packet_chain ds [] \<longleftrightarrow> False"
| "packet_chain ds [i] \<longleftrightarrow> i < length ds \<and> \<not> has_bits (flags (ds ! i)) VRING_DESC_F_NEXT"
| "packet_chain ds (i # j # is) \<longleftrightarrow> i < length ds \<and> has_bits (flags (ds ! i)) VRING_DESC_F_NEXT \<and> unat (next (ds ! i)) = j
     \<and> packet_chain ds (j # is)"

lemma packet_chain_less: "packet_chain ds ch \<Longrightarrow> i \<in> set ch \<Longrightarrow> i < length ds"
  by (induction ds ch rule: packet_chain.induct) auto

lemma packet_chain_Nil: "packet_chain ds ch \<Longrightarrow> ch \<noteq> []"
  by auto

lemma packet_chain_cong:
  "length ds' = length ds \<Longrightarrow> (\<And>i. i \<in> set ch \<Longrightarrow> ds' ! i = ds ! i) \<Longrightarrow> packet_chain ds' ch = packet_chain ds ch"
  by (induction ds ch rule: packet_chain.induct) auto

text \<open>\<^verbatim>\<open>freeDescriptorChain\<close> clears each descriptor before it gives it back.\<close>

definition clear_and_push :: "virtio_net_virtqueue \<Rightarrow> u16 \<Rightarrow> virtio_net_virtqueue option" where
  "clear_and_push q d = do {
     descs \<leftarrow> array_modify (desc q) (unat d) (\<lambda>d. d\<lparr>addr := 0, len := 0, flags := 0, next := 0\<rparr>);
     vring_push_free_desc (q\<lparr>desc := descs\<rparr>) d
   }"

lemma clear_and_push_eq:
  assumes "i < length (desc q)" "i < 65536"
  shows "clear_and_push q (of_nat i) = vring_push_free_desc q (of_nat i) \<bind>
    (\<lambda>q'. Some (q'\<lparr>desc := (desc q')[i := (desc q' ! i)\<lparr>addr := 0, len := 0\<rparr>]\<rparr>))"
  using assms by (cases q; cases "desc q ! i") (simp add: clear_and_push_def vring_push_free_desc_def split: Option.bind_splits)

lemma clear_and_push_pool:
  assumes "net_pool q fs" "i < entries q" "i \<notin> set fs"
  shows "\<exists>q'. clear_and_push q (of_nat i) = Some q' \<and> net_pool q' (i # fs) \<and> entries q' = entries q"
proof -
  obtain q1 where q1: "vring_push_free_desc q (of_nat i) = Some q1" "net_pool q1 (i # fs)" "entries q1 = entries q"
    using push_pool [OF assms] by blast
  have l: "i < length (desc q)" "i < 65536" using assms(1,2) net_wf_bounds [OF net_pool_wf [OF assms(1)]] by (auto simp: net_pool_def net_wf_def)
  have "next (xs[i := (xs ! i)\<lparr>addr := 0, len := 0\<rparr>] ! j) = next (xs ! j)" for xs j
    by (cases "i < length xs"; cases "j = i") (auto simp: list_update_beyond)
  then have "free_chain ((desc q1)[i := (desc q1 ! i)\<lparr>addr := 0, len := 0\<rparr>]) h xs = free_chain (desc q1) h xs" for h xs
    by (intro free_chain_cong) auto
  with q1 have "net_pool (q1\<lparr>desc := (desc q1)[i := (desc q1 ! i)\<lparr>addr := 0, len := 0\<rparr>]\<rparr>) (i # fs)"
    by (auto simp: net_pool_def net_wf_def simp del: free_chain.simps)
  with q1 l show ?thesis by (simp add: clear_and_push_eq)
qed

interpretation nqc: descriptor_pool net_pool entries vring_pop_free_desc clear_and_push
  by unfold_locales (auto simp: clear_and_push_pool nq.pool_distinct net_pool_less intro: nq.reserve_empty nq.reserve_first)


text \<open>Giving back the descriptors of a chain, in its order.\<close>

lemma freeDescriptorChain_eq_foldM:
  assumes "packet_chain (desc q) ch" "distinct ch" "length (desc q) \<le> 65536"
  shows "freeDescriptorChain q (of_nat (hd ch)) = foldM (\<lambda>i q. clear_and_push q (of_nat i)) ch q"
  using assms
proof (induction ch arbitrary: q rule: induct_list012)
  case (2 i)
  then have "i < 65536" by simp
  with 2 show ?case
    by (subst freeDescriptorChain.simps) (simp add: clear_and_push_def Let_def split: Option.bind_splits)
next
  case (3 i j "is")
  have i: "i < length (desc q)" "i < 65536" using 3(3,5) by auto
  have n: "next (desc q ! i) = of_nat j" using 3(3) eq_of_nat_unat by auto
  have step: "freeDescriptorChain q (of_nat i) = clear_and_push q (of_nat i) \<bind> (\<lambda>q1. freeDescriptorChain q1 (of_nat j))"
    using i 3(3) n by (subst freeDescriptorChain.simps) (simp add: clear_and_push_def Let_def)
  have "freeDescriptorChain q1 (of_nat j) = foldM (\<lambda>i q. clear_and_push q (of_nat i)) (j # is) q1"
    if q1: "clear_and_push q (of_nat i) = Some q1" for q1
  proof -
    have d: "length (desc q1) = length (desc q)" "\<forall>k. k \<noteq> i \<longrightarrow> desc q1 ! k = desc q ! k"
      using q1 i by (auto simp: clear_and_push_def vring_push_free_desc_def Option.bind_eq_Some_conv)
    have "packet_chain (desc q1) (j # is) = packet_chain (desc q) (j # is)"
      by (rule packet_chain_cong [OF d(1)]) (use d(2) 3(4) in auto)
    then show ?thesis using 3(2) [of q1] 3(3,4,5) d(1) by simp
  qed
  with step show ?case by (auto split: Option.bind_splits)
qed simp


lemma gives_back_clear: "gives_back clear_and_push"
  by (auto simp: gives_back_def clear_and_push_def vring_push_free_desc_def Option.bind_eq_Some_conv) (intro exI, rule refl)+

section \<open>The invariant\<close>

text \<open>\<open>net_queue_inv q fs fl\<close>: the free descriptors are \<open>fs\<close>, and \<open>fl\<close> are the chains in use with their packets.\<close>

definition packet_of :: "(nat list \<times> nat) list \<Rightarrow> nat \<Rightarrow> nat option" where
  "packet_of fl = map_of (map (\<lambda>(ch, p). (hd ch, p)) fl)"

definition net_queue_inv :: "virtio_net_virtqueue \<Rightarrow> nat list \<Rightarrow> (nat list \<times> nat) list \<Rightarrow> bool" where
  "net_queue_inv q fs fl \<longleftrightarrow> net_pool q fs \<and> (\<forall>x \<in> set fl. packet_chain (desc q) (fst x))
     \<and> distinct (fs @ concat (map fst fl)) \<and> set (fs @ concat (map fst fl)) = {..<entries q}
     \<and> (\<forall>i < entries q. the (packets_for_descs q) ! i = packet_of fl i)"

lemma net_queue_inv_wf: "net_queue_inv q fs fl \<Longrightarrow> net_wf q"
  by (auto simp: net_queue_inv_def net_pool_def)

lemma net_queue_inv_free: "net_queue_inv q fs fl \<Longrightarrow> unat (num_free_desc q) = length fs"
  by (simp add: net_queue_inv_def net_pool_def)

lemma packet_of_simps [simp]:
  "packet_of [] i = None" "packet_of ((ch, p) # fl) i = (if i = hd ch then Some p else packet_of fl i)"
  by (auto simp: packet_of_def)

lemma packet_of_append: "packet_of (fl1 @ fl2) i = (case packet_of fl1 i of Some p \<Rightarrow> Some p | None \<Rightarrow> packet_of fl2 i)"
  by (auto simp: packet_of_def map_add_def split: option.splits)

lemma packet_of_outside: "\<forall>x \<in> set fl. fst x \<noteq> [] \<Longrightarrow> i \<notin> set (concat (map fst fl)) \<Longrightarrow> packet_of fl i = None"
  by (induction fl) (auto simp: packet_of_def)

lemma net_queue_inv_chains:
  assumes "net_queue_inv q fs fl" "(ch, p) \<in> set fl"
  shows "packet_chain (desc q) ch" "ch \<noteq> []" "distinct ch" "set ch \<inter> set fs = {}" "\<forall>i \<in> set ch. i < entries q"
    "hd ch < entries q"
proof -
  have sub: "set ch \<subseteq> set (concat (map fst fl))" using assms(2) by force
  have inv: "\<forall>x \<in> set fl. packet_chain (desc q) (fst x)" "set fs \<inter> set (concat (map fst fl)) = {}"
    "set (concat (map fst fl)) \<subseteq> {..<entries q}" "distinct (concat (map fst fl))"
    using assms(1) unfolding net_queue_inv_def by auto
  show 1: "packet_chain (desc q) ch" using inv(1) assms(2) by force
  show "set ch \<inter> set fs = {}" using inv(2) sub by blast
  show 3: "\<forall>i \<in> set ch. i < entries q" using inv(3) sub by blast
  show 2: "ch \<noteq> []" using 1 by auto
  have "ch \<in> set (map fst fl)" using assms(2) by force
  then show "distinct ch" using inv(4) by (simp only: distinct_concat_iff)
  show "hd ch < entries q" using 3 2 by simp
qed

text \<open>The packet of a chain is found under its first descriptor.\<close>

lemma net_queue_inv_lookup:
  assumes inv: "net_queue_inv q fs (fl1 @ (ch, p) # fl2)"
  shows "\<exists>ps. packets_for_descs q = Some ps \<and> length ps = entries q \<and> ps ! hd ch = Some p"
proof -
  note c = net_queue_inv_chains [OF inv, of ch p]
  obtain ps where ps: "packets_for_descs q = Some ps" "length ps = entries q" using net_queue_inv_wf [OF inv] by (auto simp: net_wf_def)
  have "hd ch \<notin> set (concat (map fst fl1))" using c(2) inv by (cases ch) (auto simp: net_queue_inv_def)
  then have "packet_of fl1 (hd ch) = None" using inv by (intro packet_of_outside) (auto simp: net_queue_inv_def dest: packet_chain_Nil)
  then show ?thesis using inv c(2,6) ps by (auto simp: net_queue_inv_def packet_of_append)
qed

text \<open>Freeing a chain in use returns its descriptors and forgets its packet; other chains keep theirs.\<close>

lemma freeDescriptorChain_inv:
  assumes inv: "net_queue_inv q fs (fl1 @ (ch, p) # fl2)"
  shows "\<exists>ds ps h n. freeDescriptorChain q (of_nat (hd ch)) = Some (q\<lparr>desc := ds, packets_for_descs := ps, free_desc_head := h, num_free_desc := n\<rparr>)
    \<and> net_queue_inv (q\<lparr>desc := ds, packets_for_descs := ps, free_desc_head := h, num_free_desc := n\<rparr>) (rev ch @ fs) (fl1 @ fl2)"
proof -
  note c = net_queue_inv_chains [OF inv, of ch p, simplified]
  have wf: "net_wf q" using inv by (rule net_queue_inv_wf)
  note b = net_wf_bounds [OF wf]
  have pool: "net_pool q fs" and dist: "distinct (ch @ fs)" using inv c(3,4) by (auto simp: net_queue_inv_def)
  obtain ps where ps: "packets_for_descs q = Some ps" "length ps = entries q" using wf by (auto simp: net_wf_def)
  obtain q' where q': "foldM (\<lambda>i q. clear_and_push q (of_nat i)) ch q = Some q'" "net_pool q' (rev ch @ fs)" "entries q' = entries q"
    using nqc.give_back_all [OF pool dist] c(5) by blast
  have "\<forall>i \<in> set ch. i < 65536" using c(5) b(2) by auto
  from gives_back_all [OF gives_back_clear q'(1) ps(1) this] obtain ds h n where
    eq: "q' = q\<lparr>desc := ds, packets_for_descs := Some (map (\<lambda>i. if i \<in> set ch then None else ps ! i) [0..<length ps]), free_desc_head := h, num_free_desc := n\<rparr>"
    and ds: "length ds = length (desc q)" "\<forall>j. j \<notin> set ch \<longrightarrow> ds ! j = desc q ! j" by blast
  have other: "packet_chain ds (fst x)" if "x \<in> set (fl1 @ fl2)" for x
  proof -
    have "set (fst x) \<inter> set ch = {}" using that inv by (auto simp: net_queue_inv_def)
    then have "packet_chain ds (fst x) = packet_chain (desc q) (fst x)" using ds by (intro packet_chain_cong) auto
    then show ?thesis using that inv by (auto simp: net_queue_inv_def)
  qed
  have heads: "packet_of (fl1 @ fl2) i = (if i \<in> set ch then None else packet_of (fl1 @ (ch, p) # fl2) i)" for i
  proof -
    have "packet_of (fl1 @ fl2) i = None" if "i \<in> set ch"
      using that inv by (intro packet_of_outside) (auto simp: net_queue_inv_def dest: packet_chain_Nil)
    then show ?thesis using c(2) by (auto simp: packet_of_append split: option.splits)
  qed
  have "net_queue_inv q' (rev ch @ fs) (fl1 @ fl2)"
    using inv q'(2) other by (auto simp: net_queue_inv_def eq heads ps)
  moreover have "freeDescriptorChain q (of_nat (hd ch)) = Some q'"
    using freeDescriptorChain_eq_foldM [OF c(1,3)] wf b(2) q'(1) by (simp add: net_wf_def)
  ultimately show ?thesis unfolding eq by blast
qed

end
