(* ===== verification/Packet_Queue_Complete.thy ===== *)
theory Packet_Queue_Complete
  imports Packet_Queue_Inv
begin

text \<open>
  Completed packets: sent packets are freed, received ones handed to the network interface, in the order in which the device returns them. The two functions
  share their loop over the used ring; what they rely on is the interface \<open>used_consumer\<close> of its body.
\<close>

section \<open>The loop over the used ring\<close>

text \<open>The device returns the elements \<open>es\<close>: when the driver looks for the one at position \<open>i\<close> it is there, and when all have been
  processed there is no further one. How many elements are visible in between does not matter.\<close>

fun device_returns :: "(nat \<Rightarrow> vring_used) \<Rightarrow> nat \<Rightarrow> nat \<Rightarrow> u16 \<Rightarrow> vring_used_elem list \<Rightarrow> bool" where
  "device_returns snap k n l [] \<longleftrightarrow> us_idx (snap k) = l"
| "device_returns snap k n l (e # es) \<longleftrightarrow> us_idx (snap k) \<noteq> l \<and> length (us_ring (snap k)) = n \<and> us_ring (snap k) ! (unat l mod n) = e
     \<and> device_returns snap (Suc k) n (l + 1) es"

text \<open>A body of the loop that handles the packet of the element and then frees its chain.\<close>

locale used_consumer =
  fixes body :: "vring_used_elem \<Rightarrow> virtio_net_virtqueue \<times> 's \<Rightarrow> (virtio_net_virtqueue \<times> 's) option"
    and handle :: "vring_used_elem \<Rightarrow> nat \<Rightarrow> 's \<Rightarrow> 's option"
  assumes consume: "net_queue_inv q fs (fl1 @ (ch, p) # fl2) \<Longrightarrow> ue_id e = of_nat (hd ch) \<Longrightarrow> handle e p s = Some s' \<Longrightarrow>
    body e (q, s) = map_option (\<lambda>q'. (q', s')) (freeDescriptorChain q (of_nat (hd ch)))"
begin

lemma consume_all:
  assumes "net_queue_inv q fs fl" "device_returns snap k (entries q) (last_used_idx q) es" "distinct done" "set done \<subseteq> set fl"
    "map ue_id es = map (of_nat \<circ> hd \<circ> fst) done" "foldM (\<lambda>(e, x). handle e (snd x)) (zip es done) s = Some s'"
  shows "\<exists>q'. for_used body snap k (q, s) = Some (q', s') \<and> net_queue_inv q' (rev (concat (map fst done)) @ fs) (filter (\<lambda>x. x \<notin> set done) fl)
    \<and> last_used_idx q' = last_used_idx q + of_nat (length es) \<and> avail q' = avail q \<and> queue_index q' = queue_index q \<and> num q' = num q
    \<and> used q' = snap (k + length es)"
  using assms
proof (induction es arbitrary: k q s fs fl "done")
  case Nil
  then have "done = []" by simp
  have "net_queue_inv (q\<lparr>used := snap k\<rparr>) fs fl" using Nil.prems(1) by (simp add: net_queue_inv_def net_pool_def net_wf_def)
  with Nil \<open>done = []\<close> show ?case by (subst for_used.simps) auto
next
  case (Cons e es)
  obtain ch p dn where dn: "done = (ch, p) # dn" using Cons.prems(5) by (cases "done") auto
  have mem: "(ch, p) \<in> set fl" using Cons.prems(4) dn by auto
  obtain fl1 fl2 where fl: "fl = fl1 @ (ch, p) # fl2" "(ch, p) \<notin> set fl1" using split_list_first [OF mem] by blast
  obtain s1 where s1: "handle e p s = Some s1" "foldM (\<lambda>(e, x). handle e (snd x)) (zip es dn) s1 = Some s'"
    using Cons.prems(6) by (auto simp: dn Option.bind_eq_Some_conv)
  let ?q = "q\<lparr>used := snap k\<rparr>"
  have inv: "net_queue_inv ?q fs (fl1 @ (ch, p) # fl2)" using Cons.prems(1) fl(1) by (simp add: net_queue_inv_def net_pool_def net_wf_def)
  note b = net_wf_bounds [OF net_queue_inv_wf [OF Cons.prems(1)]]
  have id: "ue_id e = of_nat (hd ch)" using Cons.prems(5) by (simp add: dn)
  obtain ds ps h n where f: "freeDescriptorChain ?q (of_nat (hd ch)) = Some (?q\<lparr>desc := ds, packets_for_descs := ps, free_desc_head := h, num_free_desc := n\<rparr>)"
    "net_queue_inv (?q\<lparr>desc := ds, packets_for_descs := ps, free_desc_head := h, num_free_desc := n\<rparr>) (rev ch @ fs) (fl1 @ fl2)"
    using freeDescriptorChain_inv [OF inv] by blast
  define q1 where "q1 = ?q\<lparr>desc := ds, packets_for_descs := ps, free_desc_head := h, num_free_desc := n, last_used_idx := last_used_idx q + 1\<rparr>"
  have slot: "unat (ucast (last_used_idx q) mod num q) = unat (last_used_idx q) mod entries q" by (simp add: unat_mod_distrib)
  have "array_read (us_ring (snap k)) (unat (last_used_idx q) mod entries q) = Some e"
    using Cons.prems(2) b(1) by simp
  then have step: "for_used body snap k (q, s) = for_used body snap (Suc k) (q1, s1)"
    using Cons.prems(2) b(3) slot consume [OF inv id s1(1)] f(1) by (subst for_used.simps) (auto simp: Let_def q1_def)
  have inv1: "net_queue_inv q1 (rev ch @ fs) (fl1 @ fl2)" using f(2) by (simp add: q1_def net_queue_inv_def net_pool_def net_wf_def)
  have d1: "device_returns snap (Suc k) (entries q1) (last_used_idx q1) es" using Cons.prems(2) by (simp add: q1_def)
  have "distinct dn" "set dn \<subseteq> set (fl1 @ fl2)" "map ue_id es = map (of_nat \<circ> hd \<circ> fst) dn"
    using Cons.prems(3-5) by (auto simp: dn fl(1))
  from Cons.IH [OF inv1 d1 this s1(2)] obtain q' where q': "for_used body snap (Suc k) (q1, s1) = Some (q', s')"
    "net_queue_inv q' (rev (concat (map fst dn)) @ rev ch @ fs) (filter (\<lambda>x. x \<notin> set dn) (fl1 @ fl2))"
    "last_used_idx q' = last_used_idx q1 + of_nat (length es)" "avail q' = avail q1" "queue_index q' = queue_index q1" "num q' = num q1"
    "used q' = snap (Suc k + length es)" by blast
  have "(ch, p) \<notin> set fl2"
    using inv net_queue_inv_chains [OF inv, of ch p] by (cases ch) (auto simp: net_queue_inv_def)
  then have "filter (\<lambda>x. x \<notin> set dn) (fl1 @ fl2) = filter (\<lambda>x. x \<notin> set done) fl"
    using fl(2) by (simp add: fl(1) dn) (intro arg_cong2 [where f = "(@)"] filter_cong; auto)
  with q' step show ?case by (simp add: q1_def dn algebra_simps)
qed

end

section \<open>The packet of an element\<close>

definition packet_ready :: "queued_packet \<Rightarrow> bool" where
  "packet_ready pk \<longleftrightarrow> ssdc_inv (pk_dma_md pk) \<and> initialised (pk_dma_md pk) \<and> first_init_done (pk_mbuf_md pk) \<and> prepare_count (pk_mbuf_md pk) = 0"

definition packet_idle :: "queued_packet \<Rightarrow> bool" where
  "packet_idle pk \<longleftrightarrow> packet_ready pk \<and> held_ranges (pk_dma_md pk) = []"

text \<open>The references that the descriptors of a packet hold.\<close>

abbreviation packet_refs :: "queued_packet \<Rightarrow> nat \<Rightarrow> int" where
  "packet_refs pk \<equiv> md_uses (held_ranges (pk_dma_md pk))"

lemma clear_packet_ready:
  assumes "packet_ready pk"
  shows "\<exists>d m. clear_packet senv pk refs = Some (pk\<lparr>pk_dma_md := d, pk_mbuf_md := m\<rparr>, \<lambda>i. refs i - packet_refs pk i)
    \<and> packet_idle (pk\<lparr>pk_dma_md := d, pk_mbuf_md := m\<rparr>)"
proof -
  obtain d where d: "initWithDescriptorRanges senv None 0 DIRECTION_NONE False (pk_dma_md pk, refs)
      = Some (True, d, \<lambda>i. refs i - packet_refs pk i)" "ssdc_inv d" "held_ranges d = []" "initialised d"
    using assms init_empty [of "pk_dma_md pk" senv None DIRECTION_NONE False refs] by (auto simp: packet_ready_def)
  let ?m = "snd (initWithMbuf True [] DIRECTION_NONE (pk_mbuf_md pk))"
  have "packet_idle (pk\<lparr>pk_dma_md := d, pk_mbuf_md := ?m\<rparr>)"
    using assms d initWithMbuf_idle [of "pk_mbuf_md pk"] by (simp add: packet_idle_def packet_ready_def)
  with d(1) show ?thesis by (auto simp: clear_packet_def)
qed

lemma finish_dma_ready:
  assumes "ps_packets s p = Some pk" "packet_ready pk"
  shows "\<exists>d m. finish_dma nk p s = Some (s\<lparr>ps_packets := (ps_packets s)(p \<mapsto> pk\<lparr>pk_dma_cmd := None, pk_dma_md := d, pk_mbuf_md := m\<rparr>),
      ps_refs := \<lambda>i. ps_refs s i - packet_refs pk i\<rparr>)
    \<and> packet_idle (pk\<lparr>pk_dma_cmd := None, pk_dma_md := d, pk_mbuf_md := m\<rparr>)"
proof -
  have "packet_ready (pk\<lparr>pk_dma_cmd := None\<rparr>)" using assms(2) by (simp add: packet_ready_def)
  from clear_packet_ready [OF this, of "nk_ssdc nk" "ps_refs s"] obtain d m where
    "clear_packet (nk_ssdc nk) (pk\<lparr>pk_dma_cmd := None\<rparr>) (ps_refs s)
       = Some (pk\<lparr>pk_dma_cmd := None, pk_dma_md := d, pk_mbuf_md := m\<rparr>, \<lambda>i. ps_refs s i - packet_refs pk i)"
    "packet_idle (pk\<lparr>pk_dma_cmd := None, pk_dma_md := d, pk_mbuf_md := m\<rparr>)" by auto
  with assms(1) show ?thesis
    by (intro exI [of _ d] exI [of _ m]) (simp add: finish_dma_def empty_descriptors_def store_packet_def)
qed

text \<open>A sent packet, outside the debugger.\<close>

lemma release_packet_ready:
  assumes "ps_packets s p = Some pk" "packet_ready pk" "ps_debugger_packet s \<noteq> Some p" "pk_mbuf pk \<noteq> []"
  shows "\<exists>pk'. release_packet nk False p s = Some (s\<lparr>ps_packets := (ps_packets s)(p \<mapsto> pk'), ps_refs := \<lambda>i. ps_refs s i - packet_refs pk i,
      ps_pool := p # ps_pool s, ps_calls := ps_calls s @ [FreeMbuf (pk_mbuf pk)]\<rparr>) \<and> packet_idle pk'"
proof -
  obtain d m where f: "finish_dma nk p s = Some (s\<lparr>ps_packets := (ps_packets s)(p \<mapsto> pk\<lparr>pk_dma_cmd := None, pk_dma_md := d, pk_mbuf_md := m\<rparr>),
      ps_refs := \<lambda>i. ps_refs s i - packet_refs pk i\<rparr>)" "packet_idle (pk\<lparr>pk_dma_cmd := None, pk_dma_md := d, pk_mbuf_md := m\<rparr>)"
    using finish_dma_ready [OF assms(1,2)] by blast
  have "packet_idle (pk\<lparr>pk_dma_cmd := None, pk_dma_md := d, pk_mbuf_md := m, pk_mbuf := []\<rparr>)"
    using f(2) by (simp add: packet_idle_def packet_ready_def)
  with f(1) assms(3,4) show ?thesis
    by (intro exI [of _ "pk\<lparr>pk_dma_cmd := None, pk_dma_md := d, pk_mbuf_md := m, pk_mbuf := []\<rparr>"])
      (simp add: release_packet_def drop_mbuf_def store_packet_def call_def recycle_def)
qed

text \<open>A received packet. It is accepted if the driver has an interface and the length is plausible.\<close>

definition accepts :: "net_kernel \<Rightarrow> u32 \<Rightarrow> packet_state \<Rightarrow> bool" where
  "accepts nk l s \<longleftrightarrow> ps_interface s \<and> l \<le> kIOEthernetMaxPacketSize nk"

definition receive_call :: "net_kernel \<Rightarrow> u32 \<Rightarrow> mbuf list \<Rightarrow> packet_state \<Rightarrow> queue_call" where
  "receive_call nk l mb s = (if accepts nk l s then InputPacket mb l else FreeMbuf mb)"

lemma receive_packet_ready:
  assumes "ps_packets s p = Some pk" "packet_ready pk" "pk_mbuf pk \<noteq> []"
  shows "\<exists>pk'. receive_packet nk l p (k, s) = Some (if accepts nk l s then k + 1 else k,
      s\<lparr>ps_packets := (ps_packets s)(p \<mapsto> pk'), ps_refs := \<lambda>i. ps_refs s i - packet_refs pk i,
      ps_pool := p # ps_pool s, ps_calls := ps_calls s @ [receive_call nk l (pk_mbuf pk) s]\<rparr>) \<and> packet_idle pk'"
proof -
  obtain d m where f: "finish_dma nk p s = Some (s\<lparr>ps_packets := (ps_packets s)(p \<mapsto> pk\<lparr>pk_dma_cmd := None, pk_dma_md := d, pk_mbuf_md := m\<rparr>),
      ps_refs := \<lambda>i. ps_refs s i - packet_refs pk i\<rparr>)" "packet_idle (pk\<lparr>pk_dma_cmd := None, pk_dma_md := d, pk_mbuf_md := m\<rparr>)"
    using finish_dma_ready [OF assms(1,2)] by blast
  have "packet_idle (pk\<lparr>pk_dma_cmd := None, pk_dma_md := d, pk_mbuf_md := m, pk_mbuf := []\<rparr>)"
    using f(2) by (simp add: packet_idle_def packet_ready_def)
  with f(1) assms(3) show ?thesis
    by (intro exI [of _ "pk\<lparr>pk_dma_cmd := None, pk_dma_md := d, pk_mbuf_md := m, pk_mbuf := []\<rparr>"])
      (simp add: receive_packet_def drop_mbuf_def store_packet_def call_def recycle_def accepts_def receive_call_def)
qed

section \<open>The bodies of the loops\<close>

lemma chain_id:
  assumes inv: "net_queue_inv q fs (fl1 @ (ch, p) # fl2)" and id: "ue_id e = of_nat (hd ch)"
  shows "ucast (ue_id e) = (of_nat (hd ch) :: u16)" "unat (of_nat (hd ch) :: u16) = hd ch" "hd ch < entries q" "(of_nat (hd ch) :: u16) \<noteq> UINT16_MAX"
proof -
  have h: "hd ch < entries q" "entries q \<le> 32768"
    using net_queue_inv_chains [OF inv, of ch p] net_wf_bounds [OF net_queue_inv_wf [OF inv]] by auto
  then show "hd ch < entries q" "unat (of_nat (hd ch) :: u16) = hd ch" "ucast (ue_id e) = (of_nat (hd ch) :: u16)"
    using id by (simp_all add: unsigned_of_nat take_bit_nat_eq_self)
  show "(of_nat (hd ch) :: u16) \<noteq> UINT16_MAX" using h by (intro of_nat_u16_neq_max) simp
qed

interpretation release: used_consumer "release_element nk fd" "\<lambda>e p. release_packet nk fd p" for nk fd
proof
  fix q fs fl1 ch p fl2 s s' and e :: vring_used_elem
  assume a: "net_queue_inv q fs (fl1 @ (ch, p) # fl2)" "ue_id e = of_nat (hd ch)" "release_packet nk fd p s = Some s'"
  from net_queue_inv_lookup [OF a(1)] chain_id [OF a(1,2)] a(3)
  show "release_element nk fd e (q, s) = map_option (\<lambda>q'. (q', s')) (freeDescriptorChain q (of_nat (hd ch)))"
    by (cases "freeDescriptorChain q (of_nat (hd ch))") (auto simp: release_element_def Let_def)
qed

text \<open>The loop for received packets removes the packet from the table before it frees the chain, which does so as well.\<close>

lemma freeDescriptorChain_forgotten:
  assumes "packets_for_descs q = Some ps" "i < 65536"
  shows "freeDescriptorChain (q\<lparr>packets_for_descs := Some (ps[i := None])\<rparr>) (of_nat i) = freeDescriptorChain q (of_nat i)"
  by (subst (1 2) freeDescriptorChain.simps) (use assms in \<open>cases "i < length ps"; simp add: vring_push_free_desc_def array_modify_def Let_def\<close>)

interpretation receive: used_consumer "receive_element nk" "\<lambda>e p. receive_packet nk (received_len (ue_len e)) p" for nk
proof
  fix q fs fl1 ch p fl2 and e :: vring_used_elem and s s' :: "nat \<times> packet_state"
  assume a: "net_queue_inv q fs (fl1 @ (ch, p) # fl2)" "ue_id e = of_nat (hd ch)" "receive_packet nk (received_len (ue_len e)) p s = Some s'"
  obtain ps where ps: "packets_for_descs q = Some ps" "length ps = entries q" "ps ! hd ch = Some p" using net_queue_inv_lookup [OF a(1)] by blast
  have "hd ch < 65536" using chain_id [OF a(1,2)] net_wf_bounds [OF net_queue_inv_wf [OF a(1)]] by simp
  then show "receive_element nk e (q, s) = map_option (\<lambda>q'. (q', s')) (freeDescriptorChain q (of_nat (hd ch)))"
    using freeDescriptorChain_forgotten [OF ps(1)] ps chain_id [OF a(1,2)] a(3)
    by (cases "freeDescriptorChain q (of_nat (hd ch))") (auto simp: receive_element_def Let_def)
qed

section \<open>Ownership of packets\<close>

text \<open>Packets that have been taken out of a queue and put into the pool, with the calls made for them.\<close>

definition mbuf_of :: "packet_state \<Rightarrow> nat \<Rightarrow> mbuf list" where
  "mbuf_of s p = pk_mbuf (the (ps_packets s p))"

definition refs_of :: "packet_state \<Rightarrow> nat \<Rightarrow> nat \<Rightarrow> int" where
  "refs_of s p = packet_refs (the (ps_packets s p))"

definition queued :: "packet_state \<Rightarrow> nat \<Rightarrow> bool" where
  "queued s p \<longleftrightarrow> (\<exists>pk. ps_packets s p = Some pk \<and> packet_ready pk \<and> pk_mbuf pk \<noteq> []) \<and> ps_debugger_packet s \<noteq> Some p"

definition pooled :: "packet_state \<Rightarrow> nat \<Rightarrow> bool" where
  "pooled s p \<longleftrightarrow> (\<exists>pk. ps_packets s p = Some pk \<and> packet_idle pk) \<and> ps_debugger_packet s \<noteq> Some p"

definition retired :: "packet_state \<Rightarrow> nat list \<Rightarrow> queue_call list \<Rightarrow> packet_state \<Rightarrow> bool" where
  "retired s ps cs s' \<longleftrightarrow> (\<exists>H.
     s' = s\<lparr>ps_packets := H, ps_refs := \<lambda>i. ps_refs s i - (\<Sum>p \<in> set ps. refs_of s p i), ps_pool := rev ps @ ps_pool s,
            ps_calls := ps_calls s @ cs\<rparr>
     \<and> (\<forall>p \<in> set ps. \<exists>pk. H p = Some pk \<and> packet_idle pk) \<and> (\<forall>p. p \<notin> set ps \<longrightarrow> H p = ps_packets s p))"

lemma retired_Nil: "retired s [] [] s"
  unfolding retired_def by (intro exI [of _ "ps_packets s"]) simp

lemma retired_Cons:
  assumes "retired s [p] [c] s1" "retired s1 ps cs s'" "p \<notin> set ps"
  shows "retired s (p # ps) (c # cs) s'"
proof -
  obtain H1 where H1: "s1 = s\<lparr>ps_packets := H1, ps_refs := \<lambda>i. ps_refs s i - refs_of s p i, ps_pool := p # ps_pool s, ps_calls := ps_calls s @ [c]\<rparr>"
    "\<exists>pk. H1 p = Some pk \<and> packet_idle pk" "\<And>q. q \<noteq> p \<Longrightarrow> H1 q = ps_packets s q" using assms(1) by (auto simp: retired_def)
  obtain H where H: "s' = s1\<lparr>ps_packets := H, ps_refs := \<lambda>i. ps_refs s1 i - (\<Sum>p \<in> set ps. refs_of s1 p i), ps_pool := rev ps @ ps_pool s1,
      ps_calls := ps_calls s1 @ cs\<rparr>" "\<forall>p \<in> set ps. \<exists>pk. H p = Some pk \<and> packet_idle pk" "\<And>q. q \<notin> set ps \<Longrightarrow> H q = H1 q"
    using assms(2) by (auto simp: retired_def H1(1))
  have same: "refs_of s1 q = refs_of s q" if "q \<in> set ps" for q
  proof -
    have "q \<noteq> p" using that assms(3) by auto
    then show ?thesis by (simp add: refs_of_def H1(1,3))
  qed
  have "s' = s\<lparr>ps_packets := H, ps_refs := \<lambda>i. ps_refs s i - (\<Sum>q \<in> set (p # ps). refs_of s q i),
      ps_pool := rev (p # ps) @ ps_pool s, ps_calls := ps_calls s @ c # cs\<rparr>"
    using assms(3) by (simp add: H(1) H1(1) same [unfolded H1(1)] algebra_simps)
  moreover have "\<exists>pk. H p = Some pk \<and> packet_idle pk" using H1(2) H(3) [OF assms(3)] by simp
  ultimately show ?thesis
    unfolding retired_def using H(2,3) H1(3) by (intro exI [of _ H]) simp
qed

lemma retired_simps:
  assumes "retired s ps cs s'"
  shows "ps_pool s' = rev ps @ ps_pool s" "ps_calls s' = ps_calls s @ cs" "ps_debugger_packet s' = ps_debugger_packet s"
    "ps_interface s' = ps_interface s" "ps_stalled s' = ps_stalled s" "transmit_packets_to_free s' = transmit_packets_to_free s"
    "ps_refs s' = (\<lambda>i. ps_refs s i - (\<Sum>p \<in> set ps. refs_of s p i))" "\<And>p. p \<notin> set ps \<Longrightarrow> ps_packets s' p = ps_packets s p"
    "\<And>p. p \<in> set ps \<Longrightarrow> \<exists>pk. ps_packets s' p = Some pk \<and> packet_idle pk"
  using assms by (auto simp: retired_def)

text \<open>No packet structure has been allocated or deallocated, and the configuration is the same.\<close>

definition same_memory :: "packet_state \<Rightarrow> packet_state \<Rightarrow> bool" where
  "same_memory s s' \<longleftrightarrow> dom (ps_packets s') = dom (ps_packets s) \<and> ps_debugger_packet s' = ps_debugger_packet s
     \<and> ps_notify_on_empty s' = ps_notify_on_empty s"

lemma retired_same_memory:
  assumes "retired s ps cs s'" "\<forall>p \<in> set ps. queued s p"
  shows "same_memory s s'"
proof -
  have "(ps_packets s' p = None) = (ps_packets s p = None)" for p
    using retired_simps(8,9) [OF assms(1), of p] assms(2) by (cases "p \<in> set ps") (auto simp: queued_def)
  moreover have "ps_notify_on_empty s' = ps_notify_on_empty s" using assms(1) by (auto simp: retired_def)
  ultimately show ?thesis using retired_simps(3) [OF assms(1)] by (auto simp: same_memory_def dom_def)
qed

text \<open>The handlers of the two loops, on packets that are queued.\<close>

lemma retired_single:
  assumes "ps_packets s p = Some pk" "packet_idle pk'"
    "s' = s\<lparr>ps_packets := (ps_packets s)(p \<mapsto> pk'), ps_refs := \<lambda>i. ps_refs s i - packet_refs pk i, ps_pool := p # ps_pool s,
       ps_calls := ps_calls s @ [c]\<rparr>"
  shows "retired s [p] [c] s'"
  using assms by (auto simp: retired_def refs_of_def)

lemma release_retired:
  assumes "queued s p"
  shows "\<exists>s'. release_packet nk False p s = Some s' \<and> retired s [p] [FreeMbuf (mbuf_of s p)] s'"
proof -
  obtain pk where pk: "ps_packets s p = Some pk" "packet_ready pk" "pk_mbuf pk \<noteq> []" "ps_debugger_packet s \<noteq> Some p"
    using assms by (auto simp: queued_def)
  then have "mbuf_of s p = pk_mbuf pk" by (simp add: mbuf_of_def)
  with release_packet_ready [OF pk(1,2,4,3), of nk] retired_single [OF pk(1)] show ?thesis by auto
qed

lemma receive_retired:
  assumes "queued s p"
  shows "\<exists>s'. receive_packet nk l p (k, s) = Some (if accepts nk l s then k + 1 else k, s')
    \<and> retired s [p] [receive_call nk l (mbuf_of s p) s] s'"
proof -
  obtain pk where pk: "ps_packets s p = Some pk" "packet_ready pk" "pk_mbuf pk \<noteq> []" using assms by (auto simp: queued_def)
  then have "mbuf_of s p = pk_mbuf pk" by (simp add: mbuf_of_def)
  with receive_packet_ready [OF pk, of nk l k] retired_single [OF pk(1)] show ?thesis by auto
qed

lemma retired_keeps_queued:
  assumes "retired s ps cs s'" "queued s p" "p \<notin> set ps"
  shows "queued s' p" "mbuf_of s' p = mbuf_of s p" "refs_of s' p = refs_of s p"
  using assms(2) retired_simps(3) [OF assms(1)] retired_simps(8) [OF assms(1,3)] by (simp_all add: queued_def mbuf_of_def refs_of_def)

lemma release_all:
  assumes "distinct ps" "\<forall>p \<in> set ps. queued s p"
  shows "\<exists>s'. foldM (release_packet nk False) ps s = Some s' \<and> retired s ps (map (\<lambda>p. FreeMbuf (mbuf_of s p)) ps) s'"
  using assms
proof (induction ps arbitrary: s)
  case (Cons p ps)
  then have "queued s p" "p \<notin> set ps" by auto
  obtain s1 where s1: "release_packet nk False p s = Some s1" "retired s [p] [FreeMbuf (mbuf_of s p)] s1"
    using release_retired [OF \<open>queued s p\<close>] by blast
  have keep: "queued s1 q \<and> mbuf_of s1 q = mbuf_of s q" if "q \<in> set ps" for q
    using retired_keeps_queued [OF s1(2), of q] that Cons.prems \<open>p \<notin> set ps\<close> by auto
  then obtain s' where s': "foldM (release_packet nk False) ps s1 = Some s'" "retired s1 ps (map (\<lambda>q. FreeMbuf (mbuf_of s1 q)) ps) s'"
    using Cons.IH [of s1] Cons.prems(1) by auto
  have "map (\<lambda>q. FreeMbuf (mbuf_of s1 q)) ps = map (\<lambda>q. FreeMbuf (mbuf_of s q)) ps" using keep by simp
  with s1(1) s' retired_Cons [OF s1(2) s'(2) \<open>p \<notin> set ps\<close>] show ?case by (simp del: map_eq_conv)
qed (simp add: retired_Nil)

lemma receive_all:
  assumes "distinct (map snd xs)" "\<forall>p \<in> set (map snd xs). queued s p"
  shows "\<exists>s'. foldM (\<lambda>(e, p). receive_packet nk (received_len (ue_len e)) p) xs (k, s)
      = Some (k + length (filter (\<lambda>(e, p). accepts nk (received_len (ue_len e)) s) xs), s')
    \<and> retired s (map snd xs) (map (\<lambda>(e, p). receive_call nk (received_len (ue_len e)) (mbuf_of s p) s) xs) s'"
  using assms
proof (induction xs arbitrary: s k)
  case (Cons x xs)
  obtain e p where x: "x = (e, p)" by (cases x)
  let ?l = "received_len (ue_len e)"
  have q: "queued s p" "p \<notin> set (map snd xs)" using Cons.prems by (auto simp: x)
  obtain s1 where s1: "receive_packet nk ?l p (k, s) = Some (if accepts nk ?l s then k + 1 else k, s1)"
    "retired s [p] [receive_call nk ?l (mbuf_of s p) s] s1" using receive_retired [OF q(1)] by blast
  have acc: "accepts nk l s1 = accepts nk l s" for l using retired_simps(4) [OF s1(2)] by (simp add: accepts_def)
  have keep: "queued s1 q \<and> mbuf_of s1 q = mbuf_of s q" if "q \<in> set (map snd xs)" for q
    using retired_keeps_queued [OF s1(2), of q] that Cons.prems q(2) by auto
  obtain s' where s': "foldM (\<lambda>(e, p). receive_packet nk (received_len (ue_len e)) p) xs (if accepts nk ?l s then k + 1 else k, s1)
      = Some ((if accepts nk ?l s then k + 1 else k) + length (filter (\<lambda>(e, p). accepts nk (received_len (ue_len e)) s1) xs), s')"
    "retired s1 (map snd xs) (map (\<lambda>(e, p). receive_call nk (received_len (ue_len e)) (mbuf_of s1 p) s1) xs) s'"
    using Cons.IH [of s1 "if accepts nk ?l s then k + 1 else k"] Cons.prems(1) keep by (auto simp: x)
  have "map (\<lambda>(e, p). receive_call nk (received_len (ue_len e)) (mbuf_of s1 p) s1) xs
      = map (\<lambda>(e, p). receive_call nk (received_len (ue_len e)) (mbuf_of s p) s) xs"
    using keep by (intro map_cong) (force simp: receive_call_def acc)+
  with s1(1) s' retired_Cons [OF s1(2) s'(2) q(2)] show ?case by (simp add: x acc del: map_eq_conv split: if_splits)
qed (simp add: retired_Nil)

text \<open>Who owns a packet structure: the pool, the list left by the debugger, or a chain in a queue. The descriptors of packets in queues account for
  all references beyond \<open>base\<close>.\<close>

fun dequeued_list :: "packet_state \<Rightarrow> nat option \<Rightarrow> nat list \<Rightarrow> bool" where
  "dequeued_list s cur [] \<longleftrightarrow> cur = None"
| "dequeued_list s cur (p # ps) \<longleftrightarrow> cur = Some p \<and> pooled s p \<and> dequeued_list s (pk_next_free (the (ps_packets s p))) ps"

definition packets_inv :: "refcounts \<Rightarrow> packet_state \<Rightarrow> nat list \<Rightarrow> nat list \<Rightarrow> bool" where
  "packets_inv base s flying dequeued \<longleftrightarrow>
     distinct (ps_pool s @ dequeued @ flying) \<and> (\<forall>p \<in> set (ps_pool s). pooled s p)
     \<and> dequeued_list s (transmit_packets_to_free s) dequeued \<and> (\<forall>p \<in> set flying. queued s p)
     \<and> (\<forall>i. ps_refs s i = base i + (\<Sum>p \<in> set flying. refs_of s p i))"

lemma dequeued_list_cong:
  assumes "\<And>p. p \<in> set ps \<Longrightarrow> ps_packets s' p = ps_packets s p" "ps_debugger_packet s' = ps_debugger_packet s"
  shows "dequeued_list s' cur ps = dequeued_list s cur ps"
  using assms by (induction ps arbitrary: cur) (auto simp: pooled_def)

text \<open>Changes that do not concern ownership.\<close>

lemma packets_inv_frame:
  assumes "packets_inv base s flying tf"
  shows "packets_inv base (s\<lparr>ps_calls := cs\<rparr>) flying tf" "packets_inv base (s\<lparr>ps_stalled := st\<rparr>) flying tf"
    "packets_inv base (s\<lparr>ps_stalled := st, ps_calls := cs\<rparr>) flying tf"
proof -
  have "pooled (s\<lparr>ps_calls := cs\<rparr>) = pooled s" "queued (s\<lparr>ps_calls := cs\<rparr>) = queued s" "refs_of (s\<lparr>ps_calls := cs\<rparr>) = refs_of s"
    "pooled (s\<lparr>ps_stalled := st\<rparr>) = pooled s" "queued (s\<lparr>ps_stalled := st\<rparr>) = queued s" "refs_of (s\<lparr>ps_stalled := st\<rparr>) = refs_of s"
    for s st cs by (simp_all add: pooled_def queued_def refs_of_def fun_eq_iff)
  note same = this
  have dl: "dequeued_list (s\<lparr>ps_calls := cs\<rparr>) = dequeued_list s" "dequeued_list (s\<lparr>ps_stalled := st\<rparr>) = dequeued_list s" for s st cs
    using dequeued_list_cong [of _ "s\<lparr>ps_calls := cs\<rparr>" s] dequeued_list_cong [of _ "s\<lparr>ps_stalled := st\<rparr>" s] by (simp_all add: fun_eq_iff)
  show "packets_inv base (s\<lparr>ps_calls := cs\<rparr>) flying tf" "packets_inv base (s\<lparr>ps_stalled := st\<rparr>) flying tf"
    "packets_inv base (s\<lparr>ps_stalled := st, ps_calls := cs\<rparr>) flying tf"
    using assms by (simp_all add: packets_inv_def same dl)
qed

text \<open>Packets that leave a queue become part of the pool.\<close>

lemma packets_inv_retired:
  assumes inv: "packets_inv base s flying tf" and ret: "retired s ps cs s'" and ps: "distinct ps" "set ps \<subseteq> set flying"
    and flying': "distinct flying'" "set flying' = set flying - set ps"
  shows "packets_inv base s' flying' tf"
proof -
  note r = retired_simps [OF ret]
  have d: "distinct (ps_pool s @ tf @ flying)" and q: "\<And>p. p \<in> set flying \<Longrightarrow> queued s p"
    and po: "\<And>p. p \<in> set (ps_pool s) \<Longrightarrow> pooled s p" using inv by (auto simp: packets_inv_def)
  have 1: "distinct (ps_pool s' @ tf @ flying')" using d ps flying' by (auto simp: r(1))
  have 2: "pooled s' p" if "p \<in> set (ps_pool s')" for p
  proof (cases "p \<in> set ps")
    case True
    then have "queued s p" using q ps(2) by auto
    with r(3,9) True show ?thesis by (auto simp: pooled_def queued_def)
  next
    case False
    with that have "p \<in> set (ps_pool s)" by (auto simp: r(1))
    with po r(3,8) False show ?thesis by (auto simp: pooled_def)
  qed
  have "ps_packets s' p = ps_packets s p" if "p \<in> set tf" for p using that d ps(2) by (intro r(8)) auto
  then have 3: "dequeued_list s' (transmit_packets_to_free s') tf"
    using inv r(3,6) dequeued_list_cong [of tf s' s] by (simp add: packets_inv_def)
  have 4: "queued s' p" "refs_of s' p = refs_of s p" if "p \<in> set flying'" for p
    using that flying'(2) retired_keeps_queued [OF ret, of p] q by auto
  have "ps_refs s' i = base i + (\<Sum>p \<in> set flying'. refs_of s' p i)" for i
  proof -
    have "(\<Sum>p \<in> set flying. refs_of s p i) = (\<Sum>p \<in> set flying'. refs_of s p i) + (\<Sum>p \<in> set ps. refs_of s p i)"
      using ps(2) by (simp add: flying'(2) sum.subset_diff)
    moreover have "(\<Sum>p \<in> set flying'. refs_of s' p i) = (\<Sum>p \<in> set flying'. refs_of s p i)" using 4(2) by simp
    ultimately show ?thesis using inv by (simp add: packets_inv_def r(7))
  qed
  with 1 2 3 4 show ?thesis by (simp add: packets_inv_def)
qed

text \<open>The packets left by the debugger.\<close>

lemma free_dequeued_all:
  assumes "dequeued_list s cur tf"
  shows "free_dequeued cur s = Some (s\<lparr>ps_pool := rev tf @ ps_pool s, ps_calls := ps_calls s @ map (\<lambda>p. FreeMbuf (mbuf_of s p)) tf\<rparr>)"
  using assms
proof (induction tf arbitrary: cur s)
  case Nil
  then show ?case by (subst free_dequeued.simps) simp
next
  case (Cons p tf)
  then obtain pk where pk: "ps_packets s p = Some pk" "cur = Some p" by (auto simp: pooled_def)
  let ?s = "recycle p (call (FreeMbuf (pk_mbuf pk)) s)"
  have same: "ps_packets ?s = ps_packets s" "ps_debugger_packet ?s = ps_debugger_packet s" "mbuf_of ?s = mbuf_of s"
    by (simp_all add: recycle_def call_def mbuf_of_def fun_eq_iff)
  have "dequeued_list ?s (pk_next_free pk) tf" using Cons.prems pk dequeued_list_cong [of tf ?s s] same by simp
  from Cons.IH [OF this] same show ?case using pk
    by (subst free_dequeued.simps) (simp add: recycle_def call_def mbuf_of_def)
qed

lemma packets_inv_free_dequeued:
  assumes "packets_inv base s flying tf"
  shows "packets_inv base (s\<lparr>transmit_packets_to_free := None, ps_pool := rev tf @ ps_pool s, ps_calls := cs\<rparr>) flying []"
proof -
  let ?s = "s\<lparr>transmit_packets_to_free := None, ps_pool := rev tf @ ps_pool s, ps_calls := cs\<rparr>"
  have "pooled s p" if "dequeued_list s cur tf" "p \<in> set tf" for cur p using that by (induction tf arbitrary: cur) auto
  then have "\<forall>p \<in> set tf. pooled s p" using assms by (auto simp: packets_inv_def)
  moreover have "pooled ?s = pooled s" "queued ?s = queued s" "refs_of ?s = refs_of s"
    by (simp_all add: pooled_def queued_def refs_of_def fun_eq_iff)
  ultimately show ?thesis using assms by (auto simp: packets_inv_def)
qed

section \<open>Sent and received packets\<close>

lemma foldM_zip_snd:
  "length es = length xs \<Longrightarrow> foldM (\<lambda>(e, x). g (snd x)) (zip es xs) s = foldM g (map snd xs) s"
  by (induction es xs arbitrary: s rule: list_induct2) (auto cong: Option.bind_cong)

lemma foldM_zip_pair:
  "length es = length xs \<Longrightarrow> foldM (\<lambda>(e, x). g e (snd x)) (zip es xs) s = foldM (\<lambda>(e, p). g e p) (zip es (map snd xs)) s"
  by (induction es xs arbitrary: s rule: list_induct2) (auto cong: Option.bind_cong)

lemma device_returns_last: "device_returns snap k n l es \<Longrightarrow> us_idx (snap (k + length es)) = l + of_nat (length es)"
proof (induction es arbitrary: k l)
  case (Cons e es)
  then show ?case using Cons.IH [of "Suc k" "l + 1"] by (simp add: algebra_simps)
qed simp

lemma filter_flights:
  assumes "distinct (map snd fl @ other)" "set done \<subseteq> set fl"
  shows "distinct (map snd (filter (\<lambda>x. x \<notin> set done) fl) @ other)"
    "set (map snd (filter (\<lambda>x. x \<notin> set done) fl) @ other) = set (map snd fl @ other) - set (map snd done)"
proof -
  have inj: "inj_on snd (set fl)" "distinct (map snd fl)" "set (map snd fl) \<inter> set other = {}" using assms(1) by (auto simp: distinct_map)
  show "distinct (map snd (filter (\<lambda>x. x \<notin> set done) fl) @ other)" using assms(1) by (auto simp: distinct_map_filter)
  have "snd ` (set fl - set done) = snd ` set fl - snd ` set done"
    using inj(1) assms(2) by (simp add: inj_on_image_set_diff)
  moreover have "set other \<inter> snd ` set done = {}" using inj(3) assms(2) by auto
  moreover have "set (filter (\<lambda>x. x \<notin> set done) fl) = set fl - set done" by auto
  ultimately show "set (map snd (filter (\<lambda>x. x \<notin> set done) fl) @ other) = set (map snd fl @ other) - set (map snd done)"
    by (auto simp del: set_filter)
qed

lemma releaseSentPackets_ok:
  assumes inv: "net_queue_inv q fs fl" and pinv: "packets_inv base s (map snd fl @ other) tf"
    and dev: "device_returns snap 0 (entries q) (last_used_idx q) es"
    and ids: "map ue_id es = map (of_nat \<circ> hd \<circ> fst) done" "distinct done" "set done \<subseteq> set fl"
  shows "\<exists>q' s'. releaseSentPackets nk False snap (q, s) = Some (q', s')
    \<and> net_queue_inv q' (rev (concat (map fst done)) @ fs) (filter (\<lambda>x. x \<notin> set done) fl)
    \<and> packets_inv base s' (map snd (filter (\<lambda>x. x \<notin> set done) fl) @ other) []
    \<and> ps_calls s' = ps_calls s @ map (\<lambda>p. FreeMbuf (mbuf_of s p)) (tf @ map snd done) @ (if ps_stalled s then [StartOutputQueue] else [])
    \<and> \<not> ps_stalled s' \<and> last_used_idx q' = us_idx (snap (length es)) \<and> avail q' = avail q
    \<and> last_used_idx q' = last_used_idx q + of_nat (length es) \<and> num q' = num q \<and> same_memory s s'"
proof -
  let ?fl = "filter (\<lambda>x. x \<notin> set done) fl"
  let ?s = "s\<lparr>transmit_packets_to_free := None, ps_pool := rev tf @ ps_pool s, ps_calls := ps_calls s @ map (\<lambda>p. FreeMbuf (mbuf_of s p)) tf\<rparr>"
  have same: "mbuf_of ?s = mbuf_of s" "queued ?s = queued s" by (simp_all add: mbuf_of_def queued_def fun_eq_iff)
  have deq: "free_dequeued (transmit_packets_to_free s) (s\<lparr>transmit_packets_to_free := None\<rparr>) = Some ?s"
  proof -
    have "dequeued_list s (transmit_packets_to_free s) tf" using pinv by (simp add: packets_inv_def)
    then have "dequeued_list (s\<lparr>transmit_packets_to_free := None\<rparr>) (transmit_packets_to_free s) tf"
      by (subst dequeued_list_cong [of _ _ s]) simp_all
    moreover have "mbuf_of (s\<lparr>transmit_packets_to_free := None\<rparr>) = mbuf_of s" by (simp add: mbuf_of_def fun_eq_iff)
    ultimately show ?thesis by (simp add: free_dequeued_all)
  qed
  have pinv1: "packets_inv base ?s (map snd fl @ other) []" using packets_inv_free_dequeued [OF pinv] by simp
  have dist: "distinct (map snd fl @ other)" and qd: "\<forall>p \<in> set (map snd fl). queued s p" using pinv by (auto simp: packets_inv_def)
  have dd: "distinct (map snd done)" "set (map snd done) \<subseteq> set (map snd fl)"
    using dist ids(2,3) by (auto simp: distinct_map inj_on_subset)
  obtain s1 where s1: "foldM (release_packet nk False) (map snd done) ?s = Some s1"
    "retired ?s (map snd done) (map (\<lambda>p. FreeMbuf (mbuf_of s p)) (map snd done)) s1"
  proof -
    have "\<forall>p \<in> set (map snd done). queued ?s p" using ids(3) qd same(2) by fastforce
    from release_all [OF dd(1) this, of nk] same(1) that show ?thesis by auto
  qed
  have len: "length es = length done" using ids(1) by (metis length_map)
  have fold: "foldM (\<lambda>(e, x). release_packet nk False (snd x)) (zip es done) ?s = Some s1" using foldM_zip_snd [OF len, of "release_packet nk False"] s1(1) by simp
  obtain q' where q': "for_used (release_element nk False) snap 0 (q, ?s) = Some (q', s1)"
    "net_queue_inv q' (rev (concat (map fst done)) @ fs) ?fl" "last_used_idx q' = last_used_idx q + of_nat (length es)" "avail q' = avail q"
    "num q' = num q" using release.consume_all [OF inv dev ids(2,3,1) fold] by auto
  note r = retired_simps [OF s1(2)]
  have pinv': "packets_inv base s1 (map snd ?fl @ other) []"
    using dd(2) by (intro packets_inv_retired [OF pinv1 s1(2) dd(1) _ filter_flights [OF dist ids(3)]]) (simp add: le_supI1)
  let ?s' = "if ps_stalled s1 then call StartOutputQueue (s1\<lparr>ps_stalled := False\<rparr>) else s1"
  have "releaseSentPackets nk False snap (q, s) = Some (q', ?s')" using deq q'(1) by (simp add: releaseSentPackets_def)
  moreover have "packets_inv base ?s' (map snd ?fl @ other) []" using packets_inv_frame [OF pinv'] pinv' by (simp add: call_def)
  moreover have "last_used_idx q' = us_idx (snap (length es))" using device_returns_last [OF dev] q'(3) by simp
  moreover have "\<forall>p \<in> set (map snd done). queued ?s p" unfolding same(2) using dd(2) qd by blast
  then have "same_memory ?s s1" by (rule retired_same_memory [OF s1(2)])
  then have "same_memory s ?s'" by (simp add: same_memory_def call_def)
  ultimately show ?thesis using q'(2-5) r(2,5) by (auto simp: call_def)
qed

lemma handleReceivedPackets_ok:
  assumes inv: "net_queue_inv q fs fl" and pinv: "packets_inv base s (map snd fl @ other) tf"
    and dev: "device_returns snap 0 (entries q) (last_used_idx q) es"
    and ids: "map ue_id es = map (of_nat \<circ> hd \<circ> fst) done" "distinct done" "set done \<subseteq> set fl"
  shows "\<exists>q' s'. handleReceivedPackets nk snap (q, s) = Some (q', s')
    \<and> net_queue_inv q' (rev (concat (map fst done)) @ fs) (filter (\<lambda>x. x \<notin> set done) fl)
    \<and> packets_inv base s' (map snd (filter (\<lambda>x. x \<notin> set done) fl) @ other) tf
    \<and> ps_calls s' = ps_calls s
        @ map (\<lambda>(e, p). receive_call nk (received_len (ue_len e)) (mbuf_of s p) s) (zip es (map snd done))
        @ (if \<exists>e \<in> set es. accepts nk (received_len (ue_len e)) s then [FlushInputQueue] else [])
    \<and> last_used_idx q' = us_idx (snap (length es)) \<and> avail q' = avail q
    \<and> last_used_idx q' = last_used_idx q + of_nat (length es) \<and> num q' = num q \<and> same_memory s s'"
proof -
  let ?fl = "filter (\<lambda>x. x \<notin> set done) fl"
  let ?xs = "zip es (map snd done)"
  let ?acc = "\<lambda>e. accepts nk (received_len (ue_len e)) s"
  have dist: "distinct (map snd fl @ other)" and qd: "\<forall>p \<in> set (map snd fl). queued s p" using pinv by (auto simp: packets_inv_def)
  have len: "length es = length done" using ids(1) by (metis length_map)
  have snds: "map snd ?xs = map snd done" and fsts: "map fst ?xs = es" using len by simp_all
  have dd: "distinct (map snd done)" "set (map snd done) \<subseteq> set (map snd fl)"
    using dist ids(2,3) by (auto simp: distinct_map inj_on_subset)
  have "\<forall>p \<in> set (map snd ?xs). queued s p" unfolding snds using ids(3) qd by fastforce
  then obtain s1 where s1: "foldM (\<lambda>(e, p). receive_packet nk (received_len (ue_len e)) p) ?xs (0, s)
      = Some (length (filter (\<lambda>(e, p). ?acc e) ?xs), s1)"
    "retired s (map snd done) (map (\<lambda>(e, p). receive_call nk (received_len (ue_len e)) (mbuf_of s p) s) ?xs) s1"
    using receive_all [of ?xs s nk 0] dd(1) unfolding snds by auto
  have fold: "foldM (\<lambda>(e, x). receive_packet nk (received_len (ue_len e)) (snd x)) (zip es done) (0, s)
      = Some (length (filter (\<lambda>(e, p). ?acc e) ?xs), s1)"
    using foldM_zip_pair [OF len, of "\<lambda>e. receive_packet nk (received_len (ue_len e))"] s1(1) by simp
  obtain q' where q': "for_used (receive_element nk) snap 0 (q, 0, s) = Some (q', length (filter (\<lambda>(e, p). ?acc e) ?xs), s1)"
    "net_queue_inv q' (rev (concat (map fst done)) @ fs) ?fl" "last_used_idx q' = last_used_idx q + of_nat (length es)" "avail q' = avail q"
    "num q' = num q" using receive.consume_all [OF inv dev ids(2,3,1) fold] by auto
  have "filter (\<lambda>(e, p). ?acc e) xs = [] \<longleftrightarrow> filter ?acc (map fst xs) = []" for xs :: "(vring_used_elem \<times> nat) list" by (induction xs) auto
  from this [of ?xs] have any: "0 < length (filter (\<lambda>(e, p). ?acc e) ?xs) \<longleftrightarrow> (\<exists>e \<in> set es. ?acc e)"
    unfolding fsts by (auto simp: filter_empty_conv)
  have pinv': "packets_inv base s1 (map snd ?fl @ other) tf"
    using dd(2) by (intro packets_inv_retired [OF pinv s1(2) dd(1) _ filter_flights [OF dist ids(3)]]) (simp add: le_supI1)
  let ?s' = "if \<exists>e \<in> set es. ?acc e then call FlushInputQueue s1 else s1"
  have "handleReceivedPackets nk snap (q, s) = Some (q', ?s')" using q'(1) any by (simp add: handleReceivedPackets_def)
  moreover have "packets_inv base ?s' (map snd ?fl @ other) tf" using packets_inv_frame(1) [OF pinv'] pinv' by (simp add: call_def)
  moreover have "last_used_idx q' = us_idx (snap (length es))" using device_returns_last [OF dev] q'(3) by simp
  moreover have "\<forall>p \<in> set (map snd done). queued s p" using dd(2) qd by blast
  then have "same_memory s s1" by (rule retired_same_memory [OF s1(2)])
  then have "same_memory s ?s'" by (simp add: same_memory_def call_def)
  ultimately show ?thesis using q'(2-5) retired_simps(2) [OF s1(2)] by (auto simp: call_def)
qed

end
