(* ===== verification/Packet_Queue_Add.thy ===== *)
theory Packet_Queue_Add
  imports Packet_Queue_Complete
begin

text \<open>
  Adding packets to a queue: the segments of a packet become a chain of descriptors that is entered in the available ring, or everything is taken
  back; the receive queue is filled until it has no room for another packet.
\<close>

section \<open>From segments to descriptors\<close>

lemma i32_neg_minus_one [simp]: "i32_neg (- 1)"
  by (simp add: i32_neg_def)

lemma i32_neg_of_nat: "i < 65536 \<Longrightarrow> \<not> i32_neg (of_nat i)"
proof -
  assume "i < 65536"
  then have "sint (of_nat i :: 32 word) = int i" by (simp add: signed_of_nat signed_take_bit_int_eq_self)
  then show ?thesis by (simp add: i32_neg_def)
qed

lemma of_nat_i32:
  assumes "i < 65536"
  shows "unat (of_nat i :: 32 word) = i" "ucast (of_nat i :: 32 word) = (of_nat i :: u16)"
  using assms by (simp_all add: unsigned_of_nat take_bit_nat_eq_self)

text \<open>The descriptor of a segment.\<close>

definition segment_desc :: "u8 \<Rightarrow> Segment64 \<Rightarrow> vring_desc" where
  "segment_desc fl seg = \<lparr>addr = fIOVMAddr seg, len = ucast (fLength seg), flags = ucast fl, next = UINT16_MAX\<rparr>"

lemma outputPacketSegment_ok:
  assumes pool: "net_pool q (f # fs)" and ctx: "\<not> cs_error ctx" "cs_descs ctx = map of_nat taken @ replicate (Suc m) (- 1)"
    "unat (cs_max_num_descs ctx) = length taken + Suc m"
  shows "\<exists>h n total. outputPacketSegment seg (length taken) (q, ctx) = Some (True,
      q\<lparr>desc := (desc q)[f := segment_desc (cs_buffer_direction_flag ctx) seg], free_desc_head := h, num_free_desc := n\<rparr>,
      ctx\<lparr>cs_descs := map of_nat (taken @ [f]) @ replicate m (- 1), cs_total_len := total, cs_descs_allocd := cs_descs_allocd ctx + 1,
          cs_max_segment_created := max (cs_max_segment_created ctx) (int (length taken))\<rparr>)
    \<and> net_pool (q\<lparr>desc := (desc q)[f := segment_desc (cs_buffer_direction_flag ctx) seg], free_desc_head := h, num_free_desc := n\<rparr>) fs"
proof -
  have f: "f < entries q" "f \<notin> set fs" using net_pool_less [OF pool] nq.pool_distinct [OF pool] by auto
  have small: "f < 65536" "f < length (desc q)" using f(1) net_wf_bounds [OF net_pool_wf [OF pool]] pool by (auto simp: net_pool_def net_wf_def)
  let ?q = "q\<lparr>free_desc_head := next (desc q ! f), num_free_desc := num_free_desc q - 1\<rparr>"
  let ?d = "segment_desc (cs_buffer_direction_flag ctx) seg"
  note pop = pop_Cons [OF pool]
  have "free_chain ((desc q)[f := ?d]) h fs = free_chain (desc q) h fs" for h
    using f(2) by (intro free_chain_cong) (auto simp: nth_list_update_mem)
  then have pool': "net_pool (q\<lparr>desc := (desc q)[f := ?d], free_desc_head := next (desc q ! f), num_free_desc := num_free_desc q - 1\<rparr>) fs"
    using pop(2) by (auto simp: net_pool_def net_wf_def)
  have upd: "(map of_nat taken @ replicate (Suc m) (- 1))[length taken := of_nat f] = map of_nat (taken @ [f]) @ replicate m (- 1 :: 32 word)"
    by (simp add: list_update_append)
  have nth: "(map of_nat taken @ replicate (Suc m) (- 1)) ! length taken = (- 1 :: 32 word)" by (simp add: nth_append)
  show ?thesis
    by (rule exI [of _ "next (desc q ! f)"], rule exI [of _ "num_free_desc q - 1"], rule exI [of _ "cs_total_len ctx + ucast (fLength seg)"])
      (use pop(1) ctx small nth upd pool' in \<open>simp add: outputPacketSegment_def i32_neg_of_nat of_nat_i32 segment_desc_def\<close>)
qed

lemma output_segments_ok:
  assumes "net_pool q fs" "\<not> cs_error ctx" "cs_descs ctx = map of_nat taken @ replicate m (- 1)"
    "unat (cs_max_num_descs ctx) = length taken + m" "length segs \<le> m" "m \<le> length fs"
  shows "\<exists>ds h n ctx'. output_segments (length taken) segs (q, ctx)
      = Some (length taken + length segs, q\<lparr>desc := ds, free_desc_head := h, num_free_desc := n\<rparr>, ctx')
    \<and> cs_descs ctx' = map of_nat (taken @ take (length segs) fs) @ replicate (m - length segs) (- 1)
    \<and> net_pool (q\<lparr>desc := ds, free_desc_head := h, num_free_desc := n\<rparr>) (drop (length segs) fs)
    \<and> length ds = length (desc q) \<and> (\<forall>j. j \<notin> set (take (length segs) fs) \<longrightarrow> ds ! j = desc q ! j)
    \<and> (\<forall>k < length segs. ds ! (fs ! k) = segment_desc (cs_buffer_direction_flag ctx) (segs ! k))"
  using assms
proof (induction segs arbitrary: q ctx taken m fs)
  case Nil
  show ?case
    by (rule exI [of _ "desc q"], rule exI [of _ "free_desc_head q"], rule exI [of _ "num_free_desc q"], rule exI [of _ ctx]) (use Nil in simp)
next
  case (Cons seg segs)
  obtain m' where m: "m = Suc m'" using Cons.prems(5) by (cases m) auto
  obtain f fs' where fs: "fs = f # fs'" using Cons.prems(6) m by (cases fs) auto
  let ?fl = "cs_buffer_direction_flag ctx"
  obtain h1 n1 total where one: "outputPacketSegment seg (length taken) (q, ctx) = Some (True,
      q\<lparr>desc := (desc q)[f := segment_desc ?fl seg], free_desc_head := h1, num_free_desc := n1\<rparr>,
      ctx\<lparr>cs_descs := map of_nat (taken @ [f]) @ replicate m' (- 1), cs_total_len := total, cs_descs_allocd := cs_descs_allocd ctx + 1,
          cs_max_segment_created := max (cs_max_segment_created ctx) (int (length taken))\<rparr>)"
    and pool1: "net_pool (q\<lparr>desc := (desc q)[f := segment_desc ?fl seg], free_desc_head := h1, num_free_desc := n1\<rparr>) fs'"
    using outputPacketSegment_ok [of q f fs' ctx taken m' seg] Cons.prems by (auto simp: fs m)
  let ?q = "q\<lparr>desc := (desc q)[f := segment_desc ?fl seg], free_desc_head := h1, num_free_desc := n1\<rparr>"
  let ?ctx = "ctx\<lparr>cs_descs := map of_nat (taken @ [f]) @ replicate m' (- 1), cs_total_len := total, cs_descs_allocd := cs_descs_allocd ctx + 1,
          cs_max_segment_created := max (cs_max_segment_created ctx) (int (length taken))\<rparr>"
  have f: "f < length (desc q)" "f \<notin> set fs'"
    using net_pool_less [OF Cons.prems(1)] nq.pool_distinct [OF Cons.prems(1)] Cons.prems(1) by (auto simp: fs net_pool_def net_wf_def)
  obtain ds h n ctx' where IH: "output_segments (length (taken @ [f])) segs (?q, ?ctx)
      = Some (length (taken @ [f]) + length segs, ?q\<lparr>desc := ds, free_desc_head := h, num_free_desc := n\<rparr>, ctx')"
    "cs_descs ctx' = map of_nat ((taken @ [f]) @ take (length segs) fs') @ replicate (m' - length segs) (- 1)"
    "net_pool (?q\<lparr>desc := ds, free_desc_head := h, num_free_desc := n\<rparr>) (drop (length segs) fs')"
    "length ds = length (desc ?q)" "\<forall>j. j \<notin> set (take (length segs) fs') \<longrightarrow> ds ! j = desc ?q ! j"
    "\<forall>k < length segs. ds ! (fs' ! k) = segment_desc (cs_buffer_direction_flag ?ctx) (segs ! k)"
    using Cons.IH [OF pool1, of ?ctx "taken @ [f]" m'] Cons.prems by (auto simp: fs m)
  have "f \<notin> set (take (length segs) fs')" using f(2) by (meson in_set_takeD)
  with IH(5) f(1) have head: "ds ! f = segment_desc ?fl seg" by simp
  have "ds ! (fs ! k) = segment_desc ?fl ((seg # segs) ! k)" if "k < length (seg # segs)" for k
    using that IH(6) head by (cases k) (auto simp: fs)
  moreover have "ds ! j = desc q ! j" if "j \<notin> set (take (length (seg # segs)) fs)" for j using that IH(5) by (auto simp: fs)
  ultimately show ?case
    by (intro exI [of _ ds] exI [of _ h] exI [of _ n] exI [of _ ctx'] conjI)
      (use one IH(1-4) in \<open>simp_all add: fs m\<close>)
qed

text \<open>Giving the descriptors back.\<close>

lemma push_back_eq:
  "\<forall>i \<in> set xs. i < 65536 \<Longrightarrow> push_back (map of_nat xs @ replicate m (- 1)) q = foldM (\<lambda>i q. vring_push_free_desc q (of_nat i)) xs q"
proof (induction xs arbitrary: q)
  case Nil
  show ?case by (induction m) (simp_all add: push_back_def)
next
  case (Cons x xs)
  then show ?case by (auto simp: push_back_def i32_neg_of_nat of_nat_i32 cong: Option.bind_cong)
qed

text \<open>Linking them.\<close>

lemma link_flag:
  "has_bits (f OR VRING_DESC_F_NEXT) VRING_DESC_F_NEXT"
  "has_bits (f OR VRING_DESC_F_NEXT) VRING_DESC_F_WRITE = has_bits f VRING_DESC_F_WRITE" for f :: u16
proof -
  have "(f OR 1) AND 1 = 1" by (simp add: and_one_eq even_or_iff mod_2_eq_odd)
  then show "has_bits (f OR VRING_DESC_F_NEXT) VRING_DESC_F_NEXT" by (simp add: has_bits_def VRING_DESC_F_NEXT_def)
  have "(f OR 1) AND 2 = f AND 2" by (simp add: bit.conj_disj_distrib2)
  then show "has_bits (f OR VRING_DESC_F_NEXT) VRING_DESC_F_WRITE = has_bits f VRING_DESC_F_WRITE"
    by (simp add: has_bits_def VRING_DESC_F_NEXT_def VRING_DESC_F_WRITE_def)
qed

lemma link_descs_ok:
  assumes "distinct (i # js)" "\<forall>j \<in> set (i # js). j < length ds \<and> j < 65536" "\<forall>j \<in> set (i # js). \<not> has_bits (flags (ds ! j)) VRING_DESC_F_NEXT"
  shows "\<exists>ds'. link_descs (of_nat i) (map of_nat js) ds = Some ds' \<and> length ds' = length ds \<and> packet_chain ds' (i # js)
    \<and> (\<forall>j. j \<notin> set (i # js) \<longrightarrow> ds' ! j = ds ! j)
    \<and> (\<forall>j \<in> set (i # js). addr (ds' ! j) = addr (ds ! j) \<and> len (ds' ! j) = len (ds ! j)
         \<and> has_bits (flags (ds' ! j)) VRING_DESC_F_WRITE = has_bits (flags (ds ! j)) VRING_DESC_F_WRITE)"
  using assms
proof (induction js arbitrary: i ds)
  case Nil
  then show ?case by simp
next
  case (Cons j js)
  have i: "i < length ds" "i < 65536" "i \<noteq> j" "i \<notin> set js" and j: "j < 65536" using Cons.prems by auto
  define e where "e = (ds ! i)\<lparr>next := of_nat j, flags := flags (ds ! i) OR VRING_DESC_F_NEXT\<rparr>"
  let ?ds = "ds[i := e]"
  have outside: "?ds ! k = ds ! k" if "k \<in> set (j # js)" for k using that i by (metis nth_list_update_neq set_ConsD)
  have 1: "distinct (j # js)" using Cons.prems(1) by simp
  have 2: "\<forall>k \<in> set (j # js). k < length ?ds \<and> k < 65536" using Cons.prems(2) by simp
  have 3: "\<forall>k \<in> set (j # js). \<not> has_bits (flags (?ds ! k)) VRING_DESC_F_NEXT" using Cons.prems(3) outside by simp
  obtain ds' where ds': "link_descs (of_nat j) (map of_nat js) ?ds = Some ds'" "length ds' = length ?ds" "packet_chain ds' (j # js)"
    "\<forall>k. k \<notin> set (j # js) \<longrightarrow> ds' ! k = ?ds ! k"
    "\<forall>k \<in> set (j # js). addr (ds' ! k) = addr (?ds ! k) \<and> len (ds' ! k) = len (?ds ! k)
         \<and> has_bits (flags (ds' ! k)) VRING_DESC_F_WRITE = has_bits (flags (?ds ! k)) VRING_DESC_F_WRITE"
    using Cons.IH [OF 1 2 3] by blast
  have di: "ds' ! i = e" using ds'(4) i by simp
  have nxt: "has_bits (flags e) VRING_DESC_F_NEXT" "has_bits (flags e) VRING_DESC_F_WRITE = has_bits (flags (ds ! i)) VRING_DESC_F_WRITE"
    by (simp_all add: e_def link_flag)
  have "link_descs (of_nat i) (map of_nat (j # js)) ds = Some ds'"
    using ds'(1) i j by (simp add: i32_neg_of_nat of_nat_i32 e_def)
  moreover have "packet_chain ds' (i # j # js)" using ds'(2,3) di nxt i j by (simp add: e_def)
  moreover have "\<forall>k. k \<notin> set (i # j # js) \<longrightarrow> ds' ! k = ds ! k"
    using ds'(4) by (metis list.set_intros(1,2) nth_list_update_neq)
  moreover have "\<forall>k \<in> set (i # j # js). addr (ds' ! k) = addr (ds ! k) \<and> len (ds' ! k) = len (ds ! k)
         \<and> has_bits (flags (ds' ! k)) VRING_DESC_F_WRITE = has_bits (flags (ds ! k)) VRING_DESC_F_WRITE"
    using ds'(5) outside di nxt(2) by (auto simp: e_def)
  ultimately show ?case using ds'(2) by (intro exI [of _ ds'] conjI) simp_all
qed

section \<open>Preparing a packet\<close>

text \<open>The memory for a new packet, if any is allocated, is not in use.\<close>

definition fresh_for :: "packet_args \<Rightarrow> packet_state \<Rightarrow> nat list \<Rightarrow> bool" where
  "fresh_for a s owned \<longleftrightarrow> (case pa_new a of None \<Rightarrow> True
     | Some (p, _) \<Rightarrow> p \<notin> set (ps_pool s) \<and> p \<notin> set owned \<and> ps_debugger_packet s \<noteq> Some p)"

text \<open>A packet that belongs to nobody but the function at work.\<close>

definition outstanding :: "refcounts \<Rightarrow> packet_state \<Rightarrow> nat \<Rightarrow> nat list \<Rightarrow> nat list \<Rightarrow> bool" where
  "outstanding base s p flying tf \<longleftrightarrow> packets_inv base s flying tf \<and> p \<notin> set (ps_pool s @ tf @ flying) \<and> ps_debugger_packet s \<noteq> Some p"

lemma packets_inv_cong:
  assumes "ps_pool s' = ps_pool s" "transmit_packets_to_free s' = transmit_packets_to_free s" "ps_debugger_packet s' = ps_debugger_packet s"
    "\<And>p. p \<in> set (ps_pool s @ tf @ flying) \<Longrightarrow> ps_packets s' p = ps_packets s p"
    "\<And>i. ps_refs s' i - base' i = ps_refs s i - base i" "packets_inv base s flying tf"
  shows "packets_inv base' s' flying tf"
proof -
  have "pooled s' p = pooled s p" if "p \<in> set (ps_pool s)" for p using assms(3) assms(4) [of p] that by (simp add: pooled_def)
  moreover have q: "queued s' p = queued s p" "refs_of s' p = refs_of s p" if "p \<in> set flying" for p
    using assms(3) assms(4) [of p] that by (simp_all add: queued_def refs_of_def)
  moreover have "dequeued_list s' cur tf = dequeued_list s cur tf" for cur using assms(3,4) by (intro dequeued_list_cong) auto
  moreover have "(\<Sum>p \<in> set flying. refs_of s' p i) = (\<Sum>p \<in> set flying. refs_of s p i)" for i using q(2) by simp
  then have "ps_refs s' i = base' i + (\<Sum>p \<in> set flying. refs_of s' p i)" for i
    using assms(5) [of i] assms(6) by (simp add: packets_inv_def)
  ultimately show ?thesis using assms(1,2,6) by (simp add: packets_inv_def)
qed

lemma outstanding_store: "outstanding base s p flying tf \<Longrightarrow> outstanding base (store_packet p pk s) p flying tf"
  unfolding outstanding_def by (auto simp: store_packet_def elim!: packets_inv_cong [rotated -1])

lemma outstanding_call: "outstanding base s p flying tf \<Longrightarrow> outstanding base (call c s) p flying tf"
  unfolding outstanding_def by (auto simp: call_def elim!: packets_inv_cong [rotated -1])

lemma outstanding_refs:
  "outstanding base s p flying tf \<Longrightarrow> ps_refs s' = (\<lambda>i. ps_refs s i + r i) \<Longrightarrow> s' = s\<lparr>ps_refs := ps_refs s'\<rparr> \<Longrightarrow> (\<And>i. base' i = base i + r i)
   \<Longrightarrow> outstanding base' s' p flying tf"
proof -
  assume a: "outstanding base s p flying tf" "ps_refs s' = (\<lambda>i. ps_refs s i + r i)" "s' = s\<lparr>ps_refs := ps_refs s'\<rparr>" "\<And>i. base' i = base i + r i"
  have s': "s' = s\<lparr>ps_refs := \<lambda>i. ps_refs s i + r i\<rparr>" using a(2,3) by metis
  have "packets_inv base' s' flying tf"
    by (rule packets_inv_cong [of _ s _ _ _ base]) (use a in \<open>simp_all add: s' outstanding_def\<close>)
  then show ?thesis using a(1) by (simp add: outstanding_def s')
qed

text \<open>It may go to the pool or into a queue.\<close>

lemma outstanding_recycle:
  assumes "outstanding base s p flying tf" "ps_packets s p = Some pk" "packet_idle pk"
  shows "packets_inv base (recycle p s) flying tf"
proof -
  have "pooled (recycle p s) = pooled s" "queued (recycle p s) = queued s" "refs_of (recycle p s) = refs_of s"
    by (simp_all add: pooled_def queued_def refs_of_def recycle_def fun_eq_iff)
  moreover have "dequeued_list (recycle p s) cur xs = dequeued_list s cur xs" for cur xs by (rule dequeued_list_cong) (auto simp: recycle_def)
  moreover have "pooled s p" using assms by (simp add: pooled_def outstanding_def)
  ultimately show ?thesis using assms(1) by (auto simp: outstanding_def packets_inv_def recycle_def)
qed

lemma outstanding_fly:
  assumes "outstanding (\<lambda>i. base i + packet_refs pk i) s p flying tf" "ps_packets s p = Some pk" "packet_ready pk" "pk_mbuf pk \<noteq> []"
  shows "packets_inv base s (p # flying) tf"
proof -
  have "refs_of s p = packet_refs pk" "queued s p" using assms by (auto simp: refs_of_def queued_def outstanding_def fun_eq_iff)
  then show ?thesis using assms(1) by (auto simp: outstanding_def packets_inv_def algebra_simps)
qed

lemma alloc_queued_packet_ok:
  assumes inv: "packets_inv base s flying tf" and fresh: "fresh_for a s (flying @ tf)"
    and alloc: "alloc_queued_packet a s = (Some p, s1)"
  shows "outstanding base s1 p flying tf \<and> (\<exists>pk. ps_packets s1 p = Some pk \<and> packet_idle pk)
    \<and> (\<forall>p'. p' \<noteq> p \<longrightarrow> ps_packets s1 p' = ps_packets s p') \<and> ps_calls s1 = ps_calls s \<and> set (ps_pool s1) \<subseteq> set (ps_pool s)
    \<and> ps_debugger_packet s1 = ps_debugger_packet s"
proof (cases "ps_pool s")
  case (Cons p' ps)
  then have s1: "p' = p" "s1 = s\<lparr>ps_pool := ps\<rparr>" using alloc by (auto simp: alloc_queued_packet_def)
  have "pooled (s\<lparr>ps_pool := ps\<rparr>) = pooled s" "queued (s\<lparr>ps_pool := ps\<rparr>) = queued s" "refs_of (s\<lparr>ps_pool := ps\<rparr>) = refs_of s"
    by (simp_all add: pooled_def queued_def refs_of_def fun_eq_iff)
  moreover have "dequeued_list (s\<lparr>ps_pool := ps\<rparr>) cur xs = dequeued_list s cur xs" for cur xs by (rule dequeued_list_cong) auto
  ultimately have "outstanding base s1 p flying tf" using inv Cons s1 by (auto simp: outstanding_def packets_inv_def pooled_def)
  moreover have "pooled s p" using inv Cons s1 by (auto simp: packets_inv_def)
  ultimately show ?thesis using s1 Cons by (auto simp: pooled_def)
next
  case Nil
  then obtain mem i j where new: "pa_new a = Some (p, mem, i, j)" "s1 = store_packet p (new_queued_packet mem i j) s"
    using alloc by (auto simp: alloc_queued_packet_def split: option.splits)
  have "outstanding base s p flying tf" using inv fresh new(1) by (auto simp: fresh_for_def outstanding_def)
  moreover have "packet_idle (new_queued_packet mem i j)"
    by (simp add: new_queued_packet_def packet_idle_def packet_ready_def ssdc_inv_def held_ranges_def new_ssdc_def new_mbuf_md_def)
  ultimately show ?thesis using outstanding_store [of base s p flying tf] by (simp add: new(2)) (simp add: store_packet_def)
qed

definition new_addr :: "packet_args \<Rightarrow> nat set" where
  "new_addr a = (case pa_new a of None \<Rightarrow> {} | Some (p, _) \<Rightarrow> {p})"

lemma alloc_queued_packet_from:
  "alloc_queued_packet a s = (Some p, s1) \<Longrightarrow> insert p (set (ps_pool s1)) \<subseteq> set (ps_pool s) \<union> new_addr a"
  by (auto simp: alloc_queued_packet_def new_addr_def store_packet_def split: list.splits option.splits)

lemma init_packet_header_eq:
  "\<exists>h cs. init_packet_header a requests p pk s = (store_packet p (pk\<lparr>pk_header := h\<rparr>) s)\<lparr>ps_calls := ps_calls s @ cs\<rparr>"
proof (cases "fst requests \<or> snd requests \<noteq> None")
  case True
  obtain t h where "virtio_net_enable_tcp_csum (snd requests = None) (pa_ip_hl a * 4) (pa_ip_header a) plain_header = (t, h)" by fastforce
  with True show ?thesis
    by (intro exI [of _ h] exI [of _ "[StoreTcpSum t]"]) (cases requests, auto simp: init_packet_header_def call_def store_packet_def)
next
  case False
  then show ?thesis
    by (intro exI [of _ plain_header] exI [of _ "[]"]) (cases requests, auto simp: init_packet_header_def store_packet_def)
qed

text \<open>Emptying the descriptors gives the references back.\<close>

lemma empty_descriptors_ok:
  assumes out: "outstanding (\<lambda>i. base i + packet_refs pk i) s p flying tf" and pk: "ps_packets s p = Some pk" "packet_ready pk"
  shows "\<exists>s'. empty_descriptors nk p s = Some s' \<and> packets_inv base (recycle p s') flying tf
    \<and> (\<forall>p'. p' \<noteq> p \<longrightarrow> ps_packets s' p' = ps_packets s p') \<and> ps_pool s' = ps_pool s \<and> ps_debugger_packet s' = ps_debugger_packet s
    \<and> ps_calls s' = ps_calls s"
proof -
  obtain d m where c: "clear_packet (nk_ssdc nk) pk (ps_refs s) = Some (pk\<lparr>pk_dma_md := d, pk_mbuf_md := m\<rparr>, \<lambda>i. ps_refs s i - packet_refs pk i)"
    "packet_idle (pk\<lparr>pk_dma_md := d, pk_mbuf_md := m\<rparr>)" using clear_packet_ready [OF pk(2)] by blast
  let ?s1 = "store_packet p (pk\<lparr>pk_dma_md := d, pk_mbuf_md := m\<rparr>) s"
  let ?s' = "?s1\<lparr>ps_refs := \<lambda>i. ps_refs s i - packet_refs pk i\<rparr>"
  have "outstanding base ?s' p flying tf"
    by (rule outstanding_refs [where s = ?s1 and r = "\<lambda>i. - packet_refs pk i", OF outstanding_store [OF out]]) (simp_all add: store_packet_def)
  moreover have "ps_packets ?s' p = Some (pk\<lparr>pk_dma_md := d, pk_mbuf_md := m\<rparr>)" by (simp add: store_packet_def)
  ultimately have "packets_inv base (recycle p ?s') flying tf" using c(2) by (rule outstanding_recycle)
  then show ?thesis using c(1) pk(1) by (intro exI [of _ ?s']) (simp add: empty_descriptors_def, simp add: store_packet_def)
qed

lemma packet_ranges_ok:
  "ranges_ok (packet_ranges pk)" "length (packet_ranges pk) = 2" "sum_list (map sr_length (packet_ranges pk)) = 10 + mb_length (pk_mbuf_md pk)"
  by (simp_all add: packet_ranges_def sizeof_virtio_net_hdr_def)

text \<open>The descriptors of an idle packet can always be set up for a new mbuf.\<close>

lemma packet_descriptors_ok:
  assumes "packet_idle pk" "pk1 = pk\<lparr>pk_mbuf := packet_mbuf, pk_mbuf_md := snd (initWithMbuf True packet_mbuf DIRECTION_OUT (pk_mbuf_md pk))\<rparr>"
  shows "\<exists>d. fst (initWithMbuf True packet_mbuf DIRECTION_OUT (pk_mbuf_md pk))
    \<and> initWithDescriptorRanges senv (Some (packet_ranges pk1)) 2 DIRECTION_OUT False (pk_dma_md pk1, refs)
        = Some (True, d, \<lambda>m. refs m + md_uses (packet_ranges pk1) m)
    \<and> packet_ready (pk1\<lparr>pk_dma_md := d\<rparr>) \<and> held_ranges d = packet_ranges pk1 \<and> ssdc_length d = 10 + mbufChainLen packet_mbuf"
proof -
  have i: "ssdc_inv (pk_dma_md pk)" "initialised (pk_dma_md pk)" "held_ranges (pk_dma_md pk) = []" "first_init_done (pk_mbuf_md pk)"
    "prepare_count (pk_mbuf_md pk) = 0" using assms(1) by (auto simp: packet_idle_def packet_ready_def)
  have md: "fst (initWithMbuf True packet_mbuf DIRECTION_OUT (pk_mbuf_md pk))" "first_init_done (pk_mbuf_md pk1)" "prepare_count (pk_mbuf_md pk1) = 0"
    "mb_length (pk_mbuf_md pk1) = mbufChainLen packet_mbuf" using i(4,5) by (simp_all add: assms(2) initWithMbuf_def)
  have dma: "pk_dma_md pk1 = pk_dma_md pk" by (simp add: assms(2))
  obtain d where "initWithDescriptorRanges senv (Some (packet_ranges pk1)) 2 DIRECTION_OUT False (pk_dma_md pk1, refs)
        = Some (True, d, \<lambda>m. refs m + md_uses (packet_ranges pk1) m)" "ssdc_inv d" "held_ranges d = packet_ranges pk1" "initialised d"
      "ssdc_length d = 10 + mb_length (pk_mbuf_md pk1)"
    using init_result [OF i(1), of senv False "packet_ranges pk1" DIRECTION_OUT refs] i(2,3) packet_ranges_ok [of pk1] dma by auto
  then show ?thesis using md by (auto simp: packet_ready_def)
qed

text \<open>Up to the DMA command: the state \<open>s3\<close> in which it is set up.\<close>

lemma prepare_packet_steps:
  assumes out: "outstanding base s1 p flying tf" and pk: "ps_packets s1 p = Some pk" "packet_idle pk"
    and alloc: "alloc_queued_packet a s = (Some p, s1)"
  shows "\<exists>s3 pk3. outstanding (\<lambda>i. base i + packet_refs pk3 i) s3 p flying tf \<and> ps_packets s3 p = Some pk3 \<and> packet_ready pk3
    \<and> pk_mbuf pk3 = packet_mbuf \<and> md_length (packet_md pk3) = 10 + mbufChainLen packet_mbuf
    \<and> ps_pool s3 = ps_pool s1 \<and> ps_debugger_packet s3 = ps_debugger_packet s1 \<and> (\<forall>p'. p' \<noteq> p \<longrightarrow> ps_packets s3 p' = ps_packets s1 p')
    \<and> prepare_packet nk a requests packet_mbuf s =
       (if set_md (nk_dma nk) (packet_md pk3) \<noteq> kIOReturnSuccess
        then do { s \<leftarrow> empty_descriptors nk p s3; Some (Inl kIOReturnOutputDropped, recycle p s) }
        else Some (Inr p, store_packet p (pk3\<lparr>pk_dma_cmd := Some (packet_md pk3)\<rparr>) s3))"
proof -
  define pk1 where "pk1 = pk\<lparr>pk_mbuf := packet_mbuf, pk_mbuf_md := snd (initWithMbuf True packet_mbuf DIRECTION_OUT (pk_mbuf_md pk))\<rparr>"
  obtain d where d: "fst (initWithMbuf True packet_mbuf DIRECTION_OUT (pk_mbuf_md pk))"
     "initWithDescriptorRanges (nk_ssdc nk) (Some (packet_ranges pk1)) 2 DIRECTION_OUT False (pk_dma_md pk1, ps_refs s1)
        = Some (True, d, \<lambda>m. ps_refs s1 m + md_uses (packet_ranges pk1) m)"
     "packet_ready (pk1\<lparr>pk_dma_md := d\<rparr>)" "held_ranges d = packet_ranges pk1" "ssdc_length d = 10 + mbufChainLen packet_mbuf"
    using packet_descriptors_ok [OF pk(2) pk1_def] by blast
  define pk2 where "pk2 = pk1\<lparr>pk_dma_md := d\<rparr>"
  define s2 where "s2 = s1\<lparr>ps_refs := \<lambda>m. ps_refs s1 m + md_uses (packet_ranges pk1) m\<rparr>"
  define s3 where "s3 = init_packet_header a requests p pk2 s2"
  obtain h cs where hdr: "s3 = (store_packet p (pk2\<lparr>pk_header := h\<rparr>) s2)\<lparr>ps_calls := ps_calls s2 @ cs\<rparr>"
    using init_packet_header_eq [of a requests p pk2 s2] s3_def by auto
  define pk3 where "pk3 = pk2\<lparr>pk_header := h\<rparr>"
  have pk3: "ps_packets s3 p = Some pk3" by (simp add: hdr store_packet_def pk3_def)
  have pk3': "packet_ready pk3" "pk_mbuf pk3 = packet_mbuf" "packet_refs pk3 = md_uses (packet_ranges pk1)" "packet_md pk3 = packet_md pk2"
    "md_length (packet_md pk3) = 10 + mbufChainLen packet_mbuf"
    using d(3-5) by (simp_all add: pk3_def pk2_def pk1_def packet_ready_def packet_md_def)
  have "outstanding (\<lambda>i. base i + packet_refs pk3 i) s2 p flying tf"
    by (rule outstanding_refs [OF out]) (simp_all add: pk3'(3) s2_def)
  then have out3: "outstanding (\<lambda>i. base i + packet_refs pk3 i) s3 p flying tf"
    unfolding hdr outstanding_def by (auto simp: store_packet_def elim!: packets_inv_cong [rotated -1])
  have "initWithMbuf True packet_mbuf DIRECTION_OUT (pk_mbuf_md pk) = (True, pk_mbuf_md pk1)"
    using d(1) by (simp add: pk1_def prod_eq_iff)
  then have "prepare_packet nk a requests packet_mbuf s =
       (if set_md (nk_dma nk) (packet_md pk3) \<noteq> kIOReturnSuccess
        then do { s \<leftarrow> empty_descriptors nk p s3; Some (Inl kIOReturnOutputDropped, recycle p s) }
        else Some (Inr p, store_packet p (pk3\<lparr>pk_dma_cmd := Some (packet_md pk3)\<rparr>) s3))"
    using pk(1) d(2) pk3 pk3'(4) by (simp add: prepare_packet_def alloc Let_def flip: pk1_def) (simp add: s3_def s2_def pk2_def pk1_def)
  with out3 pk3 pk3' show ?thesis
    by (intro exI [of _ s3] exI [of _ pk3]) (simp add: hdr store_packet_def s2_def)
qed

lemma prepare_packet_ok:
  assumes inv: "packets_inv base s flying tf" and fresh: "fresh_for a s (flying @ tf)"
  shows "\<exists>r s'. prepare_packet nk a requests packet_mbuf s = Some (r, s') \<and> ps_debugger_packet s' = ps_debugger_packet s
    \<and> (\<forall>p' \<in> set flying. ps_packets s' p' = ps_packets s p') \<and> set (ps_pool s') \<subseteq> set (ps_pool s) \<union> new_addr a
    \<and> (case r of
         Inl ret \<Rightarrow> ret = kIOReturnOutputDropped \<and> packets_inv base s' flying tf
       | Inr p \<Rightarrow> p \<in> set (ps_pool s) \<union> new_addr a \<and> (\<exists>pk. ps_packets s' p = Some pk \<and> packet_ready pk \<and> pk_mbuf pk = packet_mbuf
           \<and> pk_dma_cmd pk = Some (packet_md pk) \<and> md_length (packet_md pk) = 10 + mbufChainLen packet_mbuf
           \<and> outstanding (\<lambda>i. base i + packet_refs pk i) s' p flying tf))"
proof -
  obtain x s1 where alloc: "alloc_queued_packet a s = (x, s1)" by fastforce
  show ?thesis
  proof (cases x)
    case None
    then have "s1 = s" using alloc by (auto simp: alloc_queued_packet_def split: list.splits option.splits)
    with None alloc inv show ?thesis by (auto simp: prepare_packet_def)
  next
    case (Some p)
    note frm = alloc_queued_packet_from [OF alloc [unfolded Some]]
    obtain pk where out: "outstanding base s1 p flying tf" and pk: "ps_packets s1 p = Some pk" "packet_idle pk"
      and frame: "\<forall>p'. p' \<noteq> p \<longrightarrow> ps_packets s1 p' = ps_packets s p'" "ps_debugger_packet s1 = ps_debugger_packet s"
      using alloc_queued_packet_ok [OF inv fresh alloc [unfolded Some]] by blast
    obtain s3 pk3 where out3: "outstanding (\<lambda>i. base i + packet_refs pk3 i) s3 p flying tf" and pk3: "ps_packets s3 p = Some pk3" "packet_ready pk3"
      "pk_mbuf pk3 = packet_mbuf" "md_length (packet_md pk3) = 10 + mbufChainLen packet_mbuf"
      and s3: "ps_pool s3 = ps_pool s1" "ps_debugger_packet s3 = ps_debugger_packet s1" "\<forall>p'. p' \<noteq> p \<longrightarrow> ps_packets s3 p' = ps_packets s1 p'"
      and prep: "prepare_packet nk a requests packet_mbuf s =
       (if set_md (nk_dma nk) (packet_md pk3) \<noteq> kIOReturnSuccess
        then do { s \<leftarrow> empty_descriptors nk p s3; Some (Inl kIOReturnOutputDropped, recycle p s) }
        else Some (Inr p, store_packet p (pk3\<lparr>pk_dma_cmd := Some (packet_md pk3)\<rparr>) s3))"
      using prepare_packet_steps [OF out pk alloc [unfolded Some]] by blast
    have pf: "p \<notin> set flying" using out by (simp add: outstanding_def)
    show ?thesis
    proof (cases "set_md (nk_dma nk) (packet_md pk3) = kIOReturnSuccess")
      case True
      let ?pk = "pk3\<lparr>pk_dma_cmd := Some (packet_md pk3)\<rparr>"
      let ?s = "store_packet p ?pk s3"
      have "outstanding (\<lambda>i. base i + packet_refs ?pk i) ?s p flying tf" using outstanding_store [OF out3] by simp
      moreover have "packet_ready ?pk" "packet_md ?pk = packet_md pk3" using pk3(2) by (simp_all add: packet_ready_def packet_md_def)
      moreover have "ps_packets ?s p = Some ?pk" "ps_debugger_packet ?s = ps_debugger_packet s" "ps_pool ?s = ps_pool s1"
        "\<forall>p' \<in> set flying. ps_packets ?s p' = ps_packets s p'" using s3 frame pf by (auto simp: store_packet_def)
      ultimately show ?thesis using prep True pk3(3,4) frm by (intro exI [of _ "Inr p"] exI [of _ ?s]) auto
    next
      case False
      obtain s4 where s4: "empty_descriptors nk p s3 = Some s4" "packets_inv base (recycle p s4) flying tf"
        "\<forall>p'. p' \<noteq> p \<longrightarrow> ps_packets s4 p' = ps_packets s3 p'" "ps_pool s4 = ps_pool s3" "ps_debugger_packet s4 = ps_debugger_packet s3"
        using empty_descriptors_ok [OF out3 pk3(1,2)] by blast
      have "ps_debugger_packet (recycle p s4) = ps_debugger_packet s" "\<forall>p' \<in> set flying. ps_packets (recycle p s4) p' = ps_packets s p'"
        "set (ps_pool (recycle p s4)) \<subseteq> set (ps_pool s) \<union> new_addr a"
        using s4(3-5) s3 frame pf frm by (auto simp: recycle_def)
      then show ?thesis using prep False s4(1,2) by (intro exI [of _ "Inl kIOReturnOutputDropped"] exI [of _ "recycle p s4"]) simp
    qed
  qed
qed

section \<open>Entering a packet in a queue\<close>

text \<open>The chain \<open>ch\<close> carries the segments, all of them to be written or all to be read by the device.\<close>

definition chain_carries :: "vring_desc list \<Rightarrow> nat list \<Rightarrow> bool \<Rightarrow> Segment64 list \<Rightarrow> bool" where
  "chain_carries ds ch for_writing segs \<longleftrightarrow>
     map (\<lambda>i. (addr (ds ! i), len (ds ! i))) ch = map (\<lambda>g. (fIOVMAddr g, ucast (fLength g))) segs
     \<and> (\<forall>i \<in> set ch. has_bits (flags (ds ! i)) VRING_DESC_F_WRITE = for_writing)"

lemma direction_flag:
  "\<not> has_bits (ucast (if w then ucast VRING_DESC_F_WRITE else 0 :: u8) :: u16) VRING_DESC_F_NEXT"
  "has_bits (ucast (if w then ucast VRING_DESC_F_WRITE else 0 :: u8) :: u16) VRING_DESC_F_WRITE = w"
  by (simp_all add: has_bits_def VRING_DESC_F_WRITE_def VRING_DESC_F_NEXT_def)

text \<open>The queue after its descriptors have been filled and linked, with the packet and the ring entry.\<close>

lemma chain_carries_linked:
  assumes n: "length ch = length segs"
    and segs: "\<forall>k < length ch. ds ! (ch ! k) = segment_desc (if w then ucast VRING_DESC_F_WRITE else 0) (segs ! k)"
    and kept: "\<forall>j \<in> set ch. addr (ds' ! j) = addr (ds ! j) \<and> len (ds' ! j) = len (ds ! j)
         \<and> has_bits (flags (ds' ! j)) VRING_DESC_F_WRITE = has_bits (flags (ds ! j)) VRING_DESC_F_WRITE"
    and dir: "\<forall>j \<in> set ch. has_bits (flags (ds ! j)) VRING_DESC_F_WRITE = w"
  shows "chain_carries ds' ch w segs"
  unfolding chain_carries_def
proof
  show "map (\<lambda>i. (addr (ds' ! i), len (ds' ! i))) ch = map (\<lambda>g. (fIOVMAddr g, ucast (fLength g))) segs"
    using n segs kept by (intro nth_equalityI) (simp_all add: segment_desc_def)
  show "\<forall>i \<in> set ch. has_bits (flags (ds' ! i)) VRING_DESC_F_WRITE = w" using kept dir by simp
qed

lemma segment_desc_flags:
  assumes "\<forall>k < length ch. ds ! (ch ! k) = segment_desc (if w then ucast VRING_DESC_F_WRITE else 0) (segs ! k)" "j \<in> set ch"
  shows "\<not> has_bits (flags (ds ! j)) VRING_DESC_F_NEXT" "has_bits (flags (ds ! j)) VRING_DESC_F_WRITE = w"
proof -
  from assms(2) obtain k where "k < length ch" "j = ch ! k" by (metis in_set_conv_nth)
  then have "flags (ds ! j) = ucast (if w then ucast VRING_DESC_F_WRITE else 0 :: u8)" using assms(1) by (simp add: segment_desc_def)
  then show "\<not> has_bits (flags (ds ! j)) VRING_DESC_F_NEXT" "has_bits (flags (ds ! j)) VRING_DESC_F_WRITE = w"
    using direction_flag [of w] by simp_all
qed

lemma net_queue_inv_published:
  assumes inv: "net_queue_inv q fs fl" and n: "0 < n" "n \<le> length fs"
    and pool: "net_pool (q\<lparr>desc := ds, free_desc_head := h, num_free_desc := k\<rparr>) (drop n fs)" and len: "length ds = length (desc q)"
    and ds': "length ds' = length ds" "packet_chain ds' (take n fs)" "\<forall>j. j \<notin> set (take n fs) \<longrightarrow> ds' ! j = ds ! j"
    and keep: "\<forall>j. j \<notin> set (take n fs) \<longrightarrow> ds' ! j = desc q ! j"
    and ps: "packets_for_descs q = Some ps" "length ps = entries q" and ring: "length ring = entries q"
  shows "net_queue_inv (q\<lparr>desc := ds', free_desc_head := h, num_free_desc := k, packets_for_descs := Some (ps[hd fs := Some p]),
          avail := (avail q)\<lparr>av_ring := ring\<rparr>\<rparr>) (drop n fs) ((take n fs, p) # fl)"
proof -
  let ?ch = "take n fs"
  let ?q = "q\<lparr>desc := ds', free_desc_head := h, num_free_desc := k, packets_for_descs := Some (ps[hd fs := Some p]), avail := (avail q)\<lparr>av_ring := ring\<rparr>\<rparr>"
  have ch: "hd ?ch = hd fs" "hd fs \<in> set fs" using n by (cases fs; cases n; simp)+
  have hd: "hd fs < entries q" using inv ch(2) by (auto simp: net_queue_inv_def)
  have disj: "set (drop n fs) \<inter> set ?ch = {}" using inv by (metis append_take_drop_id distinct_append inf_commute net_queue_inv_def)
  have "free_chain ds' h (drop n fs) = free_chain ds h (drop n fs)"
    using ds'(1,3) disj by (intro free_chain_cong) auto
  then have "net_pool ?q (drop n fs)" using pool ring ps net_queue_inv_wf [OF inv] ds'(1) by (auto simp: net_pool_def net_wf_def)
  moreover have "packet_chain ds' (fst x)" if "x \<in> set fl" for x
  proof -
    have "set (fst x) \<inter> set ?ch = {}" using that inv by (auto simp: net_queue_inv_def dest!: in_set_takeD)
    then have "packet_chain ds' (fst x) = packet_chain (desc q) (fst x)" using keep ds'(1) len by (intro packet_chain_cong) auto
    then show ?thesis using that inv by (simp add: net_queue_inv_def)
  qed
  moreover have "distinct (drop n fs @ ?ch @ concat (map fst fl))" "set (drop n fs @ ?ch @ concat (map fst fl)) = {..<entries q}"
  proof -
    have swap: "distinct (ys @ xs @ zs) = distinct ((xs @ ys) @ zs)" "set (ys @ xs @ zs) = set ((xs @ ys) @ zs)" for xs ys zs :: "nat list" by auto
    show "distinct (drop n fs @ ?ch @ concat (map fst fl))" "set (drop n fs @ ?ch @ concat (map fst fl)) = {..<entries q}"
      unfolding swap append_take_drop_id using inv by (simp_all only: net_queue_inv_def)
  qed
  ultimately show ?thesis using inv ds'(2) ps hd ch(1) by (auto simp: net_queue_inv_def nth_list_update)
qed

lemma publish_queue:
  assumes inv: "net_queue_inv q fs fl" and n: "0 < n" "n \<le> length fs" "length segs = n"
    and pool: "net_pool (q\<lparr>desc := ds, free_desc_head := h, num_free_desc := k\<rparr>) (drop n fs)" and len: "length ds = length (desc q)"
    and same: "\<forall>j. j \<notin> set (take n fs) \<longrightarrow> ds ! j = desc q ! j"
    and segs: "\<forall>k < n. ds ! (fs ! k) = segment_desc (if w then ucast VRING_DESC_F_WRITE else 0) (segs ! k)"
  shows "\<exists>ds' ps. link_descs (of_nat (hd fs)) (map of_nat (tl (take n fs))) ds = Some ds' \<and> packets_for_descs q = Some ps \<and> hd fs < length ps
    \<and> chain_carries ds' (take n fs) w segs
    \<and> (\<forall>ring. length ring = entries q \<longrightarrow> net_queue_inv (q\<lparr>desc := ds', free_desc_head := h, num_free_desc := k, packets_for_descs := Some (ps[hd fs := Some p]),
          avail := (avail q)\<lparr>av_ring := ring\<rparr>\<rparr>) (drop n fs) ((take n fs, p) # fl))"
proof -
  let ?ch = "take n fs"
  have ch: "?ch = hd fs # tl ?ch" using n by (cases fs; cases n; simp)
  note b = net_wf_bounds [OF net_queue_inv_wf [OF inv]]
  have wf: "length (desc q) = entries q" using net_queue_inv_wf [OF inv] by (simp add: net_wf_def)
  have less: "\<forall>j \<in> set ?ch. j < entries q" using inv by (auto simp: net_queue_inv_def dest: in_set_takeD)
  have seg: "\<forall>k < length ?ch. ds ! (?ch ! k) = segment_desc (if w then ucast VRING_DESC_F_WRITE else 0) (segs ! k)"
    using segs n(2) by simp
  note entry = segment_desc_flags [OF seg]
  have "distinct (hd fs # tl ?ch)" using inv ch by (metis distinct_append distinct_take net_queue_inv_def)
  moreover have "\<forall>j \<in> set (hd fs # tl ?ch). j < length ds \<and> j < 65536" using less b(2) len wf ch by auto
  moreover have "\<forall>j \<in> set (hd fs # tl ?ch). \<not> has_bits (flags (ds ! j)) VRING_DESC_F_NEXT" using entry(1) ch by auto
  ultimately obtain ds' where ds': "link_descs (of_nat (hd fs)) (map of_nat (tl ?ch)) ds = Some ds'" "length ds' = length ds" "packet_chain ds' ?ch"
    "\<forall>j. j \<notin> set ?ch \<longrightarrow> ds' ! j = ds ! j"
    "\<forall>j \<in> set ?ch. addr (ds' ! j) = addr (ds ! j) \<and> len (ds' ! j) = len (ds ! j)
         \<and> has_bits (flags (ds' ! j)) VRING_DESC_F_WRITE = has_bits (flags (ds ! j)) VRING_DESC_F_WRITE"
    using link_descs_ok [of "hd fs" "tl ?ch" ds] ch by (metis (no_types, lifting))
  obtain ps where ps: "packets_for_descs q = Some ps" "length ps = entries q" using net_queue_inv_wf [OF inv] by (auto simp: net_wf_def)
  have hd: "hd fs < entries q" using less ch by (metis list.set_intros(1))
  have "chain_carries ds' ?ch w segs" using n by (intro chain_carries_linked [OF _ seg ds'(5)]) (auto simp: entry(2))
  moreover have "\<forall>j. j \<notin> set ?ch \<longrightarrow> ds' ! j = desc q ! j" using ds'(4) same by simp
  ultimately show ?thesis using ds'(1) ps hd net_queue_inv_published [OF inv n(1,2) pool len ds'(2-4) _ ps]
    by (intro exI [of _ ds'] exI [of _ ps]) simp
qed

end
