(* ===== verification/Packet_Queue_Fill.thy ===== *)
theory Packet_Queue_Fill
  imports Packet_Queue_Add "HOL-Library.Multiset"
begin

text \<open>
  Adding a packet to a queue as a whole: either its chain is entered in the available ring and owns the packet, or everything is as before. Filling the receive
  queue repeats this.
\<close>

section \<open>Adding a packet\<close>

text \<open>What the driver never changes when it adds packets.\<close>

definition same_setup :: "virtio_net_virtqueue \<Rightarrow> virtio_net_virtqueue \<Rightarrow> bool" where
  "same_setup q q' \<longleftrightarrow> num q' = num q \<and> queue_index q' = queue_index q \<and> last_used_idx q' = last_used_idx q \<and> used q' = used q"

lemma same_setup_trans: "same_setup q q1 \<Longrightarrow> same_setup q1 q2 \<Longrightarrow> same_setup q q2"
  by (simp add: same_setup_def)

text \<open>A failure gives all descriptors back, in the opposite order.\<close>

lemma push_back_queue:
  assumes inv: "net_queue_inv q fs fl"
    and pool: "net_pool (q\<lparr>desc := ds, free_desc_head := h, num_free_desc := k\<rparr>) (drop n fs)" and len: "length ds = length (desc q)"
    and same: "\<forall>j. j \<notin> set (take n fs) \<longrightarrow> ds ! j = desc q ! j"
  shows "\<exists>q'. push_back (map of_nat (take n fs) @ replicate m (- 1)) (q\<lparr>desc := ds, free_desc_head := h, num_free_desc := k\<rparr>) = Some q'
    \<and> net_queue_inv q' (rev (take n fs) @ drop n fs) fl \<and> avail q' = avail q \<and> same_setup q q'"
proof -
  let ?q = "q\<lparr>desc := ds, free_desc_head := h, num_free_desc := k\<rparr>"
  let ?ch = "take n fs"
  have wf: "net_wf q" using inv by (rule net_queue_inv_wf)
  note b = net_wf_bounds [OF wf]
  have less: "\<forall>i \<in> set ?ch. i < entries q" using inv by (auto simp: net_queue_inv_def dest: in_set_takeD)
  then have small: "\<forall>i \<in> set ?ch. i < 65536" using b(2) by auto
  have dist: "distinct (?ch @ drop n fs)" using inv by (simp add: net_queue_inv_def)
  obtain ps where ps: "packets_for_descs q = Some ps" "length ps = entries q" using wf by (auto simp: net_wf_def)
  obtain q' where q': "foldM (\<lambda>i q. vring_push_free_desc q (of_nat i)) ?ch ?q = Some q'" "net_pool q' (rev ?ch @ drop n fs)" "entries q' = entries ?q"
    using nq.give_back_all [OF pool dist] less by auto
  obtain ds' h' n' where eq: "q' = ?q\<lparr>desc := ds', packets_for_descs := Some (map (\<lambda>i. if i \<in> set ?ch then None else ps ! i) [0..<length ps]),
      free_desc_head := h', num_free_desc := n'\<rparr>" and ds': "length ds' = length ds" "\<forall>j. j \<notin> set ?ch \<longrightarrow> ds' ! j = ds ! j"
    using gives_back_all [OF gives_back_push q'(1), of ps] small ps(1) by auto
  have "packet_chain ds' (fst x)" if "x \<in> set fl" for x
  proof -
    have "set (fst x) \<inter> set ?ch = {}" using that inv by (auto simp: net_queue_inv_def dest!: in_set_takeD)
    then have "packet_chain ds' (fst x) = packet_chain (desc q) (fst x)" using ds' same len by (intro packet_chain_cong) auto
    then show ?thesis using that inv by (simp add: net_queue_inv_def)
  qed
  moreover have "packet_of fl i = None" if "i \<in> set ?ch" for i
    using that inv by (intro packet_of_outside) (auto simp: net_queue_inv_def dest: packet_chain_Nil in_set_takeD)
  moreover have "distinct (rev ?ch @ drop n fs @ concat (map fst fl))" "set (rev ?ch @ drop n fs @ concat (map fst fl)) = {..<entries q}"
  proof -
    have rev: "distinct (rev xs @ ys @ zs) = distinct ((xs @ ys) @ zs)" "set (rev xs @ ys @ zs) = set ((xs @ ys) @ zs)" for xs ys zs :: "nat list" by auto
    show "distinct (rev ?ch @ drop n fs @ concat (map fst fl))" "set (rev ?ch @ drop n fs @ concat (map fst fl)) = {..<entries q}"
      unfolding rev append_take_drop_id using inv by (simp_all only: net_queue_inv_def)
  qed
  ultimately have "net_queue_inv q' (rev ?ch @ drop n fs) fl" using q'(2) inv ps unfolding net_queue_inv_def by (simp add: eq)
  then show ?thesis using push_back_eq [OF small] q'(1) by (simp add: eq same_setup_def)
qed

text \<open>What \<^verbatim>\<open>genIOVMSegments\<close> documents: it produces at most as many segments as asked for, and at least one for memory that is not empty and
  of which it reports to have reached the end.\<close>

definition dma_sound :: "dma_env \<Rightarrow> bool" where
  "dma_sound env \<longleftrightarrow> dma_bounded env \<and> (\<forall>md n off segs. gen_segs env md n = (kIOReturnSuccess, off, segs) \<longrightarrow> md_length md \<noteq> 0 \<longrightarrow> md_length md \<le> off \<longrightarrow> segs \<noteq> [])"

text \<open>The packet structure \<open>p\<close> with the mbuf is on its way to the device through the descriptors taken from the free ones.\<close>

definition entered :: "net_kernel \<Rightarrow> mbuf list \<Rightarrow> bool \<Rightarrow> u16 \<Rightarrow> nat list \<Rightarrow> virtio_net_virtqueue \<Rightarrow> nat list \<Rightarrow> nat \<Rightarrow> virtio_net_virtqueue \<Rightarrow> packet_state \<Rightarrow> bool" where
  "entered nk packet_mbuf for_writing idx fs q ch p q' s' \<longleftrightarrow>
     (\<exists>md off segs. gen_segs (nk_dma nk) md (num_free_desc q) = (kIOReturnSuccess, off, segs) \<and> md_length md = 10 + mbufChainLen packet_mbuf
        \<and> md_length md \<le> off \<and> ch = take (length segs) fs \<and> ch \<noteq> [] \<and> chain_carries (desc q') ch for_writing segs)
     \<and> mbuf_of s' p = packet_mbuf
     \<and> avail q' = (avail q)\<lparr>av_ring := (av_ring (avail q))[unat idx mod entries q := of_nat (hd ch)]\<rparr>"

lemma publish_packet_ok:
  assumes "link_descs (of_nat i) (map of_nat js) (desc q) = Some ds'" "packets_for_descs q = Some ps" "i < length ps" "i < 65536"
    "num q \<noteq> 0" "length (av_ring (avail q)) = entries q" "ps_packets s p = Some pk" "packet_mbuf \<noteq> []" "segments = Suc (length js)"
  shows "\<exists>h. publish_packet p tso packet_mbuf (map of_nat (i # js) @ replicate m (- 1)) segments idx (q, s)
    = Some (idx + 1, q\<lparr>desc := ds', packets_for_descs := Some (ps[i := Some p]),
        avail := (avail q)\<lparr>av_ring := (av_ring (avail q))[unat idx mod entries q := of_nat i]\<rparr>\<rparr>,
        if tso = None then s else store_packet p (pk\<lparr>pk_header := h\<rparr>) s)"
proof -
  have slot: "unat (ucast idx mod num q) = unat idx mod entries q" by (simp add: unat_mod_distrib)
  have "0 < entries q" using assms(5) by (simp add: unat_gt_0)
  then have ring: "unat idx mod entries q < length (av_ring (avail q))" using assms(6) by simp
  have head: "(ucast (of_nat i :: 32 word) :: u16) = of_nat i" "unat (of_nat i :: u16) = i" using assms(4) by (simp_all add: of_nat_i32)
  obtain m ms where mb: "packet_mbuf = m # ms" using assms(8) by (cases packet_mbuf) auto
  show ?thesis
  proof (cases tso)
    case None
    then show ?thesis using assms slot ring head by (simp add: publish_packet_def)
  next
    case (Some v)
    show ?thesis
      by (rule exI [of _ "(pk_header pk)\<lparr>gso_type := VIRTIO_NET_HDR_GSO_TCPV4, hdr_len := ucast (mbuf_len m), gso_size := ucast v\<rparr>"])
        (use Some assms slot ring head in \<open>simp add: publish_packet_def tso_header_def mb\<close>)
  qed
qed

text \<open>The two outcomes.\<close>

definition packet_added :: "net_kernel \<Rightarrow> mbuf list \<Rightarrow> bool \<Rightarrow> refcounts \<Rightarrow> nat list \<Rightarrow> (nat list \<times> nat) list \<Rightarrow> nat list \<Rightarrow> nat list
    \<Rightarrow> u16 \<Rightarrow> virtio_net_virtqueue \<Rightarrow> nat \<Rightarrow> u16 \<Rightarrow> virtio_net_virtqueue \<Rightarrow> packet_state \<Rightarrow> bool" where
  "packet_added nk packet_mbuf for_writing base fs fl other tf idx q p idx' q' s' \<longleftrightarrow>
     idx' = idx + 1 \<and> (\<exists>ch. entered nk packet_mbuf for_writing idx fs q ch p q' s'
        \<and> net_queue_inv q' (drop (length ch) fs) ((ch, p) # fl) \<and> packets_inv base s' (p # map snd fl @ other) tf)"

definition packet_not_added :: "refcounts \<Rightarrow> nat list \<Rightarrow> (nat list \<times> nat) list \<Rightarrow> nat list \<Rightarrow> nat list
    \<Rightarrow> u16 \<Rightarrow> virtio_net_virtqueue \<Rightarrow> u16 \<Rightarrow> virtio_net_virtqueue \<Rightarrow> packet_state \<Rightarrow> bool" where
  "packet_not_added base fs fl other tf idx q idx' q' s' \<longleftrightarrow>
     idx' = idx \<and> avail q' = avail q \<and> (\<exists>fs'. mset fs' = mset fs \<and> net_queue_inv q' fs' fl) \<and> packets_inv base s' (map snd fl @ other) tf"

text \<open>Ownership and addresses of packets that both outcomes leave alone.\<close>

definition packet_frame :: "nat set \<Rightarrow> nat list \<Rightarrow> packet_state \<Rightarrow> packet_state \<Rightarrow> bool" where
  "packet_frame fresh flying s s' \<longleftrightarrow> ps_debugger_packet s' = ps_debugger_packet s \<and> set (ps_pool s') \<subseteq> set (ps_pool s) \<union> fresh
     \<and> (\<forall>p \<in> set flying. ps_packets s' p = ps_packets s p)"

text \<open>The chain is complete and is entered.\<close>

lemma publish_added:
  assumes inv: "net_queue_inv q fs fl" and out: "outstanding (\<lambda>i. base i + packet_refs pk i) s p (map snd fl @ other) tf"
    and pk: "ps_packets s p = Some pk" "packet_ready pk" "pk_mbuf pk = packet_mbuf" "md_length (packet_md pk) = 10 + mbufChainLen packet_mbuf"
    and mb: "packet_mbuf \<noteq> []" and g: "gen_segs (nk_dma nk) (packet_md pk) (num_free_desc q) = (kIOReturnSuccess, off, segs)"
      "md_length (packet_md pk) \<le> off" "segs \<noteq> []" and n: "n = length segs" "n \<le> length fs"
    and pool: "net_pool (q\<lparr>desc := ds, free_desc_head := h, num_free_desc := k\<rparr>) (drop n fs)" and len: "length ds = length (desc q)"
    and same: "\<forall>j. j \<notin> set (take n fs) \<longrightarrow> ds ! j = desc q ! j"
    and segs: "\<forall>k < n. ds ! (fs ! k) = segment_desc (if for_writing then ucast VRING_DESC_F_WRITE else 0) (segs ! k)"
  shows "\<exists>q' s'. publish_packet p tso packet_mbuf (map of_nat (take n fs) @ replicate m (- 1)) n idx
       (q\<lparr>desc := ds, free_desc_head := h, num_free_desc := k\<rparr>, s) = Some (idx + 1, q', s')
    \<and> same_setup q q' \<and> packet_frame {p} (map snd fl @ other) s s' \<and> packet_added nk packet_mbuf for_writing base fs fl other tf idx q p (idx + 1) q' s'"
proof -
  let ?fly = "map snd fl @ other" and ?ch = "take n fs" and ?q = "q\<lparr>desc := ds, free_desc_head := h, num_free_desc := k\<rparr>"
  have ch: "?ch = hd fs # tl ?ch" "hd ?ch = hd fs" "?ch \<noteq> []" using g(3) n by (cases fs; cases segs; simp)+
  have "0 < n" using g(3) n(1) by simp
  from publish_queue [OF inv this n(2) n(1) [symmetric] pool len same segs, of p] obtain ds' ps where
    pub: "link_descs (of_nat (hd fs)) (map of_nat (tl ?ch)) ds = Some ds'" "packets_for_descs q = Some ps" "hd fs < length ps"
      "chain_carries ds' ?ch for_writing segs"
    and qinv: "\<And>ring. length ring = entries q \<Longrightarrow> net_queue_inv (q\<lparr>desc := ds', free_desc_head := h, num_free_desc := k,
        packets_for_descs := Some (ps[hd fs := Some p]), avail := (avail q)\<lparr>av_ring := ring\<rparr>\<rparr>) (drop n fs) ((?ch, p) # fl)" by blast
  let ?ring = "(av_ring (avail q))[unat idx mod entries q := of_nat (hd fs)]"
  define q' where "q' = q\<lparr>desc := ds', free_desc_head := h, num_free_desc := k, packets_for_descs := Some (ps[hd fs := Some p]), avail := (avail q)\<lparr>av_ring := ?ring\<rparr>\<rparr>"
  have wf: "net_wf q" using inv by (rule net_queue_inv_wf)
  have hd: "hd fs < 65536" using pub(2,3) wf net_wf_bounds [OF wf] by (auto simp: net_wf_def)
  have "n = Suc (length (tl ?ch))" using ch(1) n(2) by (metis length_Cons length_take min.absorb2)
  then obtain hdr where "publish_packet p tso packet_mbuf (map of_nat (hd fs # tl ?ch) @ replicate m (- 1)) n idx (?q, s)
      = Some (idx + 1, q', if tso = None then s else store_packet p (pk\<lparr>pk_header := hdr\<rparr>) s)"
    using publish_packet_ok [of "hd fs" "tl ?ch" ?q ds' ps s p pk packet_mbuf n tso m idx]
      pub(1-3) hd wf net_wf_bounds [OF wf] pk(1) mb by (auto simp: q'_def net_wf_def)
  note p = this [folded ch(1)]
  define pk' where "pk' = (if tso = None then pk else pk\<lparr>pk_header := hdr\<rparr>)"
  define s' where "s' = (if tso = None then s else store_packet p (pk\<lparr>pk_header := hdr\<rparr>) s)"
  have pk': "ps_packets s' p = Some pk'" "packet_ready pk'" "pk_mbuf pk' = packet_mbuf" "packet_refs pk' = packet_refs pk"
    using pk(1-3) by (simp_all add: s'_def pk'_def store_packet_def packet_ready_def)
  have "outstanding (\<lambda>i. base i + packet_refs pk' i) s' p ?fly tf" using outstanding_store [OF out] out pk'(4) by (simp add: s'_def)
  then have pinv: "packets_inv base s' (p # ?fly) tf" using pk' mb by (intro outstanding_fly) auto
  have inv': "net_queue_inv q' (drop (length ?ch) fs) ((?ch, p) # fl)" using qinv [of ?ring] wf n(2) by (simp add: q'_def net_wf_def)
  have "entered nk packet_mbuf for_writing idx fs q ?ch p q' s'"
    unfolding entered_def by (intro conjI exI [of _ "packet_md pk"] exI [of _ off] exI [of _ segs])
      (use g n(1) pk(4) ch(2,3) pub(4) pk'(1,3) in \<open>simp_all add: q'_def mbuf_of_def\<close>)
  then have "packet_added nk packet_mbuf for_writing base fs fl other tf idx q p (idx + 1) q' s'" unfolding packet_added_def using inv' pinv by blast
  moreover have "p \<notin> set ?fly" using out by (simp add: outstanding_def)
  then have "packet_frame {p} ?fly s s'" "same_setup q q'" by (auto simp: packet_frame_def s'_def store_packet_def q'_def same_setup_def)
  ultimately show ?thesis using p s'_def by auto
qed

lemma queue_packet_ok:
  assumes inv: "net_queue_inv q fs fl" and out: "outstanding (\<lambda>i. base i + packet_refs pk i) s p (map snd fl @ other) tf"
    and pk: "ps_packets s p = Some pk" "packet_ready pk" "pk_mbuf pk = packet_mbuf" "md_length (packet_md pk) = 10 + mbufChainLen packet_mbuf"
    and env: "dma_sound (nk_dma nk)" and mb: "packet_mbuf \<noteq> []" "10 + mbufChainLen packet_mbuf \<noteq> 0"
  shows "\<exists>ret idx' q' s'. queue_packet nk p tso packet_mbuf for_writing (num_free_desc q) idx (q, s) = Some (ret, idx', q', s')
    \<and> same_setup q q' \<and> packet_frame {p} (map snd fl @ other) s s'
    \<and> (ret = kIOReturnSuccess \<and> packet_added nk packet_mbuf for_writing base fs fl other tf idx q p idx' q' s'
       \<or> ret = kIOReturnOutputStall \<and> packet_not_added base fs fl other tf idx q idx' q' s')"
proof -
  let ?n = "num_free_desc q" and ?fly = "map snd fl @ other"
  let ?ctx = "\<lparr>cs_descs = replicate (unat ?n) (- 1), cs_max_num_descs = ?n, cs_max_segment_created = - 1,
     cs_buffer_direction_flag = (if for_writing then ucast VRING_DESC_F_WRITE else 0), cs_total_len = 0,
     cs_error = False, cs_out_of_descriptors = False, cs_descs_allocd = 0\<rparr>"
  obtain ret off segs where g: "gen_segs (nk_dma nk) (packet_md pk) ?n = (ret, off, segs)" by (cases "gen_segs (nk_dma nk) (packet_md pk) ?n")
  have nfs: "unat ?n = length fs" using net_queue_inv_free [OF inv] .
  have len: "length segs \<le> length fs" using env g nfs by (metis dma_bounded_def dma_sound_def snd_conv)
  have pool: "net_pool q fs" using inv by (simp add: net_queue_inv_def)
  obtain ds h k ctx' where o: "output_segments 0 segs (q, ?ctx) = Some (length segs, q\<lparr>desc := ds, free_desc_head := h, num_free_desc := k\<rparr>, ctx')"
    "cs_descs ctx' = map of_nat (take (length segs) fs) @ replicate (length fs - length segs) (- 1)"
    "net_pool (q\<lparr>desc := ds, free_desc_head := h, num_free_desc := k\<rparr>) (drop (length segs) fs)"
    "length ds = length (desc q)" "\<forall>j. j \<notin> set (take (length segs) fs) \<longrightarrow> ds ! j = desc q ! j"
    "\<forall>k < length segs. ds ! (fs ! k) = segment_desc (if for_writing then ucast VRING_DESC_F_WRITE else 0) (segs ! k)"
    using output_segments_ok [OF pool, of ?ctx "[]" "length fs" segs] nfs len by auto
  show ?thesis
  proof (cases "ret \<noteq> kIOReturnSuccess \<or> off < md_length (packet_md pk)")
    case True
    obtain q' where q': "push_back (cs_descs ctx') (q\<lparr>desc := ds, free_desc_head := h, num_free_desc := k\<rparr>) = Some q'"
      "net_queue_inv q' (rev (take (length segs) fs) @ drop (length segs) fs) fl" "avail q' = avail q" "same_setup q q'"
      using push_back_queue [OF inv o(3,4,5)] o(2) by auto
    have perm: "mset (rev (take (length segs) fs) @ drop (length segs) fs) = mset fs"
      by (metis append_take_drop_id mset_append mset_rev)
    obtain s' where s': "empty_descriptors nk p s = Some s'" "packets_inv base (recycle p s') ?fly tf"
      "\<forall>p'. p' \<noteq> p \<longrightarrow> ps_packets s' p' = ps_packets s p'" "ps_pool s' = ps_pool s" "ps_debugger_packet s' = ps_debugger_packet s"
      using empty_descriptors_ok [OF out pk(1,2)] by blast
    have "packet_frame {p} ?fly s (recycle p s')" unfolding packet_frame_def using s'(3-5) out by (auto simp: recycle_def outstanding_def)
    moreover have "queue_packet nk p tso packet_mbuf for_writing ?n idx (q, s) = Some (kIOReturnOutputStall, idx, q', recycle p s')"
      using pk(1) g o(1) True q'(1) s'(1) by (simp add: queue_packet_def)
    moreover have "packet_not_added base fs fl other tf idx q idx q' (recycle p s')" unfolding packet_not_added_def using q' s' perm by blast
    ultimately show ?thesis using q'(4) by blast
  next
    case False
    then have fin: "ret = kIOReturnSuccess" "md_length (packet_md pk) \<le> off" by (auto simp: not_less)
    have ne: "segs \<noteq> []" using env g fin pk(4) mb(2) unfolding dma_sound_def by metis
    obtain q' s' where p: "publish_packet p tso packet_mbuf (cs_descs ctx') (length segs) idx (q\<lparr>desc := ds, free_desc_head := h, num_free_desc := k\<rparr>, s)
        = Some (idx + 1, q', s')" and res: "same_setup q q'" "packet_frame {p} ?fly s s'"
        "packet_added nk packet_mbuf for_writing base fs fl other tf idx q p (idx + 1) q' s'"
      using publish_added [OF inv out pk mb(1) _ fin(2) ne refl len o(3,4,5,6), of nk tso "length fs - length segs" idx] g fin(1) o(2) by auto
    have "queue_packet nk p tso packet_mbuf for_writing ?n idx (q, s) = Some (kIOReturnSuccess, idx + 1, q', s')"
      using pk(1) g o(1) False p by (simp add: queue_packet_def)
    with res show ?thesis by blast
  qed
qed

lemma addPacketToQueue_ok:
  assumes inv: "net_queue_inv q fs fl" and pinv: "packets_inv base s (map snd fl @ other) tf" and fresh: "fresh_for a s ((map snd fl @ other) @ tf)"
    and env: "dma_sound (nk_dma nk)" and mb: "packet_mbuf \<noteq> []" "10 + mbufChainLen packet_mbuf \<noteq> 0"
  shows "\<exists>ret idx' q' s'. addPacketToQueue nk a packet_mbuf for_writing idx (q, s) = Some (ret, idx', q', s')
    \<and> same_setup q q' \<and> packet_frame (new_addr a) (map snd fl @ other) s s'
    \<and> (ret = kIOReturnSuccess \<and> (\<exists>p \<in> set (ps_pool s) \<union> new_addr a. packet_added nk packet_mbuf for_writing base fs fl other tf idx q p idx' q' s')
       \<or> (ret = kIOReturnOutputStall \<or> ret = kIOReturnOutputDropped) \<and> packet_not_added base fs fl other tf idx q idx' q' s')"
proof (cases "num_free_desc q < 2")
  case True
  have "packet_not_added base fs fl other tf idx q idx q s" unfolding packet_not_added_def using inv pinv by auto
  with True show ?thesis by (auto simp: addPacketToQueue_def same_setup_def packet_frame_def)
next
  case False
  let ?fly = "map snd fl @ other" and ?req = "requested_offloads nk a for_writing s"
  obtain r s1 where prep: "prepare_packet nk a ?req packet_mbuf s = Some (r, s1)" "packet_frame (new_addr a) ?fly s s1"
    and r: "case r of
         Inl ret \<Rightarrow> ret = kIOReturnOutputDropped \<and> packets_inv base s1 ?fly tf
       | Inr p \<Rightarrow> p \<in> set (ps_pool s) \<union> new_addr a \<and> (\<exists>pk. ps_packets s1 p = Some pk \<and> packet_ready pk \<and> pk_mbuf pk = packet_mbuf
           \<and> pk_dma_cmd pk = Some (packet_md pk) \<and> md_length (packet_md pk) = 10 + mbufChainLen packet_mbuf
           \<and> outstanding (\<lambda>i. base i + packet_refs pk i) s1 p ?fly tf)"
    using prepare_packet_ok [OF pinv fresh, of nk ?req packet_mbuf] unfolding packet_frame_def by blast
  show ?thesis
  proof (cases r)
    case (Inl ret)
    then have "packet_not_added base fs fl other tf idx q idx q s1" unfolding packet_not_added_def using inv r by auto
    with Inl r prep False show ?thesis by (auto simp: addPacketToQueue_def same_setup_def)
  next
    case (Inr p)
    obtain pk where p: "p \<in> set (ps_pool s) \<union> new_addr a" and pk: "ps_packets s1 p = Some pk" "packet_ready pk" "pk_mbuf pk = packet_mbuf"
      "md_length (packet_md pk) = 10 + mbufChainLen packet_mbuf" and out: "outstanding (\<lambda>i. base i + packet_refs pk i) s1 p ?fly tf"
      using r Inr by auto
    obtain ret idx' q' s' where res: "queue_packet nk p (snd ?req) packet_mbuf for_writing (num_free_desc q) idx (q, s1) = Some (ret, idx', q', s')"
      "same_setup q q'" "packet_frame {p} ?fly s1 s'"
      "ret = kIOReturnSuccess \<and> packet_added nk packet_mbuf for_writing base fs fl other tf idx q p idx' q' s'
       \<or> ret = kIOReturnOutputStall \<and> packet_not_added base fs fl other tf idx q idx' q' s'"
      using queue_packet_ok [OF inv out pk env mb] by blast
    have "packet_frame (new_addr a) ?fly s s'" using prep(2) res(3) p unfolding packet_frame_def by auto
    moreover have "addPacketToQueue nk a packet_mbuf for_writing idx (q, s) = Some (ret, idx', q', s')"
      using prep(1) False Inr res(1) by (simp add: addPacketToQueue_def)
    ultimately show ?thesis using res(2,4) p by blast
  qed
qed

text \<open>A packet to be received involves no call to the family.\<close>

lemma empty_descriptors_calls:
  "empty_descriptors nk p s = Some s' \<Longrightarrow> ps_calls s' = ps_calls s \<and> ps_notify_on_empty s' = ps_notify_on_empty s"
  by (auto simp: empty_descriptors_def store_packet_def Option.bind_eq_Some_conv)

lemma alloc_queued_packet_calls:
  "alloc_queued_packet a s = (x, s') \<Longrightarrow> ps_calls s' = ps_calls s \<and> ps_notify_on_empty s' = ps_notify_on_empty s"
  by (auto simp: alloc_queued_packet_def store_packet_def split: list.splits option.splits)

lemma prepare_packet_calls:
  assumes "prepare_packet nk a (False, None) packet_mbuf s = Some (r, s')"
  shows "ps_calls s' = ps_calls s \<and> ps_notify_on_empty s' = ps_notify_on_empty s"
proof -
  obtain x s1 where alloc: "alloc_queued_packet a s = (x, s1)" by fastforce
  then have "ps_calls s1 = ps_calls s \<and> ps_notify_on_empty s1 = ps_notify_on_empty s" by (rule alloc_queued_packet_calls)
  then show ?thesis using assms alloc
    by (auto simp: prepare_packet_def recycle_def store_packet_def init_packet_header_def Let_def
        split: option.split_asm if_split_asm prod.split_asm Option.bind_split_asm dest!: empty_descriptors_calls)
qed

lemma addPacketToQueue_calls:
  assumes "addPacketToQueue nk a packet_mbuf True idx (q, s) = Some (ret, idx', q', s')"
  shows "ps_calls s' = ps_calls s \<and> ps_notify_on_empty s' = ps_notify_on_empty s"
  using assms
  by (auto simp: addPacketToQueue_def requested_offloads_def queue_packet_def publish_packet_def recycle_def Let_def
      split: if_split_asm sum.split_asm prod.split_asm Option.bind_split_asm dest!: prepare_packet_calls empty_descriptors_calls)

section \<open>Filling the receive queue\<close>

lemma notify_if_eq:
  "notify_if b idx (q, s) = (q\<lparr>avail := (avail q)\<lparr>av_idx := if b then idx else av_idx (avail q)\<rparr>\<rparr>,
     s\<lparr>ps_calls := ps_calls s @ (if b \<and> us_flags (used q) AND VRING_USED_F_NO_NOTIFY = 0 then [Notify (queue_index q)] else [])\<rparr>)"
  by (simp add: notify_if_def notifyQueueAvailIdx_def Let_def call_def)

text \<open>The ring after chains have been entered one after the other.\<close>

fun enter_chains :: "nat \<Rightarrow> u16 \<Rightarrow> nat list list \<Rightarrow> u16 list \<Rightarrow> u16 list" where
  "enter_chains n idx [] ring = ring"
| "enter_chains n idx (ch # chs) ring = enter_chains n (idx + 1) chs (ring[unat idx mod n := of_nat (hd ch)])"

text \<open>New packet structures have addresses of their own.\<close>

definition fresh_from :: "nat \<Rightarrow> (nat \<Rightarrow> mbuf list \<times> packet_args) \<Rightarrow> packet_state \<Rightarrow> nat list \<Rightarrow> bool" where
  "fresh_from k mbufs s owned \<longleftrightarrow> (\<forall>j \<ge> k. fresh_for (snd (mbufs j)) s owned)
     \<and> (\<forall>i j. i \<noteq> j \<longrightarrow> new_addr (snd (mbufs i)) \<inter> new_addr (snd (mbufs j)) = {})"

lemma fresh_for_iff: "fresh_for a s owned \<longleftrightarrow> (\<forall>p \<in> new_addr a. p \<notin> set (ps_pool s) \<union> set owned \<and> ps_debugger_packet s \<noteq> Some p)"
  by (auto simp: fresh_for_def new_addr_def split: option.splits)

lemma fresh_from_Suc:
  assumes fresh: "fresh_from k mbufs s owned" and frame: "packet_frame (new_addr (snd (mbufs k))) fly s s'"
    and p: "p \<in> set (ps_pool s) \<union> new_addr (snd (mbufs k))" "set owned' \<subseteq> insert p (set owned)"
  shows "fresh_from (Suc k) mbufs s' owned'"
  unfolding fresh_from_def fresh_for_iff
proof (intro conjI allI impI ballI)
  fix j x assume j: "Suc k \<le> j" "x \<in> new_addr (snd (mbufs j))"
  have "new_addr (snd (mbufs k)) \<inter> new_addr (snd (mbufs j)) = {}" using fresh j(1) by (simp add: fresh_from_def)
  with j(2) have "x \<notin> new_addr (snd (mbufs k))" by blast
  moreover have "fresh_for (snd (mbufs j)) s owned" using fresh Suc_leD [OF j(1)] by (simp add: fresh_from_def)
  then have "x \<notin> set (ps_pool s) \<union> set owned" "ps_debugger_packet s \<noteq> Some x" using j(2) by (simp_all add: fresh_for_iff)
  ultimately show "x \<notin> set (ps_pool s') \<union> set owned'" "ps_debugger_packet s' \<noteq> Some x" using frame p by (auto simp: packet_frame_def)
qed (use fresh in \<open>auto simp: fresh_from_def\<close>)

text \<open>
  The outcome of the loop from iteration \<open>k\<close> on: the packets \<open>new\<close>, most recent first, have been added with their mbufs; it stops when there are
  fewer than two descriptors, or fails. The device has been notified if any packet has been added, and the mbuf that could not be added is freed.
\<close>

definition final_calls :: "(nat \<Rightarrow> mbuf list \<times> packet_args) \<Rightarrow> nat \<Rightarrow> bool \<Rightarrow> bool \<Rightarrow> virtio_net_virtqueue \<Rightarrow> queue_call list" where
  "final_calls mbufs k ok any q = (if ok \<or> fst (mbufs k) = [] then [] else [FreeMbuf (fst (mbufs k))])
     @ (if any \<and> us_flags (used q) AND VRING_USED_F_NO_NOTIFY = 0 then [Notify (queue_index q)] else [])"

definition filled :: "(nat \<Rightarrow> mbuf list \<times> packet_args) \<Rightarrow> nat \<Rightarrow> bool \<Rightarrow> u16 \<Rightarrow> virtio_net_virtqueue \<Rightarrow> packet_state
    \<Rightarrow> bool \<Rightarrow> virtio_net_virtqueue \<Rightarrow> packet_state \<Rightarrow> (nat list \<times> nat) list \<Rightarrow> bool" where
  "filled mbufs k any idx q s ok q' s' new \<longleftrightarrow> same_setup q q'
     \<and> av_ring (avail q') = enter_chains (entries q) idx (map fst (rev new)) (av_ring (avail q))
     \<and> av_flags (avail q') = av_flags (avail q) \<and> ps_notify_on_empty s' = ps_notify_on_empty s
     \<and> av_idx (avail q') = (if any \<or> new \<noteq> [] then idx + of_nat (length new) else av_idx (avail q))
     \<and> map (mbuf_of s' \<circ> snd) (rev new) = map (fst \<circ> mbufs) [k..<k + length new]
     \<and> ps_calls s' = ps_calls s @ final_calls mbufs (k + length new) ok (any \<or> new \<noteq> []) q"

text \<open>Packets that are in a queue already keep their mbufs.\<close>

abbreviation same_packets :: "nat list \<Rightarrow> packet_state \<Rightarrow> packet_state \<Rightarrow> bool" where
  "same_packets flying s s' \<equiv> \<forall>p \<in> set flying. ps_packets s' p = ps_packets s p"

lemma filled_stop:
  assumes "same_setup q q1" "net_queue_inv q1 fs fl" "packets_inv base s1 flying tf" "avail q1 = avail q"
    "ps_calls s1 = ps_calls s @ (if ok \<or> fst (mbufs k) = [] then [] else [FreeMbuf (fst (mbufs k))])" "same_packets flying s s1"
    "ps_notify_on_empty s1 = ps_notify_on_empty s"
  shows "\<exists>q' s'. notify_if any idx (q1, s1) = (q', s') \<and> net_queue_inv q' fs fl \<and> packets_inv base s' flying tf
    \<and> filled mbufs k any idx q s ok q' s' [] \<and> same_packets flying s s'"
proof -
  obtain q' s' where n: "notify_if any idx (q1, s1) = (q', s')" by fastforce
  have "net_queue_inv q' fs fl" using assms(2) n by (auto simp: notify_if_eq net_queue_inv_def net_pool_def net_wf_def)
  moreover have "packets_inv base s' flying tf" using packets_inv_frame(1) [OF assms(3)] n by (auto simp: notify_if_eq)
  moreover have "filled mbufs k any idx q s ok q' s' []" "same_packets flying s s'"
    using assms n by (auto simp: notify_if_eq same_setup_def filled_def final_calls_def)
  ultimately show ?thesis using n by blast
qed

lemma filled_step:
  assumes e: "entered nk (fst (mbufs k)) True idx fs q ch p q1 s1" "same_setup q q1" "ps_calls s1 = ps_calls s \<and> ps_notify_on_empty s1 = ps_notify_on_empty s"
    and f: "filled mbufs (Suc k) True (idx + 1) q1 s1 ok q' s' new" "ps_packets s' p = ps_packets s1 p"
  shows "filled mbufs k any idx q s ok q' s' (new @ [(ch, p)])"
proof -
  have "avail q1 = (avail q)\<lparr>av_ring := (av_ring (avail q))[unat idx mod entries q := of_nat (hd ch)]\<rparr>" "mbuf_of s' p = fst (mbufs k)"
    using e(1) f(2) by (simp_all add: entered_def mbuf_of_def)
  moreover have "[k..<Suc (k + length new)] = k # [Suc k..<Suc (k + length new)]" by (rule upt_conv_Cons) simp
  ultimately show ?thesis using e(2,3) f(1) by (auto simp: filled_def same_setup_def final_calls_def algebra_simps)
qed

lemma populate_loop_ok:
  assumes "net_queue_inv q fs fl" "packets_inv base s (map snd fl @ other) tf" "fresh_from k mbufs s ((map snd fl @ other) @ tf)"
    "dma_sound (nk_dma nk)" "\<forall>k. 10 + mbufChainLen (fst (mbufs k)) \<noteq> 0"
  shows "\<exists>ok q' s' fs' new. populate_loop nk mbufs k any idx (q, s) = Some (ok, q', s') \<and> net_queue_inv q' fs' (new @ fl)
    \<and> packets_inv base s' (map snd (new @ fl) @ other) tf \<and> (ok \<longleftrightarrow> length fs' < 2) \<and> filled mbufs k any idx q s ok q' s' new
    \<and> same_packets (map snd fl @ other) s s'"
  using assms
proof (induction "length fs" arbitrary: k any idx q s fs fl rule: less_induct)
  case less
  have two: "num_free_desc q < 2 \<longleftrightarrow> length fs < 2" using net_queue_inv_free [OF less.prems(1)] by (simp add: word_less_nat_alt)
  let ?mb = "fst (mbufs k)" and ?a = "snd (mbufs k)" and ?fly = "map snd fl @ other"
  have stop: ?case if "populate_loop nk mbufs k any idx (q, s) = Some (ok, notify_if any idx (q1, s1))" "same_setup q q1" "net_queue_inv q1 fs1 fl"
      "packets_inv base s1 ?fly tf" "avail q1 = avail q" "ps_calls s1 = ps_calls s @ (if ok \<or> ?mb = [] then [] else [FreeMbuf ?mb])"
      "same_packets ?fly s s1" "ps_notify_on_empty s1 = ps_notify_on_empty s" "ok \<longleftrightarrow> length fs1 < 2" for ok q1 s1 fs1
    using filled_stop [where mbufs = mbufs and k = k, OF that(2-8), of any idx] that(1,9) by (metis append_Nil)
  consider "length fs < 2" | "\<not> length fs < 2" "?mb = []" | "\<not> length fs < 2" "?mb \<noteq> []" by blast
  then show ?case
  proof cases
    case 1
    then have "populate_loop nk mbufs k any idx (q, s) = Some (True, notify_if any idx (q, s))" using two by (simp add: populate_loop.simps)
    then show ?thesis using less.prems(1,2) 1 by (intro stop [of True q s fs]) (auto simp: same_setup_def)
  next
    case 2
    then have "populate_loop nk mbufs k any idx (q, s) = Some (False, notify_if any idx (q, s))" using two by (simp add: populate_loop.simps)
    then show ?thesis using less.prems(1,2) 2 by (intro stop [of False q s fs]) (auto simp: same_setup_def)
  next
    case 3
    have fresh: "fresh_for ?a s (?fly @ tf)" and mb: "10 + mbufChainLen ?mb \<noteq> 0" using less.prems(3,5) by (auto simp: fresh_from_def)
    obtain ret idx' q1 s1 where add: "addPacketToQueue nk ?a ?mb True idx (q, s) = Some (ret, idx', q1, s1)" "same_setup q q1"
      "packet_frame (new_addr ?a) ?fly s s1"
      and res: "ret = kIOReturnSuccess \<and> (\<exists>p \<in> set (ps_pool s) \<union> new_addr ?a. packet_added nk ?mb True base fs fl other tf idx q p idx' q1 s1)
       \<or> (ret = kIOReturnOutputStall \<or> ret = kIOReturnOutputDropped) \<and> packet_not_added base fs fl other tf idx q idx' q1 s1"
      using addPacketToQueue_ok [OF less.prems(1,2) fresh less.prems(4) 3(2) mb, of True idx] by blast
    note calls = addPacketToQueue_calls [OF add(1)]
    have same: "same_packets ?fly s s1" using add(3) by (simp add: packet_frame_def)
    show ?thesis
    proof (cases "ret = kIOReturnSuccess")
      case True
      then obtain p ch where p: "p \<in> set (ps_pool s) \<union> new_addr ?a" "idx' = idx + 1" and e: "entered nk ?mb True idx fs q ch p q1 s1"
        and i1: "net_queue_inv q1 (drop (length ch) fs) ((ch, p) # fl)" "packets_inv base s1 (p # ?fly) tf"
        using res by (auto simp: packet_added_def)
      have lt: "length (drop (length ch) fs) < length fs" using 3(1) e by (auto simp: entered_def)
      have fresh1: "fresh_from (Suc k) mbufs s1 ((map snd ((ch, p) # fl) @ other) @ tf)"
        by (rule fresh_from_Suc [OF less.prems(3) add(3) p(1)]) auto
      obtain ok q' s' fs' new where IH: "populate_loop nk mbufs (Suc k) True (idx + 1) (q1, s1) = Some (ok, q', s')"
        "net_queue_inv q' fs' (new @ (ch, p) # fl)" "packets_inv base s' (map snd (new @ (ch, p) # fl) @ other) tf" "ok \<longleftrightarrow> length fs' < 2"
        "filled mbufs (Suc k) True (idx + 1) q1 s1 ok q' s' new" "same_packets (p # ?fly) s1 s'"
        using less.hyps [OF lt i1(1) _ fresh1 less.prems(4,5)] i1(2) by fastforce
      have "filled mbufs k any idx q s ok q' s' (new @ [(ch, p)])" using filled_step [OF e add(2) calls IH(5)] IH(6) by simp
      moreover have "populate_loop nk mbufs k any idx (q, s) = Some (ok, q', s')"
        using two 3 add(1) True p(2) IH(1) by (subst populate_loop.simps) simp
      ultimately show ?thesis using IH(2-4,6) same by (intro exI [of _ ok] exI [of _ q'] exI [of _ s'] exI [of _ fs'] exI [of _ "new @ [(ch, p)]"]) simp
    next
      case False
      then obtain fs1 where n: "idx' = idx" "avail q1 = avail q" "net_queue_inv q1 fs1 fl" "mset fs1 = mset fs" "packets_inv base s1 ?fly tf"
        using res by (auto simp: packet_not_added_def)
      have "populate_loop nk mbufs k any idx (q, s) = Some (False, notify_if any idx (q1, call (FreeMbuf ?mb) s1))"
        using two 3 add(1) False n(1) by (subst populate_loop.simps) simp
      moreover have "packets_inv base (call (FreeMbuf ?mb) s1) ?fly tf" using packets_inv_frame(1) [OF n(5)] by (simp add: call_def)
      moreover have "length fs1 = length fs" using n(4) by (rule mset_eq_length)
      ultimately show ?thesis using add(2) n(2,3) calls same 3 by (intro stop [of False q1 "call (FreeMbuf ?mb) s1" fs1]) (auto simp: call_def)
    qed
  qed
qed

end
