(* ===== verification/Packet_Queue_Props.thy ===== *)
theory Packet_Queue_Props
  imports Packet_Queue_Fill
begin

text \<open>
  The properties of the packet queues: a queue is set up with all descriptors free, packets are added completely or not at all, the receive queue is filled, and
  completed packets are handed over or freed.
\<close>

section \<open>A new queue\<close>

lemma link_free_descs_ok:
  assumes "n = length ds"
  shows "\<exists>ds'. link_free_descs n ds = Some ds' \<and> length ds' = n \<and> (\<forall>i. Suc i < n \<longrightarrow> next (ds' ! i) = of_nat (Suc i))"
proof -
  have "\<exists>ds'. foldM (\<lambda>i ds. array_modify ds (i - 1) (\<lambda>d. d\<lparr>flags := VRING_DESC_F_NEXT, next := of_nat i\<rparr>)) [1..<m] ds = Some ds' \<and> length ds' = n
      \<and> (\<forall>i. Suc i < m \<longrightarrow> next (ds' ! i) = of_nat (Suc i))" if "m \<le> n" for m
    using that
  proof (induction m)
    case (Suc m)
    then obtain ds1 where IH: "foldM (\<lambda>i ds. array_modify ds (i - 1) (\<lambda>d. d\<lparr>flags := VRING_DESC_F_NEXT, next := of_nat i\<rparr>)) [1..<m] ds = Some ds1"
      "length ds1 = n" "\<forall>i. Suc i < m \<longrightarrow> next (ds1 ! i) = of_nat (Suc i)" by auto
    show ?case
    proof (cases "m = 0")
      case True
      with assms show ?thesis by simp
    next
      case False
      with IH Suc.prems show ?thesis by (auto simp: foldM_append nth_list_update less_Suc_eq)
    qed
  qed (use assms in simp)
  from this [of n] show ?thesis by (simp add: link_free_descs_def)
qed

lemma free_chain_upt:
  assumes "\<forall>i. Suc i < n \<longrightarrow> next (ds ! i) = of_nat (Suc i)" "length ds = n" "n \<le> 65536" "j \<le> n"
  shows "free_chain ds (of_nat j) [j..<n]"
  using assms(4)
proof (induction "n - j" arbitrary: j)
  case (Suc k)
  then have j: "j < n" by simp
  show ?case
  proof (cases "Suc j < n")
    case True
    then have "free_chain ds (of_nat (Suc j)) [Suc j..<n]" using Suc.hyps by (intro Suc.hyps(1)) auto
    then show ?thesis using True assms j by (simp add: upt_conv_Cons)
  next
    case False
    with j have "[j..<n] = [j]" by (simp add: upt_conv_Cons)
    then show ?thesis using assms(2,3) j by simp
  qed
qed simp

lemma virtqueue_init_inv:
  assumes "is_pow2 n" "n \<noteq> 0"
  shows "\<exists>q. virtqueue_init True n queue_id = Some q \<and> net_queue_inv q [0..<unat n] [] \<and> last_used_idx q = 0 \<and> av_idx (avail q) = 0
    \<and> queue_index q = queue_id \<and> num q = ucast n \<and> us_flags (used q) = 0"
proof -
  obtain k where k: "k < 16" "unat n = 2 ^ k" using assms by (rule pow2_u16_cases)
  obtain ds where ds: "link_free_descs (unat n) (replicate (unat n) zero_desc) = Some ds" "length ds = unat n"
    "\<forall>i. Suc i < unat n \<longrightarrow> next (ds ! i) = of_nat (Suc i)" using link_free_descs_ok [of "unat n" "replicate (unat n) zero_desc"] by auto
  have "free_chain ds (of_nat 0) [0..<unat n]" using ds(2,3) unat_u16_less [of n] by (intro free_chain_upt) auto
  moreover have "\<exists>k \<le> 15. unat n = 2 ^ k" using k by (intro exI [of _ k]) simp
  ultimately show ?thesis using ds
    by (auto simp: virtqueue_init_def cleared_vring_def net_queue_inv_def net_pool_def net_wf_def)
qed

section \<open>Slots of the available ring\<close>

text \<open>There are never more chains than descriptors.\<close>

lemma length_concat_ge: "\<forall>xs \<in> set xss. xs \<noteq> [] \<Longrightarrow> length xss \<le> length (concat xss)"
proof (induction xss)
  case (Cons xs xss)
  then show ?case by (cases xs) auto
qed simp

lemma net_queue_inv_length:
  assumes "net_queue_inv q fs (new @ fl)"
  shows "length new \<le> entries q"
proof -
  have d: "distinct (concat (map fst new))" "set (concat (map fst new)) \<subseteq> {..<entries q}" using assms by (auto simp: net_queue_inv_def)
  have "length new \<le> length (concat (map fst new))"
    using length_concat_ge [of "map fst new"] assms by (force simp: net_queue_inv_def dest: packet_chain_Nil)
  also have "... = card (set (concat (map fst new)))" using distinct_card [OF d(1)] by simp
  also have "... \<le> entries q" using card_mono [OF _ d(2)] by simp
  finally show ?thesis .
qed

text \<open>The size of the ring divides the range of the index, so successive positions do not collide when the index wraps.\<close>

lemma ring_slot:
  assumes "n = 2 ^ k" "k \<le> 15"
  shows "unat (idx + of_nat i :: u16) mod n = (unat idx + i) mod n"
proof -
  have "n dvd 65536" using assms le_imp_power_dvd [of k 16 "2 :: nat"] by simp
  moreover have "unat (idx + of_nat i :: u16) = (unat idx + i) mod 65536"
    by (simp add: unat_word_ariths unsigned_of_nat take_bit_eq_mod mod_simps)
  ultimately show ?thesis by (simp add: mod_mod_cancel)
qed

lemma enter_chains_other:
  "\<forall>i < length chs. unat (idx + of_nat i) mod n \<noteq> j \<Longrightarrow> enter_chains n idx chs ring ! j = ring ! j"
proof (induction chs arbitrary: idx ring)
  case (Cons ch chs)
  then have "unat idx mod n \<noteq> j" by force
  moreover have "\<forall>i < length chs. unat (idx + 1 + of_nat i) mod n \<noteq> j" using Cons.prems by (auto simp: algebra_simps dest: spec [of _ "Suc _"])
  ultimately show ?case using Cons.IH by simp
qed simp

lemma enter_chains_nth:
  assumes n: "n = 2 ^ k" "k \<le> 15" and "length ring = n" "length chs \<le> n" "i < length chs"
  shows "enter_chains n idx chs ring ! (unat (idx + of_nat i) mod n) = of_nat (hd (chs ! i))"
  using assms(3-)
proof (induction chs arbitrary: idx ring i)
  case (Cons ch chs)
  have pos: "0 < n" using n(1) by simp
  show ?case
  proof (cases i)
    case 0
    have "unat (idx + 1 + of_nat j) mod n \<noteq> unat idx mod n" if "j < length chs" for j
    proof
      assume "unat (idx + 1 + of_nat j) mod n = unat idx mod n"
      then have "(unat idx + Suc j) mod n = unat idx mod n" using ring_slot [OF n, of idx "Suc j"] by (simp add: algebra_simps)
      then have "n dvd Suc j" using mod_eq_dvd_iff_nat [of "unat idx" "unat idx + Suc j" n] by simp
      then show False using that Cons.prems(2) by (auto dest: dvd_imp_le)
    qed
    then show ?thesis using 0 Cons.prems(1) pos by (simp add: enter_chains_other)
  next
    case (Suc j)
    then show ?thesis using Cons.IH [of "ring[unat idx mod n := of_nat (hd ch)]" j "idx + 1"] Cons.prems by (simp add: algebra_simps)
  qed
qed simp

section \<open>An example\<close>

text \<open>A queue of four descriptors, a driver without packet structures, a DMA layer with one segment per packet, and memory for packet structures at addresses
  of their own.\<close>

definition example_kernel :: net_kernel where
  "example_kernel = \<lparr>nk_ssdc = example_ssdc_env, nk_dma = linear_dma, nk_refused = kIOReturnNoSpace, kIOEthernetMaxPacketSize = 1518, kChecksumTCP = 1,
     MBUF_TSO_IPV4 = 1, MBUF_TSO_IPV6 = 2\<rparr>"

definition example_args :: "nat \<Rightarrow> packet_args" where
  "example_args i = \<lparr>pa_new = Some (10 * i, \<lparr>md_id = 10 * i, md_length = 64\<rparr>, 10 * i + 1, 10 * i + 2), pa_demand_mask = 0, pa_tso_requested = None,
     pa_ip_header = \<lparr>ip_len = 0, ip_p = 0, ip_src = 0, ip_dst = 0\<rparr>, pa_ip_hl = 5\<rparr>"

definition example_state :: packet_state where
  "example_state = \<lparr>ps_packets = (\<lambda>_. None), ps_pool = [], ps_refs = (\<lambda>_. 1), transmit_packets_to_free = None, ps_debugger_packet = None,
     ps_checksum_offload = False, ps_tso_v4 = False, ps_notify_on_empty = False, ps_stalled = False, ps_interface = True, ps_calls = []\<rparr>"

definition example_mbuf :: "mbuf list" where
  "example_mbuf = [\<lparr>mbuf_data = 8192, mbuf_len = 1518\<rparr>]"

definition example_queue :: virtio_net_virtqueue where
  "example_queue = the (virtqueue_init True 4 0)"

lemma example_queue_inv: "net_queue_inv example_queue [0, 1, 2, 3] []" "av_idx (avail example_queue) = 0" "last_used_idx example_queue = 0"
  "num example_queue = 4" "us_flags (used example_queue) = 0" "queue_index example_queue = 0"
proof -
  have "is_pow2 4" by (simp add: is_pow2_def)
  then obtain q where "virtqueue_init True 4 0 = Some q" "net_queue_inv q [0..<unat (4 :: u16)] []" "last_used_idx q = 0" "av_idx (avail q) = 0"
    "queue_index q = 0" "num q = ucast (4 :: u16)" "us_flags (used q) = 0"
    using virtqueue_init_inv [of 4 0] by auto
  moreover have "[0..<unat (4 :: u16)] = [0, 1, 2, 3]" by (simp add: upt_rec)
  ultimately show "net_queue_inv example_queue [0, 1, 2, 3] []" "av_idx (avail example_queue) = 0" "last_used_idx example_queue = 0"
    "num example_queue = 4" "us_flags (used example_queue) = 0" "queue_index example_queue = 0" by (simp_all add: example_queue_def)
qed

lemma example_state_inv: "packets_inv (\<lambda>_. 1) example_state [] []"
  by (simp add: packets_inv_def example_state_def)

lemma linear_dma_sound: "dma_sound linear_dma"
  using linear_dma_bounded by (auto simp: dma_sound_def linear_dma_def split: if_splits)

lemma example_fresh: "fresh_for (example_args i) example_state []"
  by (simp add: fresh_for_def example_args_def example_state_def)

lemma example_premises:
  "packets_inv (\<lambda>_. 1) example_state (map snd [] @ []) []" "fresh_for (example_args i) example_state ((map snd [] @ []) @ [])"
  "dma_sound (nk_dma example_kernel)" "example_mbuf \<noteq> []" "10 + mbufChainLen example_mbuf \<noteq> 0"
  using example_state_inv example_fresh linear_dma_sound by (simp_all add: example_kernel_def example_mbuf_def)

text \<open>The state after one packet has been added.\<close>

definition example_added :: "IOReturn \<times> u16 \<times> virtio_net_virtqueue \<times> packet_state" where
  "example_added = the (addPacketToQueue example_kernel (example_args 2) example_mbuf True 0 (example_queue, example_state))"

lemma example_added_ok: "fst example_added = kIOReturnSuccess"
  by code_simp

definition example_tx :: virtio_net_virtqueue where "example_tx = fst (snd (snd example_added))"
definition example_tx_state :: packet_state where "example_tx_state = snd (snd (snd example_added))"

lemma example_added_inv:
  "net_queue_inv example_tx [1, 2, 3] [([0], 20)]" "packets_inv (\<lambda>_. 1) example_tx_state [20] []" "mbuf_of example_tx_state 20 = example_mbuf"
  "num example_tx = 4" "last_used_idx example_tx = 0"
proof -
  obtain ret idx' q' s' where e: "addPacketToQueue example_kernel (example_args 2) example_mbuf True 0 (example_queue, example_state) = Some (ret, idx', q', s')"
    "same_setup example_queue q'"
    "ret = kIOReturnSuccess \<and> (\<exists>p \<in> set (ps_pool example_state) \<union> new_addr (example_args 2).
         packet_added example_kernel example_mbuf True (\<lambda>_. 1) [0, 1, 2, 3] [] [] [] 0 example_queue p idx' q' s')
     \<or> (ret = kIOReturnOutputStall \<or> ret = kIOReturnOutputDropped)
         \<and> packet_not_added (\<lambda>_. 1) [0, 1, 2, 3] [] [] [] 0 example_queue idx' q' s'"
    using addPacketToQueue_ok [OF example_queue_inv(1) example_premises, of 2 True 0] by blast
  have res: "example_added = (ret, idx', q', s')" by (simp add: example_added_def e(1))
  then have "ret = kIOReturnSuccess" using example_added_ok by (metis fst_conv)
  moreover have "set (ps_pool example_state) \<union> new_addr (example_args 2) = {20}" by (simp add: example_state_def example_args_def new_addr_def)
  ultimately obtain ch where ch: "entered example_kernel example_mbuf True 0 [0, 1, 2, 3] example_queue ch 20 q' s'"
    "net_queue_inv q' (drop (length ch) [0, 1, 2, 3]) [(ch, 20)]" "packets_inv (\<lambda>_. 1) s' [20] []"
    using e(3) by (auto simp: packet_added_def)
  have "ch = [0]" using ch(1) by (auto simp: entered_def example_kernel_def linear_dma_def split: if_splits)
  then show "net_queue_inv example_tx [1, 2, 3] [([0], 20)]" "packets_inv (\<lambda>_. 1) example_tx_state [20] []" "mbuf_of example_tx_state 20 = example_mbuf"
    "num example_tx = 4" "last_used_idx example_tx = 0"
    using ch e(2) example_queue_inv(3,4) by (simp_all add: example_tx_def example_tx_state_def res entered_def same_setup_def)
qed

text \<open>The device returns it with \<open>l\<close> bytes written.\<close>

definition example_used :: "u32 \<Rightarrow> nat \<Rightarrow> vring_used" where
  "example_used l k = \<lparr>us_flags = 0, us_idx = 1, us_ring = \<lparr>ue_id = 0, ue_len = l\<rparr> # replicate 3 \<lparr>ue_id = 0, ue_len = 0\<rparr>\<rparr>"

lemma example_used_returns: "device_returns (example_used l) 0 (entries example_tx) (last_used_idx example_tx) [\<lparr>ue_id = 0, ue_len = l\<rparr>]"
  by (simp add: example_added_inv example_used_def)

section \<open>Adding packets\<close>




definition example_mbufs :: "nat \<Rightarrow> mbuf list \<times> packet_args" where
  "example_mbufs k = (example_mbuf, example_args k)"

lemma example_mbufs_fresh: "fresh_from 0 example_mbufs example_state ((map snd [] @ []) @ [])"
  by (auto simp: fresh_from_def fresh_for_def example_mbufs_def example_args_def example_state_def new_addr_def)


section \<open>Completed packets\<close>

text \<open>
  C11. Sent packets. The device returns the chains \<open>done\<close>, in this order, while the driver looks at the ring. Then \<^verbatim>\<open>releaseSentPackets\<close> returns;
  it has freed the mbufs of the packets left by the debugger and of the packets of these chains, each once and in order, and started the output queue if it
  was stalled. The descriptors of the chains are free, the packets in the pool and their references dropped; the other chains are as before.
\<close>

theorem releaseSentPackets_frees:
  assumes inv: "net_queue_inv q fs fl" and pinv: "packets_inv base s (map snd fl @ other) tf"
    and dev: "device_returns snap 0 (entries q) (last_used_idx q) es"
    and ids: "map ue_id es = map (of_nat \<circ> hd \<circ> fst) done" "distinct done" "set done \<subseteq> set fl"
  shows "\<exists>q' s'. releaseSentPackets nk False snap (q, s) = Some (q', s')
    \<and> net_queue_inv q' (rev (concat (map fst done)) @ fs) (filter (\<lambda>x. x \<notin> set done) fl)
    \<and> packets_inv base s' (map snd (filter (\<lambda>x. x \<notin> set done) fl) @ other) []
    \<and> ps_calls s' = ps_calls s @ map (\<lambda>p. FreeMbuf (mbuf_of s p)) (tf @ map snd done) @ (if ps_stalled s then [StartOutputQueue] else [])
    \<and> \<not> ps_stalled s' \<and> last_used_idx q' = us_idx (snap (length es)) \<and> avail q' = avail q"
  using releaseSentPackets_ok [OF inv pinv dev ids, of nk] by auto

theorem releaseSentPackets_frees_witness:
  "\<exists>q' s'. releaseSentPackets example_kernel False (example_used 0) (example_tx, example_tx_state) = Some (q', s')
    \<and> net_queue_inv q' [0, 1, 2, 3] [] \<and> packets_inv (\<lambda>_. 1) s' [] []
    \<and> ps_calls s' = ps_calls example_tx_state @ [FreeMbuf example_mbuf] @ (if ps_stalled example_tx_state then [StartOutputQueue] else [])"
  using releaseSentPackets_frees [OF example_added_inv(1) _ example_used_returns, of "\<lambda>_. 1" example_tx_state "[]" "[]" 0 "[([0], 20)]" example_kernel]
    example_added_inv(2,3) by auto

text \<open>
  C10. Received packets. The device returns the chains \<open>done\<close>, in this order. Then \<^verbatim>\<open>handleReceivedPackets\<close> returns; each packet has been handed to
  the interface once, in order and with the number of bytes beyond the header, or freed if there is no interface or its length is implausible, and the
  input queue is flushed if any packet was handed over. The descriptors are free and the packet structures in the pool.
\<close>

theorem handleReceivedPackets_delivers:
  assumes inv: "net_queue_inv q fs fl" and pinv: "packets_inv base s (map snd fl @ other) tf"
    and dev: "device_returns snap 0 (entries q) (last_used_idx q) es"
    and ids: "map ue_id es = map (of_nat \<circ> hd \<circ> fst) done" "distinct done" "set done \<subseteq> set fl"
  shows "\<exists>q' s'. handleReceivedPackets nk snap (q, s) = Some (q', s')
    \<and> net_queue_inv q' (rev (concat (map fst done)) @ fs) (filter (\<lambda>x. x \<notin> set done) fl)
    \<and> packets_inv base s' (map snd (filter (\<lambda>x. x \<notin> set done) fl) @ other) tf
    \<and> ps_calls s' = ps_calls s
        @ map (\<lambda>(e, p). receive_call nk (received_len (ue_len e)) (mbuf_of s p) s) (zip es (map snd done))
        @ (if \<exists>e \<in> set es. accepts nk (received_len (ue_len e)) s then [FlushInputQueue] else [])
    \<and> last_used_idx q' = us_idx (snap (length es)) \<and> avail q' = avail q"
  using handleReceivedPackets_ok [OF inv pinv dev ids, of nk] by auto

theorem handleReceivedPackets_delivers_witness:
  "\<exists>q' s'. handleReceivedPackets example_kernel (example_used 110) (example_tx, example_tx_state) = Some (q', s')
    \<and> net_queue_inv q' [0, 1, 2, 3] [] \<and> packets_inv (\<lambda>_. 1) s' [] []
    \<and> ps_calls s' = ps_calls example_tx_state @ (if ps_interface example_tx_state then [InputPacket example_mbuf 100, FlushInputQueue] else [FreeMbuf example_mbuf])"
proof -
  have "received_len 110 = 100" by code_simp
  moreover have "accepts example_kernel 100 example_tx_state = ps_interface example_tx_state" by (simp add: accepts_def example_kernel_def)
  ultimately show ?thesis
    using handleReceivedPackets_delivers [OF example_added_inv(1) _ example_used_returns, of "\<lambda>_. 1" example_tx_state "[]" "[]" 110 "[([0], 20)]" example_kernel]
      example_added_inv(2,3) by (auto simp: receive_call_def split: if_splits)
qed

end
