(* ===== verification/Packet_Setup.thy ===== *)
theory Packet_Setup
  imports Packet_Queue_Props
begin

text \<open>
  Setting up a packet queue (\<^verbatim>\<open>setupVirtqueue\<close>, \<^verbatim>\<open>vring_size\<close> and \<^verbatim>\<open>virtqueue_init\<close> in VirtioNetworkDevice.cpp, \<^verbatim>\<open>vring_init\<close> in virtio_ring.h), and that
  its memory is laid out as the legacy transport lays out the memory of a virtqueue.
\<close>

section \<open>Definitions\<close>

text \<open>64-bit versions of the functions of the legacy transport.\<close>

definition queue_page_align :: "u64 \<Rightarrow> u64" where
  "queue_page_align size' = (size' + VIRTIO_PAGE_SIZE - 1) AND NOT (VIRTIO_PAGE_SIZE - 1)"

definition queue_vring_size :: "u64 \<Rightarrow> u64" where
  "queue_vring_size qsz = queue_page_align (16 * qsz + 2 * (2 + qsz)) + queue_page_align (8 * qsz)"

text \<open>The device is told which queue is meant and where its memory is, in pages.\<close>

datatype queue_register = SelectQueue u16 | QueueAddress u32

text \<open>\<open>qsize\<close>: the size that the device reports; \<open>phys\<close>: the physical address of the memory, if it can be allocated; the result is the queue, unless setting it up
  fails, with the writes to the device.\<close>

definition queue_setupVirtqueue :: "u16 \<Rightarrow> u64 option \<Rightarrow> bool \<Rightarrow> u16 \<Rightarrow> (virtio_net_virtqueue option \<times> queue_register list) option" where
  "queue_setupVirtqueue qsize phys array_ok queue_id =
     (if qsize = 0 then Some (None, [SelectQueue queue_id])
      else if \<not> is_pow2 qsize then Some (None, [SelectQueue queue_id])
      else case phys of
        None \<Rightarrow> Some (None, [SelectQueue queue_id])
      | Some a \<Rightarrow> do {
          queue \<leftarrow> virtqueue_init array_ok qsize queue_id;
          Some (Some queue, [SelectQueue queue_id, QueueAddress (ucast (drop_bit 12 a))])
        })"

section \<open>Properties\<close>

text \<open>Aligning an address in a block that is aligned itself.\<close>

lemma and_not_add_aligned:
  fixes p y m :: u64
  assumes p: "p AND m = 0" and m: "m = mask k"
  shows "(p + y) AND NOT m = p + (y AND NOT m)"
proof -
  let ?z = "y AND NOT m" and ?w = "y AND m"
  have "?z AND ?w = 0" by (simp add: bit_eq_iff bit_simps)
  then have y: "y = ?z + ?w" by (simp add: disjunctive_add_eq_or) (auto simp: bit_eq_iff bit_simps)
  have "take_bit k p = 0" "take_bit k ?z = 0" using p by (simp_all add: m take_bit_eq_mask and.assoc)
  then have "p + ?z = push_bit k (drop_bit k p + drop_bit k ?z)" using bits_ident [of k p] bits_ident [of k ?z] by (simp add: push_bit_add)
  then have "take_bit k (p + ?z) = 0" by (simp only: take_bit_push_bit) simp
  then have pz: "(p + ?z) AND m = 0" by (simp add: m take_bit_eq_mask)
  have "(p + ?z) AND ?w = y AND ((p + ?z) AND m)" by (rule and.left_commute)
  then have disj: "(p + ?z) AND ?w = 0" using pz by simp
  have "p + y = (p + ?z) OR ?w" using y disjunctive_add_eq_or [OF disj] by (simp add: add.assoc)
  then have "(p + y) AND NOT m = ((p + ?z) AND NOT m) OR (?w AND NOT m)" by (simp add: bit.conj_disj_distrib2)
  also have "?w AND NOT m = 0" by (simp add: and.assoc)
  also have "(p + ?z) AND NOT m = p + ?z"
  proof -
    have "p + ?z = ((p + ?z) AND m) OR ((p + ?z) AND NOT m)" by (simp flip: bit.conj_disj_distrib)
    then show ?thesis using pz by simp
  qed
  finally show ?thesis by simp
qed

text \<open>Without the array of packets a queue is set up all the same.\<close>

lemma virtqueue_init_without_array:
  "\<exists>q. virtqueue_init False n queue_id = Some q \<and> packets_for_descs q = None"
proof -
  obtain ds where "link_free_descs (unat n) (replicate (unat n) zero_desc) = Some ds"
    using link_free_descs_ok [of "unat n" "replicate (unat n) zero_desc"] by auto
  then show ?thesis by (simp add: virtqueue_init_def cleared_vring_def)
qed

lemma push_without_array: "packets_for_descs q = None \<Longrightarrow> vring_push_free_desc q i = None"
  by (simp add: vring_push_free_desc_def split: Option.bind_splits)

text \<open>
  Setting up a packet queue succeeds exactly if the size that the device reports is a power of two and its memory can be allocated; the device is then told
  the page of that memory. If the array of packets could be allocated as well, all descriptors of the queue are free. If not, which is not
  checked, the first descriptor that is given back dereferences a null pointer.
\<close>

theorem queue_setupVirtqueue_outcome:
  "\<exists>r regs. queue_setupVirtqueue qsize phys array_ok queue_id = Some (r, regs)
    \<and> (r \<noteq> None \<longleftrightarrow> is_pow2 qsize \<and> qsize \<noteq> 0 \<and> phys \<noteq> None)
    \<and> (\<forall>q. r = Some q \<longrightarrow> last regs = QueueAddress (ucast (drop_bit 12 (the phys)))
         \<and> (if array_ok then net_queue_inv q [0..<unat qsize] [] else \<forall>i. vring_push_free_desc q i = None))"
proof (cases "is_pow2 qsize \<and> qsize \<noteq> 0 \<and> phys \<noteq> None")
  case True
  then obtain a where a: "phys = Some a" by auto
  show ?thesis
  proof (cases array_ok)
    case arr: True
    obtain q where "virtqueue_init True qsize queue_id = Some q" "net_queue_inv q [0..<unat qsize] []" using virtqueue_init_inv True by blast
    with True a arr show ?thesis by (simp add: queue_setupVirtqueue_def)
  next
    case arr: False
    obtain q where "virtqueue_init False qsize queue_id = Some q" "packets_for_descs q = None" using virtqueue_init_without_array by blast
    with True a arr push_without_array show ?thesis by (simp add: queue_setupVirtqueue_def)
  qed
next
  case False
  then show ?thesis by (auto simp: queue_setupVirtqueue_def)
qed

text \<open>
  The memory of a packet queue. In a page-aligned block, \<^verbatim>\<open>vring_init\<close> puts the descriptor table, the available ring and the used ring at the offsets that the legacy
  transport uses without event indices, for every size of a queue that is accepted; the size of the block is the same as well. In particular the used
  ring of a queue with 512 or more entries extends beyond the block.
\<close>

theorem vring_init_layout:
  assumes "is_pow2 n" "n \<noteq> 0" "p AND 4095 = 0"
  shows "vring_init (ucast n) p VIRTIO_PAGE_SIZE = (p + ucast (descriptor_table_off (setup_vring_layout n False)),
      p + ucast (available_ring_off (setup_vring_layout n False)), p + ucast (used_ring_off (setup_vring_layout n False)))
    \<and> queue_vring_size (ucast n) = ucast (vring_mem_size (ucast n))"
proof -
  have "(4095 :: u64) = mask 12" by (simp add: mask_eq_exp_minus_1)
  note align = and_not_add_aligned [OF assms(3) this]
  have used: "(p + ucast (ucast n :: u32) * 16 + 4 + 2 * ucast (ucast n :: u32) + 4096 - 1) AND NOT (4096 - 1)
      = p + ((ucast (ucast n :: u32) * 16 + 4 + 2 * ucast (ucast n :: u32) + 4095) AND NOT 4095)"
    using align [of "ucast (ucast n :: u32) * 16 + 4 + 2 * ucast (ucast n :: u32) + 4095"] by (simp add: algebra_simps)
  show ?thesis
    unfolding vring_init_def Let_def VIRTIO_PAGE_SIZE_def used
    using pow2_u16_enum [OF assms(1,2)] by (elim insertE) (simp_all add: layout_defs queue_vring_size_def queue_page_align_def)
qed

theorem vring_init_layout_witness:
  "vring_init (ucast (256 :: u16)) 0x10000 VIRTIO_PAGE_SIZE = (0x10000, 0x11000, 0x12000) \<and> queue_vring_size (ucast (256 :: u16)) = 0x3000"
  using vring_init_layout [where n = 256 and p = "0x10000"] by (simp add: is_pow2_def layout_defs)

end
