(* ===== verification/Packet_Driver.thy ===== *)
theory Packet_Driver
  imports Packet_Queue_Props
begin

text \<open>
  The operations that use both packet queues: \<^verbatim>\<open>outputPacket\<close>, called by the network family, and \<^verbatim>\<open>interruptFilter\<close> and
  \<^verbatim>\<open>interruptAction\<close>, called when the device has raised an interrupt (VirtioNetworkDevice.cpp, in the text of the driver's earlier version). Between two of
  them the device takes chains from the available rings and returns them in the used rings. Whatever it does within that protocol, the queues and packets stay
  consistent.
\<close>

section \<open>Operations\<close>

definition allow_interrupts :: "virtio_net_virtqueue \<Rightarrow> virtio_net_virtqueue" where
  "allow_interrupts queue = queue\<lparr>avail := (avail queue)\<lparr>av_flags := av_flags (avail queue) AND NOT VRING_AVAIL_F_NO_INTERRUPT\<rparr>\<rparr>"

definition forbid_interrupts :: "virtio_net_virtqueue \<Rightarrow> virtio_net_virtqueue" where
  "forbid_interrupts queue = queue\<lparr>avail := (avail queue)\<lparr>av_flags := av_flags (avail queue) OR VRING_AVAIL_F_NO_INTERRUPT\<rparr>\<rparr>"

text \<open>The output queue is stalled until a packet has been sent; the device is asked to interrupt then.\<close>

definition stall_output :: "virtio_net_virtqueue \<times> packet_state \<Rightarrow> IOReturn \<times> virtio_net_virtqueue \<times> packet_state" where
  "stall_output = (\<lambda>(tx_queue, s).
     (kIOReturnOutputStall, if ps_notify_on_empty s then allow_interrupts tx_queue else tx_queue, s\<lparr>ps_stalled := True\<rparr>))"

text \<open>\<open>snap\<close>: the used ring while completed packets are released; \<open>now\<close>: after that.\<close>

definition queue_outputPacket ::
    "net_kernel \<Rightarrow> packet_args \<Rightarrow> mbuf list \<Rightarrow> (nat \<Rightarrow> vring_used) \<Rightarrow> vring_used \<Rightarrow> virtio_net_virtqueue \<times> packet_state
     \<Rightarrow> (IOReturn \<times> virtio_net_virtqueue \<times> packet_state) option" where
  "queue_outputPacket nk a buffer snap now st = do {
     (tx_queue, s) \<leftarrow> releaseSentPackets nk False snap st;
     let tx_queue = tx_queue\<lparr>used := now\<rparr>;
     if num_free_desc tx_queue < 3 then Some (stall_output (tx_queue, s))
     else do {
       (add_ret, avail_idx, tx_queue, s) \<leftarrow> addPacketToQueue nk a buffer False (av_idx (avail tx_queue)) (tx_queue, s);
       if add_ret \<noteq> kIOReturnSuccess
       then if add_ret = kIOReturnOutputStall then Some (stall_output (tx_queue, s))
         else Some (kIOReturnOutputDropped, tx_queue, call (FreeMbuf buffer) s)
       else Some (kIOReturnSuccess, snd (notifyQueueAvailIdx tx_queue avail_idx s))
     }
   }"

record packet_driver =
  pd_rx :: virtio_net_virtqueue
  pd_tx :: virtio_net_virtqueue
  pd_packets :: packet_state
  pd_last_isr :: u8
  pd_config_change :: bool
  pd_status_field_offset :: u16

definition VIRTIO_PCI_DEVICE_ISR_USED :: u8 where "VIRTIO_PCI_DEVICE_ISR_USED = 0x01"
definition VIRTIO_PCI_DEVICE_ISR_CONF_CHANGE :: u8 where "VIRTIO_PCI_DEVICE_ISR_CONF_CHANGE = 0x02"

text \<open>The filter runs in interrupt context with the value of the status register.\<close>

definition queue_interruptFilter :: "u8 \<Rightarrow> packet_driver \<Rightarrow> bool \<times> packet_driver" where
  "queue_interruptFilter isr d =
     (let d = d\<lparr>pd_last_isr := isr\<rparr> in
      if has_bits isr VIRTIO_PCI_DEVICE_ISR_USED
      then let d = (if has_bits isr VIRTIO_PCI_DEVICE_ISR_CONF_CHANGE then d\<lparr>pd_config_change := True\<rparr> else d) in
        (True, d\<lparr>pd_rx := forbid_interrupts (pd_rx d), pd_tx := forbid_interrupts (pd_tx d)\<rparr>)
      else (False, d))"

text \<open>What one pass of \<^verbatim>\<open>interruptAction\<close> reads: the status field, the index of the receive queue's used ring when it is compared, the ring while packets are
  handled and when buffers are added, the memory allocated for these, and the same for the transmit queue.\<close>

record interrupt_env =
  ie_status :: u16
  ie_rx_idx :: u16
  ie_rx_snap :: "nat \<Rightarrow> vring_used"
  ie_rx_now :: vring_used
  ie_mbufs :: "nat \<Rightarrow> mbuf list \<times> packet_args"
  ie_tx_idx :: u16
  ie_tx_snap :: "nat \<Rightarrow> vring_used"

definition queue_updateLinkStatus :: "u16 \<Rightarrow> packet_driver \<Rightarrow> packet_driver" where
  "queue_updateLinkStatus status d =
     (let value = (if pd_status_field_offset d = 0 then - 1 else ucast status :: 32 word);
          link_is_up = value AND ucast VIRTIO_NET_S_LINK_UP \<noteq> 0 in
      d\<lparr>pd_packets := call (LinkStatus link_is_up) (pd_packets d)\<rparr>)"

definition config_pass :: "interrupt_env \<Rightarrow> packet_driver \<Rightarrow> packet_driver" where
  "config_pass e d =
     (if pd_config_change d
      then let d = d\<lparr>pd_config_change := False\<rparr> in if pd_status_field_offset d > 0 then queue_updateLinkStatus (ie_status e) d else d
      else d)"

definition receive_pass :: "net_kernel \<Rightarrow> interrupt_env \<Rightarrow> packet_driver \<Rightarrow> packet_driver option" where
  "receive_pass nk e d = do {
     (rx_queue, s) \<leftarrow> (if last_used_idx (pd_rx d) \<noteq> ie_rx_idx e then handleReceivedPackets nk (ie_rx_snap e) (pd_rx d, pd_packets d)
        else Some (pd_rx d, pd_packets d));
     (_, rx_queue, s) \<leftarrow> populateReceiveBuffers nk (ie_mbufs e) (rx_queue\<lparr>used := ie_rx_now e\<rparr>, s);
     Some (d\<lparr>pd_rx := rx_queue, pd_packets := s\<rparr>)
   }"

definition transmit_pass :: "net_kernel \<Rightarrow> interrupt_env \<Rightarrow> packet_driver \<Rightarrow> packet_driver option" where
  "transmit_pass nk e d =
     (if last_used_idx (pd_tx d) \<noteq> ie_tx_idx e
      then do {
        (tx_queue, s) \<leftarrow> releaseSentPackets nk False (ie_tx_snap e) (pd_tx d, pd_packets d);
        Some (d\<lparr>pd_tx := tx_queue, pd_packets := s\<rparr>)
      }
      else Some d)"

definition interrupt_pass :: "net_kernel \<Rightarrow> interrupt_env \<Rightarrow> packet_driver \<Rightarrow> packet_driver option" where
  "interrupt_pass nk e d = do {
     d \<leftarrow> receive_pass nk e (config_pass e d);
     transmit_pass nk e d
   }"

definition reenable_interrupts :: "packet_driver \<Rightarrow> packet_driver" where
  "reenable_interrupts d =
     d\<lparr>pd_rx := allow_interrupts (pd_rx d),
       pd_tx := (if ps_notify_on_empty (pd_packets d) then pd_tx d else allow_interrupts (pd_tx d))\<rparr>"

text \<open>The loop of \<^verbatim>\<open>interruptAction\<close> runs twice: after the first pass interrupts are enabled, and the second pass finds what has come in before that.\<close>

definition queue_interruptAction :: "net_kernel \<Rightarrow> interrupt_env \<Rightarrow> interrupt_env \<Rightarrow> packet_driver \<Rightarrow> packet_driver option" where
  "queue_interruptAction nk e e' d = do {
     d \<leftarrow> interrupt_pass nk e d;
     interrupt_pass nk e' (reenable_interrupts d)
   }"

section \<open>The protocol with the device\<close>

text \<open>The device returns only chains that it has been given, each once.\<close>

definition device_honest :: "virtio_net_virtqueue \<Rightarrow> (nat \<Rightarrow> vring_used) \<Rightarrow> vring_used_elem list \<Rightarrow> bool" where
  "device_honest q snap es \<longleftrightarrow> device_returns snap 0 (entries q) (last_used_idx q) es \<and> distinct (map ue_id es)
     \<and> (\<forall>e \<in> set es. unat (ue_id e) < entries q \<and> the (packets_for_descs q) ! unat (ue_id e) \<noteq> None)"

lemma packet_of_Some: "packet_of fl i = Some p \<Longrightarrow> \<exists>ch. (ch, p) \<in> set fl \<and> hd ch = i"
  by (induction fl) (auto split: if_splits)

lemma device_honest_done:
  assumes inv: "net_queue_inv q fs fl" and dev: "device_honest q snap es"
  shows "\<exists>done. map ue_id es = map (of_nat \<circ> hd \<circ> fst) done \<and> distinct done \<and> set done \<subseteq> set fl"
proof -
  have "\<exists>x \<in> set fl. ue_id e = of_nat (hd (fst x))" if "e \<in> set es" for e
  proof -
    have "unat (ue_id e) < entries q" "packet_of fl (unat (ue_id e)) \<noteq> None"
      using that dev inv by (auto simp: device_honest_def net_queue_inv_def)
    then obtain ch p where "(ch, p) \<in> set fl" "hd ch = unat (ue_id e)" using packet_of_Some [of fl "unat (ue_id e)"] by auto
    then show ?thesis by (intro bexI [of _ "(ch, p)"]) simp_all
  qed
  then obtain f where f: "\<forall>e \<in> set es. f e \<in> set fl \<and> ue_id e = of_nat (hd (fst (f e)))" by metis
  have ids: "map ue_id es = map (of_nat \<circ> hd \<circ> fst) (map f es)" using f by simp
  have "distinct (map (of_nat \<circ> hd \<circ> fst) (map f es) :: u32 list)" using dev unfolding device_honest_def ids [symmetric] by simp
  then have "distinct (map f es)" using distinct_map by blast
  with ids f show ?thesis by (intro exI [of _ "map f es"]) auto
qed

text \<open>Memory allocated for new packet structures is memory not in use.\<close>

definition new_memory :: "packet_args \<Rightarrow> packet_state \<Rightarrow> bool" where
  "new_memory a s \<longleftrightarrow> (\<forall>p \<in> new_addr a. ps_packets s p = None \<and> ps_debugger_packet s \<noteq> Some p)"

end
