(* ===== verification/Packet_Driver_Props.thy ===== *)
theory Packet_Driver_Props
  imports Packet_Driver
begin

text \<open>
  The queues and packets stay consistent under every operation of the driver and every behaviour of the device that keeps to the protocol.
\<close>

section \<open>The pieces\<close>

lemma net_queue_inv_frame:
  assumes "net_queue_inv q fs fl"
  shows "net_queue_inv (q\<lparr>used := u\<rparr>) fs fl" "net_queue_inv (q\<lparr>avail := (avail q)\<lparr>av_flags := f\<rparr>\<rparr>) fs fl"
    "net_queue_inv (q\<lparr>avail := (avail q)\<lparr>av_idx := i\<rparr>\<rparr>) fs fl"
  using assms by (simp_all add: net_queue_inv_def net_pool_def net_wf_def)

lemma interrupts_inv:
  assumes "net_queue_inv q fs fl"
  shows "net_queue_inv (allow_interrupts q) fs fl" "net_queue_inv (forbid_interrupts q) fs fl"
  using net_queue_inv_frame(2) [OF assms] by (simp_all add: allow_interrupts_def forbid_interrupts_def)

text \<open>The order in which packets in queues are listed does not matter.\<close>

lemma packets_inv_perm:
  assumes "packets_inv base s flying tf" "mset flying' = mset flying"
  shows "packets_inv base s flying' tf"
proof -
  have "set flying' = set flying" "distinct flying' = distinct flying" using assms(2) by (auto dest: mset_eq_setD mset_eq_imp_distinct_iff)
  then show ?thesis using assms(1) by (auto simp: packets_inv_def)
qed

lemma new_memory_fresh:
  assumes inv: "packets_inv base s flying tf" and new: "new_memory a s"
  shows "fresh_for a s (flying @ tf)"
proof -
  have "\<exists>pk. ps_packets s p = Some pk" if "dequeued_list s cur tf" "p \<in> set tf" for cur p using that by (induction tf arbitrary: cur) (auto simp: pooled_def)
  then have "ps_packets s p \<noteq> None" if "p \<in> set (ps_pool s) \<union> set (flying @ tf)" for p
    using that inv by (fastforce simp: packets_inv_def pooled_def queued_def)
  then show ?thesis using new unfolding fresh_for_iff new_memory_def by blast
qed

lemma new_memory_same: "same_memory s s' \<Longrightarrow> new_memory a s \<Longrightarrow> new_memory a s'"
  unfolding same_memory_def new_memory_def by (metis domIff)

text \<open>The chains that the device has not returned.\<close>

definition remaining :: "vring_used_elem list \<Rightarrow> (nat list \<times> nat) list \<Rightarrow> (nat list \<times> nat) list" where
  "remaining es fl = filter (\<lambda>x. of_nat (hd (fst x)) \<notin> set (map ue_id es)) fl"

lemma distinct_concat_map_inj:
  "distinct (concat (map f xs)) \<Longrightarrow> x \<in> set xs \<Longrightarrow> y \<in> set xs \<Longrightarrow> i \<in> set (f x) \<Longrightarrow> i \<in> set (f y) \<Longrightarrow> x = y"
  by (induction xs) auto

lemma heads_inj:
  assumes inv: "net_queue_inv q fs fl" and x: "x \<in> set fl" "y \<in> set fl" "(of_nat (hd (fst x)) :: u32) = of_nat (hd (fst y))"
  shows "x = y"
proof -
  have c: "fst z \<noteq> []" "hd (fst z) < entries q" if "z \<in> set fl" for z using net_queue_inv_chains(2,6) [OF inv, of "fst z" "snd z"] that by auto
  have "hd (fst z) < 65536" if "z \<in> set fl" for z using c(2) [OF that] net_wf_bounds(2) [OF net_queue_inv_wf [OF inv]] by simp
  from this [OF x(1)] this [OF x(2)] have "hd (fst x) = hd (fst y)" using x(3) by (simp add: word_of_nat_eq_iff take_bit_nat_eq_self)
  then have "hd (fst x) \<in> set (fst x)" "hd (fst x) \<in> set (fst y)" using c(1) x by (metis hd_in_set)+
  moreover have "distinct (concat (map fst fl))" using inv by (simp add: net_queue_inv_def)
  ultimately show ?thesis using distinct_concat_map_inj x(1,2) by metis
qed

lemma remaining_done:
  assumes inv: "net_queue_inv q fs fl" and ids: "map ue_id es = map (of_nat \<circ> hd \<circ> fst) done" "set done \<subseteq> set fl"
  shows "filter (\<lambda>x. x \<notin> set done) fl = remaining es fl"
  unfolding remaining_def ids(1)
proof (rule filter_cong [OF refl])
  fix x assume "x \<in> set fl"
  then show "(x \<notin> set done) = ((of_nat (hd (fst x)) :: u32) \<notin> set (map (of_nat \<circ> hd \<circ> fst) done))"
    using heads_inj [OF inv, of x] ids(2) by auto
qed

text \<open>The two loops over used rings, for a device that keeps to the protocol.\<close>

lemma release_honest:
  assumes inv: "net_queue_inv q fs fl" and pinv: "packets_inv base s (map snd fl @ other) tf" and dev: "device_honest q snap es"
  shows "\<exists>q' s' fs'. releaseSentPackets nk False snap (q, s) = Some (q', s') \<and> net_queue_inv q' fs' (remaining es fl)
    \<and> packets_inv base s' (map snd (remaining es fl) @ other) [] \<and> \<not> ps_stalled s'
    \<and> last_used_idx q' = last_used_idx q + of_nat (length es) \<and> avail q' = avail q \<and> num q' = num q \<and> same_memory s s'"
proof -
  obtain dn where dn: "map ue_id es = map (of_nat \<circ> hd \<circ> fst) dn" "distinct dn" "set dn \<subseteq> set fl"
    using device_honest_done [OF inv dev] by blast
  have "device_returns snap 0 (entries q) (last_used_idx q) es" using dev by (simp add: device_honest_def)
  from releaseSentPackets_ok [OF inv pinv this dn, of nk] show ?thesis unfolding remaining_done [OF inv dn(1,3)] by blast
qed

lemma handle_honest:
  assumes inv: "net_queue_inv q fs fl" and pinv: "packets_inv base s (map snd fl @ other) tf" and dev: "device_honest q snap es"
  shows "\<exists>q' s' fs'. handleReceivedPackets nk snap (q, s) = Some (q', s') \<and> net_queue_inv q' fs' (remaining es fl)
    \<and> packets_inv base s' (map snd (remaining es fl) @ other) tf
    \<and> last_used_idx q' = last_used_idx q + of_nat (length es) \<and> avail q' = avail q \<and> num q' = num q \<and> same_memory s s'"
proof -
  obtain dn where dn: "map ue_id es = map (of_nat \<circ> hd \<circ> fst) dn" "distinct dn" "set dn \<subseteq> set fl"
    using device_honest_done [OF inv dev] by blast
  have "device_returns snap 0 (entries q) (last_used_idx q) es" using dev by (simp add: device_honest_def)
  from handleReceivedPackets_ok [OF inv pinv this dn, of nk] show ?thesis unfolding remaining_done [OF inv dn(1,3)] by blast
qed

section \<open>Sending a packet\<close>

lemma stall_output_ok:
  assumes "net_queue_inv q fs fl" "packets_inv base s flying tf"
  shows "\<exists>q' s'. stall_output (q, s) = (kIOReturnOutputStall, q', s') \<and> net_queue_inv q' fs fl \<and> packets_inv base s' flying tf \<and> ps_stalled s'
    \<and> (ps_notify_on_empty s' \<longrightarrow> av_flags (avail q') AND VRING_AVAIL_F_NO_INTERRUPT = 0) \<and> av_idx (avail q') = av_idx (avail q)
    \<and> last_used_idx q' = last_used_idx q"
  using interrupts_inv(1) [OF assms(1)] assms(1) packets_inv_frame(2) [OF assms(2)]
  by (simp add: stall_output_def allow_interrupts_def and.assoc)

lemma queue_outputPacket_ok:
  assumes inv: "net_queue_inv q fs fl" and pinv: "packets_inv base s (map snd fl @ other) tf" and dev: "device_honest q snap es"
    and env: "new_memory a s" "dma_sound (nk_dma nk)" and mb: "buffer \<noteq> []" "10 + mbufChainLen buffer \<noteq> 0"
  shows "\<exists>ret q' s' fs'. queue_outputPacket nk a buffer snap now (q, s) = Some (ret, q', s') \<and> last_used_idx q' = last_used_idx q + of_nat (length es)
    \<and> ((ret = kIOReturnSuccess \<and> (\<exists>ch p. net_queue_inv q' fs' ((ch, p) # remaining es fl) \<and> packets_inv base s' (p # map snd (remaining es fl) @ other) []
          \<and> mbuf_of s' p = buffer \<and> av_ring (avail q') = (av_ring (avail q))[unat (av_idx (avail q)) mod entries q := of_nat (hd ch)]
          \<and> av_idx (avail q') = av_idx (avail q) + 1))
       \<or> (ret = kIOReturnOutputStall \<and> net_queue_inv q' fs' (remaining es fl) \<and> packets_inv base s' (map snd (remaining es fl) @ other) []
          \<and> ps_stalled s' \<and> (ps_notify_on_empty s' \<longrightarrow> av_flags (avail q') AND VRING_AVAIL_F_NO_INTERRUPT = 0) \<and> av_idx (avail q') = av_idx (avail q))
       \<or> (ret = kIOReturnOutputDropped \<and> net_queue_inv q' fs' (remaining es fl) \<and> packets_inv base s' (map snd (remaining es fl) @ other) []
          \<and> last (ps_calls s') = FreeMbuf buffer \<and> av_idx (avail q') = av_idx (avail q)))"
proof -
  let ?fl = "remaining es fl"
  obtain q1 s1 fs1 where rel: "releaseSentPackets nk False snap (q, s) = Some (q1, s1)" "net_queue_inv q1 fs1 ?fl" "packets_inv base s1 (map snd ?fl @ other) []"
    "last_used_idx q1 = last_used_idx q + of_nat (length es)" "avail q1 = avail q" "num q1 = num q" "same_memory s s1"
    using release_honest [OF inv pinv dev, of nk] by blast
  let ?q = "q1\<lparr>used := now\<rparr>"
  note inv1 = net_queue_inv_frame(1) [OF rel(2), of now]
  show ?thesis
  proof (cases "num_free_desc q1 < 3")
    case True
    then have "queue_outputPacket nk a buffer snap now (q, s) = Some (stall_output (?q, s1))" using rel(1) by (simp add: queue_outputPacket_def)
    then show ?thesis using stall_output_ok [OF inv1 rel(3)] rel(4,5) by fastforce
  next
    case False
    have fresh: "fresh_for a s1 ((map snd ?fl @ other) @ [])" using new_memory_fresh [OF rel(3) new_memory_same [OF rel(7) env(1)]] .
    obtain ret idx' q2 s2 where add: "addPacketToQueue nk a buffer False (av_idx (avail ?q)) (?q, s1) = Some (ret, idx', q2, s2)" "same_setup ?q q2"
      and res: "ret = kIOReturnSuccess \<and> (\<exists>p \<in> set (ps_pool s1) \<union> new_addr a. packet_added nk buffer False base fs1 ?fl other [] (av_idx (avail ?q)) ?q p idx' q2 s2)
       \<or> (ret = kIOReturnOutputStall \<or> ret = kIOReturnOutputDropped) \<and> packet_not_added base fs1 ?fl other [] (av_idx (avail ?q)) ?q idx' q2 s2"
      using addPacketToQueue_ok [OF inv1 rel(3) fresh env(2) mb, of False "av_idx (avail ?q)"] by blast
    have out: "queue_outputPacket nk a buffer snap now (q, s) = (if ret \<noteq> kIOReturnSuccess
         then if ret = kIOReturnOutputStall then Some (stall_output (q2, s2)) else Some (kIOReturnOutputDropped, q2, call (FreeMbuf buffer) s2)
         else Some (kIOReturnSuccess, snd (notifyQueueAvailIdx q2 idx' s2)))"
      using rel(1) False add(1) by (simp add: queue_outputPacket_def)
    have last: "last_used_idx q2 = last_used_idx q1" using add(2) by (simp add: same_setup_def)
    consider "ret = kIOReturnSuccess" | "ret = kIOReturnOutputStall" | "ret = kIOReturnOutputDropped" using res by blast
    then show ?thesis
    proof cases
      case 1
      then obtain p ch where i2: "idx' = av_idx (avail q) + 1" "entered nk buffer False (av_idx (avail q)) fs1 ?q ch p q2 s2"
        "net_queue_inv q2 (drop (length ch) fs1) ((ch, p) # ?fl)" "packets_inv base s2 (p # map snd ?fl @ other) []"
        using res rel(5) by (auto simp: packet_added_def)
      obtain cs where n: "notifyQueueAvailIdx q2 idx' s2 = (cs \<noteq> [], q2\<lparr>avail := (avail q2)\<lparr>av_idx := idx'\<rparr>\<rparr>, s2\<lparr>ps_calls := ps_calls s2 @ cs\<rparr>)"
        by (rule that [of "if us_flags (used q2) AND VRING_USED_F_NO_NOTIFY = 0 then [Notify (queue_index q2)] else []"])
          (simp add: notifyQueueAvailIdx_def Let_def call_def)
      have "mbuf_of (s2\<lparr>ps_calls := ps_calls s2 @ cs\<rparr>) p = buffer" "av_ring (avail q2) = (av_ring (avail q))[unat (av_idx (avail q)) mod entries q := of_nat (hd ch)]"
        using i2(2) rel(5,6) by (simp_all add: entered_def mbuf_of_def)
      then show ?thesis using out 1 n i2(1) last rel(4) net_queue_inv_frame(3) [OF i2(3), of idx'] packets_inv_frame(1) [OF i2(4), of "ps_calls s2 @ cs"]
        by fastforce
    next
      case 2
      then obtain fs2 where "avail q2 = avail q" "net_queue_inv q2 fs2 ?fl" "packets_inv base s2 (map snd ?fl @ other) []"
        using res rel(5) by (auto simp: packet_not_added_def)
      then show ?thesis using stall_output_ok [of q2 fs2 ?fl base s2] out 2 rel(4) last by fastforce
    next
      case 3
      then obtain fs2 where i2: "avail q2 = avail q" "net_queue_inv q2 fs2 ?fl" "packets_inv base s2 (map snd ?fl @ other) []"
        using res rel(5) by (auto simp: packet_not_added_def)
      have "packets_inv base (call (FreeMbuf buffer) s2) (map snd ?fl @ other) []" using packets_inv_frame(1) [OF i2(3)] by (simp add: call_def)
      moreover have "last (ps_calls (call (FreeMbuf buffer) s2)) = FreeMbuf buffer" by (simp add: call_def)
      ultimately show ?thesis using out 3 rel(4) last i2(1,2) by fastforce
    qed
  qed
qed

section \<open>The driver\<close>

text \<open>Both queues are consistent, and the packet structures belong to the pool, the debugger's list or one of the chains.\<close>

definition driver_inv :: "refcounts \<Rightarrow> packet_driver \<Rightarrow> bool" where
  "driver_inv base d \<longleftrightarrow> (\<exists>rfs rfl tfs tfl tf. net_queue_inv (pd_rx d) rfs rfl \<and> net_queue_inv (pd_tx d) tfs tfl
     \<and> packets_inv base (pd_packets d) (map snd rfl @ map snd tfl) tf)"

lemma driver_inv_swap:
  "driver_inv base d \<longleftrightarrow> (\<exists>rfs rfl tfs tfl tf. net_queue_inv (pd_rx d) rfs rfl \<and> net_queue_inv (pd_tx d) tfs tfl
     \<and> packets_inv base (pd_packets d) (map snd tfl @ map snd rfl) tf)"
proof -
  have "packets_inv base (pd_packets d) (xs @ ys) tf = packets_inv base (pd_packets d) (ys @ xs) tf" for xs ys tf
    by (auto elim!: packets_inv_perm simp: add.commute)
  then show ?thesis by (simp add: driver_inv_def)
qed

text \<open>What the environment does during a pass: the device returns chains that it has been given; a difference of the indices is seen exactly if it has returned
  any; new memory is allocated for the receive queue.\<close>

definition pass_ok :: "interrupt_env \<Rightarrow> vring_used_elem list \<Rightarrow> vring_used_elem list \<Rightarrow> packet_driver \<Rightarrow> bool" where
  "pass_ok e received sent d \<longleftrightarrow> device_honest (pd_rx d) (ie_rx_snap e) received \<and> (ie_rx_idx e = last_used_idx (pd_rx d) \<longleftrightarrow> received = [])
     \<and> device_honest (pd_tx d) (ie_tx_snap e) sent \<and> (ie_tx_idx e = last_used_idx (pd_tx d) \<longleftrightarrow> sent = [])
     \<and> (\<forall>k. new_memory (snd (ie_mbufs e k)) (pd_packets d) \<and> 10 + mbufChainLen (fst (ie_mbufs e k)) \<noteq> 0)
     \<and> (\<forall>i j. i \<noteq> j \<longrightarrow> new_addr (snd (ie_mbufs e i)) \<inter> new_addr (snd (ie_mbufs e j)) = {})"

lemma config_pass_frame:
  "pd_rx (config_pass e d) = pd_rx d" "pd_tx (config_pass e d) = pd_tx d" "\<not> pd_config_change (config_pass e d)"
  "\<exists>cs. pd_packets (config_pass e d) = (pd_packets d)\<lparr>ps_calls := cs\<rparr>"
proof -
  show "pd_rx (config_pass e d) = pd_rx d" "pd_tx (config_pass e d) = pd_tx d" "\<not> pd_config_change (config_pass e d)"
    by (simp_all add: config_pass_def queue_updateLinkStatus_def Let_def)
  have "\<exists>cs. pd_packets d = (pd_packets d)\<lparr>ps_calls := cs\<rparr>" by (rule exI [of _ "ps_calls (pd_packets d)"]) simp
  then show "\<exists>cs. pd_packets (config_pass e d) = (pd_packets d)\<lparr>ps_calls := cs\<rparr>"
    by (auto simp: config_pass_def queue_updateLinkStatus_def Let_def call_def)
qed

lemma pass_ok_config: "pass_ok e received sent (config_pass e d) = pass_ok e received sent d"
proof -
  obtain cs where "pd_packets (config_pass e d) = (pd_packets d)\<lparr>ps_calls := cs\<rparr>" using config_pass_frame(4) by blast
  then show ?thesis by (simp add: pass_ok_def config_pass_frame(1,2) new_memory_def)
qed

lemma driver_inv_config: "driver_inv base d \<Longrightarrow> driver_inv base (config_pass e d)"
proof -
  obtain cs where "pd_packets (config_pass e d) = (pd_packets d)\<lparr>ps_calls := cs\<rparr>" using config_pass_frame(4) by blast
  then show "driver_inv base d \<Longrightarrow> driver_inv base (config_pass e d)"
    using packets_inv_frame(1) by (auto simp: driver_inv_def config_pass_frame(1,2)) blast
qed

text \<open>Handling received packets and filling the receive queue again.\<close>

lemma receive_pass_ok:
  assumes inv: "driver_inv base d" and ok: "pass_ok e received sent d" and env: "dma_sound (nk_dma nk)"
  shows "\<exists>q s. receive_pass nk e d = Some (d\<lparr>pd_rx := q, pd_packets := s\<rparr>) \<and> driver_inv base (d\<lparr>pd_rx := q, pd_packets := s\<rparr>)
    \<and> last_used_idx q = last_used_idx (pd_rx d) + of_nat (length received) \<and> av_flags (avail q) = av_flags (avail (pd_rx d))
    \<and> ps_notify_on_empty s = ps_notify_on_empty (pd_packets d)"
proof -
  obtain rfs rfl tfs tfl tf where i: "net_queue_inv (pd_rx d) rfs rfl" "net_queue_inv (pd_tx d) tfs tfl"
    "packets_inv base (pd_packets d) (map snd rfl @ map snd tfl) tf" using inv by (auto simp: driver_inv_def)
  obtain q1 s1 fs1 fl1 where h: "(if last_used_idx (pd_rx d) \<noteq> ie_rx_idx e then handleReceivedPackets nk (ie_rx_snap e) (pd_rx d, pd_packets d)
        else Some (pd_rx d, pd_packets d)) = Some (q1, s1)" "net_queue_inv q1 fs1 fl1" "packets_inv base s1 (map snd fl1 @ map snd tfl) tf"
    "last_used_idx q1 = last_used_idx (pd_rx d) + of_nat (length received)" "avail q1 = avail (pd_rx d)" "same_memory (pd_packets d) s1"
  proof (cases "received = []")
    case True
    then show ?thesis using that i ok by (simp add: pass_ok_def same_memory_def)
  next
    case False
    have "device_honest (pd_rx d) (ie_rx_snap e) received" using ok by (simp add: pass_ok_def)
    from handle_honest [OF i(1,3) this, of nk] show ?thesis using that ok False by (fastforce simp: pass_ok_def)
  qed
  have new: "\<forall>k. new_memory (snd (ie_mbufs e k)) s1" using ok h(6) new_memory_same by (auto simp: pass_ok_def)
  have "fresh_from 0 (ie_mbufs e) s1 ((map snd fl1 @ map snd tfl) @ tf)"
    using new_memory_fresh [OF h(3)] new ok by (simp add: fresh_from_def pass_ok_def)
  moreover have "\<forall>k. 10 + mbufChainLen (fst (ie_mbufs e k)) \<noteq> 0" using ok by (simp add: pass_ok_def)
  ultimately obtain b q' s' fs' new where p: "populate_loop nk (ie_mbufs e) 0 False (av_idx (avail q1)) (q1\<lparr>used := ie_rx_now e\<rparr>, s1) = Some (b, q', s')"
    "net_queue_inv q' fs' (new @ fl1)" "packets_inv base s' (map snd (new @ fl1) @ map snd tfl) tf"
    "filled (ie_mbufs e) 0 False (av_idx (avail q1)) (q1\<lparr>used := ie_rx_now e\<rparr>) s1 b q' s' new"
    using populate_loop_ok [OF net_queue_inv_frame(1) [OF h(2), of "ie_rx_now e"] h(3) _ env, of 0 "ie_mbufs e" False "av_idx (avail q1)"] by blast
  have "driver_inv base (d\<lparr>pd_rx := q', pd_packets := s'\<rparr>)" unfolding driver_inv_def
    by (rule exI [of _ fs'], rule exI [of _ "new @ fl1"], rule exI [of _ tfs], rule exI [of _ tfl], rule exI [of _ tf]) (use p(2,3) i(2) in simp)
  moreover have "receive_pass nk e d = Some (d\<lparr>pd_rx := q', pd_packets := s'\<rparr>)"
    using h(1) p(1) by (simp add: receive_pass_def populateReceiveBuffers_def)
  ultimately show ?thesis using h(4-6) p(4) by (auto simp: filled_def same_setup_def same_memory_def)
qed

text \<open>Releasing the packets that have been sent.\<close>

lemma transmit_pass_ok:
  assumes inv: "driver_inv base d" and dev: "device_honest (pd_tx d) (ie_tx_snap e) sent" "ie_tx_idx e = last_used_idx (pd_tx d) \<longleftrightarrow> sent = []"
  shows "\<exists>q s. transmit_pass nk e d = Some (d\<lparr>pd_tx := q, pd_packets := s\<rparr>) \<and> driver_inv base (d\<lparr>pd_tx := q, pd_packets := s\<rparr>)
    \<and> last_used_idx q = last_used_idx (pd_tx d) + of_nat (length sent) \<and> avail q = avail (pd_tx d) \<and> same_memory (pd_packets d) s"
proof (cases "sent = []")
  case True
  then show ?thesis using inv dev(2)
    by (intro exI [of _ "pd_tx d"] exI [of _ "pd_packets d"]) (simp add: transmit_pass_def same_memory_def)
next
  case False
  obtain rfs rfl tfs tfl tf where i: "net_queue_inv (pd_rx d) rfs rfl" "net_queue_inv (pd_tx d) tfs tfl"
    "packets_inv base (pd_packets d) (map snd tfl @ map snd rfl) tf" using inv by (auto simp: driver_inv_swap)
  obtain q s fs where r: "releaseSentPackets nk False (ie_tx_snap e) (pd_tx d, pd_packets d) = Some (q, s)" "net_queue_inv q fs (remaining sent tfl)"
    "packets_inv base s (map snd (remaining sent tfl) @ map snd rfl) []"
    "last_used_idx q = last_used_idx (pd_tx d) + of_nat (length sent)" "avail q = avail (pd_tx d)" "same_memory (pd_packets d) s"
    using release_honest [OF i(2,3) dev(1), of nk] by blast
  have "driver_inv base (d\<lparr>pd_tx := q, pd_packets := s\<rparr>)" unfolding driver_inv_swap
    by (rule exI [of _ rfs], rule exI [of _ rfl], rule exI [of _ fs], rule exI [of _ "remaining sent tfl"], rule exI [of _ "[]"]) (use i(1) r(2,3) in simp)
  then show ?thesis using r False dev(2) by (intro exI [of _ q] exI [of _ s]) (simp add: transmit_pass_def)
qed

lemma interrupt_pass_ok:
  assumes inv: "driver_inv base d" and ok: "pass_ok e received sent d" and env: "dma_sound (nk_dma nk)"
  shows "\<exists>d'. interrupt_pass nk e d = Some d' \<and> driver_inv base d' \<and> \<not> pd_config_change d'
    \<and> last_used_idx (pd_rx d') = last_used_idx (pd_rx d) + of_nat (length received)
    \<and> last_used_idx (pd_tx d') = last_used_idx (pd_tx d) + of_nat (length sent)
    \<and> av_flags (avail (pd_rx d')) = av_flags (avail (pd_rx d)) \<and> av_flags (avail (pd_tx d')) = av_flags (avail (pd_tx d))
    \<and> ps_notify_on_empty (pd_packets d') = ps_notify_on_empty (pd_packets d)"
proof -
  let ?d = "config_pass e d"
  obtain cs where c: "pd_packets ?d = (pd_packets d)\<lparr>ps_calls := cs\<rparr>" using config_pass_frame(4) by blast
  obtain q s where r: "receive_pass nk e ?d = Some (?d\<lparr>pd_rx := q, pd_packets := s\<rparr>)" "driver_inv base (?d\<lparr>pd_rx := q, pd_packets := s\<rparr>)"
    "last_used_idx q = last_used_idx (pd_rx ?d) + of_nat (length received)" "av_flags (avail q) = av_flags (avail (pd_rx ?d))"
    "ps_notify_on_empty s = ps_notify_on_empty (pd_packets ?d)"
    using receive_pass_ok [OF driver_inv_config [OF inv] _ env] ok pass_ok_config by blast
  have dev: "device_honest (pd_tx (?d\<lparr>pd_rx := q, pd_packets := s\<rparr>)) (ie_tx_snap e) sent"
    "ie_tx_idx e = last_used_idx (pd_tx (?d\<lparr>pd_rx := q, pd_packets := s\<rparr>)) \<longleftrightarrow> sent = []" using ok by (simp_all add: pass_ok_def config_pass_frame)
  from transmit_pass_ok [OF r(2) dev, of nk] r c show ?thesis
    by (fastforce simp: interrupt_pass_def config_pass_frame same_memory_def)
qed

lemma driver_inv_interrupts:
  assumes "driver_inv base d"
  shows "driver_inv base (d\<lparr>pd_rx := allow_interrupts (pd_rx d)\<rparr>)" "driver_inv base (d\<lparr>pd_tx := allow_interrupts (pd_tx d)\<rparr>)"
    "driver_inv base (d\<lparr>pd_rx := forbid_interrupts (pd_rx d)\<rparr>)" "driver_inv base (d\<lparr>pd_tx := forbid_interrupts (pd_tx d)\<rparr>)"
  using assms interrupts_inv unfolding driver_inv_def by (simp_all, blast+)

lemma driver_inv_reenable: "driver_inv base d \<Longrightarrow> driver_inv base (reenable_interrupts d)"
  using driver_inv_interrupts(1) [of base d] driver_inv_interrupts(2) [of base "d\<lparr>pd_rx := allow_interrupts (pd_rx d)\<rparr>"]
  by (auto simp: reenable_interrupts_def)

lemma driver_inv_cong:
  "pd_rx d' = pd_rx d \<Longrightarrow> pd_tx d' = pd_tx d \<Longrightarrow> pd_packets d' = pd_packets d \<Longrightarrow> driver_inv base d' = driver_inv base d"
  by (simp add: driver_inv_def)

lemma driver_inv_filter:
  assumes "driver_inv base d" "queue_interruptFilter isr d = (b, d')"
  shows "driver_inv base d'"
proof -
  let ?d = "d\<lparr>pd_rx := forbid_interrupts (pd_rx d), pd_tx := forbid_interrupts (pd_tx d)\<rparr>"
  have "driver_inv base ?d" using driver_inv_interrupts(3) [OF assms(1)] driver_inv_interrupts(4) by fastforce
  moreover have "pd_rx d' = pd_rx d \<and> pd_tx d' = pd_tx d \<or> pd_rx d' = pd_rx ?d \<and> pd_tx d' = pd_tx ?d" "pd_packets d' = pd_packets d"
    using assms(2) by (auto simp: queue_interruptFilter_def Let_def split: if_splits)
  ultimately show ?thesis using assms(1) driver_inv_cong [of d' d base] driver_inv_cong [of d' ?d base] by auto
qed

lemma driver_inv_output:
  assumes inv: "driver_inv base d" and dev: "device_honest (pd_tx d) snap es" and env: "new_memory a (pd_packets d)" "dma_sound (nk_dma nk)"
    and mb: "buffer \<noteq> []" "10 + mbufChainLen buffer \<noteq> 0"
  shows "\<exists>ret q s. queue_outputPacket nk a buffer snap now (pd_tx d, pd_packets d) = Some (ret, q, s) \<and> driver_inv base (d\<lparr>pd_tx := q, pd_packets := s\<rparr>)"
proof -
  obtain rfs rfl tfs tfl tf where i: "net_queue_inv (pd_rx d) rfs rfl" "net_queue_inv (pd_tx d) tfs tfl"
    "packets_inv base (pd_packets d) (map snd tfl @ map snd rfl) tf" using inv by (auto simp: driver_inv_swap)
  obtain ret q s fs' where o: "queue_outputPacket nk a buffer snap now (pd_tx d, pd_packets d) = Some (ret, q, s)"
    and res: "(\<exists>ch p. net_queue_inv q fs' ((ch, p) # remaining es tfl) \<and> packets_inv base s (p # map snd (remaining es tfl) @ map snd rfl) [])
      \<or> net_queue_inv q fs' (remaining es tfl) \<and> packets_inv base s (map snd (remaining es tfl) @ map snd rfl) []"
    using queue_outputPacket_ok [OF i(2,3) dev env mb, of now] by blast
  from res have "\<exists>fl'. net_queue_inv q fs' fl' \<and> packets_inv base s (map snd fl' @ map snd rfl) []"
  proof (elim disjE exE)
    fix ch p assume "net_queue_inv q fs' ((ch, p) # remaining es tfl) \<and> packets_inv base s (p # map snd (remaining es tfl) @ map snd rfl) []"
    then show ?thesis by (intro exI [of _ "(ch, p) # remaining es tfl"]) simp
  qed blast
  then obtain fl' where fl': "net_queue_inv q fs' fl'" "packets_inv base s (map snd fl' @ map snd rfl) []" by blast
  have "driver_inv base (d\<lparr>pd_tx := q, pd_packets := s\<rparr>)" unfolding driver_inv_swap
    by (rule exI [of _ rfs], rule exI [of _ rfl], rule exI [of _ fs'], rule exI [of _ fl'], rule exI [of _ "[]"]) (use i(1) fl' in simp)
  with o show ?thesis by blast
qed

section \<open>All executions\<close>

text \<open>The steps of the driver. The filter may run between the passes of \<^verbatim>\<open>interruptAction\<close>, which are therefore steps of their own.\<close>

inductive driver_step :: "net_kernel \<Rightarrow> packet_driver \<Rightarrow> packet_driver \<Rightarrow> bool" for nk where
  step_output: "device_honest (pd_tx d) snap es \<Longrightarrow> new_memory a (pd_packets d) \<Longrightarrow> buffer \<noteq> [] \<Longrightarrow> 10 + mbufChainLen buffer \<noteq> 0 \<Longrightarrow>
    queue_outputPacket nk a buffer snap now (pd_tx d, pd_packets d) = Some (ret, q, s) \<Longrightarrow> driver_step nk d (d\<lparr>pd_tx := q, pd_packets := s\<rparr>)"
| step_filter: "queue_interruptFilter isr d = (b, d') \<Longrightarrow> driver_step nk d d'"
| step_pass: "pass_ok e received sent d \<Longrightarrow> interrupt_pass nk e d = Some d' \<Longrightarrow> driver_step nk d d'"
| step_reenable: "driver_step nk d (reenable_interrupts d)"

inductive_cases driver_stepE: "driver_step nk d d'"

lemma driver_step_inv:
  assumes "driver_step nk d d'" "driver_inv base d" "dma_sound (nk_dma nk)"
  shows "driver_inv base d'"
  using assms(1)
proof cases
  case (step_output snap es a buffer now ret q s)
  with driver_inv_output [OF assms(2) step_output(2,3) assms(3) step_output(4,5), of now] show ?thesis by auto
next
  case (step_pass e received sent)
  with interrupt_pass_ok [OF assms(2) step_pass(1) assms(3)] show ?thesis by auto
qed (use assms(2) driver_inv_filter driver_inv_reenable in auto)

text \<open>The driver as it is enabled: new queues of the sizes that the device reports, no packet structures, and a DMA layer that has no references yet beyond \<open>base\<close>.\<close>

definition driver_initial :: "refcounts \<Rightarrow> u16 \<Rightarrow> u16 \<Rightarrow> packet_driver \<Rightarrow> bool" where
  "driver_initial base n m d \<longleftrightarrow> is_pow2 n \<and> n \<noteq> 0 \<and> is_pow2 m \<and> m \<noteq> 0
     \<and> virtqueue_init True n 0 = Some (pd_rx d) \<and> virtqueue_init True m 1 = Some (pd_tx d)
     \<and> ps_pool (pd_packets d) = [] \<and> transmit_packets_to_free (pd_packets d) = None \<and> ps_refs (pd_packets d) = base"

lemma driver_initial_inv:
  assumes "driver_initial base n m d"
  shows "driver_inv base d"
proof -
  have q: "net_queue_inv (pd_rx d) [0..<unat n] []" "net_queue_inv (pd_tx d) [0..<unat m] []"
    using virtqueue_init_inv [of n 0] virtqueue_init_inv [of m 1] assms by (auto simp: driver_initial_def)
  have "packets_inv base (pd_packets d) (map snd [] @ map snd []) []" using assms by (simp add: packets_inv_def driver_initial_def)
  with q show ?thesis unfolding driver_inv_def by blast
qed

section \<open>An example\<close>

text \<open>A driver with two queues of four descriptors, and an interrupt for which the device has returned nothing but there is memory for new receive buffers.\<close>

definition example_driver :: packet_driver where
  "example_driver = \<lparr>pd_rx = example_queue, pd_tx = the (virtqueue_init True 4 1), pd_packets = example_state, pd_last_isr = 0,
     pd_config_change = True, pd_status_field_offset = 6\<rparr>"

definition quiet :: vring_used where
  "quiet = \<lparr>us_flags = 0, us_idx = 0, us_ring = []\<rparr>"

definition quiet_env :: "(nat \<Rightarrow> mbuf list \<times> packet_args) \<Rightarrow> interrupt_env" where
  "quiet_env mbufs = \<lparr>ie_status = 1, ie_rx_idx = 0, ie_rx_snap = (\<lambda>_. quiet), ie_rx_now = quiet, ie_mbufs = mbufs, ie_tx_idx = 0, ie_tx_snap = (\<lambda>_. quiet)\<rparr>"

definition no_mbufs :: "nat \<Rightarrow> mbuf list \<times> packet_args" where
  "no_mbufs k = ([], (example_args k)\<lparr>pa_new := None\<rparr>)"

lemma example_driver_tx: "net_queue_inv (pd_tx example_driver) [0, 1, 2, 3] []" "last_used_idx (pd_tx example_driver) = 0"
  "virtqueue_init True 4 1 = Some (pd_tx example_driver)"
proof -
  have "is_pow2 4" by (simp add: is_pow2_def)
  then obtain q where "virtqueue_init True 4 1 = Some q" "net_queue_inv q [0..<unat (4 :: u16)] []" "last_used_idx q = 0"
    using virtqueue_init_inv [of 4 1] by auto
  moreover have "[0..<unat (4 :: u16)] = [0, 1, 2, 3]" by (simp add: upt_rec)
  ultimately show "net_queue_inv (pd_tx example_driver) [0, 1, 2, 3] []" "last_used_idx (pd_tx example_driver) = 0"
    "virtqueue_init True 4 1 = Some (pd_tx example_driver)" by (simp_all add: example_driver_def)
qed

lemma example_driver_initial: "driver_initial (\<lambda>_. 1) 4 4 example_driver"
proof -
  have "is_pow2 4" by (simp add: is_pow2_def)
  moreover have "\<exists>q. virtqueue_init True 4 0 = Some q" using virtqueue_init_inv [of 4 0] \<open>is_pow2 4\<close> by auto
  then have "virtqueue_init True 4 0 = Some example_queue" by (auto simp: example_queue_def)
  moreover note example_driver_tx(3)
  ultimately show ?thesis by (simp add: driver_initial_def) (simp add: example_driver_def example_state_def)
qed

lemma quiet_honest: "last_used_idx q = 0 \<Longrightarrow> device_honest q (\<lambda>_. quiet) []"
  by (simp add: device_honest_def quiet_def)

lemma quiet_pass_ok:
  assumes "last_used_idx (pd_rx d) = 0" "last_used_idx (pd_tx d) = 0"
    and "\<forall>k. new_memory (snd (mbufs k)) (pd_packets d) \<and> 10 + mbufChainLen (fst (mbufs k)) \<noteq> 0"
    "\<forall>i j. i \<noteq> j \<longrightarrow> new_addr (snd (mbufs i)) \<inter> new_addr (snd (mbufs j)) = {}"
  shows "pass_ok (quiet_env mbufs) [] [] d"
  using assms quiet_honest by (simp add: pass_ok_def quiet_env_def)

lemma example_pass_ok: "pass_ok (quiet_env example_mbufs) [] [] example_driver"
proof (rule quiet_pass_ok)
  show "last_used_idx (pd_rx example_driver) = 0" using example_queue_inv(3) by (simp add: example_driver_def)
  show "\<forall>k. new_memory (snd (example_mbufs k)) (pd_packets example_driver) \<and> 10 + mbufChainLen (fst (example_mbufs k)) \<noteq> 0"
    by (simp add: new_memory_def example_driver_def example_state_def example_mbufs_def example_mbuf_def)
qed (auto simp: example_driver_tx example_mbufs_def example_args_def new_addr_def)

lemma example_kernel_sound: "dma_sound (nk_dma example_kernel)"
  using linear_dma_sound by (simp add: example_kernel_def)

section \<open>Theorems\<close>







end
