(* ===== verification/Packet_Debugger.thy ===== *)
theory Packet_Debugger
  imports Packet_Driver
begin

text \<open>
  Sending a packet for the kernel debugger through the packet queue (\<^verbatim>\<open>sendPacket\<close> in VirtioNetworkDevice.cpp, in the text of the driver's earlier version). All
  other threads are halted, so the function waits itself until the device has returned the packet.
\<close>

section \<open>Definitions\<close>

text \<open>The loop that waits; \<open>last_used\<close> is the index of the used ring before the packet was entered. The used element is overwritten so that it is
  not processed again.\<close>

partial_function (option) send_wait ::
    "(nat \<Rightarrow> vring_used) \<Rightarrow> nat \<Rightarrow> 32 word \<Rightarrow> u16 \<Rightarrow> virtio_net_virtqueue \<Rightarrow> virtio_net_virtqueue option" where
  "send_wait snap k head_desc last_used tx_queue =
     (if last_used \<noteq> us_idx (snap k)
      then if num tx_queue = 0 then None
        else do {
          e \<leftarrow> array_read (us_ring (snap k)) (unat (ucast last_used mod num tx_queue));
          if ue_id e = head_desc then freeDescriptorChain tx_queue (ucast head_desc)
          else send_wait snap (k + 1) head_desc last_used tx_queue
        }
      else send_wait snap (k + 1) head_desc last_used tx_queue)"

declare send_wait.simps [code]

definition mark_used :: "nat \<Rightarrow> u16 \<Rightarrow> vring_used \<Rightarrow> vring_used" where
  "mark_used n i u = u\<lparr>us_ring := (us_ring u)[unat i mod n := \<lparr>ue_id = 0xffff, ue_len = 0\<rparr>]\<rparr>"

text \<open>The packet is entered: one descriptor for its header, one for its data, at physical addresses that the kernel determines.\<close>

definition enter_debugger_packet ::
    "u64 \<times> u64 \<Rightarrow> u32 \<Rightarrow> nat \<Rightarrow> 32 word \<Rightarrow> 32 word \<Rightarrow> virtio_net_virtqueue \<times> packet_state \<Rightarrow> (virtio_net_virtqueue \<times> packet_state) option" where
  "enter_debugger_packet addrs pktSize p head_desc main_desc = (\<lambda>(tx_queue, s). do {
     pk \<leftarrow> ps_packets s p;
     let s = store_packet p (pk\<lparr>pk_header := plain_header\<rparr>) s;
     table \<leftarrow> array_modify (desc tx_queue) (unat head_desc)
       (\<lambda>_. \<lparr>addr = fst addrs, len = ucast sizeof_virtio_net_hdr, flags = VRING_DESC_F_NEXT, next = ucast main_desc\<rparr>);
     table \<leftarrow> array_modify table (unat main_desc) (\<lambda>_. \<lparr>addr = snd addrs, len = pktSize, flags = 0, next = UINT16_MAX\<rparr>);
     packets \<leftarrow> packets_for_descs tx_queue;
     packets \<leftarrow> array_modify packets (unat head_desc) (\<lambda>_. Some p);
     if num tx_queue = 0 then None else do {
       let avail_idx = av_idx (avail tx_queue);
       ring \<leftarrow> array_modify (av_ring (avail tx_queue)) (unat (ucast avail_idx mod num tx_queue)) (\<lambda>_. ucast head_desc);
       let tx_queue = tx_queue\<lparr>desc := table, packets_for_descs := Some packets, avail := (avail tx_queue)\<lparr>av_ring := ring, av_idx := avail_idx + 1\<rparr>\<rparr>;
       Some (snd (notifyQueueAvailIdx tx_queue (avail_idx + 1) s))
     }
   })"

text \<open>\<open>now\<close>: the used ring when the packet is entered; \<open>snap\<close>: while the function waits; \<open>snap'\<close>: while other packets are taken from the queue.\<close>

definition queue_sendPacket ::
    "net_kernel \<Rightarrow> u64 \<times> u64 \<Rightarrow> u32 \<Rightarrow> vring_used \<Rightarrow> (nat \<Rightarrow> vring_used) \<Rightarrow> (nat \<Rightarrow> vring_used) \<Rightarrow> virtio_net_virtqueue \<times> packet_state
     \<Rightarrow> (virtio_net_virtqueue \<times> packet_state) option" where
  "queue_sendPacket nk addrs pktSize now snap snap' = (\<lambda>(tx_queue, s).
     if pktSize > kIOEthernetMaxPacketSize nk then Some (tx_queue, s)
     else case ps_debugger_packet s of
       None \<Rightarrow> Some (tx_queue, s)
     | Some p \<Rightarrow> do {
         (head_desc, tx_queue) \<leftarrow> vring_pop_free_desc tx_queue;
         (main_desc, tx_queue) \<leftarrow> vring_pop_free_desc tx_queue;
         if i32_neg main_desc
         then do {
           tx_queue \<leftarrow> (if \<not> i32_neg head_desc then vring_push_free_desc tx_queue (ucast head_desc) else Some tx_queue);
           Some (tx_queue, s)
         }
         else do {
           (tx_queue, s) \<leftarrow> enter_debugger_packet addrs pktSize p head_desc main_desc (tx_queue\<lparr>used := now\<rparr>, s);
           tx_queue \<leftarrow> send_wait snap 0 head_desc (us_idx now) tx_queue;
           releaseSentPackets nk True (\<lambda>k. mark_used (unat (num tx_queue)) (us_idx now) (snap' k)) (tx_queue, s)
         }
       })"

section \<open>Waiting\<close>

text \<open>The element looked at is always the one after those returned before.\<close>

abbreviation found :: "(nat \<Rightarrow> vring_used) \<Rightarrow> nat \<Rightarrow> 32 word \<Rightarrow> u16 \<Rightarrow> nat \<Rightarrow> bool" where
  "found snap k head l n \<equiv> us_idx (snap k) \<noteq> l \<and> ue_id (us_ring (snap k) ! (unat l mod n)) = head"

lemma send_wait_found:
  assumes "\<forall>j. length (us_ring (snap j)) = entries q" "num q \<noteq> 0" "found snap (k + m) head l (entries q)" "\<forall>j < m. \<not> found snap (k + j) head l (entries q)"
  shows "send_wait snap k head l q = freeDescriptorChain q (ucast head)"
  using assms(3-)
proof (induction m arbitrary: k)
  case 0
  have "unat (ucast l mod num q) = unat l mod entries q" "unat l mod entries q < entries q" using assms(2) by (simp_all add: unat_mod_distrib unat_gt_0)
  with 0 assms(1,2) show ?case by (subst send_wait.simps) auto
next
  case (Suc m)
  have slot: "unat (ucast l mod num q) = unat l mod entries q" "unat l mod entries q < entries q" using assms(2) by (simp_all add: unat_mod_distrib unat_gt_0)
  have "\<not> found snap k head l (entries q)" using Suc.prems(2) by (metis add.right_neutral zero_less_Suc)
  then have "send_wait snap k head l q = send_wait snap (Suc k) head l q"
    using slot assms(1,2) by (subst send_wait.simps) auto
  moreover have "\<forall>j < m. \<not> found snap (Suc k + j) head l (entries q)" using Suc.prems(2) by (metis Suc_mono add_Suc add_Suc_right)
  ultimately show ?case using Suc.IH [of "Suc k"] Suc.prems(1) by simp
qed

lemma send_wait_returns:
  assumes "send_wait snap k head l q = Some q'" "\<forall>j. length (us_ring (snap j)) = entries q"
  shows "\<exists>m. found snap m head l (entries q)"
proof -
  have "(\<forall>j. length (us_ring (snap j)) = entries q) \<longrightarrow> (\<exists>m. found snap m head l (entries q))"
  proof (rule send_wait.raw_induct [OF _ assms(1)], goal_cases)
    case (1 f snap k head l q q')
    have slot: "unat (ucast l mod num q) = unat l mod entries q" by (simp add: unat_mod_distrib)
    show ?case
    proof (intro impI)
      assume len: "\<forall>j. length (us_ring (snap j)) = entries q"
      show "\<exists>m. found snap m head l (entries q)"
      proof (cases "found snap k head l (entries q)")
        case False
        then have "f snap (k + 1) head l q = Some q'" using 1(2) slot by (auto split: if_splits Option.bind_split_asm)
        then show ?thesis using 1(1) len by blast
      qed blast
    qed
  qed
  with assms(2) show ?thesis by blast
qed


text \<open>The device returns the packet in the fourth round, and a device that returns another one.\<close>

definition late_used :: "u32 \<Rightarrow> nat \<Rightarrow> vring_used" where
  "late_used i k = \<lparr>us_flags = 0, us_idx = (if k < 3 then 0 else 1), us_ring = \<lparr>ue_id = i, ue_len = 0\<rparr> # replicate 3 \<lparr>ue_id = 7, ue_len = 0\<rparr>\<rparr>"


end
