(* ===== verification/Network_Device.thy ===== *)
theory Network_Device
  imports Virtio_Net_Props
begin

text \<open>
  The class \<^verbatim>\<open>VirtioNetworkDevice\<close> (VirtioNetworkDevice.h, beginning of VirtioNetworkDevice.cpp): the network driver begun anew on the virtio transport. It opens
  and sets up the device and can determine the MAC address; the rest of the file is text of the earlier driver. Its constants for features are numbers of bits,
  but are used as masks.
\<close>

section \<open>Definitions\<close>

definition ND_F_MAC :: u32 where "ND_F_MAC = 5"
definition ND_F_GSO :: u32 where "ND_F_GSO = 6"

record VirtioNetworkDevice =
  nd_virtio_device :: bool
  nd_packet_bufdesc_pool :: "nat list option"
  nd_command_gate :: bool
  nd_dev_feature_bitmap :: u32
  nd_mac_address :: "u8 list"
  nd_mac_address_is_valid :: bool

text \<open>What the kernel answers: \<^verbatim>\<open>IOService::start\<close>, the class of the provider, the allocations of the command gate and the array of packets.\<close>

record network_env =
  nd_service_start :: bool
  nd_provider_is_virtio :: bool
  nd_gate_ok :: bool
  nd_pool_ok :: bool

definition nd_use_features :: "u32 \<Rightarrow> u32" where
  "nd_use_features dev_features = dev_features AND ND_F_GSO"

definition nd_start ::
    "'t VirtioDevice \<Rightarrow> network_env \<Rightarrow> VirtioNetworkDevice \<times> 't \<Rightarrow> (bool \<times> VirtioNetworkDevice \<times> 't) option" where
  "nd_start vt env = (\<lambda>(n, t).
     if \<not> nd_service_start env then Some (False, n, t)
     else if \<not> nd_provider_is_virtio env then Some (False, n, t)
     else do {
       (opened, t) \<leftarrow> vd_open vt t;
       if \<not> opened then Some (False, n, t)
       else do {
         (_, t) \<leftarrow> vd_resetDevice vt t;
         let use_features = nd_use_features (vd_supportedFeatures vt t);
         (ok, t) \<leftarrow> vd_requestFeatures vt use_features t;
         if \<not> ok then do {
           t \<leftarrow> vd_failDevice vt t;
           t \<leftarrow> vd_close vt t;
           Some (False, n, t)
         } else do {
           (result, _, t) \<leftarrow> vd_setupVirtqueues vt 2 (\<lambda>_. True) (\<lambda>_. 0) t;
           if result \<noteq> kIOReturnSuccess then do {
             t \<leftarrow> vd_failDevice vt t;
             t \<leftarrow> vd_close vt t;
             Some (False, n, t)
           }
           else if \<not> nd_gate_ok env then None
           else Some (True, n\<lparr>nd_command_gate := True, nd_virtio_device := True,
                              nd_packet_bufdesc_pool := (if nd_pool_ok env then Some [] else None)\<rparr>, t)
         }
       }
     })"

text \<open>The registers of the device are read by \<open>read8\<close>, and \<open>rnd1\<close> and \<open>rnd2\<close> are the results of \<^verbatim>\<open>random\<close>. The MAC address is at the beginning of the
  configuration space.\<close>

definition nd_determineMACAddress :: "(u16 \<Rightarrow> u8) \<Rightarrow> u32 \<times> u32 \<Rightarrow> u16 \<Rightarrow> VirtioNetworkDevice \<Rightarrow> VirtioNetworkDevice" where
  "nd_determineMACAddress read8 = (\<lambda>(rnd1, rnd2) device_specific_offset n.
     (if has_bits (nd_dev_feature_bitmap n) ND_F_MAC
      then n\<lparr>nd_mac_address := map (\<lambda>i. read8 (device_specific_offset + of_nat i)) [0..<6]\<rparr>
      else n\<lparr>nd_mac_address := generate_mac rnd1 rnd2\<rparr>)\<lparr>nd_mac_address_is_valid := True\<rparr>)"

section \<open>Features\<close>

lemma bits_5: "bit (5 :: u32) i \<longleftrightarrow> i = 0 \<or> i = 2"
  by (auto simp: bit_numeral_rec bit_1_iff numeral_2_eq_2 split: nat.splits)

lemma bits_6: "bit (6 :: u32) i \<longleftrightarrow> i = 1 \<or> i = 2"
  by (auto simp: bit_numeral_rec bit_1_iff numeral_2_eq_2 split: nat.splits)

text \<open>
  Features as masks. The driver means to use segmentation offload (bit 6) and requests bits 1 and 2 instead, which are checksums for
  received packets and reconfiguration over the control queue, whenever the device offers them; bit 6 is never requested. In the same way it reads the MAC address from the
  device if bits 0 or 2 are set, and not if only bit 5 is set, which says that there is one.
\<close>

theorem network_feature_masks:
  "bit (nd_use_features f) i \<longleftrightarrow> bit f i \<and> (i = 1 \<or> i = 2)"
  "has_bits f ND_F_MAC \<longleftrightarrow> bit f 0 \<or> bit f 2"
proof -
  show "bit (nd_use_features f) i \<longleftrightarrow> bit f i \<and> (i = 1 \<or> i = 2)" unfolding nd_use_features_def ND_F_GSO_def bit_and_iff bits_6 ..
  have "f AND 5 = 0 \<longleftrightarrow> (\<forall>i. \<not> bit (f AND 5) i)" by (metis bit_0_eq bot_apply bot_bool_def bit_eqI)
  also have "... \<longleftrightarrow> \<not> bit f 0 \<and> \<not> bit f 2" unfolding bit_and_iff bits_5 by blast
  finally show "has_bits f ND_F_MAC \<longleftrightarrow> bit f 0 \<or> bit f 2" by (simp only: has_bits_def ND_F_MAC_def) blast
qed

section \<open>Starting\<close>

context virtio_transport
begin

lemma nd_start_result:
  assumes "closed t" "nd_gate_ok env"
  shows "(\<exists>t'. nd_start vt env (n, t) = Some (False, n, t') \<and> closed t')
     \<or> (\<exists>n' t'. nd_start vt env (n, t) = Some (True, n', t') \<and> live t' \<and> mapped t' \<and> nd_virtio_device n' \<and> nd_command_gate n')"
proof (cases "nd_service_start env \<and> nd_provider_is_virtio env")
  case True
  obtain ok t1 where t1: "vd_open vt t = Some (ok, t1)" "if ok then live t1 \<and> mapped t1 else closed t1" using open_ok [OF assms(1)] by blast
  show ?thesis
  proof (cases ok)
    case opened: True
    with t1 have "live t1" "mapped t1" by simp_all
    then obtain r t2 where t2: "vd_resetDevice vt t1 = Some (r, t2)" "live t2" "mapped t2" using reset_ok by blast
    obtain f t3 where t3: "vd_requestFeatures vt (nd_use_features (vd_supportedFeatures vt t2)) t2 = Some (f, t3)" "live t3" "mapped t3"
      using request_ok [OF t2(2)] t2(3) by blast
    obtain result sizes t4 where t4: "vd_setupVirtqueues vt 2 (\<lambda>_. True) (\<lambda>_. 0) t3 = Some (result, sizes, t4)" "live t4"
      "result = kIOReturnSuccess \<longrightarrow> mapped t4" using setup_ok [OF t3(2)] t3(3) by fastforce
    have giveup: "\<exists>t5. do { t \<leftarrow> vd_failDevice vt t4; t \<leftarrow> vd_close vt t; Some (False, n, t) } = Some (False, n, t5) \<and> closed t5" if "live t4" for t4
      using fail_ok [OF that] close_ok by fastforce
    show ?thesis
    proof (cases "f \<and> result = kIOReturnSuccess")
      case ready: True
      with True opened t1(1) t2(1) t3(1) t4 assms(2) show ?thesis by (auto simp: nd_start_def Let_def)
    next
      case False
      have eq: "nd_start vt env (n, t) = do { t \<leftarrow> vd_failDevice vt (if f then t4 else t3); t \<leftarrow> vd_close vt t; Some (False, n, t) }"
        using True opened False t1(1) t2(1) t3(1) t4(1) by (auto simp: nd_start_def Let_def)
      show ?thesis unfolding eq using giveup [of "if f then t4 else t3"] t3(2) t4(2) by auto
    qed
  next
    case False
    with True t1 show ?thesis by (auto simp: nd_start_def)
  qed
qed (use assms in \<open>auto simp: nd_start_def\<close>)

end

text \<open>
  Starting the new network driver on the legacy transport is all or nothing, if the command gate can be allocated: either it fails, with the device closed
  and the driver object unchanged, or it succeeds with the device open and its virtqueues set up.
\<close>

theorem network_device_start:
  assumes "legacy_kernel env fuel len" "legacy_closed d" "nd_gate_ok nenv" "vt = legacy_ops env dev fuel dma table_id"
  shows "(\<exists>d'. nd_start vt nenv (n, d) = Some (False, n, d') \<and> legacy_closed d')
     \<or> (\<exists>n' d'. nd_start vt nenv (n, d) = Some (True, n', d') \<and> legacy_live d' \<and> pci_virtio_header_iomap d'
          \<and> nd_virtio_device n' \<and> nd_command_gate n')"
  using virtio_transport.nd_start_result [OF legacy_kernel.legacy_transport [OF assms(1)] assms(2,3)] unfolding assms(4) by blast

end
