(* ===== verification/Spec2Isabelle.thy ===== *)
theory Spec2Isabelle
  imports Legacy_PCI_States Mem_Balloon_Props Block_Device_Props SCSI_Controller_Props Modern_PCI_Props Mbuf_Descriptor_Props Virtio_Net_Packets Command_Gate
    Packet_Setup Packet_Driver_Props Packet_Debugger Network_Device
begin

text \<open>
  A verification library for the virtio drivers for OS X of this repository.

  \<^bold>\<open>The program.\<close> A virtio device shows its driver a set of \<^emph>\<open>virtqueues\<close>: rings in shared memory on which the driver
  publishes buffers and the device returns them. \<^verbatim>\<open>VirtioLegacyPCIDevice\<close> (src/VirtioFamily) is the transport:
  it owns the PCI device, sets up the queues, submits buffers, processes completions and interrupts.
  \<^verbatim>\<open>VirtioDevice\<close> is its abstract interface. On top of it run the device drivers: the memory balloon
  (\<^verbatim>\<open>VirtioMemBalloonDevice\<close>), the block device (\<^verbatim>\<open>VirtioBlockDevice\<close>) and the SCSI controller
  (\<^verbatim>\<open>VirtioSCSIController\<close>), and the network driver (\<^verbatim>\<open>PJVirtioNet\<close> in src/virtio-net). The latter three hand memory to the
  queues through descriptors that join ranges of other descriptors (\<^verbatim>\<open>SSDCMultiSubrangeMemoryDescriptor\<close>); network packets
  have a descriptor of their own (\<^verbatim>\<open>PJMbufMemoryDescriptor\<close>). The network driver is being moved from PCI code of its own to the transport:
  the functions that fill and empty its packet queues still work on queues of their own, which \<^verbatim>\<open>VirtioNetworkDevice.cpp\<close> preserves in a comment below a first
  version of the driver on the transport (\<^verbatim>\<open>VirtioNetworkDevice\<close>). \<^verbatim>\<open>VirtioPCIDevice\<close> is the beginning of a transport for virtio 1.0.

  \<^bold>\<open>How the code is modelled.\<close> Objects are records, their methods functions on these records that return an option:
  \<^term>\<open>None\<close> stands for an access out of bounds, a null dereference or a loop that does not end, so a result of the form
  \<^term>\<open>Some\<close> is a statement of memory safety and termination. Integers are words of the width the code uses and wrap
  around. Services of the kernel (DMA commands, memory allocation, memory descriptors, the PCI family, the storage and SCSI
  families) and the containers of the genccont submodule are parameters; what the drivers rely on is stated as a locale or a named
  hypothesis. Device registers are a parameter as well, so every theorem holds for whatever a device answers.
  Log output, reference counts of objects other than memory descriptors, and memory barriers are left out. The code runs on one
  work loop, which serialises all methods; interleavings with the device are explicit steps.

  \<^bold>\<open>Theories.\<close>
  \<^item> \<open>Virtio_Prelude\<close>: words, result codes, checked array access, loops, generic lemmas.
  \<^item> \<open>Vring_Layout\<close>: size and layout of the queue memory (\<^verbatim>\<open>vring_mem_size\<close>, \<^verbatim>\<open>setupVirtqueue\<close>, virtio_ring.h): the structures
    never overlap, and they fit exactly for queues of at most 256 entries.
  \<^item> \<open>Virtqueue\<close>, \<open>Virtqueue_Submit\<close>, \<open>Virtqueue_Chain\<close>, \<open>Virtqueue_Setup\<close>: the state of a queue, descriptors and their
    lists, DMA segments, and the invariant that partitions the descriptor table into unused descriptors and chains.
  \<^item> \<open>Virtqueue_Direct\<close>: submission with direct descriptors publishes the segments of the request, or takes everything back.
  \<^item> \<open>Virtqueue_Complete\<close>: completions are handed over in ring order, also when the client submits again from its completion
    action; submission and completion are inverse to each other.
  \<^item> \<open>Legacy_PCI\<close>, \<open>Legacy_PCI_Props\<close>, \<open>Legacy_PCI_States\<close>: the transport object, each operation on every branch, and
    the invariant of all states reachable by calls of kernel and client.
  \<^item> \<open>Virtio_Device\<close>: the table of virtual functions and the contract \<open>virtio_transport\<close>, fulfilled by the legacy
    transport for kernels described by the locale \<open>legacy_kernel\<close>.
  \<^item> \<open>Mem_Balloon\<close>, \<open>Mem_Balloon_Props\<close>: the balloon driver; one round refines an abstract balloon that counts pages and
    chunks, and the rounds converge to the requested size.
  \<^item> \<open>Block_Device\<close>, \<open>Block_Device_Props\<close>: the block driver; requests are conserved, submitted in order and completed once.
  \<^item> \<open>Multi_Subrange\<close>: the descriptor of joined ranges; references balance, lookups agree with the concatenation of the ranges.
  \<^item> \<open>SCSI_Controller\<close>, \<open>SCSI_Controller_Props\<close>: the SCSI driver; every session within the reported limits is safe and
    conserves descriptors.
  \<^item> \<open>Modern_PCI\<close>, \<open>Modern_PCI_Props\<close>: the transport for virtio 1.0 as far as it exists; the walk over the PCI capabilities ends even
    for cyclic lists, and interrupt handlers are taken down completely.
  \<^item> \<open>Mbuf_Descriptor\<close>, \<open>Mbuf_Descriptor_Props\<close>: the descriptor of network packets; lookups agree with the bytes of the packet, whatever
    position it has cached.
  \<^item> \<open>Net_Checksum\<close>: the pseudo header checksum is the one's complement sum that the Internet checksum prescribes.
  \<^item> \<open>Virtio_Net\<close>, \<open>Virtio_Net_Props\<close>, \<open>Virtio_Net_Packets\<close>: the network driver; its life cycle as a state machine over the contract
    \<open>net_transport\<close>, which extends \<open>virtio_transport\<close> and is fulfilled by the legacy transport; MAC addresses and the packets of the
    kernel debugger.
  \<^item> \<open>Packet_Queue\<close>: the packet queues of the network driver (virtio_net.cpp, VirtioNetworkDevice.cpp, virtio_ring.h): rings, free descriptors, packet structures
    in a store, adding packets, filling the receive queue, sent and received packets.
  \<^item> \<open>Packet_Queue_Inv\<close>: the invariant of a queue; its free list implements the same contract \<open>descriptor_pool\<close> as that of the transport.
  \<^item> \<open>Packet_Queue_Complete\<close>: completed packets, over the contract \<open>used_consumer\<close> of a body of the loop over the used ring, and who owns a packet structure.
  \<^item> \<open>Packet_Queue_Add\<close>, \<open>Packet_Queue_Fill\<close>, \<open>Packet_Queue_Props\<close>: a packet is added completely or not at all; the receive queue is filled; every completed packet
    is handed over or freed exactly once.
  \<^item> \<open>Packet_Setup\<close>: setting up a packet queue; its memory is laid out like that of the transport's queues.
  \<^item> \<open>Packet_Driver\<close>, \<open>Packet_Driver_Props\<close>: output and interrupts on both queues as a state machine with the device; queues, packets and references
    stay consistent in every reachable state, and every operation returns.
  \<^item> \<open>Packet_Debugger\<close>: sending for the debugger through the packet queue, and when it returns.
  \<^item> \<open>Network_Device\<close>: the network driver begun anew: starting is all or nothing; which features it requests.
  \<^item> \<open>Command_Gate\<close>: the scoped locks of \<^verbatim>\<open>PJCommandGate\<close>; with move constructors the gate is closed as often as lock objects hold it.

  \<^bold>\<open>Bounds and fuel.\<close> Loops over device data are structural or have a termination proof. Loops that a device could keep from ending (the capability walk, completion
  processing, the loops over the packet queues, the debugger's wait) are partial functions, and that they return is proved. Fuel appears in three places: the search for
  interrupt sources (it ends when the kernel reports no further source, which \<open>legacy_kernel\<close> demands within the fuel), the rounds of
  completion processing (each consumes at least one element of the ring; the theorems say which fuel suffices), and the waiting requests
  of the block driver (bounded by their number).

  \<^bold>\<open>Device behaviour.\<close> The device writes the used rings while the driver reads them: a function that reads a ring takes its successive contents as a parameter. The
  theorems on packet queues assume that the device returns only chains it has been given, each once (\<open>device_honest\<close>); what happens otherwise is not
  promised by the code either, whose comments say that it does not defend itself against the device.

  \<^bold>\<open>Not modelled.\<close> In \<^verbatim>\<open>virtio_net.cpp\<close>, \<^verbatim>\<open>stop\<close> and \<^verbatim>\<open>free\<close> refer to variables of the earlier version of the class. The life cycle
  in \<open>Virtio_Net\<close> calls the functions of the packet queues as parameters, since the two do not fit together yet: it sets up queues of the transport. Of
  the earlier version in \<^verbatim>\<open>VirtioNetworkDevice.cpp\<close>, register access, the life cycle and the release of resources when it is disabled are left out, as the driver in
  virtio-net replaces them. The parts of \<^verbatim>\<open>VirtioPCIDevice.cpp\<close> marked as to be done have no code. Functions that only log are left out.
\<close>

end
